(* ===== verification/Prelude.thy ===== *)
theory Prelude
  imports Main "HOL-Library.Word" "HOL-Library.AList" "HOL-Library.Sublist"
begin

text \<open>
  Shared vocabulary of the development: the error type of \<^verbatim>\<open>oxana/src/error.rs\<close>, the
  state-and-error operations every storage call is written in, the saturating arithmetic
  of Rust's fixed-width integers, and the string functions of Rust's standard library that
  the code uses (\<^verbatim>\<open>split_once\<close>, \<^verbatim>\<open>rsplit_once\<close>, \<^verbatim>\<open>strip_prefix\<close>, decimal printing and
  parsing), with the lemmas the components share.
\<close>

section \<open>Collections of facts\<close>

named_theorems op_defs \<open>definitions of the state-and-error combinators\<close>
named_theorems script_defs \<open>definitions of the Lua transition scripts\<close>
named_theorems redis_defs \<open>definitions of the checked Redis commands\<close>

section \<open>Errors\<close>

text \<open>
  The errors the Redis client reports, as far as the code tells them apart, and the pool
  errors of \<^verbatim>\<open>deadpool_redis\<close>. Payloads of third-party errors are not inspected by the
  code and are left out.
\<close>

datatype redis_error =
    WrongType
  | IoError
  | BusyLoading
  | TryAgain
  | ClusterDown
  | MasterDown
  | OtherRedisError

datatype pool_error =
    PoolTimeout
  | PoolBackend redis_error
  | PoolClosed

datatype oxana_error =
    ShutdownTimeout
  | GenericError string
  | JobNotFound
  | JsonError
  | SemaphoreError
  | JobFactoryError string
  | TokioJoinError
  | TryFromIntError
  | StdIoError
  | DeadpoolRedisError redis_error
  | DeadpoolRedisPoolError pool_error
  | DeadpoolRedisCreatePoolError
  | DeadpoolRedisConfigError
  | DeadpoolRedisBuildError
  | ConfigError string
  | JobStateJsonError

section \<open>State-and-error operations\<close>

text \<open>
  An operation reads and updates the state and returns a value or an error. An error
  keeps the state reached so far: Redis does not roll back the writes of a script or of a
  pipeline that fails half way.
\<close>

type_synonym ('s, 'a) op = "'s \<Rightarrow> (oxana_error + 'a) \<times> 's"

definition return :: "'a \<Rightarrow> ('s, 'a) op" where
  "return x = (\<lambda>s. (Inr x, s))"

definition fail :: "oxana_error \<Rightarrow> ('s, 'a) op" where
  "fail e = (\<lambda>s. (Inl e, s))"

definition bind :: "('s, 'a) op \<Rightarrow> ('a \<Rightarrow> ('s, 'b) op) \<Rightarrow> ('s, 'b) op" where
  "bind m k = (\<lambda>s. case m s of (Inl e, s') \<Rightarrow> (Inl e, s') | (Inr x, s') \<Rightarrow> k x s')"

definition seq :: "('s, unit) op \<Rightarrow> ('s, 'b) op \<Rightarrow> ('s, 'b) op" where
  "seq m n = bind m (\<lambda>_. n)"

definition lift_result :: "oxana_error + 'a \<Rightarrow> ('s, 'a) op" where
  "lift_result r = (\<lambda>s. (r, s))"

primrec for_each :: "('a \<Rightarrow> ('s, unit) op) \<Rightarrow> 'a list \<Rightarrow> ('s, unit) op" where
  "for_each f [] = return ()"
| "for_each f (x # xs) = seq (f x) (for_each f xs)"

text \<open>
  A Redis pipeline: every command is executed, whether or not an earlier one failed, and
  the client reports the first error.
\<close>

primrec pipe :: "('s, unit) op list \<Rightarrow> ('s, unit) op" where
  "pipe [] = return ()"
| "pipe (c # cs) = (\<lambda>s. case c s of
      (Inl e, s') \<Rightarrow> (Inl e, snd (pipe cs s'))
    | (Inr _, s') \<Rightarrow> pipe cs s')"

declare return_def [op_defs] fail_def [op_defs] bind_def [op_defs] seq_def [op_defs]
  lift_result_def [op_defs]

lemma bind_Inr: "m s = (Inr x, s') \<Longrightarrow> bind m k s = k x s'"
  by (simp add: bind_def)

lemma bind_Inl: "m s = (Inl e, s') \<Longrightarrow> bind m k s = (Inl e, s')"
  by (simp add: bind_def)

lemma bind_eq_Inr:
  "bind m k s = (Inr y, t) \<longleftrightarrow> (\<exists>x s'. m s = (Inr x, s') \<and> k x s' = (Inr y, t))"
  by (auto simp: bind_def split: prod.splits sum.splits)

lemma return_apply [simp]: "return x s = (Inr x, s)"
  by (simp add: return_def)

lemma fail_apply [simp]: "fail e s = (Inl e, s)"
  by (simp add: fail_def)

lemma seq_Inr: "m s = (Inr (), s') \<Longrightarrow> seq m n s = n s'"
  by (simp add: seq_def bind_def)

lemma seq_eq_Inr: "seq m n s = (Inr y, t) \<longleftrightarrow> (\<exists>s'. m s = (Inr (), s') \<and> n s' = (Inr y, t))"
  by (auto simp: seq_def bind_eq_Inr)

lemma pipe_Inr_all:
  "\<lbrakk>c s = (Inr (), s')\<rbrakk> \<Longrightarrow> pipe (c # cs) s = pipe cs s'"
  by simp

lemma pipe_Cons_Inr:
  "pipe (c # cs) s = (Inr (), t) \<longleftrightarrow> (\<exists>s'. c s = (Inr (), s') \<and> pipe cs s' = (Inr (), t))"
  by (auto split: prod.splits sum.splits)

lemma pipe_append_Inr:
  "pipe (cs @ ds) s = (Inr (), t) \<longleftrightarrow> (\<exists>s'. pipe cs s = (Inr (), s') \<and> pipe ds s' = (Inr (), t))"
  by (induction cs arbitrary: s) (auto split: prod.splits sum.splits)

lemma pipe_append:
  "pipe cs s = (Inr (), s') \<Longrightarrow> pipe (cs @ ds) s = pipe ds s'"
  by (induction cs arbitrary: s) (auto split: prod.splits sum.splits)

section \<open>Fixed-width arithmetic\<close>

abbreviation u64_max :: nat where
  "u64_max \<equiv> 18446744073709551615"

abbreviation i64_max :: int where
  "i64_max \<equiv> 9223372036854775807"

definition sat_add_u64 :: "nat \<Rightarrow> nat \<Rightarrow> nat" where
  "sat_add_u64 a b = min (a + b) u64_max"

definition sat_add_i64 :: "int \<Rightarrow> int \<Rightarrow> int" where
  "sat_add_i64 a b = max (- i64_max - 1) (min (a + b) i64_max)"

lemma sat_add_u64_exact: "a + b \<le> u64_max \<Longrightarrow> sat_add_u64 a b = a + b"
  by (simp add: sat_add_u64_def)

lemma sat_add_u64_le: "sat_add_u64 a b \<le> u64_max"
  by (simp add: sat_add_u64_def)

lemma sat_add_i64_exact:
  "\<lbrakk>0 \<le> a; 0 \<le> b; a + b \<le> i64_max\<rbrakk> \<Longrightarrow> sat_add_i64 a b = a + b"
  by (simp add: sat_add_i64_def)

text \<open>Rust's integer division truncates towards zero.\<close>

definition trunc_div :: "int \<Rightarrow> int \<Rightarrow> int" where
  "trunc_div a b = (if a < 0 then - ((- a) div b) else a div b)"

lemma trunc_div_nonneg: "0 \<le> a \<Longrightarrow> trunc_div a b = a div b"
  by (simp add: trunc_div_def)

lemma div_below:
  assumes "0 < (b :: int)"
  shows "x div b < k \<longleftrightarrow> x < k * b"
proof
  have x: "x = b * (x div b) + x mod b" by simp
  show "x < k * b" if "x div b < k"
  proof -
    have "b * (x div b) \<le> b * (k - 1)" using assms that by simp
    with x pos_mod_bound [OF assms, of x] show ?thesis by (simp only: right_diff_distrib mult.commute [of k])
  qed
  show "x div b < k" if "x < k * b"
  proof -
    have "b * (x div b) < b * k" using x pos_mod_sign [OF assms, of x] that by (simp only: mult.commute [of k])
    then show ?thesis using assms by simp
  qed
qed

section \<open>Strings\<close>

text \<open>\<^verbatim>\<open>str::split_once\<close> and \<^verbatim>\<open>str::rsplit_once\<close> on a single character.\<close>

fun split_once :: "char \<Rightarrow> string \<Rightarrow> (string \<times> string) option" where
  "split_once c [] = None"
| "split_once c (x # xs) =
     (if x = c then Some ([], xs)
      else map_option (\<lambda>(a, b). (x # a, b)) (split_once c xs))"

definition rsplit_once :: "char \<Rightarrow> string \<Rightarrow> (string \<times> string) option" where
  "rsplit_once c s = map_option (\<lambda>(a, b). (rev b, rev a)) (split_once c (rev s))"

fun strip_prefix :: "string \<Rightarrow> string \<Rightarrow> string option" where
  "strip_prefix [] s = Some s"
| "strip_prefix (p # ps) [] = None"
| "strip_prefix (p # ps) (x # xs) = (if p = x then strip_prefix ps xs else None)"

lemma split_once_notin: "c \<notin> set a \<Longrightarrow> split_once c (a @ c # b) = Some (a, b)"
  by (induction a) auto

lemma split_once_None_iff: "split_once c s = None \<longleftrightarrow> c \<notin> set s"
  by (induction s) auto

lemma split_once_Some:
  "split_once c s = Some (a, b) \<Longrightarrow> s = a @ c # b \<and> c \<notin> set a"
  by (induction s arbitrary: a) (auto split: if_splits)

lemma rsplit_once_notin: "c \<notin> set b \<Longrightarrow> rsplit_once c (a @ c # b) = Some (a, b)"
  using split_once_notin [of c "rev b" "rev a"] by (simp add: rsplit_once_def)

lemma rsplit_once_None_iff: "rsplit_once c s = None \<longleftrightarrow> c \<notin> set s"
  by (simp add: rsplit_once_def split_once_None_iff)

lemma strip_prefix_append [simp]: "strip_prefix p (p @ s) = Some s"
  by (induction p) auto

lemma strip_prefix_Some: "strip_prefix p s = Some r \<longleftrightarrow> s = p @ r"
  by (induction p s rule: strip_prefix.induct) auto

text \<open>Decimal printing (\<^verbatim>\<open>to_string\<close>) and parsing (\<^verbatim>\<open>parse::<usize>\<close>) of naturals.\<close>

definition digit_char :: "nat \<Rightarrow> char" where
  "digit_char n = char_of (48 + n)"

definition char_digit :: "char \<Rightarrow> nat option" where
  "char_digit c = (let n = (of_char c :: nat) in if 48 \<le> n \<and> n \<le> 57 then Some (n - 48) else None)"

fun show_nat :: "nat \<Rightarrow> string" where
  "show_nat n = (if n < 10 then [digit_char n] else show_nat (n div 10) @ [digit_char (n mod 10)])"

declare show_nat.simps [simp del]

definition show_int :: "int \<Rightarrow> string" where
  "show_int i = (if i < 0 then CHR ''-'' # show_nat (nat (- i)) else show_nat (nat i))"

fun parse_digits :: "nat \<Rightarrow> string \<Rightarrow> nat option" where
  "parse_digits acc [] = Some acc"
| "parse_digits acc (c # cs) =
     (case char_digit c of None \<Rightarrow> None | Some d \<Rightarrow> parse_digits (10 * acc + d) cs)"

text \<open>
  \<^verbatim>\<open>str::parse::<usize>\<close>: an optional plus sign, at least one digit, nothing else, and a
  value that fits 64 bits.
\<close>

definition parse_usize :: "string \<Rightarrow> nat option" where
  "parse_usize s =
     (let ds = (if s \<noteq> [] \<and> hd s = CHR ''+'' then tl s else s) in
      if ds = [] then None
      else case parse_digits 0 ds of
             None \<Rightarrow> None
           | Some n \<Rightarrow> if n \<le> u64_max then Some n else None)"

lemma of_char_digit_char: "n < 10 \<Longrightarrow> (of_char (digit_char n) :: nat) = 48 + n"
  by (simp add: digit_char_def)

lemma char_digit_digit_char [simp]: "n < 10 \<Longrightarrow> char_digit (digit_char n) = Some n"
  by (simp add: char_digit_def of_char_digit_char)

lemma parse_digits_append:
  "parse_digits acc (xs @ ys) =
     (case parse_digits acc xs of None \<Rightarrow> None | Some n \<Rightarrow> parse_digits n ys)"
  by (induction acc xs rule: parse_digits.induct) (auto split: option.splits)

lemma parse_digits_show_nat: "parse_digits 0 (show_nat n) = Some n"
proof (induction n rule: show_nat.induct)
  case (1 n)
  show ?case
  proof (cases "n < 10")
    case True
    then show ?thesis by (simp add: show_nat.simps [of n])
  next
    case False
    then show ?thesis
      using "1.IH" by (simp add: show_nat.simps [of n] parse_digits_append)
  qed
qed

lemma show_nat_nonempty [simp]: "show_nat n \<noteq> []"
  by (simp add: show_nat.simps [of n])

lemma show_nat_digits: "c \<in> set (show_nat n) \<Longrightarrow> 48 \<le> (of_char c :: nat) \<and> (of_char c :: nat) \<le> 57"
proof (induction n rule: show_nat.induct)
  case (1 n)
  show ?case
  proof (cases "n < 10")
    case True
    with "1.prems" show ?thesis by (auto simp: show_nat.simps [of n] of_char_digit_char)
  next
    case False
    then have "c \<in> set (show_nat (n div 10)) \<or> c = digit_char (n mod 10)"
      using "1.prems" by (auto simp: show_nat.simps [of n])
    then show ?thesis
      using "1.IH" False by (auto simp: of_char_digit_char)
  qed
qed

lemma show_nat_hd_not_plus: "hd (show_nat n) \<noteq> CHR ''+''"
proof -
  have "hd (show_nat n) \<in> set (show_nat n)" by simp
  from show_nat_digits [OF this] show ?thesis by auto
qed

lemma show_nat_no_colon: "CHR '':'' \<notin> set (show_nat n)"
  using show_nat_digits [of "CHR '':''" n] by auto

lemma parse_usize_show_nat: "n \<le> u64_max \<Longrightarrow> parse_usize (show_nat n) = Some n"
  by (simp add: parse_usize_def parse_digits_show_nat show_nat_hd_not_plus)

lemma show_nat_inj: "show_nat m = show_nat n \<Longrightarrow> m = n"
  by (metis option.inject parse_digits_show_nat)

section \<open>Lists\<close>

text \<open>
  Removing the first occurrence (\<^verbatim>\<open>LREM key 1 v\<close>) is the library's \<^const>\<open>remove1\<close>, removing
  all of them (\<^verbatim>\<open>LREM key 0 v\<close>) is \<^const>\<open>removeAll\<close>.
\<close>

lemma count_list_remove1:
  "count_list (remove1 x xs) y = (if x = y then count_list xs y - 1 else count_list xs y)"
  by (induction xs) (auto simp: count_list_0_iff)

lemma count_list_distinct: "distinct xs \<Longrightarrow> x \<in> set xs \<Longrightarrow> count_list xs x = 1"
  by (induction xs) (auto simp: count_list_0_iff)

lemma mem_remove1_iff_count: "x \<in> set (remove1 x xs) \<longleftrightarrow> 1 < count_list xs x"
  by (metis count_list_0_iff count_list_remove1 diff_is_0_eq linorder_not_less)

lemma remove1_other [simp]: "x \<noteq> y \<Longrightarrow> x \<in> set (remove1 y xs) \<longleftrightarrow> x \<in> set xs"
  by (induction xs) auto

end
