(* ===== verification/Redis.thy ===== *)
theory Redis
  imports Prelude
begin

text \<open>
  The Redis server as the code sees it. Redis is a service outside the repository, so it
  is a parameter of the model: a record of its commands over a server state of any type.
  What the code relies on is the locale \<open>redis_server\<close>, whose laws are the documented
  behaviour of those commands: which key, field or member a command changes, what it
  leaves alone, and that an empty aggregate is removed. The last section interprets the
  locale on an in-memory server, which the witnesses of the properties run on.
\<close>

section \<open>The commands\<close>

text \<open>
  \<open>r_get\<close> is the outcome of checking a connection out of the pool (\<open>None\<close> is
  success). Sorted-set scores are integers: the code scores its sets with microsecond
  timestamps, which an IEEE double holds exactly up to \<open>2 ^ 53\<close>.
\<close>

datatype rtype = TNone | THash | TList | TZset | TString

record 'd redis =
  r_get :: "'d \<Rightarrow> pool_error option"
  r_type :: "'d \<Rightarrow> string \<Rightarrow> rtype"
  r_hget :: "'d \<Rightarrow> string \<Rightarrow> string \<Rightarrow> string option"
  r_hgetall :: "'d \<Rightarrow> string \<Rightarrow> (string \<times> string) list"
  r_hset :: "'d \<Rightarrow> string \<Rightarrow> string \<Rightarrow> string \<Rightarrow> 'd"
  r_hdel :: "'d \<Rightarrow> string \<Rightarrow> string \<Rightarrow> 'd"
  r_lrange :: "'d \<Rightarrow> string \<Rightarrow> string list"
  r_lpush :: "'d \<Rightarrow> string \<Rightarrow> string \<Rightarrow> 'd"
  r_rpush :: "'d \<Rightarrow> string \<Rightarrow> string \<Rightarrow> 'd"
  r_lrem1 :: "'d \<Rightarrow> string \<Rightarrow> string \<Rightarrow> 'd"
  r_lrem :: "'d \<Rightarrow> string \<Rightarrow> string \<Rightarrow> 'd"
  r_rpop :: "'d \<Rightarrow> string \<Rightarrow> 'd"
  r_ltrim :: "'d \<Rightarrow> string \<Rightarrow> nat \<Rightarrow> 'd"
  r_zscore :: "'d \<Rightarrow> string \<Rightarrow> string \<Rightarrow> int option"
  r_zrange :: "'d \<Rightarrow> string \<Rightarrow> (string \<times> int) list"
  r_zadd :: "'d \<Rightarrow> string \<Rightarrow> string \<Rightarrow> int \<Rightarrow> 'd"
  r_zrem :: "'d \<Rightarrow> string \<Rightarrow> string \<Rightarrow> 'd"
  r_del :: "'d \<Rightarrow> string \<Rightarrow> 'd"
  r_rename :: "'d \<Rightarrow> string \<Rightarrow> string \<Rightarrow> 'd"
  r_keys :: "'d \<Rightarrow> string \<Rightarrow> string list"

text \<open>
  A command on a key that holds another type replies with an error and changes nothing.
  A missing key is an empty aggregate of every type.
\<close>

definition fits :: "'d redis \<Rightarrow> 'd \<Rightarrow> string \<Rightarrow> rtype \<Rightarrow> bool" where
  "fits R d k ty \<longleftrightarrow> r_type R d k = TNone \<or> r_type R d k = ty"

definition wrong_type :: oxana_error where
  "wrong_type = DeadpoolRedisError WrongType"

definition reading :: "'d redis \<Rightarrow> rtype \<Rightarrow> string \<Rightarrow> ('d \<Rightarrow> 'a) \<Rightarrow> ('d, 'a) op" where
  "reading R ty k g = (\<lambda>d. if fits R d k ty then (Inr (g d), d) else (Inl wrong_type, d))"

definition writing :: "'d redis \<Rightarrow> rtype \<Rightarrow> string \<Rightarrow> ('d \<Rightarrow> 'd) \<Rightarrow> ('d, unit) op" where
  "writing R ty k g = (\<lambda>d. if fits R d k ty then (Inr (), g d) else (Inl wrong_type, d))"

definition hget :: "'d redis \<Rightarrow> string \<Rightarrow> string \<Rightarrow> ('d, string option) op" where
  "hget R k f = reading R THash k (\<lambda>d. r_hget R d k f)"

definition hexists :: "'d redis \<Rightarrow> string \<Rightarrow> string \<Rightarrow> ('d, bool) op" where
  "hexists R k f = reading R THash k (\<lambda>d. r_hget R d k f \<noteq> None)"

definition hmget :: "'d redis \<Rightarrow> string \<Rightarrow> string list \<Rightarrow> ('d, string option list) op" where
  "hmget R k fs = reading R THash k (\<lambda>d. map (r_hget R d k) fs)"

definition hlen :: "'d redis \<Rightarrow> string \<Rightarrow> ('d, nat) op" where
  "hlen R k = reading R THash k (\<lambda>d. length (r_hgetall R d k))"

definition hgetall :: "'d redis \<Rightarrow> string \<Rightarrow> ('d, (string \<times> string) list) op" where
  "hgetall R k = reading R THash k (\<lambda>d. r_hgetall R d k)"

definition hset :: "'d redis \<Rightarrow> string \<Rightarrow> string \<Rightarrow> string \<Rightarrow> ('d, unit) op" where
  "hset R k f v = writing R THash k (\<lambda>d. r_hset R d k f v)"

definition hdel :: "'d redis \<Rightarrow> string \<Rightarrow> string \<Rightarrow> ('d, unit) op" where
  "hdel R k f = writing R THash k (\<lambda>d. r_hdel R d k f)"

definition lrange_all :: "'d redis \<Rightarrow> string \<Rightarrow> ('d, string list) op" where
  "lrange_all R k = reading R TList k (\<lambda>d. r_lrange R d k)"

definition llen :: "'d redis \<Rightarrow> string \<Rightarrow> ('d, nat) op" where
  "llen R k = reading R TList k (\<lambda>d. length (r_lrange R d k))"

definition lpos :: "'d redis \<Rightarrow> string \<Rightarrow> string \<Rightarrow> ('d, bool) op" where
  "lpos R k v = reading R TList k (\<lambda>d. v \<in> set (r_lrange R d k))"

definition lpush :: "'d redis \<Rightarrow> string \<Rightarrow> string \<Rightarrow> ('d, unit) op" where
  "lpush R k v = writing R TList k (\<lambda>d. r_lpush R d k v)"

definition rpush :: "'d redis \<Rightarrow> string \<Rightarrow> string \<Rightarrow> ('d, unit) op" where
  "rpush R k v = writing R TList k (\<lambda>d. r_rpush R d k v)"

definition lrem1 :: "'d redis \<Rightarrow> string \<Rightarrow> string \<Rightarrow> ('d, unit) op" where
  "lrem1 R k v = writing R TList k (\<lambda>d. r_lrem1 R d k v)"

definition lrem_all :: "'d redis \<Rightarrow> string \<Rightarrow> string \<Rightarrow> ('d, unit) op" where
  "lrem_all R k v = writing R TList k (\<lambda>d. r_lrem R d k v)"

definition ltrim :: "'d redis \<Rightarrow> string \<Rightarrow> nat \<Rightarrow> ('d, unit) op" where
  "ltrim R k n = writing R TList k (\<lambda>d. r_ltrim R d k n)"

definition zscore :: "'d redis \<Rightarrow> string \<Rightarrow> string \<Rightarrow> ('d, int option) op" where
  "zscore R k m = reading R TZset k (\<lambda>d. r_zscore R d k m)"

definition zrange_withscores :: "'d redis \<Rightarrow> string \<Rightarrow> ('d, (string \<times> int) list) op" where
  "zrange_withscores R k = reading R TZset k (\<lambda>d. r_zrange R d k)"

definition zrangebyscore :: "'d redis \<Rightarrow> string \<Rightarrow> int \<Rightarrow> int \<Rightarrow> ('d, (string \<times> int) list) op" where
  "zrangebyscore R k lo hi =
     reading R TZset k (\<lambda>d. filter (\<lambda>(m, s). lo \<le> s \<and> s \<le> hi) (r_zrange R d k))"

definition zcard :: "'d redis \<Rightarrow> string \<Rightarrow> ('d, nat) op" where
  "zcard R k = reading R TZset k (\<lambda>d. length (r_zrange R d k))"

definition zadd :: "'d redis \<Rightarrow> string \<Rightarrow> string \<Rightarrow> int \<Rightarrow> ('d, unit) op" where
  "zadd R k m s = writing R TZset k (\<lambda>d. r_zadd R d k m s)"

definition zrem :: "'d redis \<Rightarrow> string \<Rightarrow> string \<Rightarrow> ('d, unit) op" where
  "zrem R k m = writing R TZset k (\<lambda>d. r_zrem R d k m)"

definition del :: "'d redis \<Rightarrow> string \<Rightarrow> ('d, unit) op" where
  "del R k = (\<lambda>d. (Inr (), r_del R d k))"

text \<open>
  \<^verbatim>\<open>LMOVE src dst RIGHT LEFT\<close>: the last element of the source list moves to the front of the
  destination, in one step. The destination is type-checked only when there is an element
  to move.
\<close>

definition lmove :: "'d redis \<Rightarrow> string \<Rightarrow> string \<Rightarrow> ('d, string option) op" where
  "lmove R src dst = (\<lambda>d.
     if \<not> fits R d src TList then (Inl wrong_type, d)
     else if r_lrange R d src = [] then (Inr None, d)
     else if \<not> fits R d dst TList then (Inl wrong_type, d)
     else let v = last (r_lrange R d src)
          in (Inr (Some v), r_lpush R (r_rpop R d src) dst v))"

text \<open>
  \<^verbatim>\<open>LRANGE key start stop\<close> with non-negative indices: the elements at positions \<open>start\<close>
  to \<open>stop\<close> inclusive.
\<close>

definition slice :: "nat \<Rightarrow> nat \<Rightarrow> 'a list \<Rightarrow> 'a list" where
  "slice start stop xs = take (Suc stop - start) (drop start xs)"

definition lrange :: "'d redis \<Rightarrow> string \<Rightarrow> nat \<Rightarrow> nat \<Rightarrow> ('d, string list) op" where
  "lrange R k start stop = reading R TList k (\<lambda>d. slice start stop (r_lrange R d k))"

definition zrange :: "'d redis \<Rightarrow> string \<Rightarrow> nat \<Rightarrow> nat \<Rightarrow> ('d, string list) op" where
  "zrange R k start stop = reading R TZset k (\<lambda>d. slice start stop (map fst (r_zrange R d k)))"

definition scan :: "'d redis \<Rightarrow> string \<Rightarrow> ('d, string list) op" where
  "scan R pre = (\<lambda>d. (Inr (r_keys R d pre), d))"

definition with_connection :: "'d redis \<Rightarrow> ('d, 'a) op \<Rightarrow> ('d, 'a) op" where
  "with_connection R m = (\<lambda>d. case r_get R d of
      Some e \<Rightarrow> (Inl (DeadpoolRedisPoolError e), d)
    | None \<Rightarrow> m d)"

declare reading_def [redis_defs] writing_def [redis_defs] hget_def [redis_defs]
  hexists_def [redis_defs] hmget_def [redis_defs] hlen_def [redis_defs] hgetall_def [redis_defs]
  hset_def [redis_defs] hdel_def [redis_defs] lrange_all_def [redis_defs] llen_def [redis_defs]
  lpos_def [redis_defs] lpush_def [redis_defs] rpush_def [redis_defs] lrem1_def [redis_defs]
  lrem_all_def [redis_defs] ltrim_def [redis_defs] zscore_def [redis_defs]
  zrange_withscores_def [redis_defs] zrangebyscore_def [redis_defs] zcard_def [redis_defs]
  zadd_def [redis_defs] zrem_def [redis_defs] del_def [redis_defs] scan_def [redis_defs]
  lrange_def [redis_defs] zrange_def [redis_defs]

lemma with_connection_Inr:
  "with_connection R m d = (Inr x, d') \<longleftrightarrow> r_get R d = None \<and> m d = (Inr x, d')"
  by (auto simp: with_connection_def split: option.splits)

section \<open>The contract\<close>

text \<open>
  The laws the code relies on, one group per command. A write is described by what the
  three observers (\<^verbatim>\<open>HGET\<close>, \<^verbatim>\<open>LRANGE\<close>, \<^verbatim>\<open>ZSCORE\<close>) and \<^verbatim>\<open>TYPE\<close> return afterwards, for every key.
  Keys do not expire by themselves here: only the metrics and throttler keys carry a time
  to live.
\<close>

locale redis_server =
  fixes R :: "'d redis"
  assumes type_hash: "r_type R d k = THash \<longleftrightarrow> (\<exists>f. r_hget R d k f \<noteq> None)"
    and type_list: "r_type R d k = TList \<longleftrightarrow> r_lrange R d k \<noteq> []"
    and type_zset: "r_type R d k = TZset \<longleftrightarrow> (\<exists>m. r_zscore R d k m \<noteq> None)"
    and hgetall_map: "map_of (r_hgetall R d k) = r_hget R d k"
    and hgetall_distinct: "distinct (map fst (r_hgetall R d k))"
    and zrange_map: "map_of (r_zrange R d k) = r_zscore R d k"
    and zrange_distinct: "distinct (map fst (r_zrange R d k))"
    and zrange_sorted: "sorted (map snd (r_zrange R d k))"
    and keys_set: "set (r_keys R d p) = {k. prefix p k \<and> r_type R d k \<noteq> TNone}"
    and keys_distinct: "distinct (r_keys R d p)"
    and hset_h: "fits R d k THash \<Longrightarrow>
      r_hget R (r_hset R d k f v) = (r_hget R d)(k := (r_hget R d k)(f \<mapsto> v))"
    and hset_l: "fits R d k THash \<Longrightarrow> r_lrange R (r_hset R d k f v) = r_lrange R d"
    and hset_z: "fits R d k THash \<Longrightarrow> r_zscore R (r_hset R d k f v) = r_zscore R d"
    and hset_t: "fits R d k THash \<Longrightarrow> k' \<noteq> k \<Longrightarrow> r_type R (r_hset R d k f v) k' = r_type R d k'"
    and hdel_h: "fits R d k THash \<Longrightarrow>
      r_hget R (r_hdel R d k f) = (r_hget R d)(k := (r_hget R d k)(f := None))"
    and hdel_l: "fits R d k THash \<Longrightarrow> r_lrange R (r_hdel R d k f) = r_lrange R d"
    and hdel_z: "fits R d k THash \<Longrightarrow> r_zscore R (r_hdel R d k f) = r_zscore R d"
    and hdel_t: "fits R d k THash \<Longrightarrow> k' \<noteq> k \<Longrightarrow> r_type R (r_hdel R d k f) k' = r_type R d k'"
    and hdel_own: "fits R d k THash \<Longrightarrow> fits R (r_hdel R d k f) k THash"
    and lpush_h: "fits R d k TList \<Longrightarrow> r_hget R (r_lpush R d k v) = r_hget R d"
    and lpush_l: "fits R d k TList \<Longrightarrow>
      r_lrange R (r_lpush R d k v) = (r_lrange R d)(k := v # r_lrange R d k)"
    and lpush_z: "fits R d k TList \<Longrightarrow> r_zscore R (r_lpush R d k v) = r_zscore R d"
    and lpush_t: "fits R d k TList \<Longrightarrow> k' \<noteq> k \<Longrightarrow> r_type R (r_lpush R d k v) k' = r_type R d k'"
    and rpush_h: "fits R d k TList \<Longrightarrow> r_hget R (r_rpush R d k v) = r_hget R d"
    and rpush_l: "fits R d k TList \<Longrightarrow>
      r_lrange R (r_rpush R d k v) = (r_lrange R d)(k := r_lrange R d k @ [v])"
    and rpush_z: "fits R d k TList \<Longrightarrow> r_zscore R (r_rpush R d k v) = r_zscore R d"
    and rpush_t: "fits R d k TList \<Longrightarrow> k' \<noteq> k \<Longrightarrow> r_type R (r_rpush R d k v) k' = r_type R d k'"
    and lrem1_h: "fits R d k TList \<Longrightarrow> r_hget R (r_lrem1 R d k v) = r_hget R d"
    and lrem1_l: "fits R d k TList \<Longrightarrow>
      r_lrange R (r_lrem1 R d k v) = (r_lrange R d)(k := remove1 v (r_lrange R d k))"
    and lrem1_z: "fits R d k TList \<Longrightarrow> r_zscore R (r_lrem1 R d k v) = r_zscore R d"
    and lrem1_t: "fits R d k TList \<Longrightarrow> k' \<noteq> k \<Longrightarrow> r_type R (r_lrem1 R d k v) k' = r_type R d k'"
    and lrem1_own: "fits R d k TList \<Longrightarrow> fits R (r_lrem1 R d k v) k TList"
    and lrem_h: "fits R d k TList \<Longrightarrow> r_hget R (r_lrem R d k v) = r_hget R d"
    and lrem_l: "fits R d k TList \<Longrightarrow>
      r_lrange R (r_lrem R d k v) = (r_lrange R d)(k := removeAll v (r_lrange R d k))"
    and lrem_z: "fits R d k TList \<Longrightarrow> r_zscore R (r_lrem R d k v) = r_zscore R d"
    and lrem_t: "fits R d k TList \<Longrightarrow> k' \<noteq> k \<Longrightarrow> r_type R (r_lrem R d k v) k' = r_type R d k'"
    and lrem_own: "fits R d k TList \<Longrightarrow> fits R (r_lrem R d k v) k TList"
    and rpop_h: "fits R d k TList \<Longrightarrow> r_hget R (r_rpop R d k) = r_hget R d"
    and rpop_l: "fits R d k TList \<Longrightarrow>
      r_lrange R (r_rpop R d k) = (r_lrange R d)(k := butlast (r_lrange R d k))"
    and rpop_z: "fits R d k TList \<Longrightarrow> r_zscore R (r_rpop R d k) = r_zscore R d"
    and rpop_t: "fits R d k TList \<Longrightarrow> k' \<noteq> k \<Longrightarrow> r_type R (r_rpop R d k) k' = r_type R d k'"
    and rpop_own: "fits R d k TList \<Longrightarrow> fits R (r_rpop R d k) k TList"
    and ltrim_h: "fits R d k TList \<Longrightarrow> r_hget R (r_ltrim R d k n) = r_hget R d"
    and ltrim_l: "fits R d k TList \<Longrightarrow>
      r_lrange R (r_ltrim R d k n) = (r_lrange R d)(k := take n (r_lrange R d k))"
    and ltrim_z: "fits R d k TList \<Longrightarrow> r_zscore R (r_ltrim R d k n) = r_zscore R d"
    and ltrim_t: "fits R d k TList \<Longrightarrow> k' \<noteq> k \<Longrightarrow> r_type R (r_ltrim R d k n) k' = r_type R d k'"
    and zadd_h: "fits R d k TZset \<Longrightarrow> r_hget R (r_zadd R d k m s) = r_hget R d"
    and zadd_l: "fits R d k TZset \<Longrightarrow> r_lrange R (r_zadd R d k m s) = r_lrange R d"
    and zadd_z: "fits R d k TZset \<Longrightarrow>
      r_zscore R (r_zadd R d k m s) = (r_zscore R d)(k := (r_zscore R d k)(m \<mapsto> s))"
    and zadd_t: "fits R d k TZset \<Longrightarrow> k' \<noteq> k \<Longrightarrow> r_type R (r_zadd R d k m s) k' = r_type R d k'"
    and zrem_h: "fits R d k TZset \<Longrightarrow> r_hget R (r_zrem R d k m) = r_hget R d"
    and zrem_l: "fits R d k TZset \<Longrightarrow> r_lrange R (r_zrem R d k m) = r_lrange R d"
    and zrem_z: "fits R d k TZset \<Longrightarrow>
      r_zscore R (r_zrem R d k m) = (r_zscore R d)(k := (r_zscore R d k)(m := None))"
    and zrem_t: "fits R d k TZset \<Longrightarrow> k' \<noteq> k \<Longrightarrow> r_type R (r_zrem R d k m) k' = r_type R d k'"
    and zrem_own: "fits R d k TZset \<Longrightarrow> fits R (r_zrem R d k m) k TZset"
    and del_h: "r_hget R (r_del R d k) = (r_hget R d)(k := Map.empty)"
    and del_l: "r_lrange R (r_del R d k) = (r_lrange R d)(k := [])"
    and del_z: "r_zscore R (r_del R d k) = (r_zscore R d)(k := Map.empty)"
    and del_t: "r_type R (r_del R d k) = (r_type R d)(k := TNone)"
    and rename_h: "r_type R d k \<noteq> TNone \<Longrightarrow> k \<noteq> k' \<Longrightarrow>
      r_hget R (r_rename R d k k') = (r_hget R d)(k := Map.empty, k' := r_hget R d k)"
    and rename_l: "r_type R d k \<noteq> TNone \<Longrightarrow> k \<noteq> k' \<Longrightarrow>
      r_lrange R (r_rename R d k k') = (r_lrange R d)(k := [], k' := r_lrange R d k)"
    and rename_z: "r_type R d k \<noteq> TNone \<Longrightarrow> k \<noteq> k' \<Longrightarrow>
      r_zscore R (r_rename R d k k') = (r_zscore R d)(k := Map.empty, k' := r_zscore R d k)"
    and rename_t: "r_type R d k \<noteq> TNone \<Longrightarrow> k \<noteq> k' \<Longrightarrow>
      r_type R (r_rename R d k k') = (r_type R d)(k := TNone, k' := r_type R d k)"
begin

lemma type_exclusive:
  "fits R d k TList \<Longrightarrow> r_hget R d k f = None"
  "fits R d k TZset \<Longrightarrow> r_hget R d k f = None"
  "fits R d k THash \<Longrightarrow> r_lrange R d k = []"
  "fits R d k TZset \<Longrightarrow> r_lrange R d k = []"
  "fits R d k THash \<Longrightarrow> r_zscore R d k m = None"
  "fits R d k TList \<Longrightarrow> r_zscore R d k m = None"
  unfolding fits_def using type_hash type_list type_zset by (metis rtype.distinct)+

lemma hset_own: "fits R d k THash \<Longrightarrow> r_type R (r_hset R d k f v) k = THash"
  by (simp add: type_hash hset_h) blast

lemma lpush_own: "fits R d k TList \<Longrightarrow> r_type R (r_lpush R d k v) k = TList"
  by (simp add: type_list lpush_l)

lemma rpush_own: "fits R d k TList \<Longrightarrow> r_type R (r_rpush R d k v) k = TList"
  by (simp add: type_list rpush_l)

lemma zadd_own: "fits R d k TZset \<Longrightarrow> r_type R (r_zadd R d k m s) k = TZset"
  by (simp add: type_zset zadd_z) blast

lemmas views = hset_h hset_l hset_z hdel_h hdel_l hdel_z lpush_h lpush_l lpush_z
  rpush_h rpush_l rpush_z lrem1_h lrem1_l lrem1_z lrem_h lrem_l lrem_z rpop_h rpop_l rpop_z
  ltrim_h ltrim_l ltrim_z zadd_h zadd_l zadd_z zrem_h zrem_l zrem_z del_h del_l del_z

lemma fits_hset: "fits R d k THash \<Longrightarrow>
    fits R (r_hset R d k f v) k' ty \<longleftrightarrow> (if k' = k then ty = THash else fits R d k' ty)"
  by (auto simp: fits_def hset_own hset_t)

lemma fits_hdel: "fits R d k THash \<Longrightarrow> k' \<noteq> k \<or> ty = THash \<Longrightarrow>
    fits R (r_hdel R d k f) k' ty \<longleftrightarrow> fits R d k' ty"
  using hdel_own [of d k f] by (cases "k' = k") (auto simp: fits_def hdel_t)

lemma fits_lpush: "fits R d k TList \<Longrightarrow>
    fits R (r_lpush R d k v) k' ty \<longleftrightarrow> (if k' = k then ty = TList else fits R d k' ty)"
  by (auto simp: fits_def lpush_own lpush_t)

lemma fits_rpush: "fits R d k TList \<Longrightarrow>
    fits R (r_rpush R d k v) k' ty \<longleftrightarrow> (if k' = k then ty = TList else fits R d k' ty)"
  by (auto simp: fits_def rpush_own rpush_t)

lemma fits_lrem1: "fits R d k TList \<Longrightarrow> k' \<noteq> k \<or> ty = TList \<Longrightarrow>
    fits R (r_lrem1 R d k v) k' ty \<longleftrightarrow> fits R d k' ty"
  using lrem1_own [of d k v] by (cases "k' = k") (auto simp: fits_def lrem1_t)

lemma fits_lrem: "fits R d k TList \<Longrightarrow> k' \<noteq> k \<or> ty = TList \<Longrightarrow>
    fits R (r_lrem R d k v) k' ty \<longleftrightarrow> fits R d k' ty"
  using lrem_own [of d k v] by (cases "k' = k") (auto simp: fits_def lrem_t)

lemma fits_rpop: "fits R d k TList \<Longrightarrow> k' \<noteq> k \<or> ty = TList \<Longrightarrow>
    fits R (r_rpop R d k) k' ty \<longleftrightarrow> fits R d k' ty"
  using rpop_own [of d k] by (cases "k' = k") (auto simp: fits_def rpop_t)

lemma fits_zadd: "fits R d k TZset \<Longrightarrow>
    fits R (r_zadd R d k m s) k' ty \<longleftrightarrow> (if k' = k then ty = TZset else fits R d k' ty)"
  by (auto simp: fits_def zadd_own zadd_t)

lemma fits_zrem: "fits R d k TZset \<Longrightarrow> k' \<noteq> k \<or> ty = TZset \<Longrightarrow>
    fits R (r_zrem R d k m) k' ty \<longleftrightarrow> fits R d k' ty"
  using zrem_own [of d k m] by (cases "k' = k") (auto simp: fits_def zrem_t)

lemma fits_del: "fits R (r_del R d k) k' ty \<longleftrightarrow> k' = k \<or> fits R d k' ty"
  by (auto simp: fits_def del_t)

lemmas fits_simps = fits_hset fits_hdel fits_lpush fits_rpush fits_lrem1 fits_lrem fits_rpop
  fits_zadd fits_zrem fits_del

lemma zrange_mem: "(m, s) \<in> set (r_zrange R d k) \<longleftrightarrow> r_zscore R d k m = Some s"
  using map_of_eq_Some_iff [OF zrange_distinct] by (simp add: zrange_map)

lemma hgetall_mem: "(f, v) \<in> set (r_hgetall R d k) \<longleftrightarrow> r_hget R d k f = Some v"
  using map_of_eq_Some_iff [OF hgetall_distinct] by (simp add: hgetall_map)

end

section \<open>An in-memory server\<close>

text \<open>
  A server whose state is an association list from keys to values. It satisfies the
  contract, so the contract is consistent, and its commands are executable, so a property
  stated for every server that meets the contract can be run on it.
\<close>

datatype rvalue =
    VHash "(string \<times> string) list"
  | VList "string list"
  | VZset "(string \<times> int) list"
  | VString string

type_synonym mem = "(string \<times> rvalue) list"

fun value_type :: "rvalue \<Rightarrow> rtype" where
  "value_type (VHash h) = (if h = [] then TNone else THash)"
| "value_type (VList l) = (if l = [] then TNone else TList)"
| "value_type (VZset z) = (if z = [] then TNone else TZset)"
| "value_type (VString s) = TString"

definition mem_type :: "mem \<Rightarrow> string \<Rightarrow> rtype" where
  "mem_type d k = (case map_of d k of None \<Rightarrow> TNone | Some v \<Rightarrow> value_type v)"

definition mem_hash :: "mem \<Rightarrow> string \<Rightarrow> (string \<times> string) list" where
  "mem_hash d k = (case map_of d k of Some (VHash h) \<Rightarrow> h | _ \<Rightarrow> [])"

definition mem_list :: "mem \<Rightarrow> string \<Rightarrow> string list" where
  "mem_list d k = (case map_of d k of Some (VList l) \<Rightarrow> l | _ \<Rightarrow> [])"

definition mem_zset :: "mem \<Rightarrow> string \<Rightarrow> (string \<times> int) list" where
  "mem_zset d k = (case map_of d k of Some (VZset z) \<Rightarrow> z | _ \<Rightarrow> [])"

definition mem_put :: "mem \<Rightarrow> string \<Rightarrow> rvalue \<Rightarrow> mem" where
  "mem_put d k v = AList.update k v d"

definition mem_redis :: "mem redis" where
  "mem_redis = \<lparr>
     r_get = (\<lambda>d. None),
     r_type = mem_type,
     r_hget = (\<lambda>d k. map_of (mem_hash d k)),
     r_hgetall = (\<lambda>d k. AList.clearjunk (mem_hash d k)),
     r_hset = (\<lambda>d k f v. mem_put d k (VHash (AList.update f v (mem_hash d k)))),
     r_hdel = (\<lambda>d k f. mem_put d k (VHash (AList.delete f (mem_hash d k)))),
     r_lrange = mem_list,
     r_lpush = (\<lambda>d k v. mem_put d k (VList (v # mem_list d k))),
     r_rpush = (\<lambda>d k v. mem_put d k (VList (mem_list d k @ [v]))),
     r_lrem1 = (\<lambda>d k v. mem_put d k (VList (remove1 v (mem_list d k)))),
     r_lrem = (\<lambda>d k v. mem_put d k (VList (removeAll v (mem_list d k)))),
     r_rpop = (\<lambda>d k. mem_put d k (VList (butlast (mem_list d k)))),
     r_ltrim = (\<lambda>d k n. mem_put d k (VList (take n (mem_list d k)))),
     r_zscore = (\<lambda>d k. map_of (mem_zset d k)),
     r_zrange = (\<lambda>d k. sort_key snd (AList.clearjunk (mem_zset d k))),
     r_zadd = (\<lambda>d k m s. mem_put d k (VZset (AList.update m s (mem_zset d k)))),
     r_zrem = (\<lambda>d k m. mem_put d k (VZset (AList.delete m (mem_zset d k)))),
     r_del = (\<lambda>d k. AList.delete k d),
     r_rename = (\<lambda>d k k'. case map_of d k of None \<Rightarrow> d
                  | Some v \<Rightarrow> AList.update k' v (AList.delete k d)),
     r_keys = (\<lambda>d p. filter (\<lambda>k. prefix p k \<and> mem_type d k \<noteq> TNone) (remdups (map fst d)))\<rparr>"

lemmas mem_defs = mem_type_def mem_hash_def mem_list_def mem_zset_def mem_put_def

lemma mem_redis_sel [simp]:
  "r_get mem_redis d = None"
  "r_type mem_redis d k = mem_type d k"
  "r_hget mem_redis d k = map_of (mem_hash d k)"
  "r_hgetall mem_redis d k = AList.clearjunk (mem_hash d k)"
  "r_lrange mem_redis d k = mem_list d k"
  "r_zscore mem_redis d k = map_of (mem_zset d k)"
  "r_zrange mem_redis d k = sort_key snd (AList.clearjunk (mem_zset d k))"
  "r_hset mem_redis d k f v = mem_put d k (VHash (AList.update f v (mem_hash d k)))"
  "r_hdel mem_redis d k f = mem_put d k (VHash (AList.delete f (mem_hash d k)))"
  "r_lpush mem_redis d k v = mem_put d k (VList (v # mem_list d k))"
  "r_rpush mem_redis d k v = mem_put d k (VList (mem_list d k @ [v]))"
  "r_lrem1 mem_redis d k v = mem_put d k (VList (remove1 v (mem_list d k)))"
  "r_lrem mem_redis d k v = mem_put d k (VList (removeAll v (mem_list d k)))"
  "r_rpop mem_redis d k = mem_put d k (VList (butlast (mem_list d k)))"
  "r_ltrim mem_redis d k n = mem_put d k (VList (take n (mem_list d k)))"
  "r_zadd mem_redis d k m s = mem_put d k (VZset (AList.update m s (mem_zset d k)))"
  "r_zrem mem_redis d k m = mem_put d k (VZset (AList.delete m (mem_zset d k)))"
  "r_del mem_redis d k = AList.delete k d"
  "r_keys mem_redis d p = filter (\<lambda>k. prefix p k \<and> mem_type d k \<noteq> TNone) (remdups (map fst d))"
  by (simp_all add: mem_redis_def)

lemma map_of_mem_put: "map_of (mem_put d k v) = (map_of d)(k \<mapsto> v)"
  by (simp add: mem_put_def update_conv')

lemma mem_put_views:
  "mem_hash (mem_put d k v) = (mem_hash d)(k := (case v of VHash h \<Rightarrow> h | _ \<Rightarrow> []))"
  "mem_list (mem_put d k v) = (mem_list d)(k := (case v of VList l \<Rightarrow> l | _ \<Rightarrow> []))"
  "mem_zset (mem_put d k v) = (mem_zset d)(k := (case v of VZset z \<Rightarrow> z | _ \<Rightarrow> []))"
  "mem_type (mem_put d k v) = (mem_type d)(k := value_type v)"
  by (auto simp: fun_eq_iff mem_hash_def mem_list_def mem_zset_def mem_type_def map_of_mem_put
      split: rvalue.splits)

lemma mem_delete_views:
  "mem_hash (AList.delete k d) = (mem_hash d)(k := [])"
  "mem_list (AList.delete k d) = (mem_list d)(k := [])"
  "mem_zset (AList.delete k d) = (mem_zset d)(k := [])"
  "mem_type (AList.delete k d) = (mem_type d)(k := TNone)"
  by (auto simp: fun_eq_iff mem_hash_def mem_list_def mem_zset_def mem_type_def delete_conv')

lemma mem_type_views:
  "mem_type d k = THash \<longleftrightarrow> mem_hash d k \<noteq> []"
  "mem_type d k = TList \<longleftrightarrow> mem_list d k \<noteq> []"
  "mem_type d k = TZset \<longleftrightarrow> mem_zset d k \<noteq> []"
  by (auto simp: mem_type_def mem_hash_def mem_list_def mem_zset_def
      split: option.splits rvalue.splits)

lemma mem_type_empty:
  "mem_type d k \<noteq> THash \<Longrightarrow> mem_hash d k = []"
  "mem_type d k \<noteq> TList \<Longrightarrow> mem_list d k = []"
  "mem_type d k \<noteq> TZset \<Longrightarrow> mem_zset d k = []"
  by (simp_all add: mem_type_views)

lemma map_of_nonempty_iff: "(\<exists>f y. map_of h f = Some y) \<longleftrightarrow> h \<noteq> []"
  by (cases h) auto

lemma map_of_sort_key_clearjunk: "map_of (sort_key snd (AList.clearjunk z)) = map_of z"
proof -
  have d: "distinct (map fst (sort_key snd (AList.clearjunk z)))"
    by (metis distinct_clearjunk distinct_map distinct_sort set_sort)
  have "set (sort_key snd (AList.clearjunk z)) = set (AList.clearjunk z)" by simp
  then have "map_of (sort_key snd (AList.clearjunk z)) = map_of (AList.clearjunk z)"
    using d distinct_clearjunk [of z] by (simp add: map_of_inject_set)
  then show ?thesis by (simp add: map_of_clearjunk)
qed

interpretation mem: redis_server mem_redis
proof (unfold_locales, goal_cases)
  case (1 d k) show ?case by (simp add: mem_type_views map_of_nonempty_iff)
next
  case (2 d k) show ?case by (simp add: mem_type_views)
next
  case (3 d k) show ?case by (simp add: mem_type_views map_of_nonempty_iff)
next
  case (4 d k) show ?case by (simp add: mem_redis_def map_of_clearjunk)
next
  case (5 d k) show ?case by (simp add: mem_redis_def)
next
  case (6 d k) show ?case by (simp add: mem_redis_def map_of_sort_key_clearjunk)
next
  case (7 d k) show ?case
    by (simp add: mem_redis_def) (metis distinct_clearjunk distinct_map distinct_sort set_sort)
next
  case (8 d k) show ?case by (simp add: mem_redis_def)
next
  case (9 d p)
  have "mem_type d k \<noteq> TNone \<Longrightarrow> k \<in> fst ` set d" for k
    by (metis mem_type_def map_of_eq_None_iff option.simps(4))
  then show ?case by (auto simp: mem_redis_def)
next
  case (10 d p) show ?case by (simp add: mem_redis_def)
next
  case (60 d k k') then show ?case
    by (auto simp: mem_redis_def mem_hash_def mem_type_def fun_eq_iff update_conv' delete_conv'
        split: option.splits)
next
  case (61 d k k') then show ?case
    by (auto simp: mem_redis_def mem_list_def mem_type_def fun_eq_iff update_conv' delete_conv'
        split: option.splits)
next
  case (62 d k k') then show ?case
    by (auto simp: mem_redis_def mem_zset_def mem_type_def fun_eq_iff update_conv' delete_conv'
        split: option.splits)
next
  case (63 d k k') then show ?case
    by (auto simp: mem_redis_def mem_type_def fun_eq_iff update_conv' delete_conv'
        split: option.splits)
qed (auto simp: mem_redis_def mem_put_views mem_delete_views fun_eq_iff update_conv' delete_conv'
    fits_def mem_type_empty)

end
