(* ===== verification/Transitions.thy ===== *)
theory Transitions
  imports Redis
begin

text \<open>
  The Lua scripts Redis runs for the job transitions: \<^verbatim>\<open>finish_success.lua\<close>,
  \<^verbatim>\<open>finish_dead.lua\<close>, \<^verbatim>\<open>retry_failed.lua\<close>, \<^verbatim>\<open>promote_scheduled.lua\<close>, \<^verbatim>\<open>resurrect_claim.lua\<close>.
  A script runs alone on the server, but its errors do not roll back its earlier writes;
  the lemmas show that each script checks enough beforehand to be all or nothing, and what
  it does to the payload hash, the lists and the sorted sets.
\<close>

section \<open>The scripts\<close>

text \<open>The type check at the head of each script: a missing key fits every type.\<close>

definition require_types :: "'d redis \<Rightarrow> (string \<times> rtype) list \<Rightarrow> ('d, unit) op" where
  "require_types R kts =
     (\<lambda>d. if list_all (\<lambda>(k, ty). fits R d k ty) kts then (Inr (), d) else (Inl wrong_type, d))"

definition finish_success_lua :: "'d redis \<Rightarrow> string \<Rightarrow> string \<Rightarrow> string list \<Rightarrow> ('d, unit) op" where
  "finish_success_lua R jobs processing ids =
     seq (require_types R [(jobs, THash), (processing, TList)])
       (for_each (\<lambda>i. seq (hdel R jobs i) (lrem1 R processing i)) ids)"

definition finish_dead_lua ::
    "'d redis \<Rightarrow> string \<Rightarrow> string \<Rightarrow> string \<Rightarrow> string \<Rightarrow> string \<Rightarrow> nat \<Rightarrow> ('d, unit) op" where
  "finish_dead_lua R jobs dead processing i payload limit =
     seq (require_types R [(jobs, THash), (dead, TList), (processing, TList)])
    (seq (lpush R dead payload)
    (seq (hdel R jobs i)
    (seq (lrem1 R processing i)
         (if 0 < limit then ltrim R dead limit else return ()))))"

definition retry_failed_lua ::
    "'d redis \<Rightarrow> string \<Rightarrow> string \<Rightarrow> string \<Rightarrow> string \<Rightarrow> string \<Rightarrow> int \<Rightarrow> ('d, unit) op" where
  "retry_failed_lua R jobs retry processing i payload score =
     seq (require_types R [(jobs, THash), (retry, TZset), (processing, TList)])
    (seq (hset R jobs i payload)
    (seq (zadd R retry i score)
         (lrem1 R processing i)))"

text \<open>An empty payload argument stands for \<^verbatim>\<open>no payload\<close> in the compare-and-move scripts.\<close>

definition expected_payload :: "string \<Rightarrow> string option" where
  "expected_payload s = (if s = [] then None else Some s)"

definition promote_scheduled_lua ::
    "'d redis \<Rightarrow> string \<Rightarrow> string \<Rightarrow> string \<Rightarrow> string \<Rightarrow> string \<Rightarrow> int \<Rightarrow> ('d, nat) op" where
  "promote_scheduled_lua R jobs schedule queue i expected score =
     seq (require_types R [(jobs, THash), (schedule, TZset), (queue, TList)])
    (bind (zscore R schedule i) (\<lambda>s.
       if s \<noteq> Some score then return 0
       else bind (hget R jobs i) (\<lambda>payload.
         if payload \<noteq> expected_payload expected then return 0
         else seq (if payload \<noteq> None then lpush R queue i else return ())
             (seq (zrem R schedule i)
                  (return (if payload \<noteq> None then 1 else 0))))))"

definition resurrect_claim_lua ::
    "'d redis \<Rightarrow> string \<Rightarrow> string \<Rightarrow> string \<Rightarrow> string \<Rightarrow> string \<Rightarrow> bool \<Rightarrow> ('d, nat) op" where
  "resurrect_claim_lua R jobs processing queue i expected should_resurrect =
     seq (require_types R [(jobs, THash), (processing, TList), (queue, TList)])
    (bind (lpos R processing i) (\<lambda>found.
       if \<not> found then return 0
       else bind (hget R jobs i) (\<lambda>payload.
         if payload \<noteq> expected_payload expected then return 0
         else seq (if payload \<noteq> None
                   then (if should_resurrect then lpush R queue i else hdel R jobs i)
                   else return ())
             (seq (lrem1 R processing i)
                  (return 1)))))"

declare require_types_def [script_defs] finish_dead_lua_def [script_defs]
  retry_failed_lua_def [script_defs] promote_scheduled_lua_def [script_defs]
  resurrect_claim_lua_def [script_defs] finish_success_lua_def [script_defs]

section \<open>The abstract store\<close>

text \<open>
  What the transitions are about: the hashes, lists and sorted sets a server holds. The
  abstract transitions below say in one record update what a script promises; the scripts
  refine them.
\<close>

record store =
  hashes :: "string \<Rightarrow> string \<rightharpoonup> string"
  lists :: "string \<Rightarrow> string list"
  zsets :: "string \<Rightarrow> string \<rightharpoonup> int"

definition store_of :: "'d redis \<Rightarrow> 'd \<Rightarrow> store" where
  "store_of R d = \<lparr>hashes = r_hget R d, lists = r_lrange R d, zsets = r_zscore R d\<rparr>"

definition put_hash :: "string \<Rightarrow> string \<Rightarrow> string option \<Rightarrow> store \<Rightarrow> store" where
  "put_hash k f v s = s\<lparr>hashes := (hashes s)(k := (hashes s k)(f := v))\<rparr>"

definition map_list :: "string \<Rightarrow> (string list \<Rightarrow> string list) \<Rightarrow> store \<Rightarrow> store" where
  "map_list k f s = s\<lparr>lists := (lists s)(k := f (lists s k))\<rparr>"

definition put_zset :: "string \<Rightarrow> string \<Rightarrow> int option \<Rightarrow> store \<Rightarrow> store" where
  "put_zset k m v s = s\<lparr>zsets := (zsets s)(k := (zsets s k)(m := v))\<rparr>"

definition acknowledge :: "string \<Rightarrow> string \<Rightarrow> string \<Rightarrow> store \<Rightarrow> store" where
  "acknowledge jobs proc i = map_list proc (remove1 i) \<circ> put_hash jobs i None"

definition bury :: "string \<Rightarrow> string \<Rightarrow> string \<Rightarrow> string \<Rightarrow> string \<Rightarrow> nat \<Rightarrow> store \<Rightarrow> store" where
  "bury jobs dead proc i payload limit =
     map_list proc (remove1 i) \<circ> put_hash jobs i None \<circ>
     map_list dead (\<lambda>l. if 0 < limit then take limit (payload # l) else payload # l)"

definition postpone :: "string \<Rightarrow> string \<Rightarrow> string \<Rightarrow> string \<Rightarrow> string \<Rightarrow> int \<Rightarrow> store \<Rightarrow> store" where
  "postpone jobs retry proc i payload score =
     map_list proc (remove1 i) \<circ> put_zset retry i (Some score) \<circ> put_hash jobs i (Some payload)"

definition promote :: "string \<Rightarrow> string \<Rightarrow> string \<Rightarrow> string \<Rightarrow> string option \<Rightarrow> int \<Rightarrow> store \<Rightarrow> store" where
  "promote jobs zset queue i expected score s =
     (if zsets s zset i = Some score \<and> hashes s jobs i = expected
      then put_zset zset i None (if expected \<noteq> None then map_list queue ((#) i) s else s)
      else s)"

definition recover ::
    "string \<Rightarrow> string \<Rightarrow> string \<Rightarrow> string \<Rightarrow> string option \<Rightarrow> bool \<Rightarrow> store \<Rightarrow> store" where
  "recover jobs proc queue i expected again s =
     (if i \<in> set (lists s proc) \<and> hashes s jobs i = expected
      then map_list proc (remove1 i)
             (if expected \<noteq> None then (if again then map_list queue ((#) i) s else put_hash jobs i None s)
              else s)
      else s)"

definition clear_key :: "string \<Rightarrow> store \<Rightarrow> store" where
  "clear_key k s = \<lparr>hashes = (hashes s)(k := Map.empty), lists = (lists s)(k := []),
     zsets = (zsets s)(k := Map.empty)\<rparr>"

definition rename_key :: "string \<Rightarrow> string \<Rightarrow> store \<Rightarrow> store" where
  "rename_key k k' s =
     \<lparr>hashes = (hashes s)(k := Map.empty, k' := hashes s k),
      lists = (lists s)(k := [], k' := lists s k),
      zsets = (zsets s)(k := Map.empty, k' := zsets s k)\<rparr>"

lemma store_of_sel [simp]:
  "hashes (store_of R d) = r_hget R d"
  "lists (store_of R d) = r_lrange R d"
  "zsets (store_of R d) = r_zscore R d"
  by (simp_all add: store_of_def)

lemmas store_updates = put_hash_def map_list_def put_zset_def

section \<open>Refinement\<close>

context redis_server
begin

lemma store_hset: "fits R d k THash \<Longrightarrow> store_of R (r_hset R d k f v) = put_hash k f (Some v) (store_of R d)"
  by (simp add: store_of_def store_updates views)

lemma store_hdel: "fits R d k THash \<Longrightarrow> store_of R (r_hdel R d k f) = put_hash k f None (store_of R d)"
  by (simp add: store_of_def store_updates views)

lemma store_lpush: "fits R d k TList \<Longrightarrow> store_of R (r_lpush R d k v) = map_list k ((#) v) (store_of R d)"
  by (simp add: store_of_def store_updates views)

lemma store_rpush: "fits R d k TList \<Longrightarrow> store_of R (r_rpush R d k v) = map_list k (\<lambda>l. l @ [v]) (store_of R d)"
  by (simp add: store_of_def store_updates views)

lemma store_lrem1: "fits R d k TList \<Longrightarrow> store_of R (r_lrem1 R d k v) = map_list k (remove1 v) (store_of R d)"
  by (simp add: store_of_def store_updates views)

lemma store_lrem: "fits R d k TList \<Longrightarrow> store_of R (r_lrem R d k v) = map_list k (removeAll v) (store_of R d)"
  by (simp add: store_of_def store_updates views)

lemma store_rpop: "fits R d k TList \<Longrightarrow> store_of R (r_rpop R d k) = map_list k butlast (store_of R d)"
  by (simp add: store_of_def store_updates views)

lemma store_ltrim: "fits R d k TList \<Longrightarrow> store_of R (r_ltrim R d k n) = map_list k (take n) (store_of R d)"
  by (simp add: store_of_def store_updates views)

lemma store_zadd: "fits R d k TZset \<Longrightarrow> store_of R (r_zadd R d k m v) = put_zset k m (Some v) (store_of R d)"
  by (simp add: store_of_def store_updates views)

lemma store_zrem: "fits R d k TZset \<Longrightarrow> store_of R (r_zrem R d k m) = put_zset k m None (store_of R d)"
  by (simp add: store_of_def store_updates views)

lemma store_del: "store_of R (r_del R d k) = clear_key k (store_of R d)"
  by (simp add: store_of_def clear_key_def views)

lemma store_rename:
  "r_type R d k \<noteq> TNone \<Longrightarrow> k \<noteq> k' \<Longrightarrow> store_of R (r_rename R d k k') = rename_key k k' (store_of R d)"
  by (simp add: store_of_def rename_key_def rename_h rename_l rename_z)

lemmas store_simps = store_del store_hset store_hdel store_lpush store_rpush store_lrem1 store_lrem store_rpop
  store_ltrim store_zadd store_zrem

lemmas script_simps = require_types_def seq_def bind_def return_def redis_defs fits_simps

lemma ack_one:
  assumes "fits R d jobs THash" "fits R d proc TList" "jobs \<noteq> proc"
  shows "\<exists>d'. seq (hdel R jobs i) (lrem1 R proc i) d = (Inr (), d') \<and>
    store_of R d' = acknowledge jobs proc i (store_of R d) \<and>
    (\<forall>k ty. (k \<noteq> jobs \<or> ty = THash) \<and> (k \<noteq> proc \<or> ty = TList) \<longrightarrow> fits R d' k ty = fits R d k ty)"
  using assms by (auto simp: script_simps store_simps acknowledge_def)

lemma ack_all:
  assumes "fits R d jobs THash" "fits R d proc TList" "jobs \<noteq> proc"
  shows "\<exists>d'. for_each (\<lambda>i. seq (hdel R jobs i) (lrem1 R proc i)) ids d = (Inr (), d') \<and>
    store_of R d' = fold (acknowledge jobs proc) ids (store_of R d) \<and>
    (\<forall>k ty. (k \<noteq> jobs \<or> ty = THash) \<and> (k \<noteq> proc \<or> ty = TList) \<longrightarrow> fits R d' k ty = fits R d k ty)"
  using assms
proof (induction ids arbitrary: d)
  case Nil
  then show ?case by simp
next
  case (Cons i ids)
  from ack_one [OF Cons.prems, of i] obtain d1 where d1:
    "seq (hdel R jobs i) (lrem1 R proc i) d = (Inr (), d1)"
    "store_of R d1 = acknowledge jobs proc i (store_of R d)"
    "\<forall>k ty. (k \<noteq> jobs \<or> ty = THash) \<and> (k \<noteq> proc \<or> ty = TList) \<longrightarrow> fits R d1 k ty = fits R d k ty"
    by blast
  moreover from d1(3) Cons.prems have "fits R d1 jobs THash" "fits R d1 proc TList" by auto
  moreover from d1(1) have "for_each (\<lambda>i. seq (hdel R jobs i) (lrem1 R proc i)) (i # ids) d =
      for_each (\<lambda>i. seq (hdel R jobs i) (lrem1 R proc i)) ids d1"
    by (simp add: seq_Inr)
  ultimately show ?case
    using Cons.IH [of d1] Cons.prems(3) by simp
qed

lemma finish_success_refines:
  assumes "jobs \<noteq> proc"
  shows "case finish_success_lua R jobs proc ids d of
      (Inl e, d') \<Rightarrow> d' = d
    | (Inr _, d') \<Rightarrow> store_of R d' = fold (acknowledge jobs proc) ids (store_of R d)"
proof (cases "fits R d jobs THash \<and> fits R d proc TList")
  case True
  with ack_all [of d jobs proc ids] assms show ?thesis
    by (auto simp: finish_success_lua_def script_simps)
next
  case False
  then show ?thesis by (auto simp: finish_success_lua_def script_simps)
qed

lemma finish_dead_refines:
  assumes "jobs \<noteq> dead" "jobs \<noteq> proc" "dead \<noteq> proc"
  shows "case finish_dead_lua R jobs dead proc i payload limit d of
      (Inl e, d') \<Rightarrow> d' = d
    | (Inr _, d') \<Rightarrow> store_of R d' = bury jobs dead proc i payload limit (store_of R d)"
  using assms
  by (auto simp: finish_dead_lua_def script_simps store_simps bury_def store_updates fun_upd_twist)

lemma retry_failed_refines:
  assumes "jobs \<noteq> retry" "jobs \<noteq> proc" "retry \<noteq> proc"
  shows "case retry_failed_lua R jobs retry proc i payload score d of
      (Inl e, d') \<Rightarrow> d' = d
    | (Inr _, d') \<Rightarrow> store_of R d' = postpone jobs retry proc i payload score (store_of R d)"
  using assms
  by (auto simp: retry_failed_lua_def script_simps store_simps postpone_def)

lemma promote_refines:
  "case promote_scheduled_lua R jobs zset queue i expected score d of
      (Inl e, d') \<Rightarrow> d' = d
    | (Inr n, d') \<Rightarrow> store_of R d' =
          promote jobs zset queue i (expected_payload expected) score (store_of R d)"
  by (auto simp: promote_scheduled_lua_def script_simps store_simps promote_def type_exclusive)

lemma recover_refines:
  "case resurrect_claim_lua R jobs proc queue i expected again d of
      (Inl e, d') \<Rightarrow> d' = d
    | (Inr n, d') \<Rightarrow> store_of R d' =
          recover jobs proc queue i (expected_payload expected) again (store_of R d)"
  by (cases "jobs = proc")
    (auto simp: resurrect_claim_lua_def script_simps store_simps recover_def type_exclusive)

end

end
