(* ===== verification/Enqueue_Script.thy ===== *)
theory Enqueue_Script
  imports Transitions
begin

text \<open>
  The script \<^verbatim>\<open>enqueue.lua\<close>: it validates the caller's snapshots, plans the writes of a
  chunk without writing, checks the type of every key the plan touches, and then commits.
  The abstract transition is the sequential one (enqueue the inputs one after the other);
  the lemmas show that planning ahead computes exactly that, and that the type check makes
  the script all or nothing even when queue names alias other keys.
\<close>

section \<open>Data\<close>

datatype comparison = Absent | Exact | Suffix | Prefix

record snapshot =
  snap_id :: string
  snap_cmp :: comparison
  snap_expected :: string
  snap_queue :: "string option"

datatype conflict_mode = CDefault | CSkip | CReplace

record enqueue_input =
  in_id :: string
  in_payload :: string
  in_queue :: string
  in_conflict :: conflict_mode
  in_score :: int

record planned_write =
  w_input :: enqueue_input
  w_old_queue :: "string option"
  w_replacing :: bool

section \<open>Snapshots\<close>

text \<open>
  \<^verbatim>\<open>string.sub(p, -#e)\<close> is the tail of the length of \<open>e\<close> (all of \<open>p\<close> when \<open>e\<close> is
  empty or longer), \<^verbatim>\<open>string.sub(p, 1, #e)\<close> the head.
\<close>

definition lua_actual :: "comparison \<Rightarrow> string \<Rightarrow> string option \<Rightarrow> string option" where
  "lua_actual c expected payload =
     (case payload of None \<Rightarrow> None
      | Some p \<Rightarrow> Some (case c of
            Suffix \<Rightarrow> if expected = [] then p else drop (length p - length expected) p
          | Prefix \<Rightarrow> take (length expected) p
          | _ \<Rightarrow> p))"

definition snapshot_matches :: "snapshot \<Rightarrow> string option \<Rightarrow> bool" where
  "snapshot_matches sn payload \<longleftrightarrow>
     lua_actual (snap_cmp sn) (snap_expected sn) payload =
       (if snap_cmp sn = Absent then None else Some (snap_expected sn))"

definition changed_snapshots ::
    "(string \<rightharpoonup> string) \<Rightarrow> snapshot list \<Rightarrow> (string \<times> string option) list" where
  "changed_snapshots payloads sns =
     map (\<lambda>sn. (snap_id sn, payloads (snap_id sn)))
       (filter (\<lambda>sn. \<not> snapshot_matches sn (payloads (snap_id sn))) sns)"

definition snapshot_present :: "(string \<rightharpoonup> string) \<Rightarrow> snapshot list \<Rightarrow> (string \<rightharpoonup> bool)" where
  "snapshot_present payloads sns = map_of (rev (map (\<lambda>sn. (snap_id sn, payloads (snap_id sn) \<noteq> None)) sns))"

definition snapshot_queues :: "snapshot list \<Rightarrow> (string \<rightharpoonup> string)" where
  "snapshot_queues sns i = (case map_of (rev (map (\<lambda>sn. (snap_id sn, snap_queue sn)) sns)) i of
     None \<Rightarrow> None | Some q \<Rightarrow> q)"

section \<open>Planning\<close>

text \<open>
  Whether an identifier exists by the time of an input: known from a snapshot or an earlier
  input of the chunk, else looked up (but not for an unconditional write), and remembered.
\<close>

definition known :: "(string \<rightharpoonup> string) \<Rightarrow> (string \<rightharpoonup> bool) \<Rightarrow> enqueue_input \<Rightarrow> bool" where
  "known payloads present x =
     (case present (in_id x) of
        Some b \<Rightarrow> b
      | None \<Rightarrow> in_conflict x \<noteq> CDefault \<and> payloads (in_id x) \<noteq> None)"

definition learn ::
    "(string \<rightharpoonup> string) \<Rightarrow> (string \<rightharpoonup> bool) \<Rightarrow> enqueue_input \<Rightarrow> (string \<rightharpoonup> bool)" where
  "learn payloads present x =
     (if present (in_id x) = None \<and> in_conflict x \<noteq> CDefault
      then present(in_id x \<mapsto> known payloads present x) else present)"

fun plan ::
    "(string \<rightharpoonup> string) \<Rightarrow> (string \<rightharpoonup> bool) \<Rightarrow> (string \<rightharpoonup> string) \<Rightarrow> enqueue_input list
       \<Rightarrow> planned_write list \<times> nat list" where
  "plan payloads present queues [] = ([], [])"
| "plan payloads present queues (x # xs) =
     (let exists = known payloads present x;
          present' = learn payloads present x
      in if in_conflict x = CSkip \<and> exists
         then (case plan payloads present' queues xs of (ws, os) \<Rightarrow> (ws, 0 # os))
         else
           let replacing = (in_conflict x = CReplace \<and> exists);
               w = \<lparr>w_input = x, w_old_queue = (if replacing then queues (in_id x) else None),
                    w_replacing = replacing\<rparr>
           in case plan payloads (present'(in_id x \<mapsto> True)) (queues(in_id x \<mapsto> in_queue x)) xs of
                (ws, os) \<Rightarrow> (w # ws, (if replacing then 2 else 1) # os))"

section \<open>Type check\<close>

text \<open>
  \<^verbatim>\<open>require_type\<close> remembers the type expected of each key, so that a key wanted as two
  different types is refused even while it does not exist yet.
\<close>

definition require_type ::
    "'d redis \<Rightarrow> 'd \<Rightarrow> (string \<rightharpoonup> rtype) \<Rightarrow> string \<Rightarrow> rtype \<Rightarrow> (string \<rightharpoonup> rtype) option" where
  "require_type R d M k ty =
     (case M k of
        Some t \<Rightarrow> if t = ty then Some M else None
      | None \<Rightarrow> if fits R d k ty then Some (M(k \<mapsto> ty)) else None)"

text \<open>
  The keys are checked in order. A replacement whose old queue is unknown would index a
  Lua table with nil, which aborts the script at that point.
\<close>

fun require_all ::
    "'d redis \<Rightarrow> 'd \<Rightarrow> (string \<rightharpoonup> rtype) \<Rightarrow> (string option \<times> rtype) list
       \<Rightarrow> oxana_error + (string \<rightharpoonup> rtype)" where
  "require_all R d M [] = Inr M"
| "require_all R d M ((None, ty) # kts) = Inl (DeadpoolRedisError OtherRedisError)"
| "require_all R d M ((Some k, ty) # kts) =
     (case require_type R d M k ty of None \<Rightarrow> Inl wrong_type | Some M' \<Rightarrow> require_all R d M' kts)"

definition required_keys ::
    "bool \<Rightarrow> string \<Rightarrow> string \<Rightarrow> planned_write \<Rightarrow> (string option \<times> rtype) list" where
  "required_keys scheduled schedule retry w =
     (if scheduled then [(Some schedule, TZset)] else [(Some (in_queue (w_input w)), TList)])
     @ (if w_replacing w
        then [(Some schedule, TZset), (Some retry, TZset), (w_old_queue w, TList),
              (Some (in_queue (w_input w)), TList)]
        else [])"

section \<open>Commit\<close>

definition commit_write ::
    "'d redis \<Rightarrow> string \<Rightarrow> string \<Rightarrow> string \<Rightarrow> bool \<Rightarrow> planned_write \<Rightarrow> ('d, unit) op" where
  "commit_write R jobs schedule retry scheduled w =
     (let x = w_input w; i = in_id x; new = in_queue x in
      seq (if w_replacing w
           then seq (zrem R schedule i)
               (seq (zrem R retry i)
                    (case w_old_queue w of
                       None \<Rightarrow> fail (DeadpoolRedisError OtherRedisError)
                     | Some old \<Rightarrow>
                         seq (lrem_all R old i)
                             (if old \<noteq> new then lrem_all R new i else return ())))
           else return ())
     (seq (hset R jobs i (in_payload x))
          (if scheduled then zadd R schedule i (in_score x) else lpush R new i)))"

text \<open>The whole script.\<close>

definition enqueue_lua ::
    "'d redis \<Rightarrow> string \<Rightarrow> string \<Rightarrow> string \<Rightarrow> bool \<Rightarrow> snapshot list \<Rightarrow> enqueue_input list
       \<Rightarrow> ('d, (string \<times> string option) list \<times> nat list) op" where
  "enqueue_lua R jobs schedule retry scheduled sns xs = (\<lambda>d.
     case require_type R d Map.empty jobs THash of
       None \<Rightarrow> (Inl wrong_type, d)
     | Some M \<Rightarrow>
         let payloads = r_hget R d jobs; changed = changed_snapshots payloads sns in
         if changed \<noteq> [] then (Inr (changed, []), d)
         else
           case plan payloads (snapshot_present payloads sns) (snapshot_queues sns) xs of
             (ws, outcomes) \<Rightarrow>
               (case require_all R d M (concat (map (required_keys scheduled schedule retry) ws)) of
                  Inl e \<Rightarrow> (Inl e, d)
                | Inr _ \<Rightarrow>
                    bind (for_each (commit_write R jobs schedule retry scheduled) ws)
                      (\<lambda>_. return ([], outcomes)) d))"

section \<open>The sequential transition\<close>

definition place ::
    "string \<Rightarrow> string \<Rightarrow> string \<Rightarrow> bool \<Rightarrow> string option \<Rightarrow> enqueue_input \<Rightarrow> store \<Rightarrow> store" where
  "place jobs schedule retry scheduled old x s =
     (let i = in_id x;
          s1 = (case old of None \<Rightarrow> s
                | Some q \<Rightarrow> map_list (in_queue x) (removeAll i) (map_list q (removeAll i)
                     (put_zset retry i None (put_zset schedule i None s))));
          s2 = put_hash jobs i (Some (in_payload x)) s1
      in if scheduled then put_zset schedule i (Some (in_score x)) s2
         else map_list (in_queue x) ((#) i) s2)"

fun enqueue_seq ::
    "string \<Rightarrow> string \<Rightarrow> string \<Rightarrow> bool \<Rightarrow> (string \<rightharpoonup> string) \<Rightarrow> enqueue_input list \<Rightarrow> store
       \<Rightarrow> store \<times> nat list" where
  "enqueue_seq jobs schedule retry scheduled queues [] s = (s, [])"
| "enqueue_seq jobs schedule retry scheduled queues (x # xs) s =
     (let i = in_id x; exists = (hashes s jobs i \<noteq> None) in
      if in_conflict x = CSkip \<and> exists
      then (case enqueue_seq jobs schedule retry scheduled queues xs s of (s', os) \<Rightarrow> (s', 0 # os))
      else
        let replacing = (in_conflict x = CReplace \<and> exists);
            s1 = place jobs schedule retry scheduled (if replacing then queues i else None) x s
        in case enqueue_seq jobs schedule retry scheduled (queues(i \<mapsto> in_queue x)) xs s1 of
             (s', os) \<Rightarrow> (s', (if replacing then 2 else 1) # os))"

lemma place_hashes:
  "hashes (place jobs schedule retry scheduled old x s) =
     (hashes s)(jobs := (hashes s jobs)(in_id x \<mapsto> in_payload x))"
  by (simp add: place_def Let_def store_updates split: option.splits)

text \<open>
  Planning against the payloads at the start and committing afterwards is the sequential
  transition: \<open>present\<close> tracks which identifiers exist by then.
\<close>

definition tracks :: "(string \<rightharpoonup> string) \<Rightarrow> (string \<rightharpoonup> string) \<Rightarrow> (string \<rightharpoonup> bool) \<Rightarrow> bool" where
  "tracks payloads current present \<longleftrightarrow>
     (\<forall>i. case present i of Some b \<Rightarrow> b = (current i \<noteq> None) | None \<Rightarrow> current i = payloads i)"

lemma tracks_Some: "tracks payloads current present \<Longrightarrow> present i = Some b \<Longrightarrow> b = (current i \<noteq> None)"
  and tracks_None: "tracks payloads current present \<Longrightarrow> present i = None \<Longrightarrow> current i = payloads i"
  by (auto simp: tracks_def dest: spec [of _ i])

lemma tracksI:
  "\<lbrakk>\<And>i b. present i = Some b \<Longrightarrow> b = (current i \<noteq> None);
    \<And>i. present i = None \<Longrightarrow> current i = payloads i\<rbrakk> \<Longrightarrow> tracks payloads current present"
  by (simp add: tracks_def split: option.split)

lemma known_tracks:
  "tracks payloads current present \<Longrightarrow> in_conflict x \<noteq> CDefault \<Longrightarrow>
     known payloads present x \<longleftrightarrow> current (in_id x) \<noteq> None"
  using tracks_Some [of payloads current present "in_id x"]
    tracks_None [of payloads current present "in_id x"]
  by (cases "present (in_id x)") (simp_all add: known_def)

lemma learn_tracks:
  assumes "tracks payloads current present"
  shows "tracks payloads current (learn payloads present x)"
proof (rule tracksI)
  fix i b
  assume "learn payloads present x i = Some b"
  then show "b = (current i \<noteq> None)"
    using known_tracks [OF assms, of x] tracks_Some [OF assms, of i b]
    by (auto simp: learn_def split: if_splits)
next
  fix i
  assume "learn payloads present x i = None"
  then show "current i = payloads i"
    using tracks_None [OF assms, of i] by (auto simp: learn_def split: if_splits)
qed

lemma write_tracks:
  assumes "tracks payloads current present"
  shows "tracks payloads (current(i \<mapsto> v)) (present(i \<mapsto> True))"
proof (rule tracksI)
  fix j b
  assume "(present(i \<mapsto> True)) j = Some b"
  then show "b = ((current(i \<mapsto> v)) j \<noteq> None)"
    using tracks_Some [OF assms, of j b] by (cases "j = i") simp_all
next
  fix j
  assume "(present(i \<mapsto> True)) j = None"
  then show "(current(i \<mapsto> v)) j = payloads j"
    using tracks_None [OF assms, of j] by (cases "j = i") simp_all
qed

lemma plan_sequential:
  assumes "tracks payloads (hashes s jobs) present"
  shows "(fold (\<lambda>w. place jobs schedule retry scheduled (w_old_queue w) (w_input w))
            (fst (plan payloads present queues xs)) s,
          snd (plan payloads present queues xs)) =
         enqueue_seq jobs schedule retry scheduled queues xs s"
  using assms
proof (induction xs arbitrary: present queues s)
  case Nil
  then show ?case by simp
next
  case (Cons x xs)
  let ?ex = "known payloads present x"
  let ?p = "learn payloads present x"
  let ?r = "in_conflict x = CReplace \<and> ?ex"
  have skip: "in_conflict x = CSkip \<and> ?ex \<longleftrightarrow> in_conflict x = CSkip \<and> hashes s jobs (in_id x) \<noteq> None"
    and repl: "?r \<longleftrightarrow> in_conflict x = CReplace \<and> hashes s jobs (in_id x) \<noteq> None"
    using known_tracks [OF Cons.prems, of x] by auto
  show ?case
  proof (cases "in_conflict x = CSkip \<and> ?ex")
    case True
    obtain ws os where p: "plan payloads ?p queues xs = (ws, os)" by (cases "plan payloads ?p queues xs")
    with Cons.IH [OF learn_tracks [OF Cons.prems], of x queues]
    have "(fold (\<lambda>w. place jobs schedule retry scheduled (w_old_queue w) (w_input w)) ws s, os) =
        enqueue_seq jobs schedule retry scheduled queues xs s" by simp
    from this [symmetric] True skip p show ?thesis by simp
  next
    case False
    let ?old = "if ?r then queues (in_id x) else None"
    let ?s = "place jobs schedule retry scheduled ?old x s"
    let ?q = "queues(in_id x \<mapsto> in_queue x)"
    obtain ws os where p: "plan payloads (?p(in_id x \<mapsto> True)) ?q xs = (ws, os)"
      by (cases "plan payloads (?p(in_id x \<mapsto> True)) ?q xs")
    have "tracks payloads (hashes ?s jobs) (?p(in_id x \<mapsto> True))"
      using write_tracks [OF learn_tracks [OF Cons.prems]] by (simp add: place_hashes)
    from Cons.IH [OF this, of ?q]
    have ih: "enqueue_seq jobs schedule retry scheduled ?q xs ?s =
        (fold (\<lambda>w. place jobs schedule retry scheduled (w_old_queue w) (w_input w)) ws ?s, os)"
      by (simp only: p fst_conv snd_conv)
    have "plan payloads present queues (x # xs) =
        (\<lparr>w_input = x, w_old_queue = ?old, w_replacing = ?r\<rparr> # ws, (if ?r then 2 else 1) # os)"
      using False p by (simp only: plan.simps Let_def if_False prod.case)
    moreover have "enqueue_seq jobs schedule retry scheduled queues (x # xs) s =
        (fold (\<lambda>w. place jobs schedule retry scheduled (w_old_queue w) (w_input w)) ws ?s,
         (if ?r then 2 else 1) # os)"
      using False ih by (simp only: enqueue_seq.simps Let_def skip [symmetric] repl [symmetric] if_False prod.case)
    ultimately show ?thesis by simp
  qed
qed

lemma plan_cleanup_only_replacing:
  "w \<in> set (fst (plan payloads present queues xs)) \<Longrightarrow> \<not> w_replacing w \<Longrightarrow> w_old_queue w = None"
  by (induction xs arbitrary: present queues)
    (auto simp: Let_def case_prod_beta split: if_splits)

lemma snapshot_present_tracks: "tracks payloads payloads (snapshot_present payloads sns)"
proof (rule tracksI)
  fix i b
  assume "snapshot_present payloads sns i = Some b"
  from map_of_SomeD [OF this [unfolded snapshot_present_def]] show "b = (payloads i \<noteq> None)" by auto
qed simp

section \<open>All or nothing\<close>

text \<open>
  The check leaves a memo in which every key it looked at has one type that fits it. Every
  write of the commit goes to a key at the memo's type, so it succeeds and keeps the memo
  true for the writes that follow.
\<close>

definition memo_ok :: "'d redis \<Rightarrow> 'd \<Rightarrow> (string \<rightharpoonup> rtype) \<Rightarrow> bool" where
  "memo_ok R d M \<longleftrightarrow> (\<forall>k ty. M k = Some ty \<longrightarrow> fits R d k ty)"

lemma memo_okD: "memo_ok R d M \<Longrightarrow> M k = Some ty \<Longrightarrow> fits R d k ty"
  by (simp add: memo_ok_def)

lemma require_all_ok:
  assumes "require_all R d M kts = Inr M'" "memo_ok R d M"
  shows "memo_ok R d M' \<and> M \<subseteq>\<^sub>m M' \<and> (\<forall>(ko, ty) \<in> set kts. \<exists>k. ko = Some k \<and> M' k = Some ty)"
  using assms
proof (induction R d M kts rule: require_all.induct)
  case (1 R d M)
  then show ?case by simp
next
  case (2 R d M ty kts)
  then show ?case by simp
next
  case (3 R d M k ty kts)
  from "3.prems"(1) obtain M1 where M1: "require_type R d M k ty = Some M1" "require_all R d M1 kts = Inr M'"
    by (auto split: option.splits)
  then have m1: "memo_ok R d M1" "M1 k = Some ty" "M \<subseteq>\<^sub>m M1"
    using "3.prems"(2) by (auto simp: require_type_def memo_ok_def map_le_def split: option.splits if_splits)
  with "3.IH" [OF M1] show ?case
    by (auto simp: map_le_def dom_def intro: map_le_trans)
qed

text \<open>
  A command \<open>runs_to\<close> an abstract update when, at every state the memo is true of, it
  succeeds, performs the update and leaves the memo true.
\<close>

definition runs_to :: "'d redis \<Rightarrow> (string \<rightharpoonup> rtype) \<Rightarrow> ('d, unit) op \<Rightarrow> (store \<Rightarrow> store) \<Rightarrow> bool" where
  "runs_to R M m f \<longleftrightarrow> (\<forall>d. memo_ok R d M \<longrightarrow>
     (\<exists>d'. m d = (Inr (), d') \<and> memo_ok R d' M \<and> store_of R d' = f (store_of R d)))"

lemma runs_toD:
  assumes "runs_to R M m f" "memo_ok R d M"
  obtains d' where "m d = (Inr (), d')" "memo_ok R d' M" "store_of R d' = f (store_of R d)"
  using assms by (auto simp: runs_to_def)

lemma runs_to_return: "runs_to R M (return ()) id"
  by (simp add: runs_to_def)

lemma runs_to_seq: "runs_to R M m f \<Longrightarrow> runs_to R M n g \<Longrightarrow> runs_to R M (seq m n) (g \<circ> f)"
  by (fastforce simp: runs_to_def seq_def bind_def)

lemma runs_to_for_each:
  "(\<And>x. x \<in> set xs \<Longrightarrow> runs_to R M (c x) (f x)) \<Longrightarrow> runs_to R M (for_each c xs) (fold f xs)"
  by (induction xs) (auto simp: runs_to_return [unfolded id_def] intro: runs_to_return runs_to_seq)

context redis_server
begin

lemma memo_ok_writes:
  assumes "memo_ok R d M"
  shows "M k = Some THash \<Longrightarrow> memo_ok R (r_hset R d k f v) M"
    and "M k = Some TList \<Longrightarrow> memo_ok R (r_lpush R d k v) M"
    and "M k = Some TList \<Longrightarrow> memo_ok R (r_lrem R d k v) M"
    and "M k = Some TZset \<Longrightarrow> memo_ok R (r_zadd R d k v n) M"
    and "M k = Some TZset \<Longrightarrow> memo_ok R (r_zrem R d k v) M"
proof -
  show "memo_ok R (r_hset R d k f v) M" if "M k = Some THash"
    using assms that memo_okD [OF assms that] by (auto simp: memo_ok_def fits_simps)
  show "memo_ok R (r_lpush R d k v) M" if "M k = Some TList"
    using assms that memo_okD [OF assms that] by (auto simp: memo_ok_def fits_simps)
  show "memo_ok R (r_lrem R d k v) M" if "M k = Some TList"
    using assms that memo_okD [OF assms that] by (auto simp: memo_ok_def)
      (metis fits_lrem option.inject)
  show "memo_ok R (r_zadd R d k v n) M" if "M k = Some TZset"
    using assms that memo_okD [OF assms that] by (auto simp: memo_ok_def fits_simps)
  show "memo_ok R (r_zrem R d k v) M" if "M k = Some TZset"
    using assms that memo_okD [OF assms that] by (auto simp: memo_ok_def)
      (metis fits_zrem option.inject)
qed

lemma runs_to_commands:
  "M k = Some THash \<Longrightarrow> runs_to R M (hset R k f v) (put_hash k f (Some v))"
  "M k = Some TList \<Longrightarrow> runs_to R M (lpush R k v) (map_list k ((#) v))"
  "M k = Some TList \<Longrightarrow> runs_to R M (lrem_all R k v) (map_list k (removeAll v))"
  "M k = Some TZset \<Longrightarrow> runs_to R M (zadd R k v n) (put_zset k v (Some n))"
  "M k = Some TZset \<Longrightarrow> runs_to R M (zrem R k v) (put_zset k v None)"
  by (simp_all add: runs_to_def redis_defs memo_okD memo_ok_writes store_simps)

lemma commit_write_runs:
  assumes "M jobs = Some THash"
    and "\<And>ko ty. (ko, ty) \<in> set (required_keys scheduled schedule retry w) \<Longrightarrow> \<exists>k. ko = Some k \<and> M k = Some ty"
    and "\<not> w_replacing w \<Longrightarrow> w_old_queue w = None"
  shows "runs_to R M (commit_write R jobs schedule retry scheduled w)
    (place jobs schedule retry scheduled (w_old_queue w) (w_input w))"
proof -
  let ?x = "w_input w"
  let ?i = "in_id ?x"
  let ?clean = "case w_old_queue w of None \<Rightarrow> id
      | Some q \<Rightarrow> map_list (in_queue ?x) (removeAll ?i) \<circ> map_list q (removeAll ?i)
          \<circ> put_zset retry ?i None \<circ> put_zset schedule ?i None"
  let ?put = "if scheduled then put_zset schedule ?i (Some (in_score ?x)) else map_list (in_queue ?x) ((#) ?i)"
  have same: "map_list q (removeAll i) \<circ> map_list q (removeAll i) = map_list q (removeAll i)" for q i
    by (simp add: fun_eq_iff map_list_def)
  have clean: "runs_to R M (if w_replacing w
           then seq (zrem R schedule ?i) (seq (zrem R retry ?i)
                  (case w_old_queue w of None \<Rightarrow> fail (DeadpoolRedisError OtherRedisError)
                   | Some old \<Rightarrow> seq (lrem_all R old ?i)
                       (if old \<noteq> in_queue ?x then lrem_all R (in_queue ?x) ?i else return ())))
           else return ()) ?clean"
  proof (cases "w_replacing w")
    case True
    then have "(w_old_queue w, TList) \<in> set (required_keys scheduled schedule retry w)"
        "(Some (in_queue ?x), TList) \<in> set (required_keys scheduled schedule retry w)"
        "(Some schedule, TZset) \<in> set (required_keys scheduled schedule retry w)"
        "(Some retry, TZset) \<in> set (required_keys scheduled schedule retry w)"
      by (simp_all add: required_keys_def)
    from this [THEN assms(2)] obtain old where old: "w_old_queue w = Some old" "M old = Some TList"
        "M (in_queue ?x) = Some TList" "M schedule = Some TZset" "M retry = Some TZset"
      by auto
    have "runs_to R M (seq (lrem_all R old ?i)
        (if old \<noteq> in_queue ?x then lrem_all R (in_queue ?x) ?i else return ()))
        (map_list (in_queue ?x) (removeAll ?i) \<circ> map_list old (removeAll ?i))"
    proof (cases "old = in_queue ?x")
      case True
      with runs_to_seq [OF runs_to_commands(3) [of M _ ?i, OF old(2)] runs_to_return] show ?thesis
        by (simp add: same)
    next
      case False
      with runs_to_seq [OF runs_to_commands(3) [of M _ ?i, OF old(2)] runs_to_commands(3) [of M _ ?i, OF old(3)]]
      show ?thesis by simp
    qed
    from runs_to_seq [OF runs_to_commands(5) [of M _ ?i, OF old(4)]
        runs_to_seq [OF runs_to_commands(5) [of M _ ?i, OF old(5)] this]]
    show ?thesis using True old(1) by (simp add: comp_assoc)
  next
    case False
    with assms(3) show ?thesis by (simp add: runs_to_return)
  qed
  have put: "runs_to R M (if scheduled then zadd R schedule ?i (in_score ?x) else lpush R (in_queue ?x) ?i) ?put"
    using assms(2) [of "Some schedule" TZset] assms(2) [of "Some (in_queue ?x)" TList]
    by (auto simp: required_keys_def intro!: runs_to_commands)
  have "place jobs schedule retry scheduled (w_old_queue w) ?x =
      (?put \<circ> put_hash jobs ?i (Some (in_payload ?x))) \<circ> ?clean"
    by (auto simp: fun_eq_iff place_def Let_def split: option.split)
  with runs_to_seq [OF clean runs_to_seq [OF runs_to_commands(1) [of M, OF assms(1)] put]]
  show ?thesis by (simp add: commit_write_def Let_def)
qed

theorem enqueue_refines:
  "case enqueue_lua R jobs schedule retry scheduled sns xs d of
      (Inl e, d') \<Rightarrow> d' = d
    | (Inr (changed, outcomes), d') \<Rightarrow>
        changed = changed_snapshots (r_hget R d jobs) sns \<and>
        (if changed \<noteq> [] then d' = d \<and> outcomes = []
         else (store_of R d', outcomes) =
           enqueue_seq jobs schedule retry scheduled (snapshot_queues sns) xs (store_of R d))"
proof (cases "fits R d jobs THash \<and> changed_snapshots (r_hget R d jobs) sns = []")
  case False
  then show ?thesis by (auto simp: enqueue_lua_def require_type_def Let_def)
next
  case True
  let ?p = "plan (r_hget R d jobs) (snapshot_present (r_hget R d jobs) sns) (snapshot_queues sns) xs"
  let ?kts = "concat (map (required_keys scheduled schedule retry) (fst ?p))"
  obtain ws outcomes where p: "?p = (ws, outcomes)" by (cases ?p)
  have M: "require_type R d Map.empty jobs THash = Some [jobs \<mapsto> THash]" "memo_ok R d [jobs \<mapsto> THash]"
    using True by (auto simp: require_type_def memo_ok_def)
  show ?thesis
  proof (cases "require_all R d [jobs \<mapsto> THash] ?kts")
    case (Inl e)
    with True M(1) p show ?thesis by (simp add: enqueue_lua_def)
  next
    case (Inr M')
    from require_all_ok [OF Inr M(2)] have M': "memo_ok R d M'" "M' jobs = Some THash"
        "\<And>ko ty. (ko, ty) \<in> set ?kts \<Longrightarrow> \<exists>k. ko = Some k \<and> M' k = Some ty"
      by (auto simp: map_le_def)
    have "runs_to R M' (commit_write R jobs schedule retry scheduled w)
        (place jobs schedule retry scheduled (w_old_queue w) (w_input w))" if "w \<in> set ws" for w
    proof (rule commit_write_runs [of M', OF M'(2)])
      fix ko ty
      assume "(ko, ty) \<in> set (required_keys scheduled schedule retry w)"
      with that p show "\<exists>k. ko = Some k \<and> M' k = Some ty" by (intro M'(3)) auto
    next
      assume "\<not> w_replacing w"
      with that p show "w_old_queue w = None"
        using plan_cleanup_only_replacing [of w "r_hget R d jobs"
            "snapshot_present (r_hget R d jobs) sns" "snapshot_queues sns" xs] by simp
    qed
    then have "runs_to R M' (for_each (commit_write R jobs schedule retry scheduled) ws)
        (fold (\<lambda>w. place jobs schedule retry scheduled (w_old_queue w) (w_input w)) ws)"
      by (rule runs_to_for_each)
    from runs_toD [OF this M'(1)] obtain d' where d':
      "for_each (commit_write R jobs schedule retry scheduled) ws d = (Inr (), d')"
      "store_of R d' = fold (\<lambda>w. place jobs schedule retry scheduled (w_old_queue w) (w_input w)) ws (store_of R d)"
      by blast
    have "(store_of R d', outcomes) =
        enqueue_seq jobs schedule retry scheduled (snapshot_queues sns) xs (store_of R d)"
      using plan_sequential [of "r_hget R d jobs" "store_of R d" jobs "snapshot_present (r_hget R d jobs) sns"
          schedule retry scheduled "snapshot_queues sns" xs] snapshot_present_tracks
      by (simp only: p d'(2) fst_conv snd_conv store_of_sel)
    with True M(1) p Inr d'(1) show ?thesis by (simp add: enqueue_lua_def bind_def)
  qed
qed

end

end
