(* ===== verification/Json.thy ===== *)
theory Json
  imports Prelude
begin

text \<open>
  The JSON values of \<^verbatim>\<open>serde_json\<close> and the text codec. The codec is a third-party package,
  so it is a parameter: a printer and a parser, of which the code relies only on parsing
  what was printed (the locale \<open>json_codec\<close>). The last section interprets the locale on a
  length-prefixed encoding, on which the witnesses run.
\<close>

section \<open>Values\<close>

datatype json =
    JNull
  | JBool bool
  | JInt int
  | JFloat string
  | JStr string
  | JArr "json list"
  | JObj "(string \<times> json) list"

definition json_field :: "json \<Rightarrow> string \<Rightarrow> json option" where
  "json_field j k = (case j of JObj kvs \<Rightarrow> map_of kvs k | _ \<Rightarrow> None)"

section \<open>The codec\<close>

text \<open>
  \<open>jfloat\<close> says which texts are float literals as the printer writes them. \<open>jraw_field\<close> is
  \<^verbatim>\<open>RawValue\<close>: where the value of a field of the root object starts in the text, and its
  text.
\<close>

record codec =
  jprint :: "json \<Rightarrow> string"
  jparse :: "string \<Rightarrow> json option"
  jfloat :: "string \<Rightarrow> bool"
  jraw_field :: "string \<Rightarrow> string \<Rightarrow> (nat \<times> string) option"

text \<open>
  The values \<^verbatim>\<open>serde_json\<close> can hold: object keys are distinct, integers fit \<^verbatim>\<open>i64\<close> or
  \<^verbatim>\<open>u64\<close>.
\<close>

fun json_wf :: "(string \<Rightarrow> bool) \<Rightarrow> json \<Rightarrow> bool" where
  "json_wf F (JInt i) = (- 9223372036854775808 \<le> i \<and> i \<le> 18446744073709551615)"
| "json_wf F (JFloat s) = F s"
| "json_wf F (JArr xs) = list_all (json_wf F) xs"
| "json_wf F (JObj kvs) = (distinct (map fst kvs) \<and> list_all (\<lambda>kv. json_wf F (snd kv)) kvs)"
| "json_wf F j = True"

abbreviation json_ok :: "codec \<Rightarrow> json \<Rightarrow> bool" where
  "json_ok C \<equiv> json_wf (jfloat C)"

locale json_codec =
  fixes C :: codec
  assumes parse_print: "json_ok C j \<Longrightarrow> jparse C (jprint C j) = Some j"
    and print_nonempty: "jprint C j \<noteq> []"
    and parse_empty: "jparse C [] = None"
    and parse_ok: "jparse C s = Some j \<Longrightarrow> json_ok C j"
    and raw_field: "json_ok C (JObj kvs) \<Longrightarrow> map_of kvs k = Some v \<Longrightarrow>
      \<exists>off. jraw_field C (jprint C (JObj kvs)) k = Some (off, jprint C v)"
begin

lemma print_inject: "json_ok C i \<Longrightarrow> json_ok C j \<Longrightarrow> jprint C i = jprint C j \<longleftrightarrow> i = j"
  by (metis option.inject parse_print)

end

section \<open>A length-prefixed codec\<close>

definition enc_str :: "string \<Rightarrow> string" where
  "enc_str s = show_nat (length s) @ CHR '':'' # s"

definition dec_str :: "string \<Rightarrow> (string \<times> string) option" where
  "dec_str s = (case split_once (CHR '':'') s of None \<Rightarrow> None
     | Some (n, r) \<Rightarrow> (case parse_digits 0 n of None \<Rightarrow> None
         | Some l \<Rightarrow> if l \<le> length r then Some (take l r, drop l r) else None))"

fun enc_json :: "json \<Rightarrow> string" where
  "enc_json JNull = ''n''"
| "enc_json (JBool b) = (if b then ''t'' else ''f'')"
| "enc_json (JInt i) = (if i < 0 then ''-'' else ''+'') @ enc_str (show_nat (nat \<bar>i\<bar>))"
| "enc_json (JFloat s) = CHR ''d'' # enc_str s"
| "enc_json (JStr s) = CHR ''s'' # enc_str s"
| "enc_json (JArr xs) = CHR ''a'' # concat (map (\<lambda>x. CHR '','' # enc_json x) xs) @ ''e''"
| "enc_json (JObj kvs) =
     CHR ''o'' # concat (map (\<lambda>(k, v). CHR '','' # enc_str k @ enc_json v) kvs) @ ''e''"

fun dec_json :: "nat \<Rightarrow> string \<Rightarrow> (json \<times> string) option"
  and dec_arr :: "nat \<Rightarrow> string \<Rightarrow> (json list \<times> string) option"
  and dec_obj :: "nat \<Rightarrow> string \<Rightarrow> ((string \<times> json) list \<times> string) option" where
  "dec_json 0 s = None"
| "dec_json (Suc n) s =
     (case s of [] \<Rightarrow> None
      | c # r \<Rightarrow>
          if c = CHR ''n'' then Some (JNull, r)
          else if c = CHR ''t'' then Some (JBool True, r)
          else if c = CHR ''f'' then Some (JBool False, r)
          else if c = CHR ''+'' then
            (case dec_str r of None \<Rightarrow> None | Some (x, r') \<Rightarrow>
               (case parse_digits 0 x of None \<Rightarrow> None | Some i \<Rightarrow> Some (JInt (int i), r')))
          else if c = CHR ''-'' then
            (case dec_str r of None \<Rightarrow> None | Some (x, r') \<Rightarrow>
               (case parse_digits 0 x of None \<Rightarrow> None | Some i \<Rightarrow> Some (JInt (- int i), r')))
          else if c = CHR ''d'' then map_option (\<lambda>(x, r'). (JFloat x, r')) (dec_str r)
          else if c = CHR ''s'' then map_option (\<lambda>(x, r'). (JStr x, r')) (dec_str r)
          else if c = CHR ''a'' then map_option (\<lambda>(x, r'). (JArr x, r')) (dec_arr n r)
          else if c = CHR ''o'' then map_option (\<lambda>(x, r'). (JObj x, r')) (dec_obj n r)
          else None)"
| "dec_arr 0 s = None"
| "dec_arr (Suc n) s =
     (case s of [] \<Rightarrow> None
      | c # r \<Rightarrow>
          if c = CHR ''e'' then Some ([], r)
          else (case dec_json n r of None \<Rightarrow> None
            | Some (v, r') \<Rightarrow> map_option (\<lambda>(vs, r''). (v # vs, r'')) (dec_arr n r')))"
| "dec_obj 0 s = None"
| "dec_obj (Suc n) s =
     (case s of [] \<Rightarrow> None
      | c # r \<Rightarrow>
          if c = CHR ''e'' then Some ([], r)
          else (case dec_str r of None \<Rightarrow> None
            | Some (k, r1) \<Rightarrow> (case dec_json n r1 of None \<Rightarrow> None
                | Some (v, r2) \<Rightarrow> map_option (\<lambda>(vs, r3). ((k, v) # vs, r3)) (dec_obj n r2))))"

definition net_parse :: "string \<Rightarrow> json option" where
  "net_parse s = (case dec_json (length s) s of
      Some (j, []) \<Rightarrow> if json_wf (\<lambda>_. True) j then Some j else None
    | _ \<Rightarrow> None)"

fun net_offset :: "nat \<Rightarrow> (string \<times> json) list \<Rightarrow> string \<Rightarrow> (nat \<times> string) option" where
  "net_offset n [] k = None"
| "net_offset n ((k', v) # kvs) k =
     (if k' = k then Some (n + 1 + length (enc_str k), enc_json v)
      else net_offset (n + length (CHR '','' # enc_str k' @ enc_json v)) kvs k)"

definition netstring_codec :: codec where
  "netstring_codec = \<lparr>jprint = enc_json, jparse = net_parse, jfloat = (\<lambda>_. True),
     jraw_field = (\<lambda>s k. case net_parse s of Some (JObj kvs) \<Rightarrow> net_offset 1 kvs k | _ \<Rightarrow> None)\<rparr>"

lemma dec_enc_str: "dec_str (enc_str s @ r) = Some (s, r)"
  using split_once_notin [OF show_nat_no_colon, of "length s" "s @ r"]
  by (simp add: dec_str_def enc_str_def parse_digits_show_nat)

lemma dec_arr_enc:
  assumes "\<And>x n r. x \<in> set xs \<Longrightarrow> length (enc_json x) \<le> n \<Longrightarrow> dec_json n (enc_json x @ r) = Some (x, r)"
    and "length (concat (map (\<lambda>x. CHR '','' # enc_json x) xs)) + 1 \<le> n"
  shows "dec_arr n (concat (map (\<lambda>x. CHR '','' # enc_json x) xs) @ CHR ''e'' # r) = Some (xs, r)"
  using assms
proof (induction xs arbitrary: n)
  case Nil
  then show ?case by (cases n) auto
next
  case (Cons x xs)
  then obtain m where n: "n = Suc m" by (cases n) auto
  have "dec_json m (enc_json x @ concat (map (\<lambda>x. CHR '','' # enc_json x) xs) @ CHR ''e'' # r) =
      Some (x, concat (map (\<lambda>x. CHR '','' # enc_json x) xs) @ CHR ''e'' # r)"
    by (rule Cons.prems(1)) (use Cons.prems(2) n in auto)
  moreover have "dec_arr m (concat (map (\<lambda>x. CHR '','' # enc_json x) xs) @ CHR ''e'' # r) = Some (xs, r)"
    by (rule Cons.IH) (use Cons.prems n in auto)
  ultimately show ?case by (simp add: n)
qed

lemma dec_obj_enc:
  assumes "\<And>k v n r. (k, v) \<in> set kvs \<Longrightarrow> length (enc_json v) \<le> n \<Longrightarrow>
      dec_json n (enc_json v @ r) = Some (v, r)"
    and "length (concat (map (\<lambda>(k, v). CHR '','' # enc_str k @ enc_json v) kvs)) + 1 \<le> n"
  shows "dec_obj n (concat (map (\<lambda>(k, v). CHR '','' # enc_str k @ enc_json v) kvs) @ CHR ''e'' # r) =
    Some (kvs, r)"
  using assms
proof (induction kvs arbitrary: n)
  case Nil
  then show ?case by (cases n) auto
next
  case (Cons kv kvs)
  obtain k v where kv: "kv = (k, v)" by (cases kv)
  obtain m where n: "n = Suc m" using Cons.prems(2) by (cases n) auto
  let ?rest = "concat (map (\<lambda>(k, v). CHR '','' # enc_str k @ enc_json v) kvs) @ CHR ''e'' # r"
  have "dec_json m (enc_json v @ ?rest) = Some (v, ?rest)"
    by (rule Cons.prems(1) [of k]) (use Cons.prems(2) n kv in auto)
  moreover have "dec_obj m ?rest = Some (kvs, r)"
    by (rule Cons.IH) (use Cons.prems n kv in auto)
  moreover have "dec_str (enc_str k @ enc_json v @ ?rest) = Some (k, enc_json v @ ?rest)"
    by (rule dec_enc_str)
  ultimately show ?case by (simp add: n kv)
qed

lemma dec_enc_json: "length (enc_json j) \<le> n \<Longrightarrow> dec_json n (enc_json j @ r) = Some (j, r)"
proof (induction j arbitrary: n r rule: json.induct)
  case JNull
  then show ?case by (cases n) simp_all
next
  case (JBool b)
  then show ?case by (cases n; cases b) simp_all
next
  case (JInt i)
  then obtain m where n: "n = Suc m" by (cases n) (simp_all split: if_splits)
  show ?case
    by (cases "i < 0") (simp_all add: n dec_enc_str parse_digits_show_nat)
next
  case (JFloat s)
  then show ?case by (cases n) (simp_all add: dec_enc_str)
next
  case (JStr s)
  then show ?case by (cases n) (simp_all add: dec_enc_str)
next
  case (JArr xs)
  then obtain m where n: "n = Suc m" by (cases n) simp_all
  have "dec_arr m (concat (map (\<lambda>x. CHR '','' # enc_json x) xs) @ CHR ''e'' # r) = Some (xs, r)"
    by (rule dec_arr_enc) (use JArr n in simp_all)
  then show ?case by (simp add: n)
next
  case (JObj kvs)
  then obtain m where n: "n = Suc m" by (cases n) simp_all
  have "dec_obj m (concat (map (\<lambda>(k, v). CHR '','' # enc_str k @ enc_json v) kvs) @ CHR ''e'' # r) =
      Some (kvs, r)"
  proof (rule dec_obj_enc)
    show "dec_json n' (enc_json v @ r') = Some (v, r')"
      if "(k, v) \<in> set kvs" "length (enc_json v) \<le> n'" for k v n' r'
      using JObj.IH [OF that(1), of v n' r'] that(2) by simp
  qed (use JObj.prems n in simp)
  then show ?case by (simp add: n)
qed

lemma enc_json_nonempty: "enc_json j \<noteq> []"
  by (cases j) auto

lemma net_parse_enc: "json_wf (\<lambda>_. True) j \<Longrightarrow> net_parse (enc_json j) = Some j"
  using dec_enc_json [of j "length (enc_json j)" "[]"] by (simp add: net_parse_def)

lemma net_parse_Nil: "net_parse [] = None"
  by (simp add: net_parse_def)

lemma net_parse_wf: "net_parse s = Some j \<Longrightarrow> json_wf (\<lambda>_. True) j"
  by (auto simp: net_parse_def split: option.splits list.splits if_splits)

lemma net_offset_value: "map_of kvs k = Some v \<Longrightarrow> \<exists>off. net_offset n kvs k = Some (off, enc_json v)"
  by (induction kvs arbitrary: n) (auto split: if_splits)

interpretation net: json_codec netstring_codec
  by unfold_locales
    (simp_all add: netstring_codec_def net_parse_enc net_parse_Nil net_parse_wf enc_json_nonempty net_offset_value
      del: enc_json.simps)

end
