(* ===== verification/Job_Envelope.thy ===== *)
theory Job_Envelope
  imports Json
begin

text \<open>
  Jobs and their envelopes: \<^verbatim>\<open>oxana/src/job_envelope.rs\<close>. A job type is user code behind the
  \<^verbatim>\<open>Job\<close> trait of \<^verbatim>\<open>worker.rs\<close>; the record \<open>job\<close> holds what its methods return. The clock
  and the UUID generator are arguments. The serialised form follows the serde attributes
  of the structs.
\<close>

section \<open>Data\<close>

type_synonym job_id = string

datatype conflict_strategy = Skip | Replace

record job_data =
  job_data_name :: string
  job_data_args :: json

record job_meta =
  meta_id :: job_id
  on_demand :: "bool option"
  retries :: "32 word"
  unique :: bool
  on_conflict :: "conflict_strategy option"
  created_at :: int
  scheduled_at :: int
  started_at :: "int option"
  state :: "json option"
  resurrect :: bool
  error :: "string option"
  throttle_cost :: "64 word option"

record job_envelope =
  env_id :: job_id
  env_job :: job_data
  env_queue :: string
  env_meta :: job_meta

text \<open>What the methods of the \<^verbatim>\<open>Job\<close> trait return for one job value.\<close>

record job =
  job_name :: string
  unique_id :: "string option"
  job_on_conflict :: conflict_strategy
  should_resurrect :: bool
  job_throttle_cost :: "64 word option"
  job_args :: "oxana_error + json"

section \<open>Operations\<close>

definition unique_job_id :: "job \<Rightarrow> job_id option" where
  "unique_job_id j = map_option (\<lambda>u. job_name j @ ''/'' @ u) (unique_id j)"

text \<open>
  \<^verbatim>\<open>JobEnvelope::new\<close>: \<open>uuid\<close> is the generated identifier, \<open>now1\<close> and \<open>now2\<close> the two
  readings of the clock.
\<close>

definition envelope_new ::
    "string \<Rightarrow> int \<Rightarrow> int \<Rightarrow> string \<Rightarrow> job \<Rightarrow> oxana_error + job_envelope" where
  "envelope_new uuid now1 now2 queue j =
     (let uid = unique_job_id j;
          uniq = (uid \<noteq> None);
          i = (case uid of Some u \<Rightarrow> u | None \<Rightarrow> uuid)
      in case job_args j of
           Inl e \<Rightarrow> Inl e
         | Inr args \<Rightarrow> Inr
             \<lparr>env_id = i,
              env_job = \<lparr>job_data_name = job_name j, job_data_args = args\<rparr>,
              env_queue = queue,
              env_meta = \<lparr>meta_id = i, on_demand = None, retries = 0, unique = uniq,
                on_conflict = (if uniq then Some (job_on_conflict j) else None),
                created_at = now1, scheduled_at = now2, started_at = None, state = None,
                resurrect = should_resurrect j, error = None,
                throttle_cost = job_throttle_cost j\<rparr>\<rparr>)"

definition with_scheduled_at :: "int \<Rightarrow> int \<Rightarrow> job_envelope \<Rightarrow> job_envelope" where
  "with_scheduled_at now at e =
     e\<lparr>env_meta := (env_meta e)\<lparr>scheduled_at := max at now\<rparr>\<rparr>"

definition envelope_new_scheduled ::
    "string \<Rightarrow> int \<Rightarrow> int \<Rightarrow> int \<Rightarrow> string \<Rightarrow> job \<Rightarrow> int \<Rightarrow> oxana_error + job_envelope" where
  "envelope_new_scheduled uuid now1 now2 now3 queue j at =
     (case envelope_new uuid now1 now2 queue j of
        Inl e \<Rightarrow> Inl e
      | Inr e \<Rightarrow> Inr (with_scheduled_at now3 at e))"

definition cron_replace_message :: "string \<Rightarrow> string" where
  "cron_replace_message name =
     name @ '': cron jobs do not support `on_conflict = Replace`; use `Skip`''"

definition envelope_new_cron ::
    "int \<Rightarrow> string \<Rightarrow> string \<Rightarrow> job \<Rightarrow> int \<Rightarrow> bool \<Rightarrow> oxana_error + (job_envelope \<times> bool)" where
  "envelope_new_cron now queue occurrence_id j at res =
     (if job_on_conflict j = Replace then Inl (GenericError (cron_replace_message (job_name j)))
      else
        let (i, oc, declared_unique) =
              (case unique_job_id j of
                 Some u \<Rightarrow> (u, job_on_conflict j, True)
               | None \<Rightarrow> (occurrence_id, Skip, False))
        in case job_args j of
             Inl e \<Rightarrow> Inl e
           | Inr args \<Rightarrow> Inr
               (\<lparr>env_id = i,
                 env_job = \<lparr>job_data_name = job_name j, job_data_args = args\<rparr>,
                 env_queue = queue,
                 env_meta = \<lparr>meta_id = i, on_demand = None, retries = 0, unique = True,
                   on_conflict = Some oc, created_at = now, scheduled_at = max at now,
                   started_at = None, state = None, resurrect = res, error = None,
                   throttle_cost = None\<rparr>\<rparr>, declared_unique))"

definition with_error :: "string \<Rightarrow> job_envelope \<Rightarrow> job_envelope" where
  "with_error msg e = e\<lparr>env_meta := (env_meta e)\<lparr>error := Some msg\<rparr>\<rparr>"

definition with_retries_incremented :: "string \<Rightarrow> job_envelope \<Rightarrow> job_envelope" where
  "with_retries_incremented msg e =
     \<lparr>env_id = env_id e,
      env_job = env_job e,
      env_queue = env_queue e,
      env_meta = \<lparr>meta_id = env_id e,
        on_demand = on_demand (env_meta e),
        retries = retries (env_meta e) + 1,
        unique = unique (env_meta e),
        on_conflict = on_conflict (env_meta e),
        created_at = created_at (env_meta e),
        scheduled_at = scheduled_at (env_meta e),
        started_at = None,
        state = state (env_meta e),
        resurrect = resurrect (env_meta e),
        error = Some msg,
        throttle_cost = throttle_cost (env_meta e)\<rparr>\<rparr>"

definition created_at_secs :: "job_meta \<Rightarrow> int" where
  "created_at_secs m = trunc_div (created_at m) 1000000"

definition effective_scheduled_at_micros :: "job_meta \<Rightarrow> int" where
  "effective_scheduled_at_micros m = (if 0 < scheduled_at m then scheduled_at m else created_at m)"

definition latency_micros :: "int \<Rightarrow> job_meta \<Rightarrow> int" where
  "latency_micros now m =
     (let reference = (case started_at m of Some t \<Rightarrow> t | None \<Rightarrow> now)
      in max (reference - effective_scheduled_at_micros m) 0)"

definition latency_millis :: "int \<Rightarrow> job_meta \<Rightarrow> int" where
  "latency_millis now m = trunc_div (latency_micros now m) 1000"

text \<open>\<^verbatim>\<open>OnDemandJobInfo::enqueue_envelope\<close> marks what the factory built.\<close>

definition on_demand_envelope :: "oxana_error + job_envelope \<Rightarrow> oxana_error + job_envelope" where
  "on_demand_envelope r = (case r of Inl e \<Rightarrow> Inl e
     | Inr e \<Rightarrow> Inr (e\<lparr>env_meta := (env_meta e)\<lparr>on_demand := Some True\<rparr>\<rparr>))"

section \<open>Serialised form\<close>

text \<open>
  The structs serialise to objects with their field names; \<^verbatim>\<open>skip_serializing_if\<close> leaves out
  an absent option. A missing or null option field reads as \<open>None\<close>, \<^verbatim>\<open>#[serde(default)]\<close>
  fields have a default, every other field is required, and an integer out of its type's
  range is an error.
\<close>

fun conflict_to_json :: "conflict_strategy \<Rightarrow> json" where
  "conflict_to_json Skip = JStr ''skip''"
| "conflict_to_json Replace = JStr ''replace''"

definition opt_field :: "string \<Rightarrow> ('a \<Rightarrow> json) \<Rightarrow> 'a option \<Rightarrow> (string \<times> json) list" where
  "opt_field k f x = (case x of None \<Rightarrow> [] | Some v \<Rightarrow> [(k, f v)])"

definition meta_to_json :: "job_meta \<Rightarrow> json" where
  "meta_to_json m = JObj
     ([(''id'', JStr (meta_id m))]
      @ opt_field ''on_demand'' JBool (on_demand m)
      @ [(''retries'', JInt (uint (retries m))), (''unique'', JBool (unique m))]
      @ opt_field ''on_conflict'' conflict_to_json (on_conflict m)
      @ [(''created_at'', JInt (created_at m)), (''scheduled_at'', JInt (scheduled_at m))]
      @ opt_field ''started_at'' JInt (started_at m)
      @ opt_field ''state'' (\<lambda>j. j) (state m)
      @ [(''resurrect'', JBool (resurrect m))]
      @ opt_field ''error'' JStr (error m)
      @ opt_field ''throttle_cost'' (\<lambda>c. JInt (uint c)) (throttle_cost m))"

definition envelope_to_json :: "job_envelope \<Rightarrow> json" where
  "envelope_to_json e = JObj
     [(''id'', JStr (env_id e)),
      (''job'', JObj [(''name'', JStr (job_data_name (env_job e))),
                      (''args'', job_data_args (env_job e))]),
      (''queue'', JStr (env_queue e)),
      (''meta'', meta_to_json (env_meta e))]"

fun as_str :: "json \<Rightarrow> string option" where
  "as_str (JStr s) = Some s" | "as_str _ = None"

fun as_bool :: "json \<Rightarrow> bool option" where
  "as_bool (JBool b) = Some b" | "as_bool _ = None"

fun as_int :: "int \<Rightarrow> int \<Rightarrow> json \<Rightarrow> int option" where
  "as_int lo hi (JInt i) = (if lo \<le> i \<and> i \<le> hi then Some i else None)" | "as_int lo hi _ = None"

definition as_i64 :: "json \<Rightarrow> int option" where
  "as_i64 = as_int (- i64_max - 1) i64_max"

definition as_u32 :: "json \<Rightarrow> 32 word option" where
  "as_u32 j = map_option word_of_int (as_int 0 4294967295 j)"

definition as_u64 :: "json \<Rightarrow> 64 word option" where
  "as_u64 j = map_option word_of_int (as_int 0 18446744073709551615 j)"

definition as_conflict :: "json \<Rightarrow> conflict_strategy option" where
  "as_conflict j = (if j = JStr ''skip'' then Some Skip
     else if j = JStr ''replace'' then Some Replace else None)"

definition as_any :: "json \<Rightarrow> json option" where
  "as_any j = Some j"

definition req :: "json \<Rightarrow> string \<Rightarrow> (json \<Rightarrow> 'a option) \<Rightarrow> 'a option" where
  "req j k f = Option.bind (json_field j k) f"

definition dflt :: "json \<Rightarrow> string \<Rightarrow> 'a \<Rightarrow> (json \<Rightarrow> 'a option) \<Rightarrow> 'a option" where
  "dflt j k d f = (case json_field j k of None \<Rightarrow> Some d | Some v \<Rightarrow> f v)"

definition optional :: "json \<Rightarrow> string \<Rightarrow> (json \<Rightarrow> 'a option) \<Rightarrow> 'a option option" where
  "optional j k f = (case json_field j k of None \<Rightarrow> Some None | Some JNull \<Rightarrow> Some None
     | Some v \<Rightarrow> map_option Some (f v))"

definition meta_of_json :: "json \<Rightarrow> job_meta option" where
  "meta_of_json j =
     Option.bind (req j ''id'' as_str) (\<lambda>i.
     Option.bind (optional j ''on_demand'' as_bool) (\<lambda>od.
     Option.bind (req j ''retries'' as_u32) (\<lambda>rs.
     Option.bind (req j ''unique'' as_bool) (\<lambda>u.
     Option.bind (optional j ''on_conflict'' as_conflict) (\<lambda>oc.
     Option.bind (req j ''created_at'' as_i64) (\<lambda>ca.
     Option.bind (dflt j ''scheduled_at'' 0 as_i64) (\<lambda>sa.
     Option.bind (optional j ''started_at'' as_i64) (\<lambda>st.
     Option.bind (optional j ''state'' as_any) (\<lambda>ste.
     Option.bind (dflt j ''resurrect'' True as_bool) (\<lambda>rz.
     Option.bind (optional j ''error'' as_str) (\<lambda>er.
     Option.bind (optional j ''throttle_cost'' as_u64) (\<lambda>tc.
       Some \<lparr>meta_id = i, on_demand = od, retries = rs, unique = u, on_conflict = oc,
         created_at = ca, scheduled_at = sa, started_at = st, state = ste, resurrect = rz,
         error = er, throttle_cost = tc\<rparr>))))))))))))"

definition envelope_of_json :: "json \<Rightarrow> job_envelope option" where
  "envelope_of_json j =
     Option.bind (req j ''id'' as_str) (\<lambda>i.
     Option.bind (req j ''job'' as_any) (\<lambda>jd.
     Option.bind (req jd ''name'' as_str) (\<lambda>n.
     Option.bind (req jd ''args'' as_any) (\<lambda>a.
     Option.bind (req j ''queue'' as_str) (\<lambda>q.
     Option.bind (req j ''meta'' meta_of_json) (\<lambda>m.
       Some \<lparr>env_id = i, env_job = \<lparr>job_data_name = n, job_data_args = a\<rparr>, env_queue = q,
         env_meta = m\<rparr>))))))"

text \<open>\<^verbatim>\<open>serde_json::to_string\<close> and \<^verbatim>\<open>serde_json::from_str\<close> at the envelope type.\<close>

definition to_payload :: "codec \<Rightarrow> job_envelope \<Rightarrow> string" where
  "to_payload C e = jprint C (envelope_to_json e)"

definition of_payload :: "codec \<Rightarrow> string \<Rightarrow> job_envelope option" where
  "of_payload C s = Option.bind (jparse C s) envelope_of_json"

section \<open>Lemmas\<close>

text \<open>
  The values an envelope can hold in the program: the clock readings fit \<^verbatim>\<open>i64\<close>, and a
  job state of JSON null is not told apart from no state.
\<close>

definition i64_range :: "int \<Rightarrow> bool" where
  "i64_range i \<longleftrightarrow> - i64_max - 1 \<le> i \<and> i \<le> i64_max"

definition meta_wf :: "job_meta \<Rightarrow> bool" where
  "meta_wf m \<longleftrightarrow> i64_range (created_at m) \<and> i64_range (scheduled_at m) \<and>
     (case started_at m of None \<Rightarrow> True | Some t \<Rightarrow> i64_range t) \<and> state m \<noteq> Some JNull"

text \<open>An envelope the program can hold: its arguments and state are values of the codec.\<close>

definition envelope_wf :: "codec \<Rightarrow> job_envelope \<Rightarrow> bool" where
  "envelope_wf C e \<longleftrightarrow> meta_wf (env_meta e) \<and> json_ok C (job_data_args (env_job e)) \<and>
     (case state (env_meta e) of None \<Rightarrow> True | Some j \<Rightarrow> json_ok C j)"

lemma as_u32_uint [simp]: "as_u32 (JInt (uint (w :: 32 word))) = Some w"
  using uint_lt2p [of w] by (simp add: as_u32_def)

lemma as_u64_uint [simp]: "as_u64 (JInt (uint (w :: 64 word))) = Some w"
  using uint_lt2p [of w] by (simp add: as_u64_def)

lemma as_i64_range [simp]: "i64_range i \<Longrightarrow> as_i64 (JInt i) = Some i"
  by (simp add: as_i64_def i64_range_def)

lemma as_conflict_conflict_to_json [simp]: "as_conflict (conflict_to_json c) = Some c"
  by (cases c) (simp_all add: as_conflict_def)

lemma opt_field_lookup: "map_of (opt_field k f x) k' = (if k' = k then map_option f x else None)"
  by (simp add: opt_field_def split: option.splits)

lemma conflict_to_json_not_null [simp]: "conflict_to_json c \<noteq> JNull"
  by (cases c) simp_all

lemma optional_Some:
  "json_field j k = Some v \<Longrightarrow> v \<noteq> JNull \<Longrightarrow> optional j k f = map_option Some (f v)"
  by (cases v) (simp_all add: optional_def)

lemma meta_json_fields:
  "json_field (meta_to_json m) ''id'' = Some (JStr (meta_id m))"
  "json_field (meta_to_json m) ''on_demand'' = map_option JBool (on_demand m)"
  "json_field (meta_to_json m) ''retries'' = Some (JInt (uint (retries m)))"
  "json_field (meta_to_json m) ''unique'' = Some (JBool (unique m))"
  "json_field (meta_to_json m) ''on_conflict'' = map_option conflict_to_json (on_conflict m)"
  "json_field (meta_to_json m) ''created_at'' = Some (JInt (created_at m))"
  "json_field (meta_to_json m) ''scheduled_at'' = Some (JInt (scheduled_at m))"
  "json_field (meta_to_json m) ''started_at'' = map_option JInt (started_at m)"
  "json_field (meta_to_json m) ''state'' = state m"
  "json_field (meta_to_json m) ''resurrect'' = Some (JBool (resurrect m))"
  "json_field (meta_to_json m) ''error'' = map_option JStr (error m)"
  "json_field (meta_to_json m) ''throttle_cost'' = map_option (\<lambda>c. JInt (uint c)) (throttle_cost m)"
  by (simp_all add: json_field_def meta_to_json_def opt_field_lookup map_add_def
      split: option.splits)

lemma optional_map:
  assumes "json_field j k = map_option g x"
    and "\<And>v. x = Some v \<Longrightarrow> g v \<noteq> JNull \<and> f (g v) = Some v"
  shows "optional j k f = Some x"
proof (cases x)
  case None
  then show ?thesis using assms(1) by (simp add: optional_def)
next
  case (Some v)
  then show ?thesis using assms optional_Some [of j k "g v" f] by simp
qed

lemma meta_optionals:
  assumes "meta_wf m"
  shows "optional (meta_to_json m) ''on_demand'' as_bool = Some (on_demand m)"
    "optional (meta_to_json m) ''on_conflict'' as_conflict = Some (on_conflict m)"
    "optional (meta_to_json m) ''started_at'' as_i64 = Some (started_at m)"
    "optional (meta_to_json m) ''state'' as_any = Some (state m)"
    "optional (meta_to_json m) ''error'' as_str = Some (error m)"
    "optional (meta_to_json m) ''throttle_cost'' as_u64 = Some (throttle_cost m)"
proof -
  show "optional (meta_to_json m) ''on_demand'' as_bool = Some (on_demand m)"
    by (rule optional_map [OF meta_json_fields(2)]) simp
  show "optional (meta_to_json m) ''on_conflict'' as_conflict = Some (on_conflict m)"
    by (rule optional_map [OF meta_json_fields(5)]) simp
  show "optional (meta_to_json m) ''started_at'' as_i64 = Some (started_at m)"
    by (rule optional_map [OF meta_json_fields(8)]) (use assms in \<open>simp add: meta_wf_def\<close>)
  show "optional (meta_to_json m) ''error'' as_str = Some (error m)"
    by (rule optional_map [OF meta_json_fields(11)]) simp
  show "optional (meta_to_json m) ''throttle_cost'' as_u64 = Some (throttle_cost m)"
    by (rule optional_map [OF meta_json_fields(12)]) simp
  show "optional (meta_to_json m) ''state'' as_any = Some (state m)"
    by (rule optional_map [where g = "\<lambda>j. j"])
      (use assms in \<open>auto simp: meta_json_fields meta_wf_def as_any_def option.map_ident\<close>)
qed

lemma meta_of_to_json: "meta_wf m \<Longrightarrow> meta_of_json (meta_to_json m) = Some m"
  by (simp add: meta_of_json_def meta_optionals req_def dflt_def meta_json_fields meta_wf_def)

lemma envelope_of_to_json:
  "meta_wf (env_meta e) \<Longrightarrow> envelope_of_json (envelope_to_json e) = Some e"
  by (simp add: envelope_of_json_def envelope_to_json_def req_def json_field_def as_any_def
      meta_of_to_json)

lemma opt_field_keys: "set (map fst (opt_field k f x)) \<subseteq> {k}"
  "distinct (map fst (opt_field k f x))"
  "list_all (\<lambda>kv. P (snd kv)) (opt_field k f x) \<longleftrightarrow> (case x of None \<Rightarrow> True | Some v \<Rightarrow> P (f v))"
  by (cases x; simp add: opt_field_def)+

lemma opt_field_notin: "k' \<noteq> k \<Longrightarrow> k' \<notin> fst ` set (opt_field k f x)"
  "k' \<noteq> k \<Longrightarrow> fst ` set (opt_field k f x) \<inter> fst ` set (opt_field k' g y) = {}"
  by (cases x; cases y; simp add: opt_field_def)+

lemma json_ok_conflict [simp]: "json_ok C (conflict_to_json c)"
  by (cases c) simp_all

lemma uint_json_bounds [simp]:
  "- 9223372036854775808 \<le> uint w" "uint (v :: 32 word) \<le> 18446744073709551615"
  "uint (u :: 64 word) \<le> 18446744073709551615"
proof -
  show "- 9223372036854775808 \<le> uint w" by (rule order_trans [OF _ uint_nonnegative]) simp
  show "uint v \<le> 18446744073709551615" using uint_lt2p [of v] by simp
  show "uint u \<le> 18446744073709551615" using uint_lt2p [of u] by simp
qed

lemma json_ok_meta:
  assumes "meta_wf m" "case state m of None \<Rightarrow> True | Some j \<Rightarrow> json_ok C j"
  shows "json_ok C (meta_to_json m)"
  using assms
  by (simp add: meta_to_json_def opt_field_keys opt_field_notin meta_wf_def i64_range_def
      Int_Un_distrib split: option.splits)

lemma json_ok_envelope: "envelope_wf C e \<Longrightarrow> json_ok C (envelope_to_json e)"
  by (simp add: envelope_to_json_def envelope_wf_def json_ok_meta)

lemma as_i64_SomeD: "as_i64 j = Some i \<Longrightarrow> i64_range i"
  by (cases j) (auto simp: as_i64_def i64_range_def split: if_splits)

lemma optional_SomeD: "optional j k f = Some (Some v) \<Longrightarrow> \<exists>u. json_field j k = Some u \<and> u \<noteq> JNull \<and> f u = Some v"
  by (auto simp: optional_def split: option.splits json.splits)

lemma json_field_wf: "json_wf F j \<Longrightarrow> json_field j k = Some v \<Longrightarrow> json_wf F v"
  by (cases j) (auto simp: json_field_def list_all_iff dest!: map_of_SomeD)

lemma meta_of_json_wf:
  assumes "meta_of_json j = Some m" "json_wf F j"
  shows "meta_wf m \<and> (case state m of None \<Rightarrow> True | Some v \<Rightarrow> json_wf F v)"
proof -
  from assms(1) obtain ca sa st ste where m: "created_at m = ca" "scheduled_at m = sa" "started_at m = st" "state m = ste"
    "req j ''created_at'' as_i64 = Some ca" "dflt j ''scheduled_at'' 0 as_i64 = Some sa"
    "optional j ''started_at'' as_i64 = Some st" "optional j ''state'' as_any = Some ste"
    by (auto simp: meta_of_json_def Option.bind_eq_Some_conv)
  have "i64_range ca" using m(5) by (auto simp: req_def Option.bind_eq_Some_conv dest: as_i64_SomeD)
  moreover have "i64_range sa" using m(6) by (auto simp: dflt_def i64_range_def split: option.splits dest: as_i64_SomeD)
  moreover have "case st of None \<Rightarrow> True | Some t \<Rightarrow> i64_range t"
    using m(7) by (auto split: option.split dest!: optional_SomeD as_i64_SomeD)
  moreover have "ste \<noteq> Some JNull \<and> (case ste of None \<Rightarrow> True | Some v \<Rightarrow> json_wf F v)"
    using m(8) json_field_wf [OF assms(2)] by (auto split: option.split simp: as_any_def dest!: optional_SomeD)
  ultimately show ?thesis using m(1-4) by (simp add: meta_wf_def)
qed

lemma envelope_of_json_wf:
  assumes "envelope_of_json j = Some e" "json_ok C j"
  shows "envelope_wf C e"
proof -
  from assms(1) obtain jd jm where e: "json_field j ''job'' = Some jd" "json_field jd ''args'' = Some (job_data_args (env_job e))"
    "json_field j ''meta'' = Some jm" "meta_of_json jm = Some (env_meta e)"
    by (auto simp: envelope_of_json_def req_def as_any_def Option.bind_eq_Some_conv)
  have "json_ok C (job_data_args (env_job e))"
    using e(1,2) assms(2) by (blast intro: json_field_wf)
  with meta_of_json_wf [OF e(4)] json_field_wf [OF assms(2) e(3)] show ?thesis by (simp add: envelope_wf_def)
qed

context json_codec
begin

lemma of_to_payload: "envelope_wf C e \<Longrightarrow> of_payload C (to_payload C e) = Some e"
  by (simp add: of_payload_def to_payload_def parse_print json_ok_envelope)
    (simp add: envelope_of_to_json envelope_wf_def)

lemma to_payload_nonempty: "to_payload C e \<noteq> []"
  by (simp add: to_payload_def print_nonempty)

lemma of_payload_wf:
  assumes "of_payload C s = Some e"
  shows "envelope_wf C e"
proof -
  from assms obtain j where "jparse C s = Some j" "envelope_of_json j = Some e"
    by (auto simp: of_payload_def Option.bind_eq_Some_conv)
  with parse_ok show ?thesis by (blast intro: envelope_of_json_wf)
qed

end

section \<open>Properties\<close>


definition sample_job :: job where
  "sample_job = \<lparr>job_name = ''Mail'', unique_id = Some ''7'', job_on_conflict = Skip,
     should_resurrect = True, job_throttle_cost = Some 2, job_args = Inr (JObj [(''to'', JStr ''a'')])\<rparr>"

definition sample_envelope :: job_envelope where
  "sample_envelope = projr (envelope_new ''u'' 10 10 ''mail'' sample_job)"

lemma sample_envelope_wf: "envelope_wf netstring_codec sample_envelope"
  by (simp add: sample_envelope_def sample_job_def envelope_new_def Let_def unique_job_id_def meta_wf_def
      i64_range_def envelope_wf_def)


end
