(* ===== verification/Storage_Keys.thy ===== *)
theory Storage_Keys
  imports Prelude
begin

text \<open>
  The Redis key names: \<^verbatim>\<open>storage_keys.rs\<close>, the key functions of \<^verbatim>\<open>storage_internal.rs\<close>
  (\<^verbatim>\<open>namespace_queue\<close>, \<^verbatim>\<open>processing_queue\<close>, the metrics keys) and the process identity of
  \<^verbatim>\<open>stats.rs\<close>. The lemmas show that the keys of one namespace never collide, and where a
  queue name escapes that guarantee.
\<close>

section \<open>Key names\<close>

record storage_keys =
  namespace :: string
  jobs_key :: string
  dead_key :: string
  schedule_key :: string
  retry_key :: string
  queue_prefix :: string
  processing_queue_prefix :: string
  processes_key :: string
  processes_data_key :: string
  stats_key :: string
  queue_configs_key :: string
  metrics_prefix :: string

definition storage_keys_new :: "string \<Rightarrow> storage_keys" where
  "storage_keys_new ns0 =
     (let ns = (if ns0 = [] then ''oxanus'' else ns0) in
      \<lparr>namespace = ns,
       jobs_key = ns @ '':jobs'',
       dead_key = ns @ '':dead'',
       schedule_key = ns @ '':schedule'',
       retry_key = ns @ '':retry'',
       queue_prefix = ns @ '':queue'',
       processing_queue_prefix = ns @ '':processing'',
       processes_key = ns @ '':processes'',
       processes_data_key = ns @ '':processes_data'',
       stats_key = ns @ '':stats'',
       queue_configs_key = ns @ '':queue_configs'',
       metrics_prefix = ns @ '':metrics''\<rparr>)"

definition namespace_queue :: "storage_keys \<Rightarrow> string \<Rightarrow> string" where
  "namespace_queue K queue =
     (if prefix (namespace K) queue then queue else queue_prefix K @ '':'' @ queue)"

definition processing_queue :: "storage_keys \<Rightarrow> string \<Rightarrow> string" where
  "processing_queue K process_id = processing_queue_prefix K @ '':'' @ process_id"

definition metrics_counter_key :: "storage_keys \<Rightarrow> int \<Rightarrow> string" where
  "metrics_counter_key K minute = metrics_prefix K @ '':j:'' @ show_int minute"

definition metrics_queue_length_key :: "storage_keys \<Rightarrow> int \<Rightarrow> string" where
  "metrics_queue_length_key K minute = metrics_prefix K @ '':q:'' @ show_int minute"

definition metrics_queue_counter_key :: "storage_keys \<Rightarrow> int \<Rightarrow> string" where
  "metrics_queue_counter_key K minute = metrics_prefix K @ '':qc:'' @ show_int minute"

definition metrics_histogram_key :: "storage_keys \<Rightarrow> string \<Rightarrow> int \<Rightarrow> string" where
  "metrics_histogram_key K identity_field_key minute =
     metrics_prefix K @ '':h:'' @ identity_field_key @ '':'' @ show_int minute"

section \<open>Process identity\<close>

record process =
  hostname :: string
  pid :: nat
  instance_id :: string
  heartbeat_at :: int
  process_started_at :: int

definition process_id :: "process \<Rightarrow> string" where
  "process_id p =
     (if instance_id p = [] then hostname p @ ''-'' @ show_nat (pid p)
      else hostname p @ ''-'' @ show_nat (pid p) @ ''-'' @ instance_id p)"

text \<open>\<^verbatim>\<open>key.rsplit(':').next()\<close>: what follows the last colon, or the whole key.\<close>

definition last_segment :: "string \<Rightarrow> string" where
  "last_segment key = (case rsplit_once (CHR '':'') key of None \<Rightarrow> key | Some (_, s) \<Rightarrow> s)"

section \<open>Queue names out of keys\<close>

text \<open>\<^verbatim>\<open>queues_w_conn\<close> strips the queue prefix off the scanned keys.\<close>

definition queue_of_key :: "storage_keys \<Rightarrow> string \<Rightarrow> string option" where
  "queue_of_key K key = strip_prefix (queue_prefix K @ '':'') key"

section \<open>Lemmas\<close>

lemma storage_keys_new_sel [simp]:
  "jobs_key (storage_keys_new n) = namespace (storage_keys_new n) @ '':jobs''"
  "dead_key (storage_keys_new n) = namespace (storage_keys_new n) @ '':dead''"
  "schedule_key (storage_keys_new n) = namespace (storage_keys_new n) @ '':schedule''"
  "retry_key (storage_keys_new n) = namespace (storage_keys_new n) @ '':retry''"
  "queue_prefix (storage_keys_new n) = namespace (storage_keys_new n) @ '':queue''"
  "processing_queue_prefix (storage_keys_new n) = namespace (storage_keys_new n) @ '':processing''"
  "processes_key (storage_keys_new n) = namespace (storage_keys_new n) @ '':processes''"
  "processes_data_key (storage_keys_new n) = namespace (storage_keys_new n) @ '':processes_data''"
  "stats_key (storage_keys_new n) = namespace (storage_keys_new n) @ '':stats''"
  "queue_configs_key (storage_keys_new n) = namespace (storage_keys_new n) @ '':queue_configs''"
  "metrics_prefix (storage_keys_new n) = namespace (storage_keys_new n) @ '':metrics''"
  by (simp_all add: storage_keys_new_def Let_def)

lemma namespace_nonempty: "namespace (storage_keys_new n) \<noteq> []"
  by (simp add: storage_keys_new_def Let_def)

text \<open>
  The keys the job transitions write: the payload hash, the dead list, the two sorted
  sets, the processing lists and the queue lists.
\<close>

definition fixed_keys :: "storage_keys \<Rightarrow> string list" where
  "fixed_keys K = [jobs_key K, dead_key K, schedule_key K, retry_key K, processes_key K,
     processes_data_key K, stats_key K, queue_configs_key K]"

text \<open>
  The well-formedness the storage proofs use: the transition keys are pairwise different.
\<close>

definition keys_distinct :: "storage_keys \<Rightarrow> bool" where
  "keys_distinct K \<longleftrightarrow> distinct (fixed_keys K) \<and>
     (\<forall>p. processing_queue K p \<notin> set (fixed_keys K))"

lemma keys_distinct_new: "keys_distinct (storage_keys_new n)"
  by (simp add: keys_distinct_def fixed_keys_def processing_queue_def)

lemma keys_distinctD:
  assumes "keys_distinct K"
  shows "jobs_key K \<noteq> dead_key K" "jobs_key K \<noteq> schedule_key K" "jobs_key K \<noteq> retry_key K"
    "dead_key K \<noteq> schedule_key K" "dead_key K \<noteq> retry_key K" "schedule_key K \<noteq> retry_key K"
    "processing_queue K p \<noteq> jobs_key K" "processing_queue K p \<noteq> dead_key K"
    "processing_queue K p \<noteq> schedule_key K" "processing_queue K p \<noteq> retry_key K"
  using assms by (auto simp: keys_distinct_def fixed_keys_def)

lemma namespace_queue_plain:
  "\<not> prefix (namespace (storage_keys_new n)) q \<Longrightarrow>
     namespace_queue (storage_keys_new n) q = namespace (storage_keys_new n) @ '':queue:'' @ q"
  by (simp add: namespace_queue_def)

lemma last_segment_colon: "CHR '':'' \<notin> set b \<Longrightarrow> last_segment (a @ CHR '':'' # b) = b"
  by (simp add: last_segment_def rsplit_once_notin)

section \<open>Properties\<close>

text \<open>
  A queue whose name does not start with the namespace gets a key of its own: the name
  is recovered from the key, different names get different keys, and the key is none of the
  namespace's fixed keys and no processing list.
\<close>

theorem queue_key_roundtrip:
  assumes "\<not> prefix (namespace (storage_keys_new n)) q"
  shows "queue_of_key (storage_keys_new n) (namespace_queue (storage_keys_new n) q) = Some q \<and>
    (\<forall>q'. \<not> prefix (namespace (storage_keys_new n)) q' \<and>
       namespace_queue (storage_keys_new n) q' = namespace_queue (storage_keys_new n) q \<longrightarrow> q' = q) \<and>
    namespace_queue (storage_keys_new n) q \<notin> set (fixed_keys (storage_keys_new n)) \<and>
    (\<forall>p. namespace_queue (storage_keys_new n) q \<noteq> processing_queue (storage_keys_new n) p)"
proof -
  let ?K = "storage_keys_new n"
  have k: "namespace_queue ?K q = (namespace ?K @ '':queue:'') @ q"
    using namespace_queue_plain [OF assms] by simp
  have "queue_of_key ?K (namespace_queue ?K q) = Some q"
    unfolding queue_of_key_def k using strip_prefix_append [of "namespace ?K @ '':queue:''" q] by simp
  moreover have "q' = q" if "\<not> prefix (namespace ?K) q'" "namespace_queue ?K q' = namespace_queue ?K q" for q'
    using that(2) namespace_queue_plain [OF that(1)] k by simp
  ultimately show ?thesis by (auto simp: k fixed_keys_def processing_queue_def)
qed

text \<open>
  A queue name that starts with the namespace is used as a Redis key unchanged, so a
  queue can be given the name of the payload hash, the dead list or a processing list.
\<close>

theorem queue_key_alias:
  "namespace_queue (storage_keys_new n) (jobs_key (storage_keys_new n)) = jobs_key (storage_keys_new n) \<and>
   namespace_queue (storage_keys_new n) (dead_key (storage_keys_new n)) = dead_key (storage_keys_new n) \<and>
   namespace_queue (storage_keys_new n) (processing_queue (storage_keys_new n) p) = processing_queue (storage_keys_new n) p"
  by (simp add: namespace_queue_def processing_queue_def)

text \<open>
  The owner of a processing list is recovered from its key, as long as neither the
  hostname nor the instance identifier contains a colon.
\<close>

theorem processing_owner_roundtrip:
  assumes "CHR '':'' \<notin> set (hostname p)" and "CHR '':'' \<notin> set (instance_id p)"
  shows "last_segment (processing_queue K (process_id p)) = process_id p"
proof -
  have "CHR '':'' \<notin> set (process_id p)" using assms show_nat_no_colon by (simp add: process_id_def)
  then show ?thesis unfolding processing_queue_def by (simp add: last_segment_colon)
qed

theorem queue_key_roundtrip_witness:
  "\<not> prefix (namespace (storage_keys_new ''app'')) ''mail'' \<and>
   queue_of_key (storage_keys_new ''app'') (namespace_queue (storage_keys_new ''app'') ''mail'') = Some ''mail''"
proof -
  have "\<not> prefix (namespace (storage_keys_new ''app'')) ''mail''" by (simp add: storage_keys_new_def)
  with queue_key_roundtrip [OF this] show ?thesis by blast
qed

theorem processing_owner_roundtrip_witness:
  "last_segment (processing_queue (storage_keys_new ''app'')
      (process_id \<lparr>hostname = ''h'', pid = 7, instance_id = ''x'', heartbeat_at = 0, process_started_at = 0\<rparr>)) =
    process_id \<lparr>hostname = ''h'', pid = 7, instance_id = ''x'', heartbeat_at = 0, process_started_at = 0\<rparr>"
  by (rule processing_owner_roundtrip) simp_all

end
