(* ===== verification/Enqueue.thy ===== *)
theory Enqueue
  imports Enqueue_Script Job_Envelope Storage_Keys
begin

text \<open>
  The enqueue path of \<^verbatim>\<open>storage_internal.rs\<close>: \<^verbatim>\<open>EnqueueSnapshot\<close>, \<^verbatim>\<open>enqueue_chunk_w_conn\<close> and
  the public \<^verbatim>\<open>enqueue\<close>, \<^verbatim>\<open>try_enqueue\<close>, \<^verbatim>\<open>enqueue_list\<close>, \<^verbatim>\<open>enqueue_in\<close>, \<^verbatim>\<open>enqueue_at\<close>.
  Other clients act between the reads of a chunk and the runs of its script: their actions
  are the arguments \<open>env\<close> (between the two reads) and \<open>envs\<close> (one before each run of the
  script), so a chunk given \<open>n\<close> of them runs its retry loop at most \<open>n\<close> times and answers
  \<open>None\<close> while it is still retrying.
\<close>

section \<open>Storage handle\<close>

record pool_retry_config =
  retry_window :: "nat option"
  initial_backoff :: nat
  max_backoff :: nat

record storage =
  st_keys :: storage_keys
  claimed_connection_retries :: "pool_retry_config option"
  st_started_at :: int
  st_instance_id :: string
  dead_job_limit :: "nat option"
  st_hostname :: string
  st_pid :: nat

datatype job_destination = DQueue | DSchedule

section \<open>Snapshots\<close>

record enqueue_snapshot =
  es_expected :: string
  es_queue :: string
  es_comparison :: comparison

definition queue_field_key :: string where
  "queue_field_key = '',\"queue\":''"

definition snapshot_parse :: "codec \<Rightarrow> string \<Rightarrow> oxana_error + enqueue_snapshot" where
  "snapshot_parse C payload =
     (case jraw_field C payload ''queue'' of
        None \<Rightarrow> Inl JsonError
      | Some (offset, raw) \<Rightarrow>
          (case Option.bind (jparse C raw) as_str of
             None \<Rightarrow> Inl JsonError
           | Some queue \<Rightarrow>
               let fin = offset + length raw;
                   k = length queue_field_key;
                   start = offset - k
               in if k \<le> offset \<and> take k (drop start payload) = queue_field_key
                  then if fin \<le> length payload - start
                       then Inr \<lparr>es_expected = take fin payload, es_queue = queue, es_comparison = Prefix\<rparr>
                       else Inr \<lparr>es_expected = drop start payload, es_queue = queue, es_comparison = Suffix\<rparr>
                  else Inr \<lparr>es_expected = payload, es_queue = queue, es_comparison = Exact\<rparr>))"

text \<open>\<^verbatim>\<open>payload.map(EnqueueSnapshot::parse).transpose()\<close>\<close>

definition parse_opt :: "codec \<Rightarrow> string option \<Rightarrow> oxana_error + enqueue_snapshot option" where
  "parse_opt C p = (case p of None \<Rightarrow> Inr None
     | Some s \<Rightarrow> (case snapshot_parse C s of Inl e \<Rightarrow> Inl e | Inr sn \<Rightarrow> Inr (Some sn)))"

type_synonym snapshots = "(string \<times> enqueue_snapshot option) list"

fun insert_snapshots :: "codec \<Rightarrow> (string \<times> string option) list \<Rightarrow> snapshots \<Rightarrow> oxana_error + snapshots" where
  "insert_snapshots C [] sns = Inr sns"
| "insert_snapshots C ((i, p) # rest) sns =
     (case parse_opt C p of Inl e \<Rightarrow> Inl e
      | Inr so \<Rightarrow> insert_snapshots C rest (AList.update i so sns))"

section \<open>One chunk\<close>

definition is_replace :: "job_envelope \<Rightarrow> bool" where
  "is_replace e \<longleftrightarrow> unique (env_meta e) \<and> on_conflict (env_meta e) = Some Replace"

definition is_skip :: "job_envelope \<Rightarrow> bool" where
  "is_skip e \<longleftrightarrow> unique (env_meta e) \<and> on_conflict (env_meta e) \<noteq> Some Replace"

text \<open>Skip jobs already written by this request, or already seen in this chunk, are dropped.\<close>

fun first_pending :: "string list \<Rightarrow> string list \<Rightarrow> job_envelope list \<Rightarrow> job_envelope list" where
  "first_pending written seen [] = []"
| "first_pending written seen (e # es) =
     (if is_skip e \<and> (env_id e \<in> set written \<or> env_id e \<in> set seen)
      then first_pending written seen es
      else e # first_pending written (env_id e # seen) es)"

text \<open>The identifiers whose first overwriting occurrence in the chunk is a replacement.\<close>

fun replacement_ids :: "string list \<Rightarrow> job_envelope list \<Rightarrow> string list" where
  "replacement_ids overwritten [] = []"
| "replacement_ids overwritten (e # es) =
     (if (\<not> unique (env_meta e) \<or> is_replace e) \<and> env_id e \<notin> set overwritten
      then (if unique (env_meta e) then [env_id e] else []) @ replacement_ids (env_id e # overwritten) es
      else replacement_ids overwritten es)"

definition skip_ids :: "snapshots \<Rightarrow> job_envelope list \<Rightarrow> string list" where
  "skip_ids sns pending = map env_id (filter (\<lambda>e. is_skip e \<and> map_of sns (env_id e) = None) pending)"

definition existing_skips :: "snapshots \<Rightarrow> job_envelope list \<Rightarrow> (string \<times> bool) list \<Rightarrow> string list" where
  "existing_skips sns pending exists =
     map env_id (filter (\<lambda>e. is_skip e \<and> (case map_of sns (env_id e) of Some (Some _) \<Rightarrow> True | _ \<Rightarrow> False)) pending)
     @ map fst (filter snd exists)"

definition hexists_many :: "'d redis \<Rightarrow> string \<Rightarrow> string list \<Rightarrow> ('d, bool list) op" where
  "hexists_many R k fs = reading R THash k (\<lambda>d. map (\<lambda>f. r_hget R d k f \<noteq> None) fs)"

definition lua_snapshot :: "storage_keys \<Rightarrow> string \<times> enqueue_snapshot option \<Rightarrow> snapshot" where
  "lua_snapshot K x = (case x of
      (i, None) \<Rightarrow> \<lparr>snap_id = i, snap_cmp = Absent, snap_expected = [], snap_queue = None\<rparr>
    | (i, Some sn) \<Rightarrow> \<lparr>snap_id = i, snap_cmp = es_comparison sn, snap_expected = es_expected sn,
                      snap_queue = Some (namespace_queue K (es_queue sn))\<rparr>)"

definition conflict_of :: "job_envelope \<Rightarrow> conflict_mode" where
  "conflict_of e = (if \<not> unique (env_meta e) then CDefault
     else if on_conflict (env_meta e) = Some Replace then CReplace else CSkip)"

definition input_of :: "codec \<Rightarrow> storage_keys \<Rightarrow> job_envelope \<Rightarrow> enqueue_input" where
  "input_of C K e = \<lparr>in_id = env_id e, in_payload = to_payload C e,
     in_queue = namespace_queue K (env_queue e), in_conflict = conflict_of e,
     in_score = scheduled_at (env_meta e)\<rparr>"

text \<open>The retry loop around the script.\<close>

fun enqueue_loop ::
    "'d redis \<Rightarrow> codec \<Rightarrow> storage_keys \<Rightarrow> bool \<Rightarrow> enqueue_input list \<Rightarrow> snapshots \<Rightarrow> ('d \<Rightarrow> 'd) list
       \<Rightarrow> ('d, nat list option) op" where
  "enqueue_loop R C K scheduled xs sns [] = return None"
| "enqueue_loop R C K scheduled xs sns (env # envs) = (\<lambda>d.
     bind (enqueue_lua R (jobs_key K) (schedule_key K) (retry_key K) scheduled
             (map (lua_snapshot K) sns) xs)
       (\<lambda>(changed, outcomes).
          if changed = [] then return (Some outcomes)
          else case insert_snapshots C changed sns of
                 Inl e \<Rightarrow> fail e
               | Inr sns' \<Rightarrow> enqueue_loop R C K scheduled xs sns' envs) (env d))"

definition newly_written :: "job_envelope list \<Rightarrow> nat list \<Rightarrow> string list" where
  "newly_written pending outcomes =
     map (\<lambda>(e, _). env_id e)
       (filter (\<lambda>(e, outcome). outcome \<noteq> 0 \<and> unique (env_meta e)) (zip pending outcomes))"

text \<open>Ordinary jobs need no script: a pipeline of plain writes.\<close>

definition plain_commands ::
    "'d redis \<Rightarrow> codec \<Rightarrow> storage_keys \<Rightarrow> job_destination \<Rightarrow> job_envelope \<Rightarrow> ('d, unit) op list" where
  "plain_commands R C K dest e =
     [hset R (jobs_key K) (env_id e) (to_payload C e),
      (case dest of
         DQueue \<Rightarrow> lpush R (namespace_queue K (env_queue e)) (env_id e)
       | DSchedule \<Rightarrow> zadd R (schedule_key K) (env_id e) (scheduled_at (env_meta e)))]"

definition enqueue_chunk ::
    "'d redis \<Rightarrow> codec \<Rightarrow> storage_keys \<Rightarrow> job_destination \<Rightarrow> ('d \<Rightarrow> 'd) \<Rightarrow> ('d \<Rightarrow> 'd) list
       \<Rightarrow> string list \<Rightarrow> job_envelope list \<Rightarrow> ('d, string list option) op" where
  "enqueue_chunk R C K dest env envs written es =
     (if list_all (\<lambda>e. \<not> unique (env_meta e)) es
      then seq (pipe (concat (map (plain_commands R C K dest) es))) (return (Some written))
      else
        let pending = first_pending written [] es in
        if pending = [] then return (Some written)
        else
          let ids = replacement_ids [] pending in
          bind (if ids = [] then return []
                else bind (hmget R (jobs_key K) ids) (\<lambda>payloads.
                       lift_result (insert_snapshots C (zip ids payloads) []))) (\<lambda>sns.
          let sids = skip_ids sns pending in
          seq (\<lambda>d. (Inr (), env d))
         (bind (if sids = [] then return [] else hexists_many R (jobs_key K) sids) (\<lambda>exists.
            let skips = existing_skips sns pending (zip sids exists);
                pending' = filter (\<lambda>e. \<not> (is_skip e \<and> env_id e \<in> set skips)) pending
            in if pending' = [] then return (Some written)
               else bind (enqueue_loop R C K (dest = DSchedule) (map (input_of C K) pending') sns envs)
                 (\<lambda>outcome. return (map_option (\<lambda>os. newly_written pending' os @ written) outcome))))))"

section \<open>Public operations\<close>

text \<open>
  \<open>None\<close> as a result value stands for a call that is still in its retry loop.
\<close>

definition enqueue_w_conn ::
    "'d redis \<Rightarrow> codec \<Rightarrow> storage_keys \<Rightarrow> ('d \<Rightarrow> 'd) \<Rightarrow> ('d \<Rightarrow> 'd) list \<Rightarrow> job_envelope
       \<Rightarrow> job_destination \<Rightarrow> ('d, job_id option) op" where
  "enqueue_w_conn R C K env envs e dest =
     bind (enqueue_chunk R C K dest env envs [] [e])
       (\<lambda>r. return (map_option (\<lambda>_. env_id e) r))"

definition enqueue ::
    "'d redis \<Rightarrow> codec \<Rightarrow> storage \<Rightarrow> ('d \<Rightarrow> 'd) \<Rightarrow> ('d \<Rightarrow> 'd) list \<Rightarrow> job_envelope
       \<Rightarrow> ('d, job_id option) op" where
  "enqueue R C S env envs e = with_connection R (enqueue_w_conn R C (st_keys S) env envs e DQueue)"

definition try_enqueue ::
    "'d redis \<Rightarrow> codec \<Rightarrow> storage \<Rightarrow> ('d \<Rightarrow> 'd) \<Rightarrow> ('d \<Rightarrow> 'd) list \<Rightarrow> job_envelope
       \<Rightarrow> ('d, job_id option option) op" where
  "try_enqueue R C S env envs e =
     with_connection R (bind (enqueue_chunk R C (st_keys S) DQueue env envs [] [e])
       (\<lambda>r. return (map_option (\<lambda>written.
          if \<not> unique (env_meta e) \<or> env_id e \<in> set written then Some (env_id e) else None) r)))"

fun chunks :: "nat \<Rightarrow> 'a list \<Rightarrow> 'a list list" where
  "chunks n [] = []"
| "chunks n (x # xs) = take (Suc n) (x # xs) # chunks n (drop (Suc n) (x # xs))"

abbreviation enqueue_list_chunk_size :: nat where
  "enqueue_list_chunk_size \<equiv> 100"

definition enqueue_list_chunks :: "'a list \<Rightarrow> 'a list list" where
  "enqueue_list_chunks es = chunks (enqueue_list_chunk_size - 1) es"

text \<open>Each chunk brings its own interference.\<close>

fun enqueue_list_w_conn ::
    "'d redis \<Rightarrow> codec \<Rightarrow> storage_keys \<Rightarrow> (nat \<Rightarrow> ('d \<Rightarrow> 'd) \<times> ('d \<Rightarrow> 'd) list) \<Rightarrow> job_destination
       \<Rightarrow> nat \<Rightarrow> string list \<Rightarrow> job_envelope list list \<Rightarrow> ('d, unit option) op" where
  "enqueue_list_w_conn R C K envs dest n written [] = return (Some ())"
| "enqueue_list_w_conn R C K envs dest n written (c # cs) =
     bind (enqueue_chunk R C K dest (fst (envs n)) (snd (envs n)) written c) (\<lambda>r.
       case r of None \<Rightarrow> return None
       | Some written' \<Rightarrow> enqueue_list_w_conn R C K envs dest (Suc n) written' cs)"

definition enqueue_list ::
    "'d redis \<Rightarrow> codec \<Rightarrow> storage \<Rightarrow> (nat \<Rightarrow> ('d \<Rightarrow> 'd) \<times> ('d \<Rightarrow> 'd) list) \<Rightarrow> job_envelope list
       \<Rightarrow> ('d, job_id list option) op" where
  "enqueue_list R C S envs es =
     (if es = [] then return (Some [])
      else with_connection R
        (bind (enqueue_list_w_conn R C (st_keys S) envs DQueue 0 [] (enqueue_list_chunks es))
          (\<lambda>r. return (map_option (\<lambda>_. map env_id es) r))))"

definition enqueue_at ::
    "'d redis \<Rightarrow> codec \<Rightarrow> storage \<Rightarrow> ('d \<Rightarrow> 'd) \<Rightarrow> ('d \<Rightarrow> 'd) list \<Rightarrow> int \<Rightarrow> job_envelope
       \<Rightarrow> ('d, job_id option) op" where
  "enqueue_at R C S env envs now e =
     (if scheduled_at (env_meta e) \<le> now then enqueue R C S env envs e
      else with_connection R (enqueue_w_conn R C (st_keys S) env envs e DSchedule))"

text \<open>
  \<open>now1\<close> to \<open>now3\<close> are the readings of the clock, in microseconds: in \<^verbatim>\<open>enqueue_in\<close>, in
  \<^verbatim>\<open>with_scheduled_at\<close>, and in \<^verbatim>\<open>enqueue_at\<close>.
\<close>

definition enqueue_in ::
    "'d redis \<Rightarrow> codec \<Rightarrow> storage \<Rightarrow> ('d \<Rightarrow> 'd) \<Rightarrow> ('d \<Rightarrow> 'd) list \<Rightarrow> int \<Rightarrow> int \<Rightarrow> int \<Rightarrow> job_envelope
       \<Rightarrow> nat \<Rightarrow> ('d, job_id option) op" where
  "enqueue_in R C S env envs now1 now2 now3 e delay_s =
     (if delay_s = 0 then enqueue R C S env envs e
      else enqueue_at R C S env envs now3
             (with_scheduled_at now2 (now1 + int delay_s * 1000000) e))"

section \<open>Snapshots validate against what they were taken from\<close>

lemma concat_chunks [simp]: "concat (chunks n xs) = xs"
  by (induction n xs rule: chunks.induct) simp_all

lemma snapshot_parse_self:
  assumes "snapshot_parse C p = Inr sn"
  shows "snapshot_matches (lua_snapshot K (i, Some sn)) (Some p)"
  using assms
  by (auto simp: snapshot_parse_def snapshot_matches_def lua_snapshot_def lua_actual_def Let_def
      queue_field_key_def split: option.splits if_splits) (simp add: eval_nat_numeral)

lemma parse_opt_self:
  "parse_opt C p = Inr so \<Longrightarrow> snapshot_matches (lua_snapshot K (i, so)) p"
  by (auto simp: parse_opt_def snapshot_parse_self split: option.splits sum.splits)
    (simp add: snapshot_matches_def lua_snapshot_def lua_actual_def)

lemma insert_snapshots_match:
  assumes "insert_snapshots C cs sns = Inr sns'" "distinct (map fst sns)"
    and "\<And>i p. (i, p) \<in> set cs \<Longrightarrow> p = payloads i"
    and "\<And>i so. (i, so) \<in> set sns \<Longrightarrow> i \<notin> fst ` set cs \<Longrightarrow>
      snapshot_matches (lua_snapshot K (i, so)) (payloads i)"
  shows "distinct (map fst sns') \<and>
    (\<forall>(i, so) \<in> set sns'. snapshot_matches (lua_snapshot K (i, so)) (payloads i))"
  using assms
proof (induction C cs sns rule: insert_snapshots.induct)
  case (1 C sns)
  then show ?case by auto
next
  case (2 C i p rest sns)
  from "2.prems"(1) obtain so where so: "parse_opt C p = Inr so"
    "insert_snapshots C rest (AList.update i so sns) = Inr sns'" by (auto split: sum.splits)
  have d: "distinct (map fst (AList.update i so sns))" using "2.prems"(2) by (rule distinct_update)
  show ?case
  proof (rule "2.IH" [OF so(1) so(2) d])
    fix j so'
    assume j: "(j, so') \<in> set (AList.update i so sns)" "j \<notin> fst ` set rest"
    have lookup: "map_of (AList.update i so sns) j = Some so'" using j(1) d by (simp add: map_of_is_SomeI)
    show "snapshot_matches (lua_snapshot K (j, so')) (payloads j)"
    proof (cases "j = i")
      case True
      with lookup parse_opt_self [OF so(1)] "2.prems"(3) [of i p] show ?thesis by (simp add: update_conv')
    next
      case False
      with lookup have "(j, so') \<in> set sns" by (auto simp: update_conv' dest: map_of_SomeD)
      with False j(2) show ?thesis by (intro "2.prems"(4)) auto
    qed
  qed (use "2.prems"(3) in auto)
qed

lemma changed_snapshots_Nil:
  "changed_snapshots payloads (map (lua_snapshot K) sns) = [] \<longleftrightarrow>
     (\<forall>(i, so) \<in> set sns. snapshot_matches (lua_snapshot K (i, so)) (payloads i))"
  by (force simp: changed_snapshots_def filter_empty_conv lua_snapshot_def split: option.splits)

lemma refreshed_snapshots_match:
  assumes "insert_snapshots C (changed_snapshots payloads (map (lua_snapshot K) sns)) sns = Inr sns'"
    and "distinct (map fst sns)"
  shows "changed_snapshots payloads (map (lua_snapshot K) sns') = []"
proof -
  have id: "snap_id (lua_snapshot K (i, so)) = i" for i so
    by (simp add: lua_snapshot_def split: option.split)
  have "distinct (map fst sns') \<and>
      (\<forall>(i, so) \<in> set sns'. snapshot_matches (lua_snapshot K (i, so)) (payloads i))"
  proof (rule insert_snapshots_match [OF assms])
    show "p = payloads i" if "(i, p) \<in> set (changed_snapshots payloads (map (lua_snapshot K) sns))" for i p
      using that by (auto simp: changed_snapshots_def)
    show "snapshot_matches (lua_snapshot K (i, so)) (payloads i)"
      if "(i, so) \<in> set sns" "i \<notin> fst ` set (changed_snapshots payloads (map (lua_snapshot K) sns))" for i so
      using that by (force simp: changed_snapshots_def id image_iff)
  qed
  then show ?thesis by (simp add: changed_snapshots_Nil)
qed

section \<open>The loop\<close>

definition lua_run ::
    "'d redis \<Rightarrow> storage_keys \<Rightarrow> bool \<Rightarrow> snapshots \<Rightarrow> enqueue_input list
       \<Rightarrow> ('d, (string \<times> string option) list \<times> nat list) op" where
  "lua_run R K scheduled sns xs =
     enqueue_lua R (jobs_key K) (schedule_key K) (retry_key K) scheduled (map (lua_snapshot K) sns) xs"

definition seq_run ::
    "storage_keys \<Rightarrow> bool \<Rightarrow> snapshots \<Rightarrow> enqueue_input list \<Rightarrow> store \<Rightarrow> store \<times> nat list" where
  "seq_run K scheduled sns xs s =
     enqueue_seq (jobs_key K) (schedule_key K) (retry_key K) scheduled
       (snapshot_queues (map (lua_snapshot K) sns)) xs s"

definition fresh :: "'d redis \<Rightarrow> storage_keys \<Rightarrow> snapshots \<Rightarrow> 'd \<Rightarrow> bool" where
  "fresh R K sns d \<longleftrightarrow> changed_snapshots (r_hget R d (jobs_key K)) (map (lua_snapshot K) sns) = []"

context redis_server
begin

lemma lua_run_cases:
  obtains (Error) e where "lua_run R K scheduled sns xs d = (Inl e, d)"
  | (Stale) "\<not> fresh R K sns d"
      "lua_run R K scheduled sns xs d =
        (Inr (changed_snapshots (r_hget R d (jobs_key K)) (map (lua_snapshot K) sns), []), d)"
  | (Done) d' os where "fresh R K sns d" "lua_run R K scheduled sns xs d = (Inr ([], os), d')"
      "(store_of R d', os) = seq_run K scheduled sns xs (store_of R d)"
proof -
  let ?r = "lua_run R K scheduled sns xs d"
  note ref = enqueue_refines [where d = d and jobs = "jobs_key K" and schedule = "schedule_key K"
      and retry = "retry_key K" and scheduled = scheduled and sns = "map (lua_snapshot K) sns" and xs = xs,
      folded lua_run_def seq_run_def]
  obtain r d' where r: "?r = (r, d')" by (cases ?r)
  show thesis
  proof (cases r)
    case (Inl e)
    with ref r show thesis by (intro Error [of e]) simp
  next
    case (Inr v)
    obtain ch os where v: "v = (ch, os)" by (cases v)
    show thesis
    proof (cases "ch = []")
      case True
      with ref r Inr v show thesis by (intro Done [of os d']) (simp_all add: fresh_def)
    next
      case False
      with ref r Inr v show thesis by (intro Stale) (simp_all add: fresh_def)
    qed
  qed
qed

lemma enqueue_loop_Cons:
  "enqueue_loop R C K scheduled xs sns (env # envs) d =
     bind (lua_run R K scheduled sns xs) (\<lambda>(changed, outcomes).
       if changed = [] then return (Some outcomes)
       else case insert_snapshots C changed sns of
              Inl e \<Rightarrow> fail e
            | Inr sns' \<Rightarrow> enqueue_loop R C K scheduled xs sns' envs) (env d)"
  by (simp add: lua_run_def)

lemma enqueue_loop_done:
  assumes "enqueue_loop R C K scheduled xs sns envs d = (Inr (Some os), d')"
  shows "\<exists>d0 sns'. fresh R K sns' d0 \<and> (store_of R d', os) = seq_run K scheduled sns' xs (store_of R d0)"
  using assms
proof (induction envs arbitrary: sns d)
  case Nil
  then show ?case by simp
next
  case (Cons env envs)
  show ?case
  proof (cases rule: lua_run_cases [of K scheduled sns xs "env d"])
    case (Error e)
    with Cons.prems show ?thesis by (simp add: enqueue_loop_Cons bind_def del: enqueue_loop.simps)
  next
    case Stale
    with Cons show ?thesis
      by (simp add: enqueue_loop_Cons bind_def fresh_def del: enqueue_loop.simps split: sum.splits)
  next
    case (Done d1 os1)
    with Cons.prems show ?thesis
      by (auto simp: enqueue_loop_Cons bind_def simp del: enqueue_loop.simps)
  qed
qed

text \<open>A run that follows an undisturbed read always settles the call.\<close>

lemma fresh_settles:
  "fresh R K sns d \<Longrightarrow> fst (enqueue_loop R C K scheduled xs sns ((\<lambda>d. d) # envs) d) \<noteq> Inr None"
  by (cases rule: lua_run_cases [of K scheduled sns xs d])
    (auto simp: enqueue_loop_Cons bind_def simp del: enqueue_loop.simps)

lemma enqueue_loop_settles:
  assumes "distinct (map fst sns)"
  shows "fst (enqueue_loop R C K scheduled xs sns (env # (\<lambda>d. d) # envs) d) \<noteq> Inr None"
proof (cases rule: lua_run_cases [of K scheduled sns xs "env d"])
  case Stale
  let ?ch = "changed_snapshots (r_hget R (env d) (jobs_key K)) (map (lua_snapshot K) sns)"
  show ?thesis
  proof (cases "insert_snapshots C ?ch sns")
    case (Inr sns')
    then have "fresh R K sns' (env d)"
      using refreshed_snapshots_match assms by (simp add: fresh_def)
    from fresh_settles [OF this] Stale Inr show ?thesis
      by (auto simp: enqueue_loop_Cons [of C K scheduled xs sns] bind_def fresh_def simp del: enqueue_loop.simps)
  qed (use Stale in \<open>simp add: enqueue_loop_Cons bind_def fresh_def del: enqueue_loop.simps\<close>)
qed (simp_all add: enqueue_loop_Cons bind_def del: enqueue_loop.simps)

text \<open>With nobody else writing, the loop ends in its first run, and an error writes nothing.\<close>

lemma enqueue_loop_quiet:
  assumes "fresh R K sns d"
  shows "case enqueue_loop R C K scheduled xs sns ((\<lambda>d. d) # envs) d of
      (Inl e, d') \<Rightarrow> d' = d
    | (Inr None, d') \<Rightarrow> False
    | (Inr (Some os), d') \<Rightarrow> (store_of R d', os) = seq_run K scheduled sns xs (store_of R d)"
  using assms
  by (cases rule: lua_run_cases [of K scheduled sns xs d])
    (simp_all add: enqueue_loop_Cons bind_def del: enqueue_loop.simps)

end

section \<open>One envelope\<close>

text \<open>
  The contract of an enqueue: a unique job with the skip strategy leaves an existing job
  alone; a replacing one takes the old occurrence out of the schedule, the retries, the old
  and the new queue first; then the payload is stored and the identifier placed.
\<close>

definition payload_queue :: "codec \<Rightarrow> string \<Rightarrow> string option" where
  "payload_queue C p = (case snapshot_parse C p of Inl _ \<Rightarrow> None | Inr sn \<Rightarrow> Some (es_queue sn))"

definition admit :: "codec \<Rightarrow> storage_keys \<Rightarrow> job_destination \<Rightarrow> job_envelope \<Rightarrow> store \<Rightarrow> store" where
  "admit C K dest e s =
     (let put = (\<lambda>old. place (jobs_key K) (schedule_key K) (retry_key K) (dest = DSchedule) old (input_of C K e) s)
      in case hashes s (jobs_key K) (env_id e) of
           None \<Rightarrow> put None
         | Some p \<Rightarrow>
             if is_skip e then s
             else if is_replace e then put (map_option (namespace_queue K) (payload_queue C p))
             else put None)"

lemma conflict_of_simps:
  "is_skip e \<Longrightarrow> conflict_of e = CSkip"
  "is_replace e \<Longrightarrow> conflict_of e = CReplace"
  by (simp_all add: conflict_of_def is_skip_def is_replace_def)

lemma unique_cases: "unique (env_meta e) \<longleftrightarrow> is_skip e \<or> is_replace e"
  by (auto simp: is_skip_def is_replace_def)

lemma not_both: "is_skip e \<Longrightarrow> \<not> is_replace e"
  by (simp add: is_skip_def is_replace_def)

lemma input_of_sel [simp]:
  "in_id (input_of C K e) = env_id e" "in_payload (input_of C K e) = to_payload C e"
  "in_queue (input_of C K e) = namespace_queue K (env_queue e)" "in_conflict (input_of C K e) = conflict_of e"
  "in_score (input_of C K e) = scheduled_at (env_meta e)"
  by (simp_all add: input_of_def)

lemma existing_skips_single:
  "existing_skips [] [e] [(i, b)] = (if b then [i] else [])"
  "\<not> is_skip e \<Longrightarrow> existing_skips sns [e] [] = []"
  by (simp_all add: existing_skips_def)

text \<open>The script on one input is the contract.\<close>

lemma seq_run_skip:
  "is_skip e \<Longrightarrow> seq_run K (dest = DSchedule) [] [input_of C K e] s =
     (admit C K dest e s, [if hashes s (jobs_key K) (env_id e) \<noteq> None then 0 else 1])"
  by (auto simp: seq_run_def admit_def conflict_of_simps Let_def split: option.splits)

lemma seq_run_replace:
  assumes "is_replace e" "parse_opt C (hashes s (jobs_key K) (env_id e)) = Inr so"
  shows "seq_run K (dest = DSchedule) [(env_id e, so)] [input_of C K e] s =
     (admit C K dest e s, [if hashes s (jobs_key K) (env_id e) \<noteq> None then 2 else 1])"
  using assms not_both
  by (auto simp: seq_run_def admit_def conflict_of_simps Let_def parse_opt_def payload_queue_def
      snapshot_queues_def lua_snapshot_def split: option.splits sum.splits)

definition settles_as ::
    "'d redis \<Rightarrow> (oxana_error + 'a option) \<times> 'd \<Rightarrow> ('d \<Rightarrow> bool) \<Rightarrow> ('a \<Rightarrow> 'd \<Rightarrow> bool) \<Rightarrow> bool" where
  "settles_as R r P Q = (case r of (Inl _, d') \<Rightarrow> P d' | (Inr None, _) \<Rightarrow> False | (Inr (Some x), d') \<Rightarrow> Q x d')"

context redis_server
begin

lemma plain_single:
  assumes "\<not> unique (env_meta e)"
    and "pipe (plain_commands R C K dest e) d = (Inr (), d')"
  shows "store_of R d' = admit C K dest e (store_of R d)"
  using assms
  by (cases dest)
    (auto simp: plain_commands_def redis_defs admit_def unique_cases place_def Let_def store_simps fits_simps
      split: if_splits option.splits prod.splits sum.splits)

lemma enqueue_chunk_plain:
  assumes "\<not> unique (env_meta e)"
  shows "settles_as R (enqueue_chunk R C K dest env envs written [e] d) (\<lambda>_. True)
    (\<lambda>w d'. w = written \<and> store_of R d' = admit C K dest e (store_of R d))"
  using assms plain_single [OF assms, of C K dest d]
  by (cases "pipe (plain_commands R C K dest e) d" rule: prod.exhaust)
    (auto simp: enqueue_chunk_def settles_as_def seq_def bind_def split: sum.splits)

lemma enqueue_chunk_skip:
  assumes "is_skip e"
  shows "settles_as R (enqueue_chunk R C K dest (\<lambda>d. d) ((\<lambda>d. d) # envs) [] [e] d) (\<lambda>d'. d' = d)
    (\<lambda>w d'. store_of R d' = admit C K dest e (store_of R d) \<and>
       (env_id e \<in> set w \<longleftrightarrow> r_hget R d (jobs_key K) (env_id e) = None))"
proof -
  have u: "unique (env_meta e)" and nr: "\<not> is_replace e" using assms not_both by (auto simp: unique_cases)
  have fr: "fresh R K [] d" by (simp add: fresh_def changed_snapshots_def)
  note q = enqueue_loop_quiet [OF fr, where C = C and scheduled = "dest = DSchedule"
      and xs = "[input_of C K e]" and envs = envs, unfolded seq_run_skip [OF assms]]
  note defs = enqueue_chunk_def settles_as_def Let_def skip_ids_def hexists_many_def reading_def
    existing_skips_single bind_def seq_def
  consider (bad) "\<not> fits R d (jobs_key K) THash"
    | (present) p where "fits R d (jobs_key K) THash" "r_hget R d (jobs_key K) (env_id e) = Some p"
    | (absent) "fits R d (jobs_key K) THash" "r_hget R d (jobs_key K) (env_id e) = None"
    by blast
  then show ?thesis
  proof cases
    case bad
    with assms u nr show ?thesis by (simp add: defs del: enqueue_loop.simps)
  next
    case present
    with assms u nr show ?thesis by (simp add: defs admit_def del: enqueue_loop.simps)
  next
    case absent
    with q assms u nr show ?thesis
      by (auto simp: defs newly_written_def simp del: enqueue_loop.simps
          split: option.splits sum.splits prod.splits)
  qed
qed

lemma enqueue_chunk_replace:
  assumes "is_replace e"
  shows "settles_as R (enqueue_chunk R C K dest (\<lambda>d. d) ((\<lambda>d. d) # envs) [] [e] d) (\<lambda>d'. d' = d)
    (\<lambda>w d'. store_of R d' = admit C K dest e (store_of R d) \<and> env_id e \<in> set w)"
proof -
  have u: "unique (env_meta e)" and ns: "\<not> is_skip e" using assms not_both by (auto simp: unique_cases)
  let ?p = "r_hget R d (jobs_key K) (env_id e)"
  show ?thesis
  proof (cases "parse_opt C ?p")
    case (Inl er)
    with assms u ns show ?thesis
      by (auto simp: enqueue_chunk_def settles_as_def Let_def redis_defs bind_def seq_def lift_result_def)
  next
    case (Inr so)
    have "fresh R K [(env_id e, so)] d"
      using parse_opt_self [OF Inr, of K "env_id e"] changed_snapshots_Nil [of _ K "[(env_id e, so)]"]
      by (simp add: fresh_def)
    from enqueue_loop_quiet [OF this, where C = C and scheduled = "dest = DSchedule"
        and xs = "[input_of C K e]" and envs = envs]
    have q: "case enqueue_loop R C K (dest = DSchedule) [input_of C K e] [(env_id e, so)] ((\<lambda>d. d) # envs) d of
        (Inl e, d') \<Rightarrow> d' = d | (Inr None, d') \<Rightarrow> False
      | (Inr (Some os), d') \<Rightarrow> store_of R d' = admit C K dest e (store_of R d) \<and>
          os = [if ?p \<noteq> None then 2 else 1]"
      using seq_run_replace [OF assms, of C "store_of R d" K so dest] Inr
      by (simp split: prod.splits sum.splits option.splits)
    with Inr assms u ns show ?thesis
      by (auto simp: enqueue_chunk_def settles_as_def Let_def redis_defs bind_def seq_def lift_result_def
          skip_ids_def existing_skips_single newly_written_def simp del: enqueue_loop.simps
          split: option.splits sum.splits prod.splits)
  qed
qed

lemma enqueue_chunk_single:
  "settles_as R (enqueue_chunk R C K dest (\<lambda>d. d) ((\<lambda>d. d) # envs) [] [e] d)
    (\<lambda>d'. unique (env_meta e) \<longrightarrow> d' = d)
    (\<lambda>w d'. store_of R d' = admit C K dest e (store_of R d) \<and>
       (unique (env_meta e) \<longrightarrow> (env_id e \<in> set w \<longleftrightarrow> \<not> (is_skip e \<and> r_hget R d (jobs_key K) (env_id e) \<noteq> None))))"
proof -
  consider "\<not> unique (env_meta e)" | "is_skip e" | "is_replace e" using unique_cases by blast
  then show ?thesis
  proof cases
    case 1
    with enqueue_chunk_plain [OF 1, of C K dest "\<lambda>d. d" "(\<lambda>d. d) # envs" "[]" d] show ?thesis
      by (auto simp: settles_as_def split: prod.splits sum.splits option.splits)
  next
    case 2
    with enqueue_chunk_skip [OF 2, of C K dest envs d] show ?thesis
      by (auto simp: settles_as_def split: prod.splits sum.splits option.splits)
  next
    case 3
    with enqueue_chunk_replace [OF 3, of C K dest envs d] not_both show ?thesis
      by (auto simp: settles_as_def split: prod.splits sum.splits option.splits)
  qed
qed

lemma enqueue_quiet:
  "settles_as R (enqueue R C S (\<lambda>d. d) ((\<lambda>d. d) # envs) e d)
    (\<lambda>d'. unique (env_meta e) \<longrightarrow> d' = d)
    (\<lambda>i d'. i = env_id e \<and> store_of R d' = admit C (st_keys S) DQueue e (store_of R d))"
  using enqueue_chunk_single [of C "st_keys S" DQueue envs e d]
  by (auto simp: enqueue_def enqueue_w_conn_def with_connection_def settles_as_def bind_def
      split: option.splits prod.splits sum.splits)

text \<open>A skipping enqueue among other clients takes effect at one instant.\<close>

lemma enqueue_chunk_skip_env:
  assumes "is_skip e" "enqueue_chunk R C K dest env envs [] [e] d = (Inr (Some w), d')"
  shows "\<exists>d0 \<in> {env d, hd envs (env d)}. store_of R d' = admit C K dest e (store_of R d0) \<and>
    (env_id e \<in> set w \<longleftrightarrow> r_hget R d0 (jobs_key K) (env_id e) = None)"
proof -
  have u: "unique (env_meta e)" and nr: "\<not> is_replace e" using assms not_both by (auto simp: unique_cases)
  have fr: "fresh R K [] d1" for d1 by (simp add: fresh_def changed_snapshots_def)
  note defs = enqueue_chunk_def Let_def skip_ids_def hexists_many_def reading_def
    existing_skips_single bind_def seq_def
  show ?thesis
  proof (cases "r_hget R (env d) (jobs_key K) (env_id e)")
    case (Some p)
    with assms u nr have "d' = env d" "w = []" "fits R (env d) (jobs_key K) THash"
      by (auto simp: defs simp del: enqueue_loop.simps split: if_splits)
    with Some assms(1) show ?thesis by (auto simp: admit_def)
  next
    case None
    with assms u nr obtain os where
        l: "enqueue_loop R C K (dest = DSchedule) [input_of C K e] [] envs (env d) = (Inr (Some os), d')"
      and w: "w = newly_written [e] os"
      by (auto simp: defs simp del: enqueue_loop.simps split: if_splits prod.splits sum.splits option.splits)
    then obtain env1 rest where envs: "envs = env1 # rest" by (cases envs) auto
    have shift: "enqueue_loop R C K (dest = DSchedule) [input_of C K e] [] envs (env d) =
        enqueue_loop R C K (dest = DSchedule) [input_of C K e] [] ((\<lambda>d. d) # rest) (env1 (env d))"
      by (simp add: envs)
    have "store_of R d' = admit C K dest e (store_of R (env1 (env d))) \<and>
        os = [if r_hget R (env1 (env d)) (jobs_key K) (env_id e) \<noteq> None then 0 else 1]"
      using enqueue_loop_quiet [OF fr [of "env1 (env d)"], where C = C and scheduled = "dest = DSchedule"
          and xs = "[input_of C K e]" and envs = rest] l
      by (simp add: shift seq_run_skip [OF assms(1)] del: enqueue_loop.simps)
    with w u show ?thesis by (auto simp: envs newly_written_def)
  qed
qed

end

section \<open>Properties\<close>

text \<open>
  C6. The enqueue script is all or nothing and sequential. An error, whichever key it comes
  from, leaves the server untouched; a stale snapshot is reported and nothing is written;
  otherwise the effect and the reported outcomes are those of enqueueing the inputs one
  after the other, although the script plans every write before the first one.
\<close>

theorem enqueue_script_sequential:
  assumes "redis_server R"
  shows "case enqueue_lua R jobs schedule retry scheduled sns xs d of
      (Inl e, d') \<Rightarrow> d' = d
    | (Inr (changed, outcomes), d') \<Rightarrow>
        changed = changed_snapshots (r_hget R d jobs) sns \<and>
        (if changed \<noteq> [] then d' = d \<and> outcomes = []
         else (store_of R d', outcomes) =
           enqueue_seq jobs schedule retry scheduled (snapshot_queues sns) xs (store_of R d))"
  by (rule redis_server.enqueue_refines [OF assms])


text \<open>
  C9. \<^verbatim>\<open>try_enqueue\<close> tells the truth with other clients at work: for a unique job with the
  skip strategy there is one instant, before or at the run of the script, at which the
  whole call takes effect, and it answers the identifier exactly when the job did not exist
  at that instant and was written.
\<close>

theorem try_enqueue_atomic:
  assumes "redis_server R" and "is_skip e"
    and "try_enqueue R C S env envs e d = (Inr (Some r), d')"
  shows "\<exists>d0 \<in> {env d, hd envs (env d)}.
    store_of R d' = admit C (st_keys S) DQueue e (store_of R d0) \<and>
    r = (if r_hget R d0 (jobs_key (st_keys S)) (env_id e) = None then Some (env_id e) else None)"
proof -
  from assms(3) obtain w where w: "enqueue_chunk R C (st_keys S) DQueue env envs [] [e] d = (Inr (Some w), d')"
      "r = (if \<not> unique (env_meta e) \<or> env_id e \<in> set w then Some (env_id e) else None)"
    by (auto simp: try_enqueue_def with_connection_def bind_def split: option.splits prod.splits sum.splits)
  have "unique (env_meta e)" using assms(2) by (simp add: unique_cases)
  with redis_server.enqueue_chunk_skip_env [OF assms(1,2) w(1)] w(2) show ?thesis by auto
qed

text \<open>
  The retry loop of an enqueue does not spin by itself: whatever happened before, one
  run of the script that follows the previous one without interference settles the call,
  with a result or an error.
\<close>

theorem enqueue_loop_progress:
  assumes "redis_server R" and "distinct (map fst sns)"
  shows "fst (enqueue_loop R C K scheduled xs sns (env # (\<lambda>d. d) # envs) d) \<noteq> Inr None"
  by (rule redis_server.enqueue_loop_settles [OF assms])

text \<open>
  An ordinary job is enqueued by a plain pipeline, which is not all or nothing: when
  the queue's key holds a value of another type the call fails and yet the payload has been
  stored, in no queue.
\<close>

theorem plain_enqueue_leaves_orphan:
  assumes "redis_server R" and "r_get R d = None" and "\<not> unique (env_meta e)"
    and "fits R d (jobs_key (st_keys S)) THash"
    and "r_type R d (namespace_queue (st_keys S) (env_queue e)) \<in> {TZset, TString}"
  shows "\<exists>d'. enqueue R C S env envs e d = (Inl wrong_type, d') \<and>
    r_hget R d' (jobs_key (st_keys S)) (env_id e) = Some (to_payload C e) \<and>
    r_lrange R d' = r_lrange R d \<and> r_zscore R d' = r_zscore R d"
proof -
  let ?J = "jobs_key (st_keys S)"
  let ?q = "namespace_queue (st_keys S) (env_queue e)"
  let ?d = "r_hset R d ?J (env_id e) (to_payload C e)"
  have ne: "?q \<noteq> ?J" using assms(4,5) by (auto simp: fits_def)
  have "\<not> fits R ?d ?q TList"
    using assms(5) ne by (auto simp: fits_def redis_server.hset_t [OF assms(1,4)])
  then have "enqueue R C S env envs e d = (Inl wrong_type, ?d)"
    using assms(2,3,4)
    by (simp add: enqueue_def enqueue_w_conn_def enqueue_chunk_def plain_commands_def with_connection_def redis_defs
        seq_def bind_def)
  then show ?thesis
    using redis_server.hset_h [OF assms(1,4)] redis_server.hset_l [OF assms(1,4)] redis_server.hset_z [OF assms(1,4)]
    by simp
qed

section \<open>Witnesses\<close>

definition sample_plain :: job_envelope where
  "sample_plain = projr (envelope_new ''u1'' 10 10 ''mail'' (sample_job\<lparr>unique_id := None\<rparr>))"

theorem plain_enqueue_leaves_orphan_witness:
  "\<exists>d'. enqueue mem_redis netstring_codec \<lparr>st_keys = storage_keys_new ''app'', claimed_connection_retries = None,
      st_started_at = 0, st_instance_id = ''i1'', dead_job_limit = Some 2, st_hostname = ''h'', st_pid = 1\<rparr>
      (\<lambda>d. d) [] sample_plain [(''app:queue:mail'', VString ''x'')] = (Inl wrong_type, d') \<and>
    r_hget mem_redis d' ''app:jobs'' ''u1'' = Some (to_payload netstring_codec sample_plain)"
proof -
  let ?S = "\<lparr>st_keys = storage_keys_new ''app'', claimed_connection_retries = None,
      st_started_at = 0, st_instance_id = ''i1'', dead_job_limit = Some 2, st_hostname = ''h'', st_pid = 1\<rparr>"
  have s: "\<not> unique (env_meta sample_plain)" "env_id sample_plain = ''u1''" "env_queue sample_plain = ''mail''"
    "namespace (storage_keys_new ''app'') = ''app''"
    by (simp_all add: sample_plain_def sample_job_def envelope_new_def unique_job_id_def Let_def storage_keys_new_def)
  have "fits mem_redis [(''app:queue:mail'', VString ''x'')] (jobs_key (st_keys ?S)) THash"
    "r_type mem_redis [(''app:queue:mail'', VString ''x'')] (namespace_queue (st_keys ?S) (env_queue sample_plain))
       \<in> {TZset, TString}"
    by (simp_all add: fits_def mem_type_def s namespace_queue_def)
  from plain_enqueue_leaves_orphan [OF mem.redis_server_axioms _ s(1) this, of netstring_codec "\<lambda>d. d" "[]"] s
  show ?thesis by auto
qed

definition sample_storage :: storage where
  "sample_storage = \<lparr>st_keys = storage_keys_new ''app'', claimed_connection_retries = None,
     st_started_at = 0, st_instance_id = ''i1'', dead_job_limit = Some 2, st_hostname = ''h'', st_pid = 1\<rparr>"

definition sample_input :: enqueue_input where
  "sample_input = \<lparr>in_id = ''a'', in_payload = ''p'', in_queue = ''q'', in_conflict = CReplace, in_score = 0\<rparr>"

lemma sample_runs:
  "enqueue_lua mem_redis ''j'' ''s'' ''r'' False [] [sample_input] [] =
     (Inr ([], [1]), [(''j'', VHash [(''a'', ''p'')]), (''q'', VList [''a''])])"
  by code_simp

lemma sample_enqueue_runs:
  "fst (enqueue mem_redis netstring_codec sample_storage (\<lambda>d. d) [\<lambda>d. d] sample_envelope []) = Inr (Some ''Mail/7'')"
  by code_simp

theorem enqueue_script_sequential_witness:
  "redis_server mem_redis \<and>
   (store_of mem_redis [(''j'', VHash [(''a'', ''p'')]), (''q'', VList [''a''])], [1]) =
     enqueue_seq ''j'' ''s'' ''r'' False (snapshot_queues []) [sample_input] (store_of mem_redis [])"
  using enqueue_script_sequential [OF mem.redis_server_axioms, where jobs = "''j''" and schedule = "''s''"
      and retry = "''r''" and scheduled = False and sns = "[]" and xs = "[sample_input]" and d = "[]", unfolded sample_runs] mem.redis_server_axioms by simp


theorem enqueue_loop_progress_witness:
  "redis_server mem_redis \<and> distinct (map fst ([] :: snapshots)) \<and>
   fst (enqueue_loop mem_redis netstring_codec (storage_keys_new ''app'') False [sample_input] []
     [\<lambda>d. d, \<lambda>d. d] []) \<noteq> Inr None"
  using enqueue_loop_progress [OF mem.redis_server_axioms, of "[]" netstring_codec "storage_keys_new ''app''"
      False "[sample_input]" "\<lambda>d. d" "[]" "[]"] mem.redis_server_axioms by simp

lemma sample_try_enqueue_runs:
  "try_enqueue mem_redis netstring_codec sample_storage (\<lambda>d. d) [\<lambda>d. d] sample_envelope
     [(''app:jobs'', VHash [(''Mail/7'', ''x'')])] =
   (Inr (Some None), [(''app:jobs'', VHash [(''Mail/7'', ''x'')])])"
  by code_simp

theorem try_enqueue_atomic_witness:
  "redis_server mem_redis \<and> is_skip sample_envelope \<and>
   (\<exists>d0. store_of mem_redis [(''app:jobs'', VHash [(''Mail/7'', ''x'')])] =
      admit netstring_codec (st_keys sample_storage) DQueue sample_envelope (store_of mem_redis d0) \<and>
      r_hget mem_redis d0 ''app:jobs'' ''Mail/7'' \<noteq> None)"
proof -
  have skip: "is_skip sample_envelope" by code_simp
  have ids: "jobs_key (st_keys sample_storage) = ''app:jobs''" "env_id sample_envelope = ''Mail/7''"
    by code_simp+
  show ?thesis
    using try_enqueue_atomic [OF mem.redis_server_axioms skip sample_try_enqueue_runs] skip
      mem.redis_server_axioms unfolding ids by (auto split: if_splits)
qed

end
