(* ===== verification/Storage_Jobs.thy ===== *)
theory Storage_Jobs
  imports Enqueue
begin

text \<open>
  The job operations of \<^verbatim>\<open>storage_internal.rs\<close>: claiming, reading and updating jobs, the
  terminal transitions (success, dead, retry), promotion of scheduled jobs and retries, the
  dead list, deletion, listings and counts. Where an operation reads, decides in Rust and
  then runs a script, \<open>env\<close> is what other clients do in between. The clock readings and the
  outcome of the claimed-connection checkout (theory Connection) are arguments.
\<close>

section \<open>Identity\<close>

definition current_process :: "storage \<Rightarrow> int \<Rightarrow> process" where
  "current_process S now = \<lparr>hostname = st_hostname S, pid = st_pid S, instance_id = st_instance_id S,
     heartbeat_at = now, process_started_at = st_started_at S\<rparr>"

definition current_processing_queue :: "storage \<Rightarrow> string" where
  "current_processing_queue S = processing_queue (st_keys S) (process_id (current_process S 0))"

text \<open>The process identifier does not depend on the heartbeat.\<close>

lemma process_id_now: "process_id (current_process S now) = process_id (current_process S 0)"
  by (simp add: process_id_def current_process_def)

definition with_claimed :: "oxana_error option \<Rightarrow> ('d, 'a) op \<Rightarrow> ('d, 'a) op" where
  "with_claimed acq m = (case acq of Some e \<Rightarrow> fail e | None \<Rightarrow> m)"

definition interfere :: "('d \<Rightarrow> 'd) \<Rightarrow> ('d, unit) op" where
  "interfere env = (\<lambda>d. (Inr (), env d))"

section \<open>Claiming and reading\<close>

definition dequeue_w_conn :: "'d redis \<Rightarrow> storage \<Rightarrow> string \<Rightarrow> ('d, job_id option) op" where
  "dequeue_w_conn R S queue =
     lmove R (namespace_queue (st_keys S) queue) (current_processing_queue S)"

definition dequeue :: "'d redis \<Rightarrow> storage \<Rightarrow> string \<Rightarrow> ('d, job_id option) op" where
  "dequeue R S queue = with_connection R (dequeue_w_conn R S queue)"

definition parse_envelope :: "codec \<Rightarrow> string \<Rightarrow> oxana_error + job_envelope" where
  "parse_envelope C s = (case of_payload C s of None \<Rightarrow> Inl JsonError | Some e \<Rightarrow> Inr e)"

definition get_job_w_conn :: "'d redis \<Rightarrow> codec \<Rightarrow> storage \<Rightarrow> job_id \<Rightarrow> ('d, job_envelope option) op" where
  "get_job_w_conn R C S i =
     bind (hget R (jobs_key (st_keys S)) i) (\<lambda>p. case p of
         None \<Rightarrow> return None
       | Some s \<Rightarrow> (case parse_envelope C s of Inl e \<Rightarrow> fail e | Inr e \<Rightarrow> return (Some e)))"

definition get_job :: "'d redis \<Rightarrow> codec \<Rightarrow> storage \<Rightarrow> job_id \<Rightarrow> ('d, job_envelope option) op" where
  "get_job R C S i = with_connection R (get_job_w_conn R C S i)"

fun parse_all :: "codec \<Rightarrow> string list \<Rightarrow> oxana_error + job_envelope list" where
  "parse_all C [] = Inr []"
| "parse_all C (s # ss) = (case parse_envelope C s of Inl e \<Rightarrow> Inl e
     | Inr x \<Rightarrow> (case parse_all C ss of Inl e \<Rightarrow> Inl e | Inr xs \<Rightarrow> Inr (x # xs)))"

fun parse_records :: "codec \<Rightarrow> string option list \<Rightarrow> oxana_error + job_envelope option list" where
  "parse_records C [] = Inr []"
| "parse_records C (None # rs) = (case parse_records C rs of Inl e \<Rightarrow> Inl e | Inr xs \<Rightarrow> Inr (None # xs))"
| "parse_records C (Some s # rs) = (case parse_envelope C s of Inl e \<Rightarrow> Inl e
     | Inr x \<Rightarrow> (case parse_records C rs of Inl e \<Rightarrow> Inl e | Inr xs \<Rightarrow> Inr (Some x # xs)))"

definition jobs_w_conn :: "'d redis \<Rightarrow> codec \<Rightarrow> storage \<Rightarrow> job_id list \<Rightarrow> ('d, job_envelope option list) op" where
  "jobs_w_conn R C S ids =
     (if ids = [] then return []
      else bind (hmget R (jobs_key (st_keys S)) ids) (\<lambda>records. lift_result (parse_records C records)))"

text \<open>\<^verbatim>\<open>HMGET\<close> without fields is refused by the server.\<close>

definition get_many :: "'d redis \<Rightarrow> codec \<Rightarrow> storage \<Rightarrow> job_id list \<Rightarrow> ('d, job_envelope list) op" where
  "get_many R C S ids =
     with_connection R
       (if ids = [] then fail (DeadpoolRedisError OtherRedisError)
        else bind (hmget R (jobs_key (st_keys S)) ids) (\<lambda>records.
               lift_result (parse_all C (List.map_filter (\<lambda>x. x) records))))"

section \<open>Updating\<close>

definition update_job :: "'d redis \<Rightarrow> codec \<Rightarrow> storage \<Rightarrow> job_envelope \<Rightarrow> ('d, unit) op" where
  "update_job R C S e =
     with_connection R (pipe [hset R (jobs_key (st_keys S)) (env_id e) (to_payload C e)])"

definition hset_multiple :: "'d redis \<Rightarrow> string \<Rightarrow> (string \<times> string) list \<Rightarrow> ('d, unit) op" where
  "hset_multiple R k items =
     writing R THash k (\<lambda>d. fold (\<lambda>(f, v) d. r_hset R d k f v) items d)"

definition update_jobs ::
    "'d redis \<Rightarrow> codec \<Rightarrow> storage \<Rightarrow> oxana_error option \<Rightarrow> job_envelope list \<Rightarrow> ('d, unit) op" where
  "update_jobs R C S acq es =
     (if es = [] then return ()
      else with_claimed acq
        (hset_multiple R (jobs_key (st_keys S)) (map (\<lambda>e. (env_id e, to_payload C e)) es)))"

definition update_state :: "'d redis \<Rightarrow> codec \<Rightarrow> storage \<Rightarrow> ('d \<Rightarrow> 'd) \<Rightarrow> job_id \<Rightarrow> json \<Rightarrow> ('d, unit) op" where
  "update_state R C S env i v =
     bind (get_job R C S i) (\<lambda>r. case r of
         None \<Rightarrow> fail JobNotFound
       | Some e \<Rightarrow> seq (interfere env)
           (update_job R C S (e\<lparr>env_meta := (env_meta e)\<lparr>state := Some v\<rparr>\<rparr>)))"

definition started :: "int \<Rightarrow> job_envelope \<Rightarrow> job_envelope" where
  "started now e = e\<lparr>env_meta := (env_meta e)\<lparr>started_at := Some now\<rparr>\<rparr>"

definition set_started_at_batch ::
    "'d redis \<Rightarrow> codec \<Rightarrow> storage \<Rightarrow> oxana_error option \<Rightarrow> int \<Rightarrow> job_envelope list
       \<Rightarrow> ('d, job_envelope list) op" where
  "set_started_at_batch R C S acq now es =
     (let es' = map (started now) es in seq (update_jobs R C S acq es') (return es'))"

section \<open>Terminal transitions\<close>

text \<open>
  The retry score is computed in \<^verbatim>\<open>u64\<close>: the release build wraps around.
\<close>

definition retry_score :: "int \<Rightarrow> nat \<Rightarrow> int" where
  "retry_score now delay_s = (now + int ((delay_s * 1000000) mod 2 ^ 64)) mod 2 ^ 64"

definition retry_in ::
    "'d redis \<Rightarrow> codec \<Rightarrow> storage \<Rightarrow> oxana_error option \<Rightarrow> ('d \<Rightarrow> 'd) \<Rightarrow> int \<Rightarrow> job_id \<Rightarrow> nat \<Rightarrow> string
       \<Rightarrow> ('d, unit) op" where
  "retry_in R C S acq env now i delay_s msg =
     with_claimed acq
       (bind (get_job_w_conn R C S i) (\<lambda>r. seq (interfere env) (case r of
           None \<Rightarrow> lrem1 R (current_processing_queue S) i
         | Some e \<Rightarrow>
             let e' = with_retries_incremented msg e in
             retry_failed_lua R (jobs_key (st_keys S)) (retry_key (st_keys S)) (current_processing_queue S)
               (env_id e') (to_payload C e') (retry_score now delay_s))))"

definition kill ::
    "'d redis \<Rightarrow> codec \<Rightarrow> storage \<Rightarrow> oxana_error option \<Rightarrow> job_envelope \<Rightarrow> string \<Rightarrow> ('d, unit) op" where
  "kill R C S acq e msg =
     (let e' = with_error msg e in
      with_claimed acq
        (finish_dead_lua R (jobs_key (st_keys S)) (dead_key (st_keys S)) (current_processing_queue S)
           (env_id e') (to_payload C e') (case dead_job_limit S of None \<Rightarrow> 0 | Some n \<Rightarrow> n)))"

definition finish_with_success_batch ::
    "'d redis \<Rightarrow> storage \<Rightarrow> oxana_error option \<Rightarrow> job_envelope list \<Rightarrow> ('d, unit) op" where
  "finish_with_success_batch R S acq es =
     (if es = [] then return ()
      else with_claimed acq
        (finish_success_lua R (jobs_key (st_keys S)) (current_processing_queue S) (map env_id es)))"

definition finish_with_success ::
    "'d redis \<Rightarrow> storage \<Rightarrow> oxana_error option \<Rightarrow> job_envelope \<Rightarrow> ('d, unit) op" where
  "finish_with_success R S acq e = finish_with_success_batch R S acq [e]"

section \<open>Promotion of scheduled jobs and retries\<close>

definition transition_snapshot ::
    "'d redis \<Rightarrow> codec \<Rightarrow> storage \<Rightarrow> job_id \<Rightarrow> ('d, string option \<times> job_envelope option) op" where
  "transition_snapshot R C S i =
     bind (hget R (jobs_key (st_keys S)) i) (\<lambda>p. case p of
         None \<Rightarrow> return (None, None)
       | Some s \<Rightarrow> (case parse_envelope C s of Inl e \<Rightarrow> fail e | Inr e \<Rightarrow> return (Some s, Some e)))"

text \<open>One environment step per job, between its snapshot and its script.\<close>

fun promote_scheduled_jobs ::
    "'d redis \<Rightarrow> codec \<Rightarrow> storage \<Rightarrow> string \<Rightarrow> (nat \<Rightarrow> 'd \<Rightarrow> 'd) \<Rightarrow> nat \<Rightarrow> (job_id \<times> int) list \<Rightarrow> ('d, nat) op" where
  "promote_scheduled_jobs R C S zset env count [] = return count"
| "promote_scheduled_jobs R C S zset env count ((i, score) # rest) = (\<lambda>d.
     case transition_snapshot R C S i d of
       (Inl JsonError, d') \<Rightarrow> promote_scheduled_jobs R C S zset env count rest d'
     | (Inl e, d') \<Rightarrow> (Inl e, d')
     | (Inr (payload, e), d') \<Rightarrow>
         (let queue = (case e of None \<Rightarrow> [] | Some e \<Rightarrow> env_queue e) in
          bind (promote_scheduled_lua R (jobs_key (st_keys S)) zset (namespace_queue (st_keys S) queue)
                  i (case payload of None \<Rightarrow> [] | Some p \<Rightarrow> p) score)
            (\<lambda>moved. promote_scheduled_jobs R C S zset env (count + moved) rest) (env (length rest) d')))"

definition enqueue_scheduled ::
    "'d redis \<Rightarrow> codec \<Rightarrow> storage \<Rightarrow> (nat \<Rightarrow> 'd \<Rightarrow> 'd) \<Rightarrow> int \<Rightarrow> string \<Rightarrow> ('d, nat) op" where
  "enqueue_scheduled R C S env now zset =
     with_connection R (bind (zrangebyscore R zset 0 now) (promote_scheduled_jobs R C S zset env 0))"

definition retry_all_now :: "'d redis \<Rightarrow> codec \<Rightarrow> storage \<Rightarrow> (nat \<Rightarrow> 'd \<Rightarrow> 'd) \<Rightarrow> ('d, nat) op" where
  "retry_all_now R C S env =
     with_connection R (bind (zrange_withscores R (retry_key (st_keys S)))
       (promote_scheduled_jobs R C S (retry_key (st_keys S)) env 0))"

section \<open>Deletion\<close>

text \<open>The queue a stored payload names, read leniently from any JSON object.\<close>

definition raw_queue :: "codec \<Rightarrow> string \<Rightarrow> string option" where
  "raw_queue C raw = Option.bind (jparse C raw) (\<lambda>j. Option.bind (json_field j ''queue'') as_str)"

definition delete_job :: "'d redis \<Rightarrow> codec \<Rightarrow> storage \<Rightarrow> ('d \<Rightarrow> 'd) \<Rightarrow> job_id \<Rightarrow> ('d, unit) op" where
  "delete_job R C S env i =
     (let K = st_keys S in
      with_connection R
        (bind (hget R (jobs_key K) i) (\<lambda>raw.
         bind (case Option.bind raw (raw_queue C) of
                 Some q \<Rightarrow> return [namespace_queue K q]
               | None \<Rightarrow> if raw \<noteq> None then scan R (queue_prefix K @ '':'') else return [])
           (\<lambda>qs. seq (interfere env) (pipe
              ([hdel R (jobs_key K) i,
                zrem R (schedule_key K) i,
                zrem R (retry_key K) i,
                lrem_all R (current_processing_queue S) i]
               @ map (\<lambda>q. lrem_all R q i) qs))))))"

definition hdel_many :: "'d redis \<Rightarrow> string \<Rightarrow> string list \<Rightarrow> ('d, unit) op" where
  "hdel_many R k fs = writing R THash k (\<lambda>d. fold (\<lambda>f d. r_hdel R d k f) fs d)"

definition wipe_queue :: "'d redis \<Rightarrow> storage \<Rightarrow> ('d \<Rightarrow> 'd) \<Rightarrow> string \<Rightarrow> ('d, unit) op" where
  "wipe_queue R S env queue =
     (let key = namespace_queue (st_keys S) queue in
      with_connection R
        (bind (lrange_all R key) (\<lambda>ids. seq (interfere env)
          (if ids \<noteq> [] then pipe [hdel_many R (jobs_key (st_keys S)) ids, del R key]
           else del R key))))"

definition wipe_dead :: "'d redis \<Rightarrow> storage \<Rightarrow> ('d, unit) op" where
  "wipe_dead R S = with_connection R (del R (dead_key (st_keys S)))"

section \<open>Reviving the dead\<close>

definition claim_dead :: "'d redis \<Rightarrow> string \<Rightarrow> string \<Rightarrow> ('d, nat) op" where
  "claim_dead R dead claim = (\<lambda>d.
     if r_type R d dead = TNone then (Inr 0, d) else (Inr 1, r_rename R d dead claim))"

definition rpush_many :: "'d redis \<Rightarrow> string \<Rightarrow> string list \<Rightarrow> ('d, unit) op" where
  "rpush_many R k vs = writing R TList k (\<lambda>d. fold (\<lambda>v d. r_rpush R d k v) vs d)"

definition restore_claimed_dead_entries ::
    "'d redis \<Rightarrow> storage \<Rightarrow> string \<Rightarrow> string list \<Rightarrow> ('d, unit) op" where
  "restore_claimed_dead_entries R S claim entries =
     with_connection R
       (if entries = [] then del R claim
        else pipe [rpush_many R (dead_key (st_keys S)) entries, del R claim])"

text \<open>Nobody else writes between the reads and the script of each enqueue here.\<close>

fun revive_loop :: "'d redis \<Rightarrow> codec \<Rightarrow> storage \<Rightarrow> string \<Rightarrow> nat \<Rightarrow> string list \<Rightarrow> ('d, nat) op" where
  "revive_loop R C S claim n [] = with_connection R (seq (del R claim) (return n))"
| "revive_loop R C S claim n (entry # entries) =
     (case of_payload C entry of
        None \<Rightarrow> revive_loop R C S claim n entries
      | Some job \<Rightarrow> (\<lambda>d. case enqueue R C S (\<lambda>d. d) [\<lambda>d. d] job d of
            (Inr _, d') \<Rightarrow> revive_loop R C S claim (n + 1) entries d'
          | (Inl er, d') \<Rightarrow>
              (Inl er, snd (restore_claimed_dead_entries R S claim (entry # entries) d'))))"

definition revive_all_dead :: "'d redis \<Rightarrow> codec \<Rightarrow> storage \<Rightarrow> string \<Rightarrow> ('d, nat) op" where
  "revive_all_dead R C S uuid =
     (let dead = dead_key (st_keys S); claim = dead @ '':reviving:'' @ uuid in
      with_connection R
        (bind (claim_dead R dead claim) (\<lambda>claimed.
           if claimed = 0 then return 0
           else bind (lrange_all R claim) (revive_loop R C S claim 0))))"

section \<open>Listings and counts\<close>

record queue_list_opts =
  list_count :: nat
  list_offset :: nat

definition list_queue_jobs ::
    "'d redis \<Rightarrow> codec \<Rightarrow> storage \<Rightarrow> string \<Rightarrow> queue_list_opts \<Rightarrow> ('d, job_envelope list) op" where
  "list_queue_jobs R C S queue opts =
     with_connection R
       (bind (lrange R (namespace_queue (st_keys S) queue) (list_offset opts)
                (list_offset opts + list_count opts - 1))
         (\<lambda>ids. if ids = [] then return [] else get_many R C S ids))"

definition list_dead :: "'d redis \<Rightarrow> codec \<Rightarrow> storage \<Rightarrow> queue_list_opts \<Rightarrow> ('d, job_envelope list) op" where
  "list_dead R C S opts =
     with_connection R
       (bind (lrange R (dead_key (st_keys S)) (list_offset opts) (list_offset opts + list_count opts - 1))
         (\<lambda>entries. return (List.map_filter (of_payload C) entries)))"

definition list_retries :: "'d redis \<Rightarrow> codec \<Rightarrow> storage \<Rightarrow> queue_list_opts \<Rightarrow> ('d, job_envelope list) op" where
  "list_retries R C S opts =
     with_connection R
       (bind (zrange R (retry_key (st_keys S)) (list_offset opts) (list_offset opts + list_count opts - 1))
         (\<lambda>ids. if ids = [] then return [] else get_many R C S ids))"

definition list_scheduled :: "'d redis \<Rightarrow> codec \<Rightarrow> storage \<Rightarrow> queue_list_opts \<Rightarrow> ('d, job_envelope list) op" where
  "list_scheduled R C S opts =
     with_connection R
       (bind (zrange R (schedule_key (st_keys S)) (list_offset opts) (list_offset opts + list_count opts - 1))
         (\<lambda>ids. if ids = [] then return [] else get_many R C S ids))"

definition enqueued_count :: "'d redis \<Rightarrow> storage \<Rightarrow> string \<Rightarrow> ('d, nat) op" where
  "enqueued_count R S queue = with_connection R (llen R (namespace_queue (st_keys S) queue))"

definition dead_count :: "'d redis \<Rightarrow> storage \<Rightarrow> ('d, nat) op" where
  "dead_count R S = with_connection R (llen R (dead_key (st_keys S)))"

definition retries_count :: "'d redis \<Rightarrow> storage \<Rightarrow> ('d, nat) op" where
  "retries_count R S = with_connection R (zcard R (retry_key (st_keys S)))"

definition scheduled_count :: "'d redis \<Rightarrow> storage \<Rightarrow> ('d, nat) op" where
  "scheduled_count R S = with_connection R (zcard R (schedule_key (st_keys S)))"

definition jobs_count :: "'d redis \<Rightarrow> storage \<Rightarrow> ('d, nat) op" where
  "jobs_count R S = with_connection R (hlen R (jobs_key (st_keys S)))"

text \<open>The age of the job at the front of the queue, in microseconds.\<close>

definition latency_micros_w_conn :: "'d redis \<Rightarrow> codec \<Rightarrow> storage \<Rightarrow> int \<Rightarrow> string \<Rightarrow> ('d, int) op" where
  "latency_micros_w_conn R C S now queue =
     bind (lrange_all R (namespace_queue (st_keys S) queue)) (\<lambda>ids.
       if ids = [] then return 0
       else bind (get_job_w_conn R C S (last ids)) (\<lambda>r. return (case r of
              None \<Rightarrow> 0
            | Some e \<Rightarrow> now - effective_scheduled_at_micros (env_meta e))))"

section \<open>Refinement\<close>

text \<open>The abstract claim: the oldest identifier of the queue moves to the processing list.\<close>

definition claim :: "string \<Rightarrow> string \<Rightarrow> store \<Rightarrow> store" where
  "claim q proc s = (if lists s q = [] then s
     else map_list proc ((#) (last (lists s q))) (map_list q butlast s))"

text \<open>
  A run of an operation that either fails without a trace or performs an abstract update.
\<close>

definition atomically ::
    "'d redis \<Rightarrow> 'd \<Rightarrow> (oxana_error + 'a) \<times> 'd \<Rightarrow> ('a \<Rightarrow> bool) \<Rightarrow> (store \<Rightarrow> store) \<Rightarrow> bool" where
  "atomically R d r P f = (case r of (Inl _, d') \<Rightarrow> d' = d
     | (Inr x, d') \<Rightarrow> P x \<and> store_of R d' = f (store_of R d))"

lemma atomically_connection:
  "atomically R d (m d) P f \<Longrightarrow> atomically R d (with_connection R m d) P f"
  by (simp add: atomically_def with_connection_def split: option.split)

lemma atomically_claimed:
  "atomically R d (m d) P f \<Longrightarrow> atomically R d (with_claimed acq m d) P f"
  by (simp add: atomically_def with_claimed_def split: option.split)

lemma current_processing_distinct:
  assumes "keys_distinct (st_keys S)"
  shows "current_processing_queue S \<noteq> jobs_key (st_keys S)" "current_processing_queue S \<noteq> dead_key (st_keys S)"
    "current_processing_queue S \<noteq> schedule_key (st_keys S)" "current_processing_queue S \<noteq> retry_key (st_keys S)"
  using keys_distinctD [OF assms] by (simp_all add: current_processing_queue_def)

context redis_server
begin

lemma lmove_refines:
  "atomically R d (lmove R src dst d)
     (\<lambda>r. r = (if lists (store_of R d) src = [] then None else Some (last (lists (store_of R d) src))))
     (claim src dst)"
  by (auto simp: atomically_def lmove_def Let_def claim_def store_simps fits_simps)

lemma dequeue_refines:
  "atomically R d (dequeue R S q d)
     (\<lambda>r. r = (let l = lists (store_of R d) (namespace_queue (st_keys S) q)
               in if l = [] then None else Some (last l)))
     (claim (namespace_queue (st_keys S) q) (current_processing_queue S))"
  unfolding dequeue_def dequeue_w_conn_def Let_def by (rule atomically_connection [OF lmove_refines])

lemma get_job_cases:
  obtains (Err) e where "get_job_w_conn R C S i d = (Inl e, d)"
  | (Gone) "r_hget R d (jobs_key (st_keys S)) i = None" "get_job_w_conn R C S i d = (Inr None, d)"
  | (Found) p e where "r_hget R d (jobs_key (st_keys S)) i = Some p" "of_payload C p = Some e"
      "get_job_w_conn R C S i d = (Inr (Some e), d)"
proof (cases "fits R d (jobs_key (st_keys S)) THash")
  case False
  then show thesis by (intro Err [of wrong_type]) (simp add: get_job_w_conn_def redis_defs bind_def)
next
  case fits: True
  show thesis
  proof (cases "r_hget R d (jobs_key (st_keys S)) i")
    case None
    with fits show thesis by (intro Gone) (simp_all add: get_job_w_conn_def redis_defs bind_def)
  next
    case (Some p)
    show thesis
    proof (cases "of_payload C p")
      case None
      with Some fits show thesis
        by (intro Err [of JsonError]) (simp add: get_job_w_conn_def redis_defs bind_def parse_envelope_def)
    next
      case (Some e)
      with \<open>r_hget R d (jobs_key (st_keys S)) i = Some p\<close> fits show thesis
        by (intro Found [of p e]) (simp_all add: get_job_w_conn_def redis_defs bind_def parse_envelope_def)
    qed
  qed
qed

lemma finish_success_atomic:
  assumes "keys_distinct (st_keys S)"
  shows "atomically R d (finish_with_success_batch R S acq es d) (\<lambda>_. True)
    (fold (acknowledge (jobs_key (st_keys S)) (current_processing_queue S)) (map env_id es))"
proof (cases "es = []")
  case True
  then show ?thesis by (simp add: finish_with_success_batch_def atomically_def)
next
  case False
  have "atomically R d (finish_success_lua R (jobs_key (st_keys S)) (current_processing_queue S) (map env_id es) d)
      (\<lambda>_. True) (fold (acknowledge (jobs_key (st_keys S)) (current_processing_queue S)) (map env_id es))"
    using finish_success_refines [OF current_processing_distinct(1) [OF assms, symmetric], where ids = "map env_id es" and d = d]
    by (simp add: atomically_def split: prod.splits sum.splits)
  with False show ?thesis
    by (simp add: finish_with_success_batch_def atomically_claimed)
qed

lemma kill_atomic:
  assumes "keys_distinct (st_keys S)"
  shows "atomically R d (kill R C S acq e msg d) (\<lambda>_. True)
    (bury (jobs_key (st_keys S)) (dead_key (st_keys S)) (current_processing_queue S) (env_id e)
      (to_payload C (with_error msg e)) (case dead_job_limit S of None \<Rightarrow> 0 | Some n \<Rightarrow> n))"
proof -
  let ?n = "case dead_job_limit S of None \<Rightarrow> 0 | Some n \<Rightarrow> n"
  note dist = keys_distinctD(1) [OF assms] current_processing_distinct(1,2) [OF assms, symmetric]
  have "atomically R d (finish_dead_lua R (jobs_key (st_keys S)) (dead_key (st_keys S)) (current_processing_queue S)
      (env_id e) (to_payload C (with_error msg e)) ?n d) (\<lambda>_. True)
    (bury (jobs_key (st_keys S)) (dead_key (st_keys S)) (current_processing_queue S) (env_id e)
      (to_payload C (with_error msg e)) ?n)"
    using finish_dead_refines [OF dist, where i = "env_id e" and payload = "to_payload C (with_error msg e)"
        and limit = ?n and d = d]
    by (simp add: atomically_def split: prod.splits sum.splits)
  then show ?thesis
    unfolding kill_def Let_def by (intro atomically_claimed) (simp add: with_error_def)
qed

lemma retry_in_atomic:
  assumes "keys_distinct (st_keys S)"
  shows "atomically R d (retry_in R C S acq (\<lambda>d. d) now i delay_s msg d) (\<lambda>_. True)
    (\<lambda>s. case hashes s (jobs_key (st_keys S)) i of
        None \<Rightarrow> map_list (current_processing_queue S) (remove1 i) s
      | Some p \<Rightarrow> (case of_payload C p of
            None \<Rightarrow> s
          | Some e \<Rightarrow> postpone (jobs_key (st_keys S)) (retry_key (st_keys S)) (current_processing_queue S)
              (env_id e) (to_payload C (with_retries_incremented msg e)) (retry_score now delay_s) s))"
  (is "atomically R d _ _ ?f")
  unfolding retry_in_def
proof (rule atomically_claimed)
  let ?m = "bind (get_job_w_conn R C S i) (\<lambda>r. seq (interfere (\<lambda>d. d)) (case r of
           None \<Rightarrow> lrem1 R (current_processing_queue S) i
         | Some e \<Rightarrow> let e' = with_retries_incremented msg e in
             retry_failed_lua R (jobs_key (st_keys S)) (retry_key (st_keys S)) (current_processing_queue S)
               (env_id e') (to_payload C e') (retry_score now delay_s)))"
  show "atomically R d (?m d) (\<lambda>_. True) ?f"
  proof (cases rule: get_job_cases [of C S i d])
    case (Err e)
    then show ?thesis by (simp add: bind_def atomically_def)
  next
    case Gone
    then show ?thesis by (simp add: bind_def seq_def interfere_def atomically_def redis_defs store_simps)
  next
    case (Found p e)
    have ids: "env_id (with_retries_incremented msg e) = env_id e" by (simp add: with_retries_incremented_def)
    from retry_failed_refines [OF keys_distinctD(3) [OF assms] current_processing_distinct(1,4) [OF assms, symmetric],
        where i = "env_id e" and payload = "to_payload C (with_retries_incremented msg e)"
          and score = "retry_score now delay_s" and d = d] Found
    show ?thesis
      by (simp add: bind_def seq_def interfere_def atomically_def ids split: prod.splits sum.splits)
  qed
qed

end

text \<open>Promotion of one due entry of a sorted set.\<close>

definition promote_due :: "codec \<Rightarrow> storage_keys \<Rightarrow> string \<Rightarrow> job_id \<Rightarrow> store \<Rightarrow> store" where
  "promote_due C K zset i s =
     (case hashes s (jobs_key K) i of
        None \<Rightarrow> put_zset zset i None s
      | Some p \<Rightarrow> (case of_payload C p of
            None \<Rightarrow> s
          | Some e \<Rightarrow> put_zset zset i None (map_list (namespace_queue K (env_queue e)) ((#) i) s)))"

definition runnable :: "codec \<Rightarrow> storage_keys \<Rightarrow> store \<Rightarrow> job_id \<Rightarrow> bool" where
  "runnable C K s i = (case hashes s (jobs_key K) i of None \<Rightarrow> False | Some p \<Rightarrow> of_payload C p \<noteq> None)"

lemma promote_due_frame:
  "hashes (promote_due C K zset i s) = hashes s"
  "j \<noteq> i \<Longrightarrow> zsets (promote_due C K zset i s) zset j = zsets s zset j"
  by (simp_all add: promote_due_def store_updates split: option.splits)

context redis_server
begin

lemma promote_script_cases:
  obtains (Err) e where "promote_scheduled_lua R jobs zset queue i expected score d = (Inl e, d)"
  | (Ok) d' where "promote_scheduled_lua R jobs zset queue i expected score d =
        (Inr (if r_zscore R d zset i = Some score \<and> r_hget R d jobs i = expected_payload expected \<and>
                 expected_payload expected \<noteq> None then 1 else 0), d')"
      "store_of R d' = promote jobs zset queue i (expected_payload expected) score (store_of R d)"
  using promote_refines [where jobs = jobs and zset = zset and queue = queue and i = i and expected = expected
      and score = score and d = d]
  by (auto simp: promote_scheduled_lua_def script_simps split: if_splits prod.splits)

lemma promote_step:
  assumes "json_codec C" "r_zscore R d zset i = Some score"
    and "promote_scheduled_jobs R C S zset (\<lambda>_ d. d) n ((i, score) # rest) d = (Inr m, d')"
  shows "\<exists>d1. store_of R d1 = promote_due C (st_keys S) zset i (store_of R d) \<and>
    promote_scheduled_jobs R C S zset (\<lambda>_ d. d)
      (n + (if runnable C (st_keys S) (store_of R d) i then 1 else 0)) rest d1 = (Inr m, d')"
proof -
  let ?J = "jobs_key (st_keys S)"
  have fits: "fits R d ?J THash"
    using assms(3) by (auto simp: transition_snapshot_def redis_defs bind_def wrong_type_def split: if_splits)
  note snap = transition_snapshot_def redis_defs bind_def parse_envelope_def
  show ?thesis
  proof (cases "r_hget R d ?J i")
    case None
    show ?thesis
      by (cases rule: promote_script_cases [where jobs = ?J and zset = zset and i = i and expected = "[]"
            and queue = "namespace_queue (st_keys S) []" and score = score and d = d])
        (use None fits assms in \<open>auto simp: snap promote_due_def promote_def runnable_def expected_payload_def
          split: if_splits\<close>)
  next
    case (Some p)
    show ?thesis
    proof (cases "of_payload C p")
      case None
      with Some fits assms(3) show ?thesis by (auto simp: snap promote_due_def runnable_def)
    next
      case (Some e)
      have p: "p \<noteq> []" using Some json_codec.parse_empty [OF assms(1)] by (auto simp: of_payload_def)
      show ?thesis
        by (cases rule: promote_script_cases [where jobs = ?J and zset = zset and i = i and expected = p
              and queue = "namespace_queue (st_keys S) (env_queue e)" and score = score and d = d])
          (use \<open>r_hget R d ?J i = Some p\<close> Some p fits assms in \<open>auto simp: snap promote_due_def promote_def
             runnable_def expected_payload_def split: if_splits\<close>)
    qed
  qed
qed

lemma promote_loop:
  assumes "json_codec C" "distinct (map fst js)" "\<And>i sc. (i, sc) \<in> set js \<Longrightarrow> r_zscore R d zset i = Some sc"
    and "promote_scheduled_jobs R C S zset (\<lambda>_ d. d) n js d = (Inr m, d')"
  shows "store_of R d' = fold (promote_due C (st_keys S) zset) (map fst js) (store_of R d) \<and>
    m = n + length (filter (runnable C (st_keys S) (store_of R d)) (map fst js))"
  using assms(2-)
proof (induction js arbitrary: n d)
  case Nil
  then show ?case by simp
next
  case (Cons x js)
  obtain i score where x: "x = (i, score)" by (cases x)
  from promote_step [OF assms(1), of d zset i score S n js m d'] Cons.prems x obtain d1 where d1:
    "store_of R d1 = promote_due C (st_keys S) zset i (store_of R d)"
    "promote_scheduled_jobs R C S zset (\<lambda>_ d. d)
      (n + (if runnable C (st_keys S) (store_of R d) i then 1 else 0)) js d1 = (Inr m, d')" by auto
  have z: "r_zscore R d1 zset j = Some sc" if "(j, sc) \<in> set js" for j sc
  proof -
    have "j \<noteq> i" using that Cons.prems(1) x by (force simp: image_iff)
    then have "zsets (store_of R d1) zset j = zsets (store_of R d) zset j" by (simp add: d1(1) promote_due_frame)
    with Cons.prems(2) [of j sc] that x show ?thesis by simp
  qed
  have "runnable C (st_keys S) (store_of R d1) = runnable C (st_keys S) (store_of R d)"
    by (simp add: fun_eq_iff runnable_def d1(1) promote_due_frame)
  with Cons.IH [of d1, OF _ z d1(2)] Cons.prems(1) d1(1) x show ?case by simp
qed

lemma hdel_many_refines:
  assumes "hdel_many R k fs d = (Inr (), d')"
  shows "store_of R d' = fold (\<lambda>f. put_hash k f None) fs (store_of R d)"
proof -
  have "fits R d k THash \<Longrightarrow> store_of R (fold (\<lambda>f d. r_hdel R d k f) fs d) = fold (\<lambda>f. put_hash k f None) fs (store_of R d)"
    by (induction fs arbitrary: d) (simp_all add: store_simps fits_simps)
  with assms show ?thesis by (auto simp: hdel_many_def writing_def split: if_splits)
qed

lemma rpush_many_refines:
  assumes "rpush_many R k vs d = (Inr (), d')"
  shows "store_of R d' = map_list k (\<lambda>l. l @ vs) (store_of R d)"
proof -
  have "fits R d k TList \<Longrightarrow> store_of R (fold (\<lambda>v d. r_rpush R d k v) vs d) = map_list k (\<lambda>l. l @ vs) (store_of R d)"
    by (induction vs arbitrary: d) (simp_all add: store_simps fits_simps map_list_def views)
  with assms show ?thesis by (auto simp: rpush_many_def writing_def split: if_splits)
qed

lemma pipe_lrems_refines:
  "pipe (map (\<lambda>q. lrem_all R q i) qs) d = (Inr (), d') \<Longrightarrow>
     store_of R d' = fold (\<lambda>q. map_list q (removeAll i)) qs (store_of R d)"
  by (induction qs arbitrary: d)
    (auto simp: pipe_Cons_Inr redis_defs store_simps simp del: pipe.simps(2) split: if_splits)

end

lemma fold_put_hash_None:
  "fold (\<lambda>f. put_hash k f None) fs s =
     s\<lparr>hashes := (hashes s)(k := (\<lambda>f. if f \<in> set fs then None else hashes s k f))\<rparr>"
  by (induction fs arbitrary: s) (auto simp: put_hash_def fun_eq_iff intro!: store.equality)

lemma fold_removeAll_lists:
  "lists (fold (\<lambda>q. map_list q (removeAll i)) qs s) k = (if k \<in> set qs then removeAll i (lists s k) else lists s k)"
  "hashes (fold (\<lambda>q. map_list q (removeAll i)) qs s) = hashes s"
  "zsets (fold (\<lambda>q. map_list q (removeAll i)) qs s) = zsets s"
  by (induction qs arbitrary: s) (simp_all add: map_list_def)

context redis_server
begin

lemma wipe_queue_refines:
  assumes "wipe_queue R S (\<lambda>d. d) q d = (Inr (), d')" "namespace_queue (st_keys S) q \<noteq> jobs_key (st_keys S)"
  defines "k \<equiv> namespace_queue (st_keys S) q" and "J \<equiv> jobs_key (st_keys S)"
  shows "store_of R d' = \<lparr>hashes = (r_hget R d)(J := (\<lambda>f. if f \<in> set (r_lrange R d k) then None else r_hget R d J f)),
     lists = (r_lrange R d)(k := []), zsets = r_zscore R d\<rparr>"
proof -
  have f: "fits R d k TList" using assms(1)
    by (auto simp: wipe_queue_def Let_def k_def with_connection_def redis_defs bind_def split: option.splits if_splits)
  have clean: "r_hget R d k = Map.empty" "r_zscore R d k = Map.empty"
    using type_exclusive(1,6) [OF f] by auto
  show ?thesis
  proof (cases "r_lrange R d k = []")
    case True
    with assms(1) f have "store_of R d' = clear_key k (store_of R d)"
      by (auto simp: wipe_queue_def Let_def k_def with_connection_def redis_defs bind_def seq_def interfere_def store_simps
          split: option.splits)
    with True clean show ?thesis by (simp add: clear_key_def fun_eq_iff)
  next
    case False
    with assms(1) f obtain d1 where d1: "hdel_many R J (r_lrange R d k) d = (Inr (), d1)" "d' = r_del R d1 k"
      by (auto simp: wipe_queue_def Let_def k_def J_def with_connection_def redis_defs bind_def seq_def interfere_def
          split: option.splits prod.splits sum.splits)
    from hdel_many_refines [OF d1(1)] clean d1(2) assms(2) show ?thesis
      by (simp add: store_simps clear_key_def fold_put_hash_None fun_upd_twist k_def J_def)
        (auto simp: fun_eq_iff J_def)
  qed
qed

lemma delete_job_refines:
  assumes "delete_job R C S (\<lambda>d. d) i d = (Inr (), d')"
  defines "K \<equiv> st_keys S"
  shows "\<exists>qs. (\<forall>p q. r_hget R d (jobs_key K) i = Some p \<longrightarrow> raw_queue C p = Some q \<longrightarrow> namespace_queue K q \<in> set qs) \<and>
    (\<forall>p k. r_hget R d (jobs_key K) i = Some p \<longrightarrow> raw_queue C p = None \<longrightarrow> prefix (queue_prefix K @ '':'') k
       \<longrightarrow> r_lrange R d k \<noteq> [] \<longrightarrow> k \<in> set qs) \<and>
    store_of R d' = fold (\<lambda>q. map_list q (removeAll i)) qs
      (map_list (current_processing_queue S) (removeAll i)
        (put_zset (retry_key K) i None (put_zset (schedule_key K) i None (put_hash (jobs_key K) i None (store_of R d)))))"
proof -
  let ?raw = "r_hget R d (jobs_key K) i"
  let ?qs = "case Option.bind ?raw (raw_queue C) of Some q \<Rightarrow> [namespace_queue K q]
      | None \<Rightarrow> if ?raw \<noteq> None then r_keys R d (queue_prefix K @ '':'') else []"
  have "pipe ([hdel R (jobs_key K) i, zrem R (schedule_key K) i, zrem R (retry_key K) i,
      lrem_all R (current_processing_queue S) i] @ map (\<lambda>q. lrem_all R q i) ?qs) d = (Inr (), d')"
    using assms(1) unfolding K_def
    by (auto simp: delete_job_def Let_def with_connection_def bind_def seq_def interfere_def hget_def
        reading_def scan_def simp del: pipe.simps split: option.splits if_splits)
  then obtain d1 where d1:
    "pipe [hdel R (jobs_key K) i, zrem R (schedule_key K) i, zrem R (retry_key K) i,
      lrem_all R (current_processing_queue S) i] d = (Inr (), d1)"
    "pipe (map (\<lambda>q. lrem_all R q i) ?qs) d1 = (Inr (), d')"
    unfolding pipe_append_Inr by blast
  have "store_of R d1 = map_list (current_processing_queue S) (removeAll i)
        (put_zset (retry_key K) i None (put_zset (schedule_key K) i None (put_hash (jobs_key K) i None (store_of R d))))"
    using d1(1) by (auto simp: redis_defs store_simps split: if_splits)
  with pipe_lrems_refines [OF d1(2)] have st: "store_of R d' = fold (\<lambda>q. map_list q (removeAll i)) ?qs
      (map_list (current_processing_queue S) (removeAll i)
        (put_zset (retry_key K) i None (put_zset (schedule_key K) i None (put_hash (jobs_key K) i None (store_of R d)))))"
    by simp
  have "k \<in> set ?qs" if "?raw = Some p" "raw_queue C p = None" "prefix (queue_prefix K @ '':'') k" "r_lrange R d k \<noteq> []" for p k
    using that type_list [of d k] by (simp add: keys_set)
  with st show ?thesis by (intro exI [of _ ?qs]) auto
qed

lemma revive_loop_refines:
  assumes "revive_loop R C S ck n entries d = (Inr m, d')"
  shows "store_of R d' = clear_key ck (fold (admit C (st_keys S) DQueue)
      (List.map_filter (of_payload C) entries) (store_of R d)) \<and>
    m = n + length (List.map_filter (of_payload C) entries)"
  using assms
proof (induction entries arbitrary: n d)
  case Nil
  then show ?case
    by (auto simp: with_connection_Inr seq_eq_Inr redis_defs store_simps List.map_filter_simps)
next
  case (Cons entry entries)
  show ?case
  proof (cases "of_payload C entry")
    case None
    with Cons show ?thesis by (simp add: List.map_filter_simps)
  next
    case (Some job)
    with Cons.prems obtain r d1 where d1: "enqueue R C S (\<lambda>d. d) [\<lambda>d. d] job d = (Inr r, d1)"
      "revive_loop R C S ck (n + 1) entries d1 = (Inr m, d')"
      by (auto split: prod.splits sum.splits)
    with enqueue_quiet [of C S "[]" job d] have "store_of R d1 = admit C (st_keys S) DQueue job (store_of R d)"
      by (auto simp: settles_as_def split: option.splits)
    with Cons.IH [OF d1(2)] Some show ?thesis by (simp add: List.map_filter_simps)
  qed
qed

lemma restore_refines:
  assumes "restore_claimed_dead_entries R S ck entries d = (Inr (), d')"
  shows "store_of R d' = clear_key ck (map_list (dead_key (st_keys S)) (\<lambda>l. l @ entries) (store_of R d))"
proof (cases "entries = []")
  case True
  then have "map_list (dead_key (st_keys S)) (\<lambda>l. l @ entries) (store_of R d) = store_of R d"
    by (simp add: map_list_def)
  with True assms show ?thesis
    by (auto simp: restore_claimed_dead_entries_def with_connection_Inr redis_defs store_simps)
next
  case False
  with assms obtain d1 where "rpush_many R (dead_key (st_keys S)) entries d = (Inr (), d1)" "d' = r_del R d1 ck"
    by (auto simp: restore_claimed_dead_entries_def with_connection_Inr redis_defs
        split: prod.splits sum.splits)
  with rpush_many_refines show ?thesis by (simp add: store_simps)
qed

end

text \<open>
  Claims by one process come out in the order the identifiers went in: the next \<open>n\<close>
  dequeues return the oldest \<open>n\<close> identifiers.
\<close>

fun dequeue_n :: "'d redis \<Rightarrow> storage \<Rightarrow> string \<Rightarrow> nat \<Rightarrow> ('d, job_id list) op" where
  "dequeue_n R S q 0 = return []"
| "dequeue_n R S q (Suc n) = bind (dequeue R S q) (\<lambda>r. case r of
      None \<Rightarrow> return []
    | Some i \<Rightarrow> bind (dequeue_n R S q n) (\<lambda>is. return (i # is)))"

context redis_server
begin

lemma dequeue_n_order:
  assumes "dequeue_n R S q n d = (Inr is, d')" "namespace_queue (st_keys S) q \<noteq> current_processing_queue S"
  shows "is = take n (rev (r_lrange R d (namespace_queue (st_keys S) q)))"
  using assms
proof (induction n arbitrary: "is" d)
  case 0
  then show ?case by simp
next
  case (Suc n)
  let ?q = "namespace_queue (st_keys S) q"
  from Suc.prems(1) obtain r d1 where r: "dequeue R S q d = (Inr r, d1)"
    "(case r of None \<Rightarrow> return [] | Some i \<Rightarrow> bind (dequeue_n R S q n) (\<lambda>is. return (i # is))) d1 = (Inr is, d')"
    by (auto simp: bind_eq_Inr)
  from dequeue_refines [of d S q] r(1) have c:
    "r = (if r_lrange R d ?q = [] then None else Some (last (r_lrange R d ?q)))"
    "store_of R d1 = claim ?q (current_processing_queue S) (store_of R d)"
    by (auto simp: atomically_def Let_def)
  show ?case
  proof (cases "r_lrange R d ?q" rule: rev_cases)
    case Nil
    with c r show ?thesis by simp
  next
    case (snoc xs x)
    have "lists (store_of R d1) ?q = xs"
      using c(2) snoc Suc.prems(2) by (simp add: claim_def map_list_def)
    then have l: "r_lrange R d1 ?q = xs" by simp
    from c(1) r(2) snoc obtain js where js: "dequeue_n R S q n d1 = (Inr js, d')" "is = x # js"
      by (auto simp: bind_eq_Inr)
    with Suc.IH [OF js(1) Suc.prems(2)] l snoc show ?thesis by simp
  qed
qed

end

section \<open>Properties\<close>

text \<open>
  Claiming: \<^verbatim>\<open>dequeue\<close> returns the oldest identifier of the queue, or nothing when the
  queue is empty, and in one step moves exactly that identifier to the caller's processing
  list; an error changes nothing.
\<close>

theorem dequeue_claims_oldest:
  assumes "redis_server R"
  shows "case dequeue R S q d of
      (Inl e, d') \<Rightarrow> d' = d
    | (Inr r, d') \<Rightarrow>
        r = (let l = r_lrange R d (namespace_queue (st_keys S) q) in if l = [] then None else Some (last l)) \<and>
        store_of R d' = claim (namespace_queue (st_keys S) q) (current_processing_queue S) (store_of R d)"
  using redis_server.dequeue_refines [OF assms, of d S q] by (simp add: atomically_def)

text \<open>
  First in, first out: \<open>n\<close> successful dequeues of a process return the \<open>n\<close> identifiers at
  the old end of the queue, in the order they were pushed.
\<close>

theorem dequeue_fifo:
  assumes "redis_server R" and "namespace_queue (st_keys S) q \<noteq> current_processing_queue S"
    and "dequeue_n R S q n d = (Inr is, d')"
  shows "is = take n (rev (r_lrange R d (namespace_queue (st_keys S) q)))"
  by (rule redis_server.dequeue_n_order [OF assms(1,3,2)])

text \<open>
  Acknowledgement: \<^verbatim>\<open>finish_with_success_batch\<close> either fails without a trace or removes,
  for each job of the batch, its payload and one claim of this process, and nothing else.
\<close>

theorem finish_acknowledges:
  assumes "redis_server R" and "keys_distinct (st_keys S)"
  shows "case finish_with_success_batch R S acq es d of
      (Inl e, d') \<Rightarrow> d' = d
    | (Inr _, d') \<Rightarrow> store_of R d' =
        fold (acknowledge (jobs_key (st_keys S)) (current_processing_queue S)) (map env_id es) (store_of R d)"
  using redis_server.finish_success_atomic [OF assms, of d acq es]
  by (simp add: atomically_def split: prod.splits sum.splits)

text \<open>
  Burial: \<^verbatim>\<open>kill\<close> either fails without a trace or moves the job from its claim to the
  head of the dead list, carrying the error message, drops its payload, and keeps the dead
  list within the configured limit.
\<close>

theorem kill_buries:
  assumes "redis_server R" and "keys_distinct (st_keys S)"
    and "kill R C S acq e msg d = (Inr (), d')"
  shows "store_of R d' = bury (jobs_key (st_keys S)) (dead_key (st_keys S)) (current_processing_queue S) (env_id e)
      (to_payload C (with_error msg e)) (case dead_job_limit S of None \<Rightarrow> 0 | Some n \<Rightarrow> n) (store_of R d) \<and>
    r_hget R d' (jobs_key (st_keys S)) (env_id e) = None \<and>
    hd (r_lrange R d' (dead_key (st_keys S))) = to_payload C (with_error msg e) \<and>
    (\<forall>n. dead_job_limit S = Some n \<and> 0 < n \<longrightarrow> length (r_lrange R d' (dead_key (st_keys S))) \<le> n)"
proof -
  let ?n = "case dead_job_limit S of None \<Rightarrow> 0 | Some n \<Rightarrow> n"
  let ?b = "bury (jobs_key (st_keys S)) (dead_key (st_keys S)) (current_processing_queue S) (env_id e)
      (to_payload C (with_error msg e)) ?n (store_of R d)"
  have st: "store_of R d' = ?b"
    using redis_server.kill_atomic [OF assms(1,2), of d C acq e msg] assms(3) by (simp add: atomically_def)
  have "r_hget R d' = hashes ?b" "r_lrange R d' = lists ?b" using st by (metis store_of_sel)+
  with st current_processing_distinct(2) [OF assms(2)] show ?thesis
    by (auto simp: bury_def store_updates take_Cons' split: option.splits)
qed

text \<open>
  C10. Retry: with nobody else writing, \<^verbatim>\<open>retry_in\<close> either fails without a trace, or the job
  it read is stored again with its retry count incremented and the error attached, waits in
  the retry set and has lost its claim; when the payload has been removed meanwhile only
  the claim is released.
\<close>

theorem retry_in_contract:
  assumes "redis_server R" and "keys_distinct (st_keys S)"
  shows "case retry_in R C S acq (\<lambda>d. d) now i delay_s msg d of
      (Inl e, d') \<Rightarrow> d' = d
    | (Inr _, d') \<Rightarrow> store_of R d' =
        (case r_hget R d (jobs_key (st_keys S)) i of
           None \<Rightarrow> map_list (current_processing_queue S) (remove1 i) (store_of R d)
         | Some p \<Rightarrow> (case of_payload C p of
               None \<Rightarrow> store_of R d
             | Some e \<Rightarrow> postpone (jobs_key (st_keys S)) (retry_key (st_keys S)) (current_processing_queue S)
                 (env_id e) (to_payload C (with_retries_incremented msg e)) (retry_score now delay_s) (store_of R d)))"
  using redis_server.retry_in_atomic [OF assms, of d C acq now i delay_s msg]
  by (simp add: atomically_def split: prod.splits sum.splits)

text \<open>
  C11. Promotion: a successful \<^verbatim>\<open>enqueue_scheduled\<close> handles exactly the entries of the sorted
  set that are due: an entry with a readable payload moves to the queue its envelope names,
  an entry without payload is dropped from the set, an unreadable one stays; the count is
  the number of jobs moved.
\<close>

theorem enqueue_scheduled_contract:
  assumes "redis_server R" and "json_codec C"
    and "enqueue_scheduled R C S (\<lambda>_ d. d) now zset d = (Inr n, d')"
  shows "store_of R d' = fold (promote_due C (st_keys S) zset)
      (map fst (filter (\<lambda>(m, sc). 0 \<le> sc \<and> sc \<le> now) (r_zrange R d zset))) (store_of R d) \<and>
    n = length (filter (runnable C (st_keys S) (store_of R d))
      (map fst (filter (\<lambda>(m, sc). 0 \<le> sc \<and> sc \<le> now) (r_zrange R d zset))))"
proof -
  let ?js = "filter (\<lambda>(m, sc). 0 \<le> sc \<and> sc \<le> now) (r_zrange R d zset)"
  from assms(3) have run: "promote_scheduled_jobs R C S zset (\<lambda>_ d. d) 0 ?js d = (Inr n, d')"
    by (auto simp: enqueue_scheduled_def with_connection_Inr bind_eq_Inr redis_defs split: if_splits)
  have dist: "distinct (map fst ?js)"
    using redis_server.zrange_distinct [OF assms(1), of d zset] by (simp add: distinct_map_filter)
  have "r_zscore R d zset i = Some sc" if "(i, sc) \<in> set ?js" for i sc
    using that redis_server.zrange_mem [OF assms(1)] by auto
  from redis_server.promote_loop [OF assms(1,2) dist this run] show ?thesis by simp
qed

text \<open>
  Deletion: a successful \<^verbatim>\<open>delete_job\<close> leaves no trace of the job in the payloads, the
  schedule, the retries, this process's claims and the queue its payload names (every
  queue list, when the payload names none), and every other job keeps its payload, its
  scores and its places in all lists.
\<close>

theorem delete_job_erases:
  assumes "redis_server R" and "delete_job R C S (\<lambda>d. d) i d = (Inr (), d')"
  shows "r_hget R d' (jobs_key (st_keys S)) i = None \<and>
    r_zscore R d' (schedule_key (st_keys S)) i = None \<and> r_zscore R d' (retry_key (st_keys S)) i = None \<and>
    i \<notin> set (r_lrange R d' (current_processing_queue S)) \<and>
    (case r_hget R d (jobs_key (st_keys S)) i of None \<Rightarrow> True
     | Some p \<Rightarrow> (case raw_queue C p of
           Some q \<Rightarrow> i \<notin> set (r_lrange R d' (namespace_queue (st_keys S) q))
         | None \<Rightarrow> (\<forall>q. i \<notin> set (r_lrange R d' (queue_prefix (st_keys S) @ '':'' @ q))))) \<and>
    (\<forall>k j. j \<noteq> i \<longrightarrow> r_hget R d' k j = r_hget R d k j \<and> r_zscore R d' k j = r_zscore R d k j) \<and>
    (\<forall>k. removeAll i (r_lrange R d' k) = removeAll i (r_lrange R d k))"
proof -
  let ?K = "st_keys S"
  from redis_server.delete_job_refines [OF assms] obtain qs where qs:
    "\<And>p q. r_hget R d (jobs_key ?K) i = Some p \<Longrightarrow> raw_queue C p = Some q \<Longrightarrow> namespace_queue ?K q \<in> set qs"
    "\<And>p k. r_hget R d (jobs_key ?K) i = Some p \<Longrightarrow> raw_queue C p = None \<Longrightarrow> prefix (queue_prefix ?K @ '':'') k
       \<Longrightarrow> r_lrange R d k \<noteq> [] \<Longrightarrow> k \<in> set qs"
    and st: "store_of R d' = fold (\<lambda>q. map_list q (removeAll i)) qs
      (map_list (current_processing_queue S) (removeAll i)
        (put_zset (retry_key ?K) i None (put_zset (schedule_key ?K) i None (put_hash (jobs_key ?K) i None (store_of R d)))))"
    by blast
  have h: "r_hget R d' = (r_hget R d)(jobs_key ?K := (r_hget R d (jobs_key ?K))(i := None))"
    using arg_cong [OF st, of hashes] by (simp add: fold_removeAll_lists store_updates)
  have z: "r_zscore R d' k j = (if j = i \<and> (k = schedule_key ?K \<or> k = retry_key ?K) then None else r_zscore R d k j)" for k j
    using arg_cong [OF st, of zsets] by (simp add: fold_removeAll_lists store_updates)
  have l: "r_lrange R d' k = (if k \<in> set qs \<or> k = current_processing_queue S then removeAll i (r_lrange R d k)
      else r_lrange R d k)" for k
    using arg_cong [OF st, of "\<lambda>s. lists s k"] by (simp add: fold_removeAll_lists(1)) (simp add: store_updates)
  have "i \<notin> set (r_lrange R d' (queue_prefix ?K @ '':'' @ q))"
    if "r_hget R d (jobs_key ?K) i = Some p" "raw_queue C p = None" for p q
    using qs(2) [OF that, of "queue_prefix ?K @ '':'' @ q"] l by (cases "r_lrange R d (queue_prefix ?K @ '':'' @ q) = []") auto
  with h z l qs(1) show ?thesis by (auto split: option.splits)
qed

text \<open>
  Wiping a queue with nobody else writing removes its list and the payloads of exactly
  the jobs that were in it.
\<close>

theorem wipe_queue_exact:
  assumes "redis_server R" and "namespace_queue (st_keys S) q \<noteq> jobs_key (st_keys S)"
    and "wipe_queue R S (\<lambda>d. d) q d = (Inr (), d')"
  shows "store_of R d' =
     \<lparr>hashes = (r_hget R d)(jobs_key (st_keys S) := (\<lambda>i. if i \<in> set (r_lrange R d (namespace_queue (st_keys S) q))
                  then None else r_hget R d (jobs_key (st_keys S)) i)),
      lists = (r_lrange R d)(namespace_queue (st_keys S) q := []), zsets = r_zscore R d\<rparr>"
  using redis_server.wipe_queue_refines [OF assms(1,3,2)] .

text \<open>
  Reviving: a successful \<^verbatim>\<open>revive_all_dead\<close> takes the whole dead list away in one step,
  enqueues every readable entry of it in list order, drops the unreadable ones, deletes
  its claim key, and counts the entries it enqueued.
\<close>

theorem revive_all_dead_contract:
  assumes "redis_server R" and "revive_all_dead R C S uuid d = (Inr n, d')"
    and "r_type R d (dead_key (st_keys S)) = TList"
  shows "store_of R d' = clear_key (dead_key (st_keys S) @ '':reviving:'' @ uuid)
      (fold (admit C (st_keys S) DQueue) (List.map_filter (of_payload C) (r_lrange R d (dead_key (st_keys S))))
        (rename_key (dead_key (st_keys S)) (dead_key (st_keys S) @ '':reviving:'' @ uuid) (store_of R d))) \<and>
    n = length (List.map_filter (of_payload C) (r_lrange R d (dead_key (st_keys S))))"
proof -
  let ?dead = "dead_key (st_keys S)"
  let ?ck = "?dead @ '':reviving:'' @ uuid"
  let ?d1 = "r_rename R d ?dead ?ck"
  have st: "store_of R ?d1 = rename_key ?dead ?ck (store_of R d)"
    using assms(3) by (intro redis_server.store_rename [OF assms(1)]) auto
  have l: "r_lrange R ?d1 ?ck = r_lrange R d ?dead"
    using arg_cong [OF st, of "\<lambda>s. lists s ?ck"] by (simp add: rename_key_def)
  have "revive_loop R C S ?ck 0 (r_lrange R d ?dead) ?d1 = (Inr n, d')"
    using assms(2,3) l
    by (auto simp: revive_all_dead_def Let_def with_connection_Inr bind_eq_Inr claim_dead_def redis_defs
        split: if_splits)
  from redis_server.revive_loop_refines [OF assms(1) this] st show ?thesis by simp
qed

text \<open>
  Listings page through the dead list: for a positive count they return the readable
  entries among the positions from the offset on, as many positions as the count.
\<close>

theorem list_dead_page:
  assumes "0 < list_count opts" and "list_dead R C S opts d = (Inr es, d')"
  shows "d' = d \<and> es = List.map_filter (of_payload C)
    (take (list_count opts) (drop (list_offset opts) (r_lrange R d (dead_key (st_keys S)))))"
proof -
  from assms(1) have "Suc (list_offset opts + list_count opts - 1) - list_offset opts = list_count opts" by simp
  with assms(2) show ?thesis
    by (auto simp: list_dead_def with_connection_Inr bind_eq_Inr redis_defs slice_def split: if_splits)
qed

text \<open>
  A page of size zero is not empty at the start of the list: with count and offset
  zero the listing returns the newest dead job, although the count is documented as the
  maximum number of jobs to return.
\<close>

theorem list_dead_zero_count:
  assumes "r_get R d = None" and "fits R d (dead_key (st_keys S)) TList"
    and "r_lrange R d (dead_key (st_keys S)) = p # rest" and "of_payload C p = Some e"
  shows "list_dead R C S \<lparr>list_count = 0, list_offset = 0\<rparr> d = (Inr [e], d)"
  using assms by (simp add: list_dead_def with_connection_def bind_def redis_defs slice_def List.map_filter_simps)

section \<open>Witnesses\<close>

lemma run_pair: "fst x = r \<Longrightarrow> x = (r, snd x)"
  by (metis prod.collapse)

context json_codec
begin

lemma raw_queue_to_payload: "envelope_wf C e \<Longrightarrow> raw_queue C (to_payload C e) = Some (env_queue e)"
  by (simp add: raw_queue_def to_payload_def parse_print json_ok_envelope)
    (simp add: envelope_to_json_def json_field_def)

end

text \<open>
  The witnesses run on the in-memory server with the sample payload kept symbolic: what
  it reads back as is the round trip of theory Job\_Envelope.
\<close>

definition sample_payload :: string where
  "sample_payload = to_payload netstring_codec sample_envelope"

definition sample_queued :: mem where
  "sample_queued = [(''app:jobs'', VHash [(''Mail/7'', sample_payload)]), (''app:queue:mail'', VList [''Mail/7''])]"

definition sample_claimed :: mem where
  "sample_claimed = [(''app:jobs'', VHash [(''Mail/7'', sample_payload)]),
     (''app:processing:h-1-i1'', VList [''Mail/7''])]"

definition sample_waiting :: mem where
  "sample_waiting = [(''app:jobs'', VHash [(''Mail/7'', sample_payload)]), (''app:retry'', VZset [(''Mail/7'', 70)])]"

definition sample_dead :: mem where
  "sample_dead = [(''app:dead'', VList [sample_payload])]"

lemma sample_payload_parses: "of_payload netstring_codec sample_payload = Some sample_envelope"
  unfolding sample_payload_def by (rule net.of_to_payload [OF sample_envelope_wf])

lemma sample_payload_nonempty: "sample_payload \<noteq> []"
  unfolding sample_payload_def by (rule net.to_payload_nonempty)

lemma sample_envelope_sel:
  "env_id sample_envelope = ''Mail/7''" "env_queue sample_envelope = ''mail''" "is_skip sample_envelope"
  "unique (env_meta sample_envelope)" "env_id (with_retries_incremented msg sample_envelope) = ''Mail/7''"
  "env_id (with_error msg sample_envelope) = ''Mail/7''"
  by (simp_all add: sample_envelope_def sample_job_def envelope_new_def Let_def unique_job_id_def is_skip_def
      with_retries_incremented_def with_error_def)

lemma sample_names:
  "jobs_key (st_keys sample_storage) = ''app:jobs''" "dead_key (st_keys sample_storage) = ''app:dead''"
  "schedule_key (st_keys sample_storage) = ''app:schedule''" "retry_key (st_keys sample_storage) = ''app:retry''"
  "current_processing_queue sample_storage = ''app:processing:h-1-i1''"
  "namespace_queue (st_keys sample_storage) ''mail'' = ''app:queue:mail''"
  "namespace_queue (st_keys sample_storage) [] = ''app:queue:''"
  "queue_prefix (st_keys sample_storage) = ''app:queue''"
  "dead_job_limit sample_storage = Some 2"
  by code_simp+

lemma sample_keys_distinct: "keys_distinct (st_keys sample_storage)"
  by (simp add: sample_storage_def keys_distinct_new)

lemmas sample_run = sample_names sample_envelope_sel sample_payload_parses sample_payload_nonempty
  with_connection_def with_claimed_def interfere_def bind_def seq_def redis_defs fits_def mem_defs Let_def
  sample_queued_def sample_claimed_def sample_waiting_def sample_dead_def

theorem dequeue_claims_oldest_witness:
  "redis_server mem_redis \<and>
   store_of mem_redis (snd (dequeue mem_redis sample_storage ''mail'' sample_queued)) =
     claim ''app:queue:mail'' ''app:processing:h-1-i1'' (store_of mem_redis sample_queued)"
proof -
  have "fst (dequeue mem_redis sample_storage ''mail'' sample_queued) = Inr (Some ''Mail/7'')"
    by (simp add: dequeue_def dequeue_w_conn_def lmove_def sample_run)
  with dequeue_claims_oldest [OF mem.redis_server_axioms, where S = sample_storage and q = "''mail''"
      and d = sample_queued] mem.redis_server_axioms
  show ?thesis by (simp add: sample_names split: prod.splits)
qed

theorem dequeue_fifo_witness:
  "redis_server mem_redis \<and> [''Mail/7''] =
     take 2 (rev (r_lrange mem_redis sample_queued (namespace_queue (st_keys sample_storage) ''mail'')))"
proof -
  have "\<exists>d'. dequeue_n mem_redis sample_storage ''mail'' 2 sample_queued = (Inr [''Mail/7''], d')"
    by (simp add: numeral_2_eq_2 dequeue_def dequeue_w_conn_def lmove_def sample_run)
  then obtain d' where "dequeue_n mem_redis sample_storage ''mail'' 2 sample_queued = (Inr [''Mail/7''], d')" by blast
  from dequeue_fifo [OF mem.redis_server_axioms _ this] mem.redis_server_axioms show ?thesis
    by (simp add: sample_names)
qed

theorem finish_acknowledges_witness:
  "keys_distinct (st_keys sample_storage) \<and>
   store_of mem_redis (snd (finish_with_success_batch mem_redis sample_storage None [sample_envelope] sample_claimed)) =
     acknowledge ''app:jobs'' ''app:processing:h-1-i1'' ''Mail/7'' (store_of mem_redis sample_claimed)"
proof -
  have "fst (finish_with_success_batch mem_redis sample_storage None [sample_envelope] sample_claimed) = Inr ()"
    by (simp add: finish_with_success_batch_def finish_success_lua_def require_types_def sample_run)
  with finish_acknowledges [OF mem.redis_server_axioms sample_keys_distinct, where acq = None
      and es = "[sample_envelope]" and d = sample_claimed] sample_keys_distinct
  show ?thesis by (simp add: sample_names sample_envelope_sel split: prod.splits)
qed

theorem kill_buries_witness:
  "length (r_lrange mem_redis (snd (kill mem_redis netstring_codec sample_storage None sample_envelope ''boom'' sample_claimed))
     ''app:dead'') \<le> 2"
proof -
  have "fst (kill mem_redis netstring_codec sample_storage None sample_envelope ''boom'' sample_claimed) = Inr ()"
    by (simp add: kill_def finish_dead_lua_def require_types_def sample_run)
  then have "kill mem_redis netstring_codec sample_storage None sample_envelope ''boom'' sample_claimed =
      (Inr (), snd (kill mem_redis netstring_codec sample_storage None sample_envelope ''boom'' sample_claimed))"
    by (metis prod.collapse)
  from kill_buries [OF mem.redis_server_axioms sample_keys_distinct this] show ?thesis
    by (simp add: sample_names)
qed

theorem retry_in_contract_witness:
  "store_of mem_redis (snd (retry_in mem_redis netstring_codec sample_storage None (\<lambda>d. d) 50 ''Mail/7'' 1 ''boom'' sample_claimed)) =
     postpone ''app:jobs'' ''app:retry'' ''app:processing:h-1-i1'' ''Mail/7''
       (to_payload netstring_codec (with_retries_incremented ''boom'' sample_envelope)) 1000050 (store_of mem_redis sample_claimed)"
proof -
  have "fst (retry_in mem_redis netstring_codec sample_storage None (\<lambda>d. d) 50 ''Mail/7'' 1 ''boom'' sample_claimed) = Inr ()"
    by (simp add: retry_in_def get_job_w_conn_def parse_envelope_def retry_failed_lua_def require_types_def sample_run)
  with retry_in_contract [OF mem.redis_server_axioms sample_keys_distinct, where C = netstring_codec and acq = None
      and now = 50 and i = "''Mail/7''" and delay_s = 1 and msg = "''boom''" and d = sample_claimed]
  show ?thesis
    by (simp add: sample_names sample_envelope_sel sample_payload_parses retry_score_def sample_claimed_def mem_defs
        split: prod.splits)
qed

theorem enqueue_scheduled_contract_witness:
  "store_of mem_redis (snd (enqueue_scheduled mem_redis netstring_codec sample_storage (\<lambda>_ d. d) 100 ''app:retry'' sample_waiting)) =
     promote_due netstring_codec (st_keys sample_storage) ''app:retry'' ''Mail/7'' (store_of mem_redis sample_waiting)"
proof -
  have "fst (enqueue_scheduled mem_redis netstring_codec sample_storage (\<lambda>_ d. d) 100 ''app:retry'' sample_waiting) = Inr 1"
    by (simp add: enqueue_scheduled_def transition_snapshot_def parse_envelope_def promote_scheduled_lua_def
        require_types_def expected_payload_def sample_run)
  from enqueue_scheduled_contract [OF mem.redis_server_axioms net.json_codec_axioms run_pair [OF this]]
  show ?thesis by (simp add: sample_waiting_def mem_defs)
qed

theorem delete_job_erases_witness:
  "r_hget mem_redis (snd (delete_job mem_redis netstring_codec sample_storage (\<lambda>d. d) ''Mail/7'' sample_queued))
     ''app:jobs'' ''Mail/7'' = None \<and>
   ''Mail/7'' \<notin> set (r_lrange mem_redis
     (snd (delete_job mem_redis netstring_codec sample_storage (\<lambda>d. d) ''Mail/7'' sample_queued)) ''app:queue:mail'')"
proof -
  have q: "raw_queue netstring_codec sample_payload = Some ''mail''"
    using net.raw_queue_to_payload [OF sample_envelope_wf] by (simp add: sample_payload_def sample_envelope_sel)
  have "fst (delete_job mem_redis netstring_codec sample_storage (\<lambda>d. d) ''Mail/7'' sample_queued) = Inr ()"
    by (simp add: delete_job_def q sample_run)
  moreover have "r_hget mem_redis sample_queued ''app:jobs'' ''Mail/7'' = Some sample_payload"
    by (simp add: sample_queued_def mem_hash_def)
  ultimately show ?thesis
    using delete_job_erases [OF mem.redis_server_axioms run_pair, of netstring_codec sample_storage "''Mail/7''"
        sample_queued] q by (simp add: sample_names del: mem_redis_sel)
qed

theorem wipe_queue_exact_witness:
  "namespace_queue (st_keys sample_storage) ''mail'' \<noteq> jobs_key (st_keys sample_storage) \<and>
   lists (store_of mem_redis (snd (wipe_queue mem_redis sample_storage (\<lambda>d. d) ''mail'' sample_queued))) ''app:queue:mail'' = []"
proof -
  have ne: "namespace_queue (st_keys sample_storage) ''mail'' \<noteq> jobs_key (st_keys sample_storage)"
    by (simp add: sample_names)
  have "fst (wipe_queue mem_redis sample_storage (\<lambda>d. d) ''mail'' sample_queued) = Inr ()"
    by (simp add: wipe_queue_def hdel_many_def sample_run)
  from wipe_queue_exact [OF mem.redis_server_axioms ne run_pair [OF this]] ne
  show ?thesis by (simp add: sample_names)
qed

theorem revive_all_dead_contract_witness:
  "\<exists>d'. revive_all_dead mem_redis netstring_codec sample_storage ''u'' sample_dead = (Inr 1, d') \<and>
     store_of mem_redis d' = clear_key ''app:dead:reviving:u''
       (admit netstring_codec (st_keys sample_storage) DQueue sample_envelope
         (rename_key ''app:dead'' ''app:dead:reviving:u'' (store_of mem_redis sample_dead)))"
proof -
  have r: "r_rename mem_redis [(''app:dead'', VList [sample_payload])] ''app:dead'' ''app:dead:reviving:u'' =
      [(''app:dead:reviving:u'', VList [sample_payload])]"
    by (simp add: mem_redis_def)
  have "fst (revive_all_dead mem_redis netstring_codec sample_storage ''u'' sample_dead) = Inr 1"
    by (simp add: revive_all_dead_def claim_dead_def r enqueue_def enqueue_w_conn_def enqueue_chunk_def
        skip_ids_def hexists_many_def existing_skips_single enqueue_lua_def require_type_def changed_snapshots_def
        known_def learn_def snapshot_present_def required_keys_def commit_write_def conflict_of_simps sample_run
        not_both)
  then have run: "revive_all_dead mem_redis netstring_codec sample_storage ''u'' sample_dead =
      (Inr 1, snd (revive_all_dead mem_redis netstring_codec sample_storage ''u'' sample_dead))" by (rule run_pair)
  have "r_type mem_redis sample_dead (dead_key (st_keys sample_storage)) = TList"
    by (simp add: sample_run)
  from revive_all_dead_contract [OF mem.redis_server_axioms run this] run show ?thesis
    by (intro exI conjI) (assumption, simp add: sample_names sample_dead_def mem_list_def List.map_filter_simps sample_payload_parses)
qed

theorem list_dead_page_witness:
  "\<exists>es. list_dead mem_redis netstring_codec sample_storage \<lparr>list_count = 1, list_offset = 0\<rparr> sample_dead = (Inr es, sample_dead) \<and>
     es = [sample_envelope]"
proof -
  have "list_dead mem_redis netstring_codec sample_storage \<lparr>list_count = 1, list_offset = 0\<rparr> sample_dead =
      (Inr [sample_envelope], sample_dead)"
    by (simp add: list_dead_def slice_def List.map_filter_simps sample_run)
  from this list_dead_page [OF _ this] show ?thesis by simp
qed

theorem list_dead_zero_count_witness:
  "list_dead mem_redis netstring_codec sample_storage \<lparr>list_count = 0, list_offset = 0\<rparr> sample_dead =
     (Inr [sample_envelope], sample_dead)"
  by (rule list_dead_zero_count [where p = sample_payload and rest = "[]"]) (simp_all add: sample_run)

end
