(* ===== verification/Processes.thy ===== *)
theory Processes
  imports Storage_Jobs
begin

text \<open>
  The process registry and crash recovery of \<^verbatim>\<open>storage_internal.rs\<close>: heartbeats, the list of
  live processes, the search for dead ones, the recovery of their claims, and the retention
  cleanup. Heartbeat scores are modelled in whole milliseconds: the code stores them as
  seconds with a fraction. \<open>env\<close> arguments are the actions of other clients in between.
\<close>

section \<open>Registry\<close>

definition process_to_json :: "process \<Rightarrow> json" where
  "process_to_json p = JObj [(''hostname'', JStr (hostname p)), (''pid'', JInt (int (pid p))),
     (''instance_id'', JStr (instance_id p)), (''heartbeat_at'', JInt (heartbeat_at p)),
     (''started_at'', JInt (process_started_at p))]"

definition process_of_json :: "json \<Rightarrow> process option" where
  "process_of_json j =
     Option.bind (req j ''hostname'' as_str) (\<lambda>h.
     Option.bind (req j ''pid'' as_u32) (\<lambda>pd.
     Option.bind (dflt j ''instance_id'' [] as_str) (\<lambda>ii.
     Option.bind (req j ''heartbeat_at'' as_i64) (\<lambda>hb.
     Option.bind (req j ''started_at'' as_i64) (\<lambda>sa.
       Some \<lparr>hostname = h, pid = unat pd, instance_id = ii, heartbeat_at = hb, process_started_at = sa\<rparr>)))))"

definition parse_process :: "codec \<Rightarrow> string \<Rightarrow> oxana_error + process" where
  "parse_process C s = (case Option.bind (jparse C s) process_of_json of None \<Rightarrow> Inl JsonError | Some p \<Rightarrow> Inr p)"

definition ping :: "'d redis \<Rightarrow> codec \<Rightarrow> storage \<Rightarrow> int \<Rightarrow> ('d, unit) op" where
  "ping R C S now_ms =
     (let p = current_process S (trunc_div now_ms 1000) in
      with_connection R (pipe
        [zadd R (processes_key (st_keys S)) (process_id p) now_ms,
         hset R (processes_data_key (st_keys S)) (process_id p) (jprint C (process_to_json p))]))"

definition forget_process :: "'d redis \<Rightarrow> storage_keys \<Rightarrow> string \<Rightarrow> ('d, unit) op" where
  "forget_process R K p = pipe [zrem R (processes_key K) p, hdel R (processes_data_key K) p]"

definition self_cleanup :: "'d redis \<Rightarrow> storage \<Rightarrow> ('d, unit) op" where
  "self_cleanup R S = with_connection R (forget_process R (st_keys S) (process_id (current_process S 0)))"

abbreviation stats_read_batch_size :: nat where
  "stats_read_batch_size \<equiv> 500"

fun read_processes :: "'d redis \<Rightarrow> codec \<Rightarrow> storage \<Rightarrow> string list list \<Rightarrow> ('d, process list) op" where
  "read_processes R C S [] = return []"
| "read_processes R C S (ids # rest) =
     bind (hmget R (processes_data_key (st_keys S)) ids) (\<lambda>records.
     bind (lift_result (foldr (\<lambda>s acc. case parse_process C s of Inl e \<Rightarrow> Inl e
              | Inr p \<Rightarrow> (case acc of Inl e \<Rightarrow> Inl e | Inr ps \<Rightarrow> Inr (p # ps)))
            (List.map_filter (\<lambda>x. x) records) (Inr []))) (\<lambda>ps.
     bind (read_processes R C S rest) (\<lambda>qs. return (ps @ qs))))"

definition processes_w_conn :: "'d redis \<Rightarrow> codec \<Rightarrow> storage \<Rightarrow> int \<Rightarrow> int \<Rightarrow> int \<Rightarrow> ('d, process list) op" where
  "processes_w_conn R C S now1 now2 dead_process_threshold =
     bind (zrangebyscore R (processes_key (st_keys S)) (now1 - dead_process_threshold) now2) (\<lambda>ids.
       read_processes R C S (chunks (stats_read_batch_size - 1) (map fst ids)))"

definition processes :: "'d redis \<Rightarrow> codec \<Rightarrow> storage \<Rightarrow> int \<Rightarrow> int \<Rightarrow> int \<Rightarrow> ('d, process list) op" where
  "processes R C S now1 now2 dead_process_threshold =
     with_connection R (processes_w_conn R C S now1 now2 dead_process_threshold)"

section \<open>Dead processes\<close>

definition dead_process_ids_in ::
    "'d redis \<Rightarrow> storage \<Rightarrow> int \<Rightarrow> int \<Rightarrow> string list \<Rightarrow> ('d, string list) op" where
  "dead_process_ids_in R S now dead_process_threshold all_processing_queues =
     bind (zrange_withscores R (processes_key (st_keys S))) (\<lambda>ps.
       let threshold = now - dead_process_threshold;
           expired = map fst (filter (\<lambda>(_, score). score < threshold) ps);
           active = map fst ps;
           orphans = filter (\<lambda>p. p \<notin> set active) (map last_segment all_processing_queues)
       in return (expired @ orphans))"

definition dead_process_ids ::
    "'d redis \<Rightarrow> storage \<Rightarrow> ('d \<Rightarrow> 'd) \<Rightarrow> int \<Rightarrow> int \<Rightarrow> ('d, string list) op" where
  "dead_process_ids R S env now dead_process_threshold =
     bind (scan R (processing_queue_prefix (st_keys S) @ '':'')) (\<lambda>qs.
     seq (interfere env) (dead_process_ids_in R S now dead_process_threshold qs))"

section \<open>Recovery\<close>

fun resurrect_jobs ::
    "'d redis \<Rightarrow> codec \<Rightarrow> storage \<Rightarrow> string \<Rightarrow> (nat \<Rightarrow> 'd \<Rightarrow> 'd) \<Rightarrow> nat \<Rightarrow> job_id list \<Rightarrow> ('d, nat) op" where
  "resurrect_jobs R C S proc env count [] = return count"
| "resurrect_jobs R C S proc env count (i # rest) = (\<lambda>d.
     case transition_snapshot R C S i d of
       (Inl JsonError, d') \<Rightarrow> resurrect_jobs R C S proc env count rest d'
     | (Inl e, d') \<Rightarrow> (Inl e, d')
     | (Inr (payload, e), d') \<Rightarrow>
         (let queue = (case e of None \<Rightarrow> [] | Some e \<Rightarrow> env_queue e);
              should_resurrect = (case e of None \<Rightarrow> False | Some e \<Rightarrow> resurrect (env_meta e))
          in bind (resurrect_claim_lua R (jobs_key (st_keys S)) proc (namespace_queue (st_keys S) queue)
                     i (case payload of None \<Rightarrow> [] | Some p \<Rightarrow> p) should_resurrect)
               (\<lambda>moved. resurrect_jobs R C S proc env (count + moved) rest) (env (length rest) d')))"

definition resurrect_process ::
    "'d redis \<Rightarrow> codec \<Rightarrow> storage \<Rightarrow> (nat \<Rightarrow> 'd \<Rightarrow> 'd) \<Rightarrow> string \<Rightarrow> ('d, nat) op" where
  "resurrect_process R C S env p =
     (let proc = processing_queue (st_keys S) p in
      bind (lrange_all R proc) (\<lambda>ids.
      bind (resurrect_jobs R C S proc env 0 ids) (\<lambda>count.
      bind (llen R proc) (\<lambda>n.
        seq (if n = 0 then forget_process R (st_keys S) p else return ()) (return count)))))"

definition resurrect_storage ::
    "'d redis \<Rightarrow> codec \<Rightarrow> storage \<Rightarrow> ('d \<Rightarrow> 'd) \<Rightarrow> (nat \<Rightarrow> 'd \<Rightarrow> 'd) \<Rightarrow> int \<Rightarrow> int \<Rightarrow> ('d, unit) op" where
  "resurrect_storage R C S env envs now dead_process_threshold =
     with_connection R
       (bind (dead_process_ids R S env now dead_process_threshold)
         (for_each (\<lambda>p. bind (resurrect_process R C S envs p) (\<lambda>_. return ()))))"

section \<open>Retention\<close>

abbreviation job_expire_time :: int where
  "job_expire_time \<equiv> 7 * 24 * 3600"

definition expired :: "codec \<Rightarrow> int \<Rightarrow> string \<Rightarrow> bool" where
  "expired C now s = (case of_payload C s of
      None \<Rightarrow> True
    | Some e \<Rightarrow> trunc_div (max (created_at (env_meta e)) (scheduled_at (env_meta e))) 1000000 < now - job_expire_time)"

text \<open>The cursor loop over the payload hash is read as one pass over its fields.\<close>

definition cleanup :: "'d redis \<Rightarrow> codec \<Rightarrow> storage \<Rightarrow> ('d \<Rightarrow> 'd) \<Rightarrow> int \<Rightarrow> ('d, nat) op" where
  "cleanup R C S env now =
     with_connection R
       (bind (hgetall R (jobs_key (st_keys S))) (\<lambda>items.
          let ids = map fst (filter (\<lambda>(_, s). expired C now s) items) in
          seq (interfere env)
            (seq (if ids = [] then return () else hdel_many R (jobs_key (st_keys S)) ids)
              (return (length ids)))))"

lemma micros_before: "0 < k \<Longrightarrow> trunc_div x 1000000 < k \<longleftrightarrow> x < k * 1000000"
  using div_below [of 1000000 x k] div_below [of 1000000 "- x" 0] by (auto simp: trunc_div_def)

text \<open>
  What the retention policy asks for, in microseconds: a payload is outdated if it cannot be
  read, or if both its times are more than seven days before \<open>now\<close> seconds.
\<close>

definition outdated :: "codec \<Rightarrow> int \<Rightarrow> string \<Rightarrow> bool" where
  "outdated C now p \<longleftrightarrow> (case of_payload C p of
      None \<Rightarrow> True
    | Some e \<Rightarrow> (\<forall>t\<in>{created_at (env_meta e), scheduled_at (env_meta e)}. t + 604800 * 1000000 < now * 1000000))"

lemma expired_iff:
  assumes "job_expire_time < now"
  shows "expired C now = outdated C now"
proof
  fix p
  have "trunc_div x 1000000 < now - job_expire_time \<longleftrightarrow> x + 604800 * 1000000 < now * 1000000" for x
    using micros_before [of "now - 604800" x] assms by simp linarith
  from this [of "max _ _"] show "expired C now p = outdated C now p"
    by (cases "of_payload C p") (simp_all add: expired_def outdated_def, linarith)
qed

section \<open>Refinement\<close>

text \<open>The recovery of one claim, decided on what is stored.\<close>

definition recover_claim :: "codec \<Rightarrow> storage_keys \<Rightarrow> string \<Rightarrow> job_id \<Rightarrow> store \<Rightarrow> store" where
  "recover_claim C K proc i s =
     (if i \<notin> set (lists s proc) then s
      else case hashes s (jobs_key K) i of
             None \<Rightarrow> map_list proc (remove1 i) s
           | Some p \<Rightarrow> (case of_payload C p of
                 None \<Rightarrow> s
               | Some e \<Rightarrow> map_list proc (remove1 i)
                   (if resurrect (env_meta e) then map_list (namespace_queue K (env_queue e)) ((#) i) s
                    else put_hash (jobs_key K) i None s)))"

context redis_server
begin

lemma recover_script_cases:
  obtains (Err) e where "resurrect_claim_lua R jobs proc queue i expected again d = (Inl e, d)"
  | (Ok) d' n where "resurrect_claim_lua R jobs proc queue i expected again d = (Inr n, d')"
      "store_of R d' = recover jobs proc queue i (expected_payload expected) again (store_of R d)"
  using recover_refines [where jobs = jobs and proc = proc and queue = queue and i = i and expected = expected
      and again = again and d = d]
  by (cases "resurrect_claim_lua R jobs proc queue i expected again d") (auto split: sum.splits)

lemma resurrect_step:
  assumes "json_codec C" "resurrect_jobs R C S proc (\<lambda>_ d. d) n (i # rest) d = (Inr m, d')"
  shows "\<exists>d1 n1. store_of R d1 = recover_claim C (st_keys S) proc i (store_of R d) \<and>
    resurrect_jobs R C S proc (\<lambda>_ d. d) n1 rest d1 = (Inr m, d')"
proof -
  let ?J = "jobs_key (st_keys S)"
  note snap = transition_snapshot_def redis_defs bind_def parse_envelope_def
  have fits: "fits R d ?J THash"
    using assms(2) by (auto simp: snap wrong_type_def split: if_splits)
  show ?thesis
  proof (cases "r_hget R d ?J i")
    case None
    show ?thesis
      by (cases rule: recover_script_cases [where jobs = ?J and proc = proc and i = i and expected = "[]"
            and queue = "namespace_queue (st_keys S) []" and again = False and d = d])
        (use None fits assms in \<open>auto simp: snap recover_claim_def recover_def expected_payload_def split: if_splits\<close>)
  next
    case (Some p)
    show ?thesis
    proof (cases "of_payload C p")
      case None
      with Some fits assms(2) show ?thesis
        by (intro exI [of _ d] exI [of _ n]) (auto simp: snap recover_claim_def)
    next
      case (Some e)
      have p: "p \<noteq> []" using Some json_codec.parse_empty [OF assms(1)] by (auto simp: of_payload_def)
      show ?thesis
        by (cases rule: recover_script_cases [where jobs = ?J and proc = proc and i = i and expected = p
              and queue = "namespace_queue (st_keys S) (env_queue e)" and again = "resurrect (env_meta e)" and d = d])
          (use \<open>r_hget R d ?J i = Some p\<close> Some p fits assms in
            \<open>auto simp: snap recover_claim_def recover_def expected_payload_def split: if_splits\<close>)
    qed
  qed
qed

lemma resurrect_jobs_refines:
  assumes "json_codec C" "resurrect_jobs R C S proc (\<lambda>_ d. d) n ids d = (Inr m, d')"
  shows "store_of R d' = fold (recover_claim C (st_keys S) proc) ids (store_of R d)"
  using assms(2)
proof (induction ids arbitrary: n d)
  case (Cons i ids)
  from resurrect_step [OF assms(1) Cons.prems] obtain d1 n1 where
    "store_of R d1 = recover_claim C (st_keys S) proc i (store_of R d)"
    "resurrect_jobs R C S proc (\<lambda>_ d. d) n1 ids d1 = (Inr m, d')" by blast
  with Cons.IH show ?case by simp
qed simp

lemma forget_process_refines:
  assumes "forget_process R K p d = (Inr (), d')"
  shows "store_of R d' = put_hash (processes_data_key K) p None (put_zset (processes_key K) p None (store_of R d))"
  using assms by (auto simp: forget_process_def redis_defs store_simps split: if_splits)

lemma resurrect_process_refines:
  assumes "json_codec C" "resurrect_process R C S (\<lambda>_ d. d) p d = (Inr n, d')"
  defines "s1 \<equiv> fold (recover_claim C (st_keys S) (processing_queue (st_keys S) p))
      (r_lrange R d (processing_queue (st_keys S) p)) (store_of R d)"
  shows "store_of R d' = (if lists s1 (processing_queue (st_keys S) p) = []
     then put_hash (processes_data_key (st_keys S)) p None (put_zset (processes_key (st_keys S)) p None s1) else s1)"
proof -
  let ?proc = "processing_queue (st_keys S) p"
  from assms(2) obtain m d1 where d1: "resurrect_jobs R C S ?proc (\<lambda>_ d. d) 0 (r_lrange R d ?proc) d = (Inr m, d1)"
    and fin: "(if r_lrange R d1 ?proc = [] then forget_process R (st_keys S) p else return ()) d1 = (Inr (), d')"
    by (auto simp: resurrect_process_def Let_def bind_eq_Inr seq_eq_Inr redis_defs split: if_splits)
  have s1: "store_of R d1 = s1" using resurrect_jobs_refines [OF assms(1) d1] by (simp add: s1_def)
  then have "lists s1 ?proc = r_lrange R d1 ?proc" by (metis store_of_sel(2))
  with fin s1 forget_process_refines [of "st_keys S" p d1 d'] show ?thesis by (auto split: if_splits)
qed

lemma dead_process_ids_spec:
  assumes "dead_process_ids R S env now thr d = (Inr ps, d')"
  shows "d' = env d \<and> set ps =
    {p. \<exists>sc. r_zscore R (env d) (processes_key (st_keys S)) p = Some sc \<and> sc < now - thr} \<union>
    {p. r_zscore R (env d) (processes_key (st_keys S)) p = None \<and>
        (\<exists>k. prefix (processing_queue_prefix (st_keys S) @ '':'') k \<and> r_type R d k \<noteq> TNone \<and> last_segment k = p)}"
proof -
  have mem: "p \<in> fst ` set (r_zrange R (env d) k) \<longleftrightarrow> r_zscore R (env d) k p \<noteq> None" for p k
    using zrange_mem [of p _ "env d" k] by (force simp: image_iff)
  have ex: "p \<in> fst ` {x \<in> set (r_zrange R (env d) k). case x of (_, score) \<Rightarrow> score < t} \<longleftrightarrow>
      (\<exists>sc. r_zscore R (env d) k p = Some sc \<and> sc < t)" for p k t
    using zrange_mem [of p _ "env d" k] by (force simp: image_iff)
  from assms show ?thesis
    by (auto simp: dead_process_ids_def dead_process_ids_in_def bind_eq_Inr seq_eq_Inr interfere_def redis_defs Let_def
        mem ex keys_set split: if_splits)
qed

lemma cleanup_refines:
  assumes "cleanup R C S (\<lambda>d. d) now d = (Inr n, d')"
  shows "store_of R d' = (store_of R d)\<lparr>hashes := (r_hget R d)(jobs_key (st_keys S) :=
      (\<lambda>i. case r_hget R d (jobs_key (st_keys S)) i of None \<Rightarrow> None
           | Some p \<Rightarrow> if expired C now p then None else Some p))\<rparr> \<and>
    n = card {i. \<exists>p. r_hget R d (jobs_key (st_keys S)) i = Some p \<and> expired C now p}"
proof -
  let ?J = "jobs_key (st_keys S)"
  let ?items = "filter (\<lambda>(_, s). expired C now s) (r_hgetall R d ?J)"
  let ?ids = "map fst ?items"
  from assms have run: "(if ?ids = [] then return () else hdel_many R ?J ?ids) d = (Inr (), d')" "n = length ?ids"
    by (auto simp: cleanup_def with_connection_Inr bind_eq_Inr seq_eq_Inr interfere_def hgetall_def reading_def Let_def
        split: if_splits)
  have st: "store_of R d' = fold (\<lambda>f. put_hash ?J f None) ?ids (store_of R d)"
    using run(1) hdel_many_refines by (auto split: if_splits)
  have ids: "set ?ids = {i. \<exists>p. r_hget R d ?J i = Some p \<and> expired C now p}"
    using hgetall_mem [of _ _ d ?J] by (force simp: image_iff)
  have "distinct ?ids" using hgetall_distinct [of d ?J] by (simp add: distinct_map_filter)
  then have "n = card (set ?ids)" using run(2) by (metis distinct_card)
  moreover have "(\<lambda>f. if f \<in> set ?ids then None else r_hget R d ?J f) =
      (\<lambda>i. case r_hget R d ?J i of None \<Rightarrow> None | Some p \<Rightarrow> if expired C now p then None else Some p)"
    unfolding ids by (auto simp: fun_eq_iff split: option.splits)
  ultimately show ?thesis
    using st unfolding fold_put_hash_None by (simp only: ids store_of_sel)
qed

end

section \<open>Claims are conserved by recovery\<close>

lemma recover_claim_others:
  assumes "i \<noteq> j"
  shows "hashes (recover_claim C K proc j s) k i = hashes s k i"
    "count_list (lists (recover_claim C K proc j s) k) i = count_list (lists s k) i"
  using assms by (auto simp: recover_claim_def store_updates count_list_remove1 split: option.splits)

lemma fold_recover_others:
  assumes "i \<notin> set js"
  shows "hashes (fold (recover_claim C K proc) js s) k i = hashes s k i \<and>
    count_list (lists (fold (recover_claim C K proc) js s) k) i = count_list (lists s k) i"
  using assms by (induction js arbitrary: s) (simp_all add: recover_claim_others)

lemma fold_recover_one:
  assumes "distinct ids" "i \<in> set ids" "i \<in> set (lists s proc)"
    and "hashes s (jobs_key K) i = Some p" "of_payload C p = Some e" "namespace_queue K (env_queue e) \<noteq> proc"
  defines "s' \<equiv> fold (recover_claim C K proc) ids s"
  shows "count_list (lists s' proc) i = count_list (lists s proc) i - 1 \<and>
    (if resurrect (env_meta e)
     then hashes s' (jobs_key K) i = Some p \<and>
       count_list (lists s' (namespace_queue K (env_queue e))) i =
         Suc (count_list (lists s (namespace_queue K (env_queue e))) i)
     else hashes s' (jobs_key K) i = None)"
proof -
  from split_list [OF assms(2)] obtain pre post where ids: "ids = pre @ i # post" by blast
  with assms(1) have ni: "i \<notin> set pre" "i \<notin> set post" by auto
  define s1 where "s1 = fold (recover_claim C K proc) pre s"
  define s2 where "s2 = recover_claim C K proc i s1"
  have pre: "hashes s1 k i = hashes s k i" "count_list (lists s1 k) i = count_list (lists s k) i" for k
    using fold_recover_others [OF ni(1)] by (simp_all add: s1_def)
  have post: "hashes s' k i = hashes s2 k i" "count_list (lists s' k) i = count_list (lists s2 k) i" for k
    using fold_recover_others [OF ni(2)] by (simp_all add: s'_def ids s1_def s2_def)
  have "i \<in> set (lists s1 proc)" using pre(2) [of proc] assms(3) by (metis count_list_0_iff)
  then have s2: "s2 = map_list proc (remove1 i)
      (if resurrect (env_meta e) then map_list (namespace_queue K (env_queue e)) ((#) i) s1
       else put_hash (jobs_key K) i None s1)"
    using pre(1) assms(4,5) by (simp add: s2_def recover_claim_def)
  show ?thesis
    using assms(4,6) by (simp add: post s2 store_updates count_list_remove1 pre)
qed

section \<open>Properties\<close>

text \<open>
  C13. Who is declared dead: whatever other clients do between the scan of the processing
  lists and the read of the registry, exactly the processes whose heartbeat in that read is
  older than the threshold, and the owners of scanned lists that the read does not contain.
  A process with a recent heartbeat at the time of the read is never among them.
\<close>

theorem dead_process_ids_exact:
  assumes "redis_server R" and "dead_process_ids R S env now thr d = (Inr ps, d')"
  shows "set ps =
    {p. \<exists>sc. r_zscore R (env d) (processes_key (st_keys S)) p = Some sc \<and> sc < now - thr} \<union>
    {p. r_zscore R (env d) (processes_key (st_keys S)) p = None \<and>
        (\<exists>k. prefix (processing_queue_prefix (st_keys S) @ '':'') k \<and> r_type R d k \<noteq> TNone \<and> last_segment k = p)}"
  using redis_server.dead_process_ids_spec [OF assms] by blast

text \<open>
  Recovery of a dead process, with nobody else writing: every claim it held is decided
  by what is stored (no payload: the claim is dropped; an unreadable payload: left alone; a
  readable one: requeued or, if the job must not be resurrected, deleted), and the process
  is forgotten exactly when no claim is left.
\<close>

theorem resurrect_process_contract:
  assumes "redis_server R" and "json_codec C" and "resurrect_process R C S (\<lambda>_ d. d) p d = (Inr n, d')"
  shows "store_of R d' =
    (let s1 = fold (recover_claim C (st_keys S) (processing_queue (st_keys S) p))
                (r_lrange R d (processing_queue (st_keys S) p)) (store_of R d)
     in if lists s1 (processing_queue (st_keys S) p) = []
        then put_hash (processes_data_key (st_keys S)) p None (put_zset (processes_key (st_keys S)) p None s1)
        else s1)"
  using redis_server.resurrect_process_refines [OF assms] by (simp add: Let_def)

text \<open>
  C12. No interrupted job is lost or doubled by recovery: a claim with a readable payload
  ends with one claim less, and if the job is to be resurrected its payload is still there
  and its queue has gained it exactly once; otherwise its payload is gone.
\<close>

theorem recovery_conserves_claims:
  assumes "redis_server R" and "json_codec C" and "keys_distinct (st_keys S)"
    and "resurrect_process R C S (\<lambda>_ d. d) p d = (Inr n, d')"
    and "distinct (r_lrange R d (processing_queue (st_keys S) p))" and "i \<in> set (r_lrange R d (processing_queue (st_keys S) p))"
    and "r_hget R d (jobs_key (st_keys S)) i = Some payload" and "of_payload C payload = Some e"
    and "namespace_queue (st_keys S) (env_queue e) \<noteq> processing_queue (st_keys S) p"
  shows "i \<notin> set (r_lrange R d' (processing_queue (st_keys S) p)) \<and>
    (if resurrect (env_meta e)
     then r_hget R d' (jobs_key (st_keys S)) i = Some payload \<and>
       count_list (r_lrange R d' (namespace_queue (st_keys S) (env_queue e))) i =
         Suc (count_list (r_lrange R d (namespace_queue (st_keys S) (env_queue e))) i)
     else r_hget R d' (jobs_key (st_keys S)) i = None)"
proof -
  let ?K = "st_keys S"
  let ?proc = "processing_queue ?K p"
  let ?s = "store_of R d"
  let ?s1 = "fold (recover_claim C ?K ?proc) (lists ?s ?proc) ?s"
  have "count_list (lists ?s ?proc) i = 1" using assms(5,6) by (intro count_list_distinct) simp_all
  then have 1: "i \<notin> set (lists ?s1 ?proc) \<and> (if resurrect (env_meta e)
      then hashes ?s1 (jobs_key ?K) i = Some payload \<and> count_list (lists ?s1 (namespace_queue ?K (env_queue e))) i =
        Suc (count_list (lists ?s (namespace_queue ?K (env_queue e))) i)
      else hashes ?s1 (jobs_key ?K) i = None)"
    using fold_recover_one [where s = ?s and proc = ?proc and K = ?K and i = i, OF _ _ _ _ assms(8,9)] assms(5-7)
    by (simp add: count_list_0_iff)
  have "jobs_key ?K \<noteq> processes_data_key ?K" using assms(3) by (simp add: keys_distinct_def fixed_keys_def)
  with redis_server.resurrect_process_refines [OF assms(1,2,4)]
  have "lists (store_of R d') = lists ?s1" "hashes (store_of R d') (jobs_key ?K) = hashes ?s1 (jobs_key ?K)"
    by (auto simp: Let_def put_hash_def put_zset_def split: if_splits)
  with 1 show ?thesis by (simp cong: if_cong)
qed


text \<open>
  A heartbeat protects: after a successful \<^verbatim>\<open>ping\<close> a search for dead processes within the
  threshold does not report the pinging process.
\<close>

theorem ping_keeps_alive:
  assumes "redis_server R" and "keys_distinct (st_keys S)"
    and "ping R C S now_ms d = (Inr (), d1)"
    and "dead_process_ids R S (\<lambda>d. d) now' thr d1 = (Inr ps, d2)" and "now' - thr \<le> now_ms"
  shows "process_id (current_process S 0) \<notin> set ps"
proof -
  let ?P = "processes_key (st_keys S)"
  let ?me = "process_id (current_process S 0)"
  have ne: "?P \<noteq> processes_data_key (st_keys S)" using assms(2) by (simp add: keys_distinct_def fixed_keys_def)
  from assms(3) obtain d0 v where z: "fits R d ?P TZset" "d0 = r_zadd R d ?P ?me now_ms"
      "fits R d0 (processes_data_key (st_keys S)) THash" "d1 = r_hset R d0 (processes_data_key (st_keys S)) ?me v"
    by (auto simp: ping_def Let_def with_connection_Inr redis_defs
        process_id_now [of S "trunc_div now_ms 1000"] split: if_splits)
  have "r_zscore R d1 ?P ?me = Some now_ms"
    using z by (simp add: redis_server.hset_z [OF assms(1)] redis_server.zadd_z [OF assms(1)])
  with redis_server.dead_process_ids_spec [OF assms(1,4)] assms(5) show ?thesis by auto
qed

section \<open>Witnesses\<close>

definition sample_registry :: mem where
  "sample_registry = [(''app:processes'', VZset [(''h-9-x'', 10), (''h-1-i1'', 500)]), (''app:processing:h-9-x'', VList [''Mail/7'']),
     (''app:jobs'', VHash [(''Mail/7'', sample_payload)]), (''app:processing:gone'', VList [''a''])]"

lemma sample_process_names:
  "processes_key (st_keys sample_storage) = ''app:processes''"
  "processes_data_key (st_keys sample_storage) = ''app:processes_data''"
  "processing_queue_prefix (st_keys sample_storage) = ''app:processing''"
  "processing_queue (st_keys sample_storage) ''h-9-x'' = ''app:processing:h-9-x''"
  "process_id (current_process sample_storage 0) = ''h-1-i1''"
  "resurrect (env_meta sample_envelope)"
  by code_simp+

lemmas process_run = sample_run sample_process_names sample_registry_def

lemma sample_dead_ids:
  "dead_process_ids mem_redis sample_storage (\<lambda>d. d) 600 300 sample_registry = (Inr [''h-9-x'', ''gone''], sample_registry)"
  by (simp add: dead_process_ids_def dead_process_ids_in_def last_segment_def rsplit_once_def process_run)

theorem dead_process_ids_exact_witness:
  "redis_server mem_redis \<and> {''h-9-x'', ''gone''} =
    {p. \<exists>sc. r_zscore mem_redis sample_registry ''app:processes'' p = Some sc \<and> sc < 300} \<union>
    {p. r_zscore mem_redis sample_registry ''app:processes'' p = None \<and>
        (\<exists>k. prefix ''app:processing:'' k \<and> r_type mem_redis sample_registry k \<noteq> TNone \<and> last_segment k = p)}"
  using dead_process_ids_exact [OF mem.redis_server_axioms sample_dead_ids] mem.redis_server_axioms
  by (simp add: sample_process_names)

lemma sample_recovery:
  "fst (resurrect_process mem_redis netstring_codec sample_storage (\<lambda>_ d. d) ''h-9-x'' sample_registry) = Inr 1"
  by (simp add: resurrect_process_def transition_snapshot_def parse_envelope_def resurrect_claim_lua_def
      require_types_def expected_payload_def forget_process_def process_run)

theorem resurrect_process_contract_witness:
  "store_of mem_redis (snd (resurrect_process mem_redis netstring_codec sample_storage (\<lambda>_ d. d) ''h-9-x'' sample_registry)) =
    (let s1 = recover_claim netstring_codec (st_keys sample_storage) ''app:processing:h-9-x'' ''Mail/7'' (store_of mem_redis sample_registry)
     in if lists s1 ''app:processing:h-9-x'' = []
        then put_hash ''app:processes_data'' ''h-9-x'' None (put_zset ''app:processes'' ''h-9-x'' None s1) else s1)"
proof -
  have l: "r_lrange mem_redis sample_registry ''app:processing:h-9-x'' = [''Mail/7'']"
    by (simp add: sample_registry_def mem_list_def)
  show ?thesis
    using resurrect_process_contract [OF mem.redis_server_axioms net.json_codec_axioms run_pair [OF sample_recovery]]
    by (simp add: sample_process_names l del: mem_redis_sel cong: if_cong)
qed

theorem recovery_conserves_claims_witness:
  "let d' = snd (resurrect_process mem_redis netstring_codec sample_storage (\<lambda>_ d. d) ''h-9-x'' sample_registry)
   in ''Mail/7'' \<notin> set (r_lrange mem_redis d' ''app:processing:h-9-x'') \<and>
      count_list (r_lrange mem_redis d' ''app:queue:mail'') ''Mail/7'' = 1"
proof -
  have l: "r_lrange mem_redis sample_registry ''app:processing:h-9-x'' = [''Mail/7'']"
    "r_lrange mem_redis sample_registry ''app:queue:mail'' = []"
    "r_hget mem_redis sample_registry ''app:jobs'' ''Mail/7'' = Some sample_payload"
    by (simp_all add: sample_registry_def mem_list_def mem_hash_def)
  show ?thesis
    using recovery_conserves_claims [OF mem.redis_server_axioms net.json_codec_axioms sample_keys_distinct
        run_pair [OF sample_recovery], where i = "''Mail/7''" and payload = sample_payload, OF _ _ _ sample_payload_parses]
    by (simp add: l sample_process_names sample_names sample_envelope_sel Let_def del: mem_redis_sel)
qed


theorem ping_keeps_alive_witness:
  "keys_distinct (st_keys sample_storage) \<and>
   (\<exists>ps d2. dead_process_ids mem_redis sample_storage (\<lambda>d. d) 600 300
        (snd (ping mem_redis netstring_codec sample_storage 400 [])) = (Inr ps, d2) \<and> ''h-1-i1'' \<notin> set ps)"
proof -
  have p: "fst (ping mem_redis netstring_codec sample_storage 400 []) = Inr ()"
    by (simp add: ping_def process_id_now [of _ "trunc_div 400 1000"] process_run)
  have "\<exists>ps d2. dead_process_ids mem_redis sample_storage (\<lambda>d. d) 600 300
      (snd (ping mem_redis netstring_codec sample_storage 400 [])) = (Inr ps, d2)"
    by (simp add: ping_def process_id_now [of _ "trunc_div 400 1000"] dead_process_ids_def dead_process_ids_in_def process_run)
  then obtain ps d2 where d: "dead_process_ids mem_redis sample_storage (\<lambda>d. d) 600 300
      (snd (ping mem_redis netstring_codec sample_storage 400 [])) = (Inr ps, d2)" by blast
  from ping_keeps_alive [OF mem.redis_server_axioms sample_keys_distinct run_pair [OF p] d] d sample_keys_distinct
  show ?thesis by (simp add: sample_process_names)
qed

end
