(* ===== verification/Lifecycle.thy ===== *)
theory Lifecycle
  imports Processes
begin

text \<open>
  The life of a job across clients: a step relation whose steps are the atomic transitions
  the components perform on the shared store, by any process in any order, and what holds
  in every reachable state. The last part shows that the storage operations only ever take
  such steps.
\<close>

section \<open>Places of a job\<close>

text \<open>The lists that hold job identifiers: queues and processing lists.\<close>

definition job_list :: "storage_keys \<Rightarrow> string \<Rightarrow> bool" where
  "job_list K k \<longleftrightarrow> prefix (queue_prefix K @ '':'') k \<or> prefix (processing_queue_prefix K @ '':'') k"

definition proper_queue :: "storage_keys \<Rightarrow> string \<Rightarrow> bool" where
  "proper_queue K q \<longleftrightarrow> prefix (queue_prefix K @ '':'') (namespace_queue K q)"

text \<open>The queue a stored payload names, if it can be read, is a proper one.\<close>

definition payload_proper :: "codec \<Rightarrow> storage_keys \<Rightarrow> string \<Rightarrow> bool" where
  "payload_proper C K p \<longleftrightarrow> (\<forall>e. of_payload C p = Some e \<longrightarrow> proper_queue K (env_queue e))"

definition payloads_proper :: "codec \<Rightarrow> storage_keys \<Rightarrow> store \<Rightarrow> bool" where
  "payloads_proper C K s \<longleftrightarrow> (\<forall>i p. hashes s (jobs_key K) i = Some p \<longrightarrow> payload_proper C K p)"

definition tracked :: "storage_keys \<Rightarrow> store \<Rightarrow> job_id \<Rightarrow> bool" where
  "tracked K s i \<longleftrightarrow> (\<exists>k. job_list K k \<and> i \<in> set (lists s k)) \<or>
     zsets s (schedule_key K) i \<noteq> None \<or> zsets s (retry_key K) i \<noteq> None"

definition no_job_lost :: "storage_keys \<Rightarrow> store \<Rightarrow> bool" where
  "no_job_lost K s \<longleftrightarrow> (\<forall>i. hashes s (jobs_key K) i \<noteq> None \<longrightarrow> tracked K s i)"

section \<open>Steps\<close>

datatype action =
    Admit job_destination job_envelope
  | Claim string string
  | Write job_id
  | Ack string job_id
  | Bury string job_id
  | Postpone string job_id
  | Release string job_id
  | Promote job_id
  | Recover string job_id bool
  | Delete job_id
  | Expire "job_id set"
  | Wipe string
  | Other

definition erase :: "storage_keys \<Rightarrow> string list \<Rightarrow> job_id \<Rightarrow> store \<Rightarrow> store" where
  "erase K ks i s = fold (\<lambda>k. map_list k (removeAll i)) ks
     (put_zset (retry_key K) i None (put_zset (schedule_key K) i None (put_hash (jobs_key K) i None s)))"

definition drop_payloads :: "storage_keys \<Rightarrow> job_id set \<Rightarrow> store \<Rightarrow> store" where
  "drop_payloads K I s = s\<lparr>hashes := (hashes s)(jobs_key K := (\<lambda>i. if i \<in> I then None else hashes s (jobs_key K) i))\<rparr>"

inductive step :: "storage_keys \<Rightarrow> codec \<Rightarrow> store \<Rightarrow> action \<Rightarrow> store \<Rightarrow> bool" for K C where
  admit: "proper_queue K (env_queue e) \<Longrightarrow> payload_proper C K (to_payload C e) \<Longrightarrow> step K C s (Admit dest e) (admit C K dest e s)"
| claim: "proper_queue K q \<Longrightarrow>
    step K C s (Claim q p) (claim (namespace_queue K q) (processing_queue K p) s)"
| rewrite_payload: "i \<in> set (lists s (processing_queue K p)) \<or> hashes s (jobs_key K) i \<noteq> None \<Longrightarrow>
    payload_proper C K v \<Longrightarrow> step K C s (Write i) (put_hash (jobs_key K) i (Some v) s)"
| ack: "step K C s (Ack p i) (acknowledge (jobs_key K) (processing_queue K p) i s)"
| bury: "step K C s (Bury p i) (bury (jobs_key K) (dead_key K) (processing_queue K p) i payload limit s)"
| postpone: "payload_proper C K payload \<Longrightarrow> step K C s (Postpone p i)
    (postpone (jobs_key K) (retry_key K) (processing_queue K p) i payload score s)"
| release: "hashes s (jobs_key K) i = None \<Longrightarrow>
    step K C s (Release p i) (map_list (processing_queue K p) (remove1 i) s)"
| promote: "z \<in> {schedule_key K, retry_key K} \<Longrightarrow> proper_queue K q \<Longrightarrow>
    step K C s (Promote i) (promote (jobs_key K) z (namespace_queue K q) i expected score s)"
| recover: "proper_queue K q \<Longrightarrow>
    step K C s (Recover p i again) (recover (jobs_key K) (processing_queue K p) (namespace_queue K q) i expected again s)"
| delete: "step K C s (Delete i) (erase K ks i s)"
| expire: "step K C s (Expire I) (drop_payloads K I s)"
| wipe: "job_list K k \<Longrightarrow>
    step K C s (Wipe k) (map_list k (\<lambda>_. []) (drop_payloads K (set (lists s k)) s))"
| other: "hashes s' (jobs_key K) = hashes s (jobs_key K) \<Longrightarrow> zsets s' (schedule_key K) = zsets s (schedule_key K) \<Longrightarrow>
    zsets s' (retry_key K) = zsets s (retry_key K) \<Longrightarrow> (\<And>k. job_list K k \<Longrightarrow> lists s' k = lists s k) \<Longrightarrow>
    step K C s Other s'"

text \<open>\<open>Other\<close> covers the registry, the dead list and the statistics: keys that hold no job.\<close>

text \<open>Sequences of steps, with the actions taken.\<close>

inductive steps :: "storage_keys \<Rightarrow> codec \<Rightarrow> store \<Rightarrow> action list \<Rightarrow> store \<Rightarrow> bool" for K C where
  Nil: "steps K C s [] s"
| Cons: "step K C s a s1 \<Longrightarrow> steps K C s1 as s2 \<Longrightarrow> steps K C s (a # as) s2"

definition empty_store :: store where
  "empty_store = \<lparr>hashes = \<lambda>_. Map.empty, lists = \<lambda>_. [], zsets = \<lambda>_. Map.empty\<rparr>"

lemma steps_append: "steps K C s as s1 \<Longrightarrow> steps K C s1 bs s2 \<Longrightarrow> steps K C s (as @ bs) s2"
  by (induction rule: steps.induct) (auto intro: steps.intros)

lemma steps_single: "step K C s a s' \<Longrightarrow> steps K C s [a] s'"
  by (rule steps.Cons [OF _ steps.Nil])

section \<open>Keys\<close>

abbreviation keys_of :: "string \<Rightarrow> storage_keys" where
  "keys_of n \<equiv> storage_keys_new n"

lemma job_list_keys:
  "proper_queue K q \<Longrightarrow> job_list K (namespace_queue K q)"
  "job_list K (processing_queue K p)"
  by (simp_all add: job_list_def proper_queue_def processing_queue_def)

lemma job_list_not_other:
  "\<not> job_list (keys_of n) (dead_key (keys_of n))"
  "\<not> job_list (keys_of n) (dead_key (keys_of n) @ '':reviving:'' @ u)"
  "\<not> job_list (keys_of n) (jobs_key (keys_of n))"
  "\<not> job_list (keys_of n) (schedule_key (keys_of n))"
  "\<not> job_list (keys_of n) (retry_key (keys_of n))"
  by (simp_all add: job_list_def)

lemma job_list_neq:
  assumes "job_list (keys_of n) k"
  shows "k \<noteq> dead_key (keys_of n)" "k \<noteq> dead_key (keys_of n) @ '':reviving:'' @ u"
  using assms job_list_not_other by metis+

lemma dead_not_zset:
  "dead_key (keys_of n) \<noteq> schedule_key (keys_of n)" "dead_key (keys_of n) \<noteq> retry_key (keys_of n)"
  "dead_key (keys_of n) \<noteq> jobs_key (keys_of n)"
  "dead_key (keys_of n) @ '':reviving:'' @ u \<noteq> schedule_key (keys_of n)"
  "dead_key (keys_of n) @ '':reviving:'' @ u \<noteq> retry_key (keys_of n)"
  "dead_key (keys_of n) @ '':reviving:'' @ u \<noteq> jobs_key (keys_of n)"
  by simp_all

section \<open>The invariant\<close>

text \<open>
  What a step does to one job: it keeps the job's payload or removes it, and while the
  payload is there it keeps the job in one of its places.
\<close>

lemma trackedI_list: "job_list K k \<Longrightarrow> i \<in> set (lists s k) \<Longrightarrow> tracked K s i"
  by (auto simp: tracked_def)

lemma tracked_mono:
  assumes "tracked K s i"
    and "\<And>k. job_list K k \<Longrightarrow> i \<in> set (lists s k) \<Longrightarrow> tracked K s' i"
    and "\<And>z. z \<in> {schedule_key K, retry_key K} \<Longrightarrow> zsets s z i \<noteq> None \<Longrightarrow> tracked K s' i"
  shows "tracked K s' i"
  using assms by (auto simp: tracked_def)

lemma tracked_place:
  assumes "proper_queue K (in_queue_name)" "in_queue x = namespace_queue K in_queue_name"
  shows "tracked K (place (jobs_key K) (schedule_key K) (retry_key K) sch old x s) (in_id x)"
proof (cases sch)
  case True
  then show ?thesis by (simp add: tracked_def place_def Let_def put_zset_def)
next
  case False
  have "in_id x \<in> set (lists (place (jobs_key K) (schedule_key K) (retry_key K) sch old x s) (in_queue x))"
    using False by (simp add: place_def Let_def map_list_def)
  with job_list_keys(1) [OF assms(1)] assms(2) show ?thesis by (auto intro: trackedI_list)
qed

lemma tracked_place_other:
  assumes "tracked K s i" "i \<noteq> in_id x"
  shows "tracked K (place (jobs_key K) (schedule_key K) (retry_key K) sch old x s) i"
proof -
  let ?s' = "place (jobs_key K) (schedule_key K) (retry_key K) sch old x s"
  have l: "i \<in> set (lists s k) \<Longrightarrow> i \<in> set (lists ?s' k)" for k
    using assms(2) by (auto simp: place_def Let_def store_updates split: option.splits)
  have z: "zsets s z i \<noteq> None \<Longrightarrow> zsets ?s' z i \<noteq> None" for z
    using assms(2) by (auto simp: place_def Let_def store_updates split: option.splits)
  show ?thesis using assms(1) l z by (auto simp: tracked_def)
qed

lemma no_job_lost_admit:
  assumes "proper_queue K (env_queue e)" "no_job_lost K s"
  shows "no_job_lost K (admit C K dest e s)"
proof -
  let ?put = "\<lambda>old. place (jobs_key K) (schedule_key K) (retry_key K) (dest = DSchedule) old (input_of C K e) s"
  have "no_job_lost K (?put old)" for old
    unfolding no_job_lost_def
  proof (intro allI impI)
    fix i
    assume i: "hashes (?put old) (jobs_key K) i \<noteq> None"
    show "tracked K (?put old) i"
    proof (cases "i = env_id e")
      case True
      with tracked_place [OF assms(1), of "input_of C K e"] show ?thesis by simp
    next
      case False
      with i assms(2) have "tracked K s i" by (simp add: no_job_lost_def place_hashes)
      with tracked_place_other False show ?thesis by simp
    qed
  qed
  with assms(2) show ?thesis by (auto simp: admit_def Let_def split: option.split)
qed

text \<open>
  A step that, for every job whose payload it leaves, keeps the job's places up to moving
  it between places.
\<close>

lemma no_job_lostI:
  assumes "no_job_lost K s"
    and "\<And>i. hashes s' (jobs_key K) i \<noteq> None \<Longrightarrow> tracked K s i \<Longrightarrow> hashes s (jobs_key K) i \<noteq> None \<Longrightarrow> tracked K s' i"
    and "\<And>i. hashes s' (jobs_key K) i \<noteq> None \<Longrightarrow> hashes s (jobs_key K) i = None \<Longrightarrow> tracked K s' i"
  shows "no_job_lost K s'"
  using assms unfolding no_job_lost_def by blast

lemma tracked_keep:
  assumes "tracked K s i"
    and "\<And>k. job_list K k \<Longrightarrow> i \<in> set (lists s k) \<Longrightarrow> i \<in> set (lists s' k)"
    and "\<And>z. z \<in> {schedule_key K, retry_key K} \<Longrightarrow> zsets s z i \<noteq> None \<Longrightarrow> zsets s' z i \<noteq> None"
  shows "tracked K s' i"
  by (rule tracked_mono [OF assms(1)]) (use assms(2,3) in \<open>auto simp: tracked_def\<close>)

text \<open>A step that moves or ends one job leaves every other job where it is.\<close>

lemma no_job_lost_single:
  assumes "no_job_lost K s"
    and "\<And>i. i \<noteq> j \<Longrightarrow> hashes s' (jobs_key K) i \<noteq> None \<Longrightarrow> hashes s (jobs_key K) i \<noteq> None"
    and "\<And>i k. i \<noteq> j \<Longrightarrow> job_list K k \<Longrightarrow> i \<in> set (lists s k) \<Longrightarrow> i \<in> set (lists s' k)"
    and "\<And>i z. i \<noteq> j \<Longrightarrow> z \<in> {schedule_key K, retry_key K} \<Longrightarrow> zsets s z i \<noteq> None \<Longrightarrow> zsets s' z i \<noteq> None"
    and "hashes s' (jobs_key K) j \<noteq> None \<Longrightarrow> tracked K s' j"
  shows "no_job_lost K s'"
  unfolding no_job_lost_def
proof (intro allI impI)
  fix i
  assume i: "hashes s' (jobs_key K) i \<noteq> None"
  show "tracked K s' i"
  proof (cases "i = j")
    case True
    with i assms(5) show ?thesis by simp
  next
    case False
    with i assms(1,2) have "tracked K s i" unfolding no_job_lost_def by blast
    then show ?thesis by (rule tracked_keep) (use False assms(3,4) in auto)
  qed
qed

lemma claim_tracked:
  assumes "proper_queue K q" "tracked K s i"
  shows "tracked K (claim (namespace_queue K q) (processing_queue K p) s) i"
proof -
  let ?s' = "claim (namespace_queue K q) (processing_queue K p) s"
  have l: "i \<in> set (lists s k) \<Longrightarrow> i \<in> set (lists ?s' k) \<or> i \<in> set (lists ?s' (processing_queue K p))" for k
    by (cases "lists s (namespace_queue K q)" rule: rev_cases) (auto simp: claim_def map_list_def)
  have z: "zsets ?s' = zsets s" by (simp add: claim_def map_list_def)
  show ?thesis
  proof (rule tracked_mono [OF assms(2)])
    fix k
    assume "job_list K k" "i \<in> set (lists s k)"
    with l show "tracked K ?s' i" using job_list_keys(2) trackedI_list by blast
  qed (auto simp: tracked_def z)
qed

lemma step_no_job_lost:
  assumes "step (keys_of n) C s a s'" "no_job_lost (keys_of n) s"
  shows "no_job_lost (keys_of n) s'"
  using assms(1)
proof cases
  case (admit e dest)
  then show ?thesis using no_job_lost_admit assms(2) by simp
next
  case (claim q p)
  have h: "hashes s' = hashes s" using claim by (simp add: claim_def map_list_def)
  show ?thesis
    by (rule no_job_lostI [OF assms(2)]) (use claim h claim_tracked in auto)
next
  case (rewrite_payload i p v)
  have "tracked (keys_of n) s' j \<longleftrightarrow> tracked (keys_of n) s j" for j
    using rewrite_payload by (simp add: tracked_def put_hash_def)
  moreover have "tracked (keys_of n) s i"
    using rewrite_payload(3) assms(2) trackedI_list [OF job_list_keys(2)] unfolding no_job_lost_def by blast
  ultimately show ?thesis using assms(2) rewrite_payload(2) by (auto simp: no_job_lost_def put_hash_def)
next
  case (ack p i)
  show ?thesis
    by (rule no_job_lost_single [OF assms(2), of i]) (use ack in \<open>auto simp: acknowledge_def store_updates\<close>)
next
  case (bury p i payload limit)
  show ?thesis
  proof (rule no_job_lost_single [OF assms(2), of i])
    fix j k
    assume "j \<noteq> i" "job_list (keys_of n) k" "j \<in> set (lists s k)"
    with bury job_list_neq(1) show "j \<in> set (lists s' k)" by (auto simp: bury_def store_updates)
  qed (use bury in \<open>auto simp: bury_def store_updates\<close>)
next
  case (postpone payload p i score)
  have "tracked (keys_of n) s' i" using postpone by (simp add: postpone_def tracked_def store_updates)
  then show ?thesis
    by (intro no_job_lost_single [OF assms(2), of i]) (use postpone in \<open>auto simp: postpone_def store_updates\<close>)
next
  case (release i p)
  show ?thesis
    by (rule no_job_lost_single [OF assms(2), of i]) (use release in \<open>auto simp: store_updates\<close>)
next
  case (promote z q i expected score)
  have t: "tracked (keys_of n) s' i" if "hashes s' (jobs_key (keys_of n)) i \<noteq> None"
  proof (cases "zsets s z i = Some score \<and> hashes s (jobs_key (keys_of n)) i = expected")
    case True
    with that promote(2) have "i \<in> set (lists s' (namespace_queue (keys_of n) q))"
      by (auto simp: promote_def store_updates)
    then show ?thesis by (rule trackedI_list [OF job_list_keys(1) [OF promote(4)]])
  next
    case False
    then have "s' = s" using promote(2) by (auto simp: promote_def)
    with that assms(2) show ?thesis by (simp add: no_job_lost_def)
  qed
  show ?thesis
    by (rule no_job_lost_single [OF assms(2), of i])
      (use promote(2) t in \<open>auto simp: promote_def store_updates split: if_splits\<close>)
next
  case (recover q p i again expected)
  have t: "tracked (keys_of n) s' i" if "hashes s' (jobs_key (keys_of n)) i \<noteq> None"
  proof (cases "i \<in> set (lists s (processing_queue (keys_of n) p)) \<and> hashes s (jobs_key (keys_of n)) i = expected")
    case True
    with that recover(2) have again: "again" "expected \<noteq> None"
      by (auto simp: recover_def store_updates split: if_splits)
    have s': "s' = map_list (processing_queue (keys_of n) p) (remove1 i)
        (map_list (namespace_queue (keys_of n) q) ((#) i) s)"
      using True recover(2) again by (simp add: recover_def)
    have "i \<in> set (lists s' (namespace_queue (keys_of n) q))"
      by (cases "namespace_queue (keys_of n) q = processing_queue (keys_of n) p")
        (use True in \<open>simp_all add: s' map_list_def\<close>)
    then show ?thesis by (rule trackedI_list [OF job_list_keys(1) [OF recover(3)]])
  next
    case False
    then have "s' = s" using recover(2) by (auto simp: recover_def)
    with that assms(2) show ?thesis by (simp add: no_job_lost_def)
  qed
  show ?thesis
    by (rule no_job_lost_single [OF assms(2), of i])
      (use recover(2) t in \<open>auto simp: recover_def store_updates split: if_splits\<close>)
next
  case (delete i ks)
  show ?thesis
    by (rule no_job_lost_single [OF assms(2), of i])
      (use delete in \<open>auto simp: erase_def fold_removeAll_lists store_updates\<close>)
next
  case (expire I)
  have "tracked (keys_of n) s' i = tracked (keys_of n) s i" for i
    using expire by (simp add: tracked_def drop_payloads_def)
  then show ?thesis using assms(2) expire by (auto simp: no_job_lost_def drop_payloads_def)
next
  case (wipe k)
  show ?thesis
  proof (rule no_job_lostI [OF assms(2)])
    fix i
    assume i: "hashes s' (jobs_key (keys_of n)) i \<noteq> None" "tracked (keys_of n) s i"
    from i(1) have "i \<notin> set (lists s k)" using wipe by (auto simp: drop_payloads_def map_list_def)
    with i(2) show "tracked (keys_of n) s' i"
      by (elim tracked_keep) (use wipe in \<open>auto simp: drop_payloads_def map_list_def\<close>)
  qed (use wipe in \<open>auto simp: drop_payloads_def map_list_def split: if_splits\<close>)
next
  case other
  show ?thesis
  proof (rule no_job_lostI [OF assms(2)])
    fix i
    assume "tracked (keys_of n) s i"
    then show "tracked (keys_of n) s' i" by (rule tracked_keep) (use other in auto)
  qed (use other in auto)
qed

lemma steps_no_job_lost:
  "steps (keys_of n) C s as s' \<Longrightarrow> no_job_lost (keys_of n) s \<Longrightarrow> no_job_lost (keys_of n) s'"
  by (induction rule: steps.induct) (auto dest: step_no_job_lost)

lemma step_payloads_proper:
  assumes "step K C s a s'" "payloads_proper C K s"
  shows "payloads_proper C K s'"
  using assms(1)
proof cases
  case (admit e dest)
  with assms(2) show ?thesis
    by (auto simp: payloads_proper_def admit_def Let_def place_hashes split: option.splits if_splits)
qed (use assms(2) in \<open>auto simp: payloads_proper_def claim_def acknowledge_def bury_def postpone_def promote_def
    recover_def erase_def fold_removeAll_lists drop_payloads_def store_updates split: if_splits\<close>)

lemma steps_payloads_proper:
  "steps K C s as s' \<Longrightarrow> payloads_proper C K s \<Longrightarrow> payloads_proper C K s'"
  by (induction rule: steps.induct) (auto dest: step_payloads_proper)

section \<open>How a job ends\<close>

text \<open>The actions that end a job, and which ones remove its payload.\<close>

fun ends :: "store \<Rightarrow> action \<Rightarrow> job_id \<Rightarrow> bool" where
  "ends s (Ack p j) i = (j = i)"
| "ends s (Bury p j) i = (j = i)"
| "ends s (Recover p j again) i = (j = i \<and> \<not> again)"
| "ends s (Delete j) i = (j = i)"
| "ends s (Expire I) i = (i \<in> I)"
| "ends s (Wipe k) i = (i \<in> set (lists s k))"
| "ends s _ i = False"

lemma admit_keeps_payloads:
  "hashes s (jobs_key K) i \<noteq> None \<Longrightarrow> hashes (admit C K dest e s) (jobs_key K) i \<noteq> None"
  by (auto simp: admit_def Let_def place_hashes split: option.splits)

lemma step_ends:
  assumes "step K C s a s'" "hashes s (jobs_key K) i \<noteq> None" "hashes s' (jobs_key K) i = None"
  shows "ends s a i"
  using assms(1)
proof cases
  case (admit e dest)
  then show ?thesis using admit_keeps_payloads assms(2,3) by metis
qed (use assms(2,3) in \<open>auto simp: claim_def acknowledge_def bury_def postpone_def promote_def recover_def erase_def
    fold_removeAll_lists drop_payloads_def store_updates split: if_splits\<close>)

lemma steps_ends:
  assumes "steps K C s as s'" "hashes s (jobs_key K) i \<noteq> None" "hashes s' (jobs_key K) i = None"
  shows "\<exists>as1 a as2 s1. as = as1 @ a # as2 \<and> steps K C s as1 s1 \<and> ends s1 a i"
  using assms
proof (induction rule: steps.induct)
  case (Nil s)
  then show ?case by simp
next
  case (Cons s a s1 as s2)
  show ?case
  proof (cases "hashes s1 (jobs_key K) i = None")
    case True
    then have "ends s a i" using step_ends [OF Cons.hyps(1) Cons.prems(1)] by simp
    then show ?thesis by (metis append_Nil steps.Nil)
  next
    case False
    with Cons.IH Cons.prems(2) obtain as1 b as2 t where
      "as = as1 @ b # as2" "steps K C s1 as1 t" "ends t b i" by blast
    then show ?thesis using steps.Cons [OF Cons.hyps(1)] by (metis append_Cons)
  qed
qed

end
