(* ===== verification/Enqueue_List.thy ===== *)
theory Enqueue_List
  imports Enqueue
begin

text \<open>
  Enqueueing a list of jobs, \<^verbatim>\<open>enqueue_list\<close> of \<^verbatim>\<open>storage_internal.rs\<close>, is the same as enqueueing
  them one after the other. The code does much to avoid just that: it sends ordinary jobs in
  one pipeline, drops unique jobs it has seen before in the request, reads only the payloads
  that some job of the chunk replaces, filters the jobs that exist already, and leaves the rest
  of a chunk to one run of the script. Each of these steps is justified here against the
  sequential reference, the \<open>fold\<close> of \<open>admit\<close>.
\<close>

section \<open>Jobs that may be dropped\<close>

definition admit_all :: "codec \<Rightarrow> storage_keys \<Rightarrow> job_destination \<Rightarrow> job_envelope list \<Rightarrow> store \<Rightarrow> store" where
  "admit_all C K dest es s = fold (admit C K dest) es s"

lemma admit_all_simps [simp]:
  "admit_all C K dest [] s = s"
  "admit_all C K dest (e # es) s = admit_all C K dest es (admit C K dest e s)"
  "admit_all C K dest (es @ fs) s = admit_all C K dest fs (admit_all C K dest es s)"
  by (simp_all add: admit_all_def)

abbreviation stored :: "storage_keys \<Rightarrow> store \<Rightarrow> job_id set" where
  "stored K s \<equiv> dom (hashes s (jobs_key K))"

lemma admit_stored [simp]: "stored K (admit C K dest e s) = insert (env_id e) (stored K s)"
  by (auto simp: admit_def place_hashes Let_def split: option.splits)

lemma admit_all_stored [simp]: "stored K (admit_all C K dest es s) = env_id ` set es \<union> stored K s"
  by (induction es arbitrary: s) auto

lemma admit_existing_skip: "is_skip e \<Longrightarrow> env_id e \<in> stored K s \<Longrightarrow> admit C K dest e s = s"
  by (auto simp: admit_def)

lemma admit_first_pending:
  "set written \<union> set seen \<subseteq> stored K s \<Longrightarrow>
     admit_all C K dest (first_pending written seen es) s = admit_all C K dest es s"
proof (induction es arbitrary: seen s)
  case (Cons e es)
  show ?case
  proof (cases "is_skip e \<and> (env_id e \<in> set written \<or> env_id e \<in> set seen)")
    case True
    with Cons.prems have "admit C K dest e s = s" by (intro admit_existing_skip) auto
    with True Cons show ?thesis by simp
  next
    case False
    have "set written \<union> set (env_id e # seen) \<subseteq> stored K (admit C K dest e s)"
      using Cons.prems by auto
    from Cons.IH [OF this] show ?thesis by (simp only: first_pending.simps False if_False admit_all_simps)
  qed
qed simp

lemma admit_without_skips:
  "skips \<subseteq> stored K s \<Longrightarrow>
     admit_all C K dest (filter (\<lambda>e. \<not> (is_skip e \<and> env_id e \<in> skips)) es) s = admit_all C K dest es s"
proof (induction es arbitrary: s)
  case (Cons e es)
  show ?case
  proof (cases "is_skip e \<and> env_id e \<in> skips")
    case True
    with Cons.prems have "admit C K dest e s = s" by (intro admit_existing_skip) auto
    with True Cons show ?thesis by simp
  next
    case False
    have "skips \<subseteq> stored K (admit C K dest e s)" using Cons.prems by auto
    from Cons.IH [OF this] show ?thesis by (simp only: filter.simps False if_True not_False_eq_True admit_all_simps)
  qed
qed simp

lemma first_pending_ids: "set written \<union> set seen \<union> env_id ` set (first_pending written seen es) =
    set written \<union> set seen \<union> env_id ` set es"
  by (induction written seen es rule: first_pending.induct) auto

lemma first_pending_subset: "set (first_pending written seen es) \<subseteq> set es"
  by (induction written seen es rule: first_pending.induct) auto

section \<open>What the snapshots tell\<close>

text \<open>The old queue that the script knows of is the one in the payload it replaces.\<close>

definition agrees :: "codec \<Rightarrow> storage_keys \<Rightarrow> (string \<rightharpoonup> string) \<Rightarrow> store \<Rightarrow> string \<Rightarrow> bool" where
  "agrees C K olds s i \<longleftrightarrow>
     (\<forall>p. hashes s (jobs_key K) i = Some p \<longrightarrow> olds i = map_option (namespace_queue K) (payload_queue C p))"

context json_codec
begin

lemma payload_queue_to_payload: "envelope_wf C e \<Longrightarrow> payload_queue C (to_payload C e) = Some (env_queue e)"
proof -
  assume wf: "envelope_wf C e"
  let ?kvs = "[(''id'', JStr (env_id e)),
      (''job'', JObj [(''name'', JStr (job_data_name (env_job e))), (''args'', job_data_args (env_job e))]),
      (''queue'', JStr (env_queue e)), (''meta'', meta_to_json (env_meta e))]"
  have "json_ok C (JObj ?kvs)" using json_ok_envelope [OF wf] by (simp add: envelope_to_json_def)
  from raw_field [OF this, of "''queue''"] obtain off where
    "jraw_field C (to_payload C e) ''queue'' = Some (off, jprint C (JStr (env_queue e)))"
    by (auto simp: to_payload_def envelope_to_json_def)
  then show ?thesis by (auto simp: payload_queue_def snapshot_parse_def parse_print Let_def)
qed

lemma agrees_after_write:
  assumes "envelope_wf C e"
  shows "agrees C K (olds(env_id e \<mapsto> namespace_queue K (env_queue e)))
      (place (jobs_key K) sch ret b old (input_of C K e) s) (env_id e)"
    and "i \<noteq> env_id e \<Longrightarrow> agrees C K (olds(env_id e \<mapsto> q)) (place (jobs_key K) sch ret b old (input_of C K e) s) i
      \<longleftrightarrow> agrees C K olds s i"
  using payload_queue_to_payload [OF assms] by (simp_all add: agrees_def place_hashes)

text \<open>One run of the script on a chunk admits its jobs one after the other.\<close>

lemma enqueue_seq_admits:
  assumes "\<forall>e \<in> set es. envelope_wf C e"
    and "\<forall>i \<in> set (replacement_ids ow es) \<union> set ow. agrees C K olds s i"
  shows "fst (enqueue_seq (jobs_key K) (schedule_key K) (retry_key K) (dest = DSchedule) olds (map (input_of C K) es) s) =
    admit_all C K dest es s"
  using assms
proof (induction es arbitrary: ow olds s)
  case (Cons e es)
  let ?i = "env_id e" and ?put = "\<lambda>old. place (jobs_key K) (schedule_key K) (retry_key K) (dest = DSchedule) old (input_of C K e) s"
  let ?olds = "olds(?i \<mapsto> namespace_queue K (env_queue e))"
  have wf: "envelope_wf C e" "\<forall>e \<in> set es. envelope_wf C e" using Cons.prems(1) by auto
  have written: "fst (enqueue_seq (jobs_key K) (schedule_key K) (retry_key K) (dest = DSchedule) ?olds (map (input_of C K) es) (?put old)) =
      admit_all C K dest es (?put old)"
    if "\<forall>i \<in> set (replacement_ids ow' es) \<union> set ow'. i \<noteq> ?i \<longrightarrow> agrees C K olds s i" for ow' old
  proof (rule Cons.IH [OF wf(2)], rule ballI)
    fix i assume "i \<in> set (replacement_ids ow' es) \<union> set ow'"
    with that show "agrees C K ?olds (?put old) i"
      using agrees_after_write [OF wf(1)] by (cases "i = ?i") auto
  qed
  consider (skip) "is_skip e" | (over) "\<not> is_skip e" by blast
  then show ?case
  proof cases
    case skip
    then have "replacement_ids ow (e # es) = replacement_ids ow es" by (simp add: is_skip_def is_replace_def)
    with Cons.prems(2) have agree: "\<forall>i \<in> set (replacement_ids ow es) \<union> set ow. agrees C K olds s i" by simp
    show ?thesis
    proof (cases "?i \<in> stored K s")
      case True
      with Cons.IH [OF wf(2) agree] skip show ?thesis
        by (auto simp: conflict_of_simps admit_existing_skip Let_def split: prod.split)
    next
      case False
      then have "admit C K dest e s = ?put None" by (simp add: admit_def domIff)
      with False skip written [of ow None] agree show ?thesis
        by (auto simp: conflict_of_simps Let_def domIff split: prod.split)
    qed
  next
    case over
    define old where "old = (if is_replace e \<and> ?i \<in> stored K s then olds ?i else None)"
    have over': "\<not> unique (env_meta e) \<or> is_replace e" using over unique_cases by blast
    then have mode: "conflict_of e = (if is_replace e then CReplace else CDefault)"
      by (auto simp: conflict_of_def is_replace_def)
    have "\<exists>ow'. \<forall>i \<in> set (replacement_ids ow' es) \<union> set ow'. i \<noteq> ?i \<longrightarrow> agrees C K olds s i"
    proof (cases "?i \<in> set ow")
      case True
      with Cons.prems(2) show ?thesis by (intro exI [of _ ow]) simp
    next
      case False
      with Cons.prems(2) over' show ?thesis by (intro exI [of _ "?i # ow"]) (auto simp: is_replace_def)
    qed
    then obtain ow' where rest: "\<forall>i \<in> set (replacement_ids ow' es) \<union> set ow'. i \<noteq> ?i \<longrightarrow> agrees C K olds s i" ..
    have "agrees C K olds s ?i" if "is_replace e"
      using Cons.prems(2) that by (cases "?i \<in> set ow") (auto simp: is_replace_def)
    with over have adm: "admit C K dest e s = ?put old"
      by (auto simp: old_def admit_def agrees_def Let_def split: option.splits)
    have "fst (enqueue_seq (jobs_key K) (schedule_key K) (retry_key K) (dest = DSchedule) olds (map (input_of C K) (e # es)) s) =
        fst (enqueue_seq (jobs_key K) (schedule_key K) (retry_key K) (dest = DSchedule) ?olds (map (input_of C K) es) (?put old))"
      using mode by (auto simp: old_def Let_def domIff split: prod.split)
    with adm written [OF rest] show ?thesis by simp
  qed
qed simp

end

lemma insert_snapshots_parsed:
  assumes "insert_snapshots C cs sns = Inr sns'" and "\<And>i p. (i, p) \<in> set cs \<Longrightarrow> p = payloads i"
    and "\<And>i so. map_of sns i = Some so \<Longrightarrow> parse_opt C (payloads i) = Inr so"
  shows "dom (map_of sns') = fst ` set cs \<union> dom (map_of sns) \<and>
    (\<forall>i so. map_of sns' i = Some so \<longrightarrow> parse_opt C (payloads i) = Inr so)"
  using assms
proof (induction C cs sns rule: insert_snapshots.induct)
  case (2 C i p rest sns)
  from "2.prems"(1) obtain so where so: "parse_opt C p = Inr so" "insert_snapshots C rest (AList.update i so sns) = Inr sns'"
    by (auto split: sum.splits)
  have p: "p = payloads i" using "2.prems"(2) by simp
  have old: "parse_opt C (payloads j) = Inr sj" if "map_of (AList.update i so sns) j = Some sj" for j sj
    using that "2.prems"(3) so(1) p by (simp add: update_conv' split: if_splits)
  have "q = payloads j" if "(j, q) \<in> set rest" for j q using that "2.prems"(2) by simp
  with "2.IH" [OF so _ old] have "dom (map_of sns') = fst ` set rest \<union> dom (map_of (AList.update i so sns)) \<and>
      (\<forall>i so. map_of sns' i = Some so \<longrightarrow> parse_opt C (payloads i) = Inr so)" .
  moreover have "dom (map_of (AList.update i so sns)) = insert i (dom (map_of sns))"
    by (auto simp: update_conv' split: if_splits)
  ultimately show ?case by simp
qed simp

lemma map_of_rev_distinct: "distinct (map fst xs) \<Longrightarrow> map_of (rev xs) = map_of xs"
  by (rule map_of_eqI) (auto simp: rev_map [symmetric] dest: map_of_is_SomeI)

lemma snapshot_queues_lua:
  "distinct (map fst sns) \<Longrightarrow> snapshot_queues (map (lua_snapshot K) sns) i =
     (case map_of sns i of Some (Some sn) \<Rightarrow> Some (namespace_queue K (es_queue sn)) | _ \<Rightarrow> None)"
proof -
  assume d: "distinct (map fst sns)"
  have keys: "map (\<lambda>sn. (snap_id sn, snap_queue sn)) (map (lua_snapshot K) sns) =
      map (\<lambda>(i, so). (i, map_option (\<lambda>sn. namespace_queue K (es_queue sn)) so)) sns"
    by (auto simp: lua_snapshot_def split: option.split)
  have "distinct (map fst (map (\<lambda>sn. (snap_id sn, snap_queue sn)) (map (lua_snapshot K) sns)))"
    unfolding keys using d by (simp add: comp_def case_prod_beta)
  then show ?thesis
    unfolding snapshot_queues_def by (simp only: map_of_rev_distinct keys map_of_map) (simp split: option.split)
qed

section \<open>One chunk\<close>

lemma replacement_ids_filter:
  "replacement_ids ow (filter (\<lambda>e. \<not> (is_skip e \<and> env_id e \<in> skips)) es) = replacement_ids ow es"
  by (induction ow es rule: replacement_ids.induct) (auto simp: is_skip_def is_replace_def)

lemma newly_written_ids: "set (newly_written es os) \<subseteq> env_id ` set es"
  by (auto simp: newly_written_def dest: set_zip_leftD)

lemma snapshots_read:
  assumes "insert_snapshots C (zip ids (map payloads ids)) [] = Inr sns"
  shows "distinct (map fst sns)" and "changed_snapshots payloads (map (lua_snapshot K) sns) = []"
    and "dom (map_of sns) = set ids" and "map_of sns i = Some so \<Longrightarrow> parse_opt C (payloads i) = Inr so"
proof -
  have pairs: "p = payloads i" if "(i, p) \<in> set (zip ids (map payloads ids))" for i p
    using that by (auto simp: zip_map2 zip_same_conv_map)
  have "fst ` set (zip ids (map payloads ids)) = set ids"
    by (force simp: zip_map2 zip_same_conv_map)
  with insert_snapshots_parsed [OF assms, of payloads, OF pairs]
  show "dom (map_of sns) = set ids" "map_of sns i = Some so \<Longrightarrow> parse_opt C (payloads i) = Inr so" by simp_all
  have "distinct (map fst sns) \<and> (\<forall>(i, so) \<in> set sns. snapshot_matches (lua_snapshot K (i, so)) (payloads i))"
    using insert_snapshots_match [OF assms, of payloads, OF _ pairs] by simp
  then show "distinct (map fst sns)" "changed_snapshots payloads (map (lua_snapshot K) sns) = []"
    by (simp_all add: changed_snapshots_Nil)
qed

context redis_server
begin

lemma plain_all:
  assumes "\<forall>e \<in> set es. \<not> unique (env_meta e)"
    and "pipe (concat (map (plain_commands R C K dest) es)) d = (Inr (), d')"
  shows "store_of R d' = admit_all C K dest es (store_of R d)"
  using assms
proof (induction es arbitrary: d)
  case Nil
  then show ?case by (simp add: return_def)
next
  case (Cons e es)
  from Cons.prems(2) obtain d1 where first: "pipe (plain_commands R C K dest e) d = (Inr (), d1)"
    and rest: "pipe (concat (map (plain_commands R C K dest) es)) d1 = (Inr (), d')"
    by (auto simp: pipe_append_Inr)
  from plain_single [OF _ first] Cons.IH [OF _ rest] Cons.prems(1) show ?case by simp
qed

lemma enqueue_loop_admits:
  assumes "json_codec C" and "\<forall>e \<in> set es. envelope_wf C e" and "distinct (map fst sns)" and "fresh R K sns d"
    and "\<And>i so. map_of sns i = Some so \<Longrightarrow> parse_opt C (r_hget R d (jobs_key K) i) = Inr so"
    and "set (replacement_ids [] es) \<subseteq> dom (map_of sns)"
  shows "settles_as R (enqueue_loop R C K (dest = DSchedule) (map (input_of C K) es) sns ((\<lambda>d. d) # envs) d) (\<lambda>d'. d' = d)
    (\<lambda>os d'. store_of R d' = admit_all C K dest es (store_of R d))"
proof -
  have "agrees C K (snapshot_queues (map (lua_snapshot K) sns)) (store_of R d) i" if "i \<in> set (replacement_ids [] es)" for i
  proof -
    from that assms(6) obtain so where so: "map_of sns i = Some so" by auto
    with assms(5) [OF so] show ?thesis
      by (auto simp: agrees_def snapshot_queues_lua [OF assms(3)] parse_opt_def payload_queue_def split: option.splits sum.splits)
  qed
  then have "fst (seq_run K (dest = DSchedule) sns (map (input_of C K) es) (store_of R d)) = admit_all C K dest es (store_of R d)"
    unfolding seq_run_def by (intro json_codec.enqueue_seq_admits [OF assms(1,2), of "[]"]) simp
  with enqueue_loop_quiet [OF assms(4), where C = C and scheduled = "dest = DSchedule" and xs = "map (input_of C K) es" and envs = envs] show ?thesis
    by (auto simp: settles_as_def split: prod.splits sum.splits option.splits dest: arg_cong [of _ _ fst])
qed

text \<open>The reads before the script change nothing, and tell the truth about the store.\<close>

lemma snapshot_op:
  fixes ids k C
  defines "m \<equiv> if ids = [] then return [] else bind (hmget R k ids) (\<lambda>payloads. lift_result (insert_snapshots C (zip ids payloads) []))"
  obtains (error) e where "m d = (Inl e, d)"
  | (read) sns where "m d = (Inr sns, d)" "distinct (map fst sns)"
      "changed_snapshots (r_hget R d k) (map (lua_snapshot K) sns) = []" "dom (map_of sns) = set ids"
      "\<And>i so. map_of sns i = Some so \<Longrightarrow> parse_opt C (r_hget R d k i) = Inr so"
proof (cases "ids = []")
  case True
  then show thesis using read [of "[]"] by (simp add: m_def return_def changed_snapshots_def)
next
  case False
  show thesis
  proof (cases "fits R d k THash")
    case True
    show thesis
    proof (cases "insert_snapshots C (zip ids (map (r_hget R d k) ids)) []")
      case (Inl e)
      with True False error show thesis by (simp add: m_def hmget_def reading_def bind_def lift_result_def)
    next
      case (Inr sns)
      with True False read [of sns] snapshots_read [OF Inr] show thesis
        by (simp add: m_def hmget_def reading_def bind_def lift_result_def)
    qed
  next
    case bad: False
    with False error show thesis by (simp add: m_def hmget_def reading_def bind_def)
  qed
qed

lemma exists_op:
  fixes ids k
  defines "m \<equiv> if ids = [] then return [] else hexists_many R k ids"
  obtains (error) e where "m d = (Inl e, d)"
  | (read) "m d = (Inr (map (\<lambda>f. r_hget R d k f \<noteq> None) ids), d)"
  by (cases "ids = []"; cases "fits R d k THash") (auto simp: m_def hexists_many_def reading_def return_def)

lemma existing_skips_stored:
  assumes "\<And>i so. map_of sns i = Some so \<Longrightarrow> parse_opt C (f i) = Inr so"
  shows "set (existing_skips sns pending (zip sids (map (\<lambda>i. f i \<noteq> None) sids))) \<subseteq> dom f"
proof -
  have "f i \<noteq> None" if "map_of sns i = Some (Some sn)" for i sn
    using assms [OF that] by (auto simp: parse_opt_def split: option.splits)
  then show ?thesis
    by (auto simp: existing_skips_def zip_map2 zip_same_conv_map split: option.split_asm)
qed

lemma admitted_stays:
  assumes "store_of R d' = admit_all C K dest es s" and "A \<subseteq> env_id ` set es \<union> stored K s"
  shows "A \<subseteq> dom (r_hget R d' (jobs_key K))"
proof -
  have "dom (r_hget R d' (jobs_key K)) = stored K (store_of R d')" by simp
  with assms(2) show ?thesis by (simp only: assms(1) admit_all_stored)
qed

lemma bind_run: "m d = (Inr x, d1) \<Longrightarrow> bind m k d = k x d1"
  by (simp add: bind_def)

lemma enqueue_chunk_quiet:
  assumes "json_codec C" and "\<forall>e \<in> set es. envelope_wf C e" and "set written \<subseteq> stored K (store_of R d)"
  shows "settles_as R (enqueue_chunk R C K dest (\<lambda>d. d) ((\<lambda>d. d) # envs) written es d)
    (\<lambda>d'. (\<exists>e \<in> set es. unique (env_meta e)) \<longrightarrow> d' = d)
    (\<lambda>w d'. store_of R d' = admit_all C K dest es (store_of R d) \<and> set w \<subseteq> stored K (store_of R d'))"
proof (cases "\<forall>e \<in> set es. \<not> unique (env_meta e)")
  case True
  have kept: "set written \<subseteq> dom (r_hget R d' (jobs_key K))" if "store_of R d' = admit_all C K dest es (store_of R d)" for d'
    by (rule admitted_stays [OF that]) (use assms(3) in blast)
  from True plain_all [OF True, of C K dest d] kept show ?thesis
    by (cases "pipe (concat (map (plain_commands R C K dest) es)) d" rule: prod.exhaust)
      (auto simp: enqueue_chunk_def settles_as_def seq_def bind_def return_def list_all_iff split: sum.splits)
next
  case False
  then have mixed: "list_all (\<lambda>e. \<not> unique (env_meta e)) es = False" by (auto simp: list_all_iff)
  let ?s = "store_of R d" and ?J = "jobs_key K"
  define pending where "pending = first_pending written [] es"
  define ids where "ids = replacement_ids [] pending"
  have admit: "admit_all C K dest pending ?s = admit_all C K dest es ?s"
    unfolding pending_def by (rule admit_first_pending) (use assms(3) in simp)
  show ?thesis
  proof (cases "pending = []")
    case True
    with admit assms(3) show ?thesis
      by (simp add: enqueue_chunk_def mixed pending_def [symmetric] settles_as_def return_def)
  next
    case pend: False
    show ?thesis
    proof (cases rule: snapshot_op [where ids = ids and k = ?J and C = C and d = d and K = K])
      case (error e)
      with pend show ?thesis
        by (simp add: enqueue_chunk_def mixed pending_def [symmetric] ids_def [symmetric] settles_as_def bind_def)
    next
      case (read sns)
      define sids where "sids = skip_ids sns pending"
      show ?thesis
      proof (cases rule: exists_op [where ids = sids and k = ?J and d = d])
        case (error e)
        with pend read show ?thesis
          by (simp add: enqueue_chunk_def mixed pending_def [symmetric] ids_def [symmetric] sids_def [symmetric]
              settles_as_def bind_def seq_def)
      next
        case exists: read
        define skips where "skips = existing_skips sns pending (zip sids (map (\<lambda>f. r_hget R d ?J f \<noteq> None) sids))"
        define rest where "rest = filter (\<lambda>e. \<not> (is_skip e \<and> env_id e \<in> set skips)) pending"
        have "set skips \<subseteq> stored K ?s" using existing_skips_stored [OF read(5)] by (simp add: skips_def)
        with admit have admit': "admit_all C K dest rest ?s = admit_all C K dest es ?s"
          by (simp only: rest_def admit_without_skips)
        have sub: "set rest \<subseteq> set es" unfolding rest_def pending_def using first_pending_subset by fastforce
        have rep: "replacement_ids [] rest = ids" unfolding rest_def ids_def by (rule replacement_ids_filter)
        have run: "enqueue_chunk R C K dest (\<lambda>d. d) ((\<lambda>d. d) # envs) written es d =
            (if rest = [] then return (Some written)
             else bind (enqueue_loop R C K (dest = DSchedule) (map (input_of C K) rest) sns ((\<lambda>d. d) # envs))
               (\<lambda>outcome. return (map_option (\<lambda>os. newly_written rest os @ written) outcome))) d"
          by (simp only: enqueue_chunk_def mixed if_False Let_def pending_def [symmetric] ids_def [symmetric] pend
              bind_run read(1) exists sids_def [symmetric] seq_def
              skips_def [symmetric] rest_def [symmetric])
        have loop: "settles_as R (enqueue_loop R C K (dest = DSchedule) (map (input_of C K) rest) sns ((\<lambda>d. d) # envs) d)
            (\<lambda>d'. d' = d) (\<lambda>os d'. store_of R d' = admit_all C K dest rest ?s)"
          by (rule enqueue_loop_admits [OF assms(1) _ read(2) _ read(5)])
            (use assms(2) sub read(3,4) rep in \<open>auto simp: fresh_def\<close>)
        have new: "set (newly_written rest os @ written) \<subseteq> dom (r_hget R d' ?J)"
          if "store_of R d' = admit_all C K dest es ?s" for os d'
          by (rule admitted_stays [OF that])
            (use order.trans [OF newly_written_ids image_mono [OF sub]] assms(3) in auto)
        show ?thesis
        proof (cases "rest = []")
          case True
          with run admit' assms(3) show ?thesis by (simp add: settles_as_def return_def)
        next
          case False
          with run loop new admit' show ?thesis
            by (auto simp: settles_as_def bind_def return_def simp del: enqueue_loop.simps
                split: prod.splits sum.splits option.splits)
        qed
      qed
    qed
  qed
qed

section \<open>The whole list\<close>

lemma enqueue_list_chunked:
  assumes "json_codec C" and "\<forall>c \<in> set cs. \<forall>e \<in> set c. envelope_wf C e" and "set written \<subseteq> stored K (store_of R d)"
  shows "case enqueue_list_w_conn R C K (\<lambda>_. (\<lambda>d. d, (\<lambda>d. d) # envs)) dest n written cs d of
      (Inl e, d') \<Rightarrow> (\<forall>c. cs = [c] \<longrightarrow> (\<exists>e \<in> set c. unique (env_meta e)) \<longrightarrow> d' = d)
    | (Inr None, d') \<Rightarrow> False
    | (Inr (Some _), d') \<Rightarrow> store_of R d' = admit_all C K dest (concat cs) (store_of R d)"
  using assms(2,3)
proof (induction cs arbitrary: n written d)
  case Nil
  then show ?case by (simp add: return_def)
next
  case (Cons c cs)
  have c: "settles_as R (enqueue_chunk R C K dest (\<lambda>d. d) ((\<lambda>d. d) # envs) written c d)
    (\<lambda>d'. (\<exists>e \<in> set c. unique (env_meta e)) \<longrightarrow> d' = d)
    (\<lambda>w d'. store_of R d' = admit_all C K dest c (store_of R d) \<and> set w \<subseteq> stored K (store_of R d'))"
    by (rule enqueue_chunk_quiet [OF assms(1)]) (use Cons.prems in auto)
  obtain r d1 where run: "enqueue_chunk R C K dest (\<lambda>d. d) ((\<lambda>d. d) # envs) written c d = (r, d1)" by (rule prod.exhaust)
  consider (err) e where "r = Inl e" | (ok) w where "r = Inr (Some w)"
    using c run by (cases r) (auto simp: settles_as_def split: option.splits)
  then show ?case
  proof cases
    case err
    with c run show ?thesis by (auto simp: settles_as_def bind_def)
  next
    case ok
    from c have w: "store_of R d1 = admit_all C K dest c (store_of R d)" "set w \<subseteq> stored K (store_of R d1)"
      unfolding run ok settles_as_def prod.case sum.case option.case by blast+
    have "case enqueue_list_w_conn R C K (\<lambda>_. (\<lambda>d. d, (\<lambda>d. d) # envs)) dest (Suc n) w cs d1 of
        (Inl e, d') \<Rightarrow> (\<forall>c. cs = [c] \<longrightarrow> (\<exists>e \<in> set c. unique (env_meta e)) \<longrightarrow> d' = d1)
      | (Inr None, d') \<Rightarrow> False
      | (Inr (Some _), d') \<Rightarrow> store_of R d' = admit_all C K dest (concat cs) (store_of R d1)"
      by (rule Cons.IH [OF _ w(2)]) (use Cons.prems(1) in simp)
    moreover have "enqueue_list_w_conn R C K (\<lambda>_. (\<lambda>d. d, (\<lambda>d. d) # envs)) dest n written (c # cs) d =
        enqueue_list_w_conn R C K (\<lambda>_. (\<lambda>d. d, (\<lambda>d. d) # envs)) dest (Suc n) w cs d1"
      using run ok by (simp add: bind_def)
    ultimately show ?thesis
      using w(1) by (cases cs) (auto simp: return_def split: prod.splits sum.splits option.splits)
  qed
qed

lemma enqueue_list_quiet:
  assumes "json_codec C" and "\<forall>e \<in> set es. envelope_wf C e"
  shows "settles_as R (enqueue_list R C S (\<lambda>_. (\<lambda>d. d, [\<lambda>d. d])) es d)
    (\<lambda>d'. length es \<le> 100 \<longrightarrow> (\<exists>e \<in> set es. unique (env_meta e)) \<longrightarrow> d' = d)
    (\<lambda>ids d'. ids = map env_id es \<and> store_of R d' = fold (admit C (st_keys S) DQueue) es (store_of R d))"
proof (cases "es = []")
  case True
  then show ?thesis by (simp add: settles_as_def enqueue_list_def return_def)
next
  case False
  let ?cs = "enqueue_list_chunks es"
  have all: "concat ?cs = es" by (simp add: enqueue_list_chunks_def)
  have "\<forall>c \<in> set ?cs. \<forall>e \<in> set c. envelope_wf C e"
    using assms(2) all by (metis UN_I set_concat)
  from enqueue_list_chunked [OF assms(1) this, where written = "[]" and K = "st_keys S" and d = d and envs = "[]" and dest = DQueue and n = 0] have
    run: "case enqueue_list_w_conn R C (st_keys S) (\<lambda>_. (\<lambda>d. d, [\<lambda>d. d])) DQueue 0 [] ?cs d of
      (Inl e, d') \<Rightarrow> (\<forall>c. ?cs = [c] \<longrightarrow> (\<exists>e \<in> set c. unique (env_meta e)) \<longrightarrow> d' = d)
    | (Inr None, d') \<Rightarrow> False
    | (Inr (Some _), d') \<Rightarrow> store_of R d' = admit_all C (st_keys S) DQueue es (store_of R d)" unfolding all by simp
  have one: "?cs = [es]" if "length es \<le> 100"
    using that False by (cases es) (simp_all add: enqueue_list_chunks_def)
  show ?thesis
    using False run one
    by (auto simp: settles_as_def enqueue_list_def with_connection_def bind_def return_def admit_all_def
        split: option.splits prod.splits sum.splits)
qed

end


section \<open>Witness\<close>

definition sample_list :: "job_envelope list" where
  "sample_list = [sample_plain, sample_envelope, sample_envelope]"

lemma sample_list_runs:
  "fst (enqueue_list mem_redis netstring_codec sample_storage (\<lambda>_. (\<lambda>d. d, [\<lambda>d. d])) sample_list []) =
     Inr (Some [''u1'', ''Mail/7'', ''Mail/7''])"
  by code_simp

lemma sample_plain_wf: "envelope_wf netstring_codec sample_plain"
  by (simp add: sample_plain_def sample_job_def envelope_new_def Let_def unique_job_id_def meta_wf_def
      i64_range_def envelope_wf_def)


end
