(* ===== verification/System.thy ===== *)
theory System
  imports Lifecycle Enqueue_List
begin

text \<open>
  The storage operations as commands of the processes that share one server, and the proof
  that each successful command is a sequence of the atomic steps of theory Lifecycle.
\<close>

section \<open>Commands\<close>

datatype command =
    Enqueue job_envelope
  | EnqueueAt int job_envelope
  | EnqueueList "job_envelope list"
  | Dequeue string
  | Finish "job_envelope list"
  | Kill job_envelope string
  | Retry int job_id nat string
  | RunSchedule int
  | RunRetries int
  | RetryAllNow
  | Resurrect string
  | DeleteJob job_id
  | WipeQueue string
  | WipeDead
  | Cleanup int

definition discard :: "('d, 'a) op \<Rightarrow> ('d, unit) op" where
  "discard m = bind m (\<lambda>_. return ())"

fun run_command :: "'d redis \<Rightarrow> codec \<Rightarrow> storage \<Rightarrow> command \<Rightarrow> ('d, unit) op" where
  "run_command R C S (Enqueue e) = discard (enqueue R C S (\<lambda>d. d) [\<lambda>d. d] e)"
| "run_command R C S (EnqueueAt now e) = discard (enqueue_at R C S (\<lambda>d. d) [\<lambda>d. d] now e)"
| "run_command R C S (EnqueueList es) = discard (enqueue_list R C S (\<lambda>_. (\<lambda>d. d, [\<lambda>d. d])) es)"
| "run_command R C S (Dequeue q) = discard (dequeue R S q)"
| "run_command R C S (Finish es) = finish_with_success_batch R S None es"
| "run_command R C S (Kill e msg) = kill R C S None e msg"
| "run_command R C S (Retry now i delay_s msg) = retry_in R C S None (\<lambda>d. d) now i delay_s msg"
| "run_command R C S (RunSchedule now) = discard (enqueue_scheduled R C S (\<lambda>_ d. d) now (schedule_key (st_keys S)))"
| "run_command R C S (RunRetries now) = discard (enqueue_scheduled R C S (\<lambda>_ d. d) now (retry_key (st_keys S)))"
| "run_command R C S RetryAllNow = discard (retry_all_now R C S (\<lambda>_ d. d))"
| "run_command R C S (Resurrect p) = discard (resurrect_process R C S (\<lambda>_ d. d) p)"
| "run_command R C S (DeleteJob i) = delete_job R C S (\<lambda>d. d) i"
| "run_command R C S (WipeQueue q) = wipe_queue R S (\<lambda>d. d) q"
| "run_command R C S WipeDead = wipe_dead R S"
| "run_command R C S (Cleanup now) = discard (cleanup R C S (\<lambda>d. d) now)"

text \<open>The envelopes and queue names a command brings in itself.\<close>

fun command_proper :: "codec \<Rightarrow> storage_keys \<Rightarrow> command \<Rightarrow> bool" where
  "command_proper C K (Enqueue e) = (proper_queue K (env_queue e) \<and> envelope_wf C e)"
| "command_proper C K (EnqueueAt now e) = (proper_queue K (env_queue e) \<and> envelope_wf C e)"
| "command_proper C K (EnqueueList es) = list_all (\<lambda>e. proper_queue K (env_queue e) \<and> envelope_wf C e) es"
| "command_proper C K (Dequeue q) = proper_queue K q"
| "command_proper C K (WipeQueue q) = proper_queue K q"
| "command_proper C K _ = True"

section \<open>Each command is a sequence of steps\<close>

lemma discard_Inr: "discard m d = (Inr (), d') \<longleftrightarrow> (\<exists>x. m d = (Inr x, d'))"
  by (auto simp: discard_def bind_eq_Inr)

lemma settles_discard:
  assumes "settles_as R (m d) P Q" "discard m d = (Inr (), d')"
  shows "\<exists>x. Q x d'"
  using assms by (auto simp: discard_Inr settles_as_def split: option.splits)

lemma steps_refl: "s' = s \<Longrightarrow> \<exists>as. steps K C s as s'"
  by (auto intro: steps.Nil)

lemma steps_one: "step K C s a s' \<Longrightarrow> \<exists>as. steps K C s as s'"
  by (auto intro: steps_single)

lemma steps_fold:
  assumes "\<And>x s. x \<in> set xs \<Longrightarrow> P s \<Longrightarrow> (\<exists>as. steps K C s as (f x s)) \<and> P (f x s)" "P s"
  shows "\<exists>as. steps K C s as (fold f xs s)"
  using assms
proof (induction xs arbitrary: s)
  case Nil
  then show ?case by (auto intro: steps.Nil)
next
  case (Cons x xs)
  from Cons.prems(1) [of x s] Cons.prems(2) obtain as where as: "steps K C s as (f x s)" "P (f x s)" by auto
  from Cons.IH [OF _ as(2)] Cons.prems(1) obtain bs where "steps K C (f x s) bs (fold f xs (f x s))" by auto
  with as(1) show ?case using steps_append by (metis fold_simps(2))
qed

lemma proper_empty: "proper_queue (keys_of n) []"
  using namespace_nonempty [of n] by (simp add: proper_queue_def namespace_queue_def)

lemma promote_due_steps:
  assumes "z \<in> {schedule_key K, retry_key K}" "payloads_proper C K s" "zsets s z i = Some sc"
    and "proper_queue K []"
  shows "\<exists>as. steps K C s as (promote_due C K z i s)"
proof (cases "hashes s (jobs_key K) i")
  case None
  have "promote_due C K z i s = promote (jobs_key K) z (namespace_queue K []) i None sc s"
    using None assms(3) by (simp add: promote_due_def promote_def)
  then show ?thesis using step.promote [OF assms(1,4)] by (metis steps_one)
next
  case (Some p)
  show ?thesis
  proof (cases "of_payload C p")
    case None
    with Some show ?thesis by (intro steps_refl) (simp add: promote_due_def)
  next
    case e: (Some e)
    have "promote_due C K z i s = promote (jobs_key K) z (namespace_queue K (env_queue e)) i (Some p) sc s"
      using Some e assms(3) by (simp add: promote_due_def promote_def)
    moreover have "proper_queue K (env_queue e)" using assms(2) Some e by (auto simp: payloads_proper_def payload_proper_def)
    ultimately show ?thesis using step.promote [OF assms(1)] by (metis steps_one)
  qed
qed

lemma fold_promote_steps:
  assumes "z \<in> {schedule_key K, retry_key K}" "proper_queue K []" "payloads_proper C K s"
    and "distinct is" "\<And>i. i \<in> set is \<Longrightarrow> zsets s z i \<noteq> None"
  shows "\<exists>as. steps K C s as (fold (promote_due C K z) is s)"
  using assms(3-)
proof (induction "is" arbitrary: s)
  case Nil
  then show ?case by (auto intro: steps.Nil)
next
  case (Cons i js)
  let ?s1 = "promote_due C K z i s"
  obtain sc where "zsets s z i = Some sc" using Cons.prems(3) [of i] by auto
  with promote_due_steps [OF assms(1) Cons.prems(1) _ assms(2)] obtain as where as: "steps K C s as ?s1" by blast
  have "payloads_proper C K ?s1" using Cons.prems(1) by (simp add: payloads_proper_def promote_due_frame)
  moreover have "zsets ?s1 z j \<noteq> None" if "j \<in> set js" for j
  proof -
    have "j \<noteq> i" using that Cons.prems(2) by auto
    with Cons.prems(3) [of j] that show ?thesis by (simp add: promote_due_frame)
  qed
  ultimately obtain bs where "steps K C ?s1 bs (fold (promote_due C K z) js ?s1)"
    using Cons.IH [of ?s1] Cons.prems(2) by auto
  with as show ?case using steps_append by (metis fold_simps(2))
qed

lemma recover_claim_steps:
  assumes "payloads_proper C K s" "proper_queue K []"
  shows "\<exists>as. steps K C s as (recover_claim C K (processing_queue K p) i s)"
proof (cases "i \<in> set (lists s (processing_queue K p))")
  case False
  then show ?thesis by (intro steps_refl) (simp add: recover_claim_def)
next
  case True
  show ?thesis
  proof (cases "hashes s (jobs_key K) i")
    case None
    have "recover_claim C K (processing_queue K p) i s =
        recover (jobs_key K) (processing_queue K p) (namespace_queue K []) i None False s"
      using True None by (simp add: recover_claim_def recover_def)
    then show ?thesis using step.recover [OF assms(2)] by (metis steps_one)
  next
    case (Some v)
    show ?thesis
    proof (cases "of_payload C v")
      case None
      with Some True show ?thesis by (intro steps_refl) (simp add: recover_claim_def)
    next
      case e: (Some e)
      have "recover_claim C K (processing_queue K p) i s = recover (jobs_key K) (processing_queue K p)
          (namespace_queue K (env_queue e)) i (Some v) (resurrect (env_meta e)) s"
        using True Some e by (simp add: recover_claim_def recover_def)
      moreover have "proper_queue K (env_queue e)" using assms(1) Some e by (auto simp: payloads_proper_def payload_proper_def)
      ultimately show ?thesis using step.recover by (metis steps_one)
    qed
  qed
qed

lemma recover_claim_proper: "payloads_proper C K s \<Longrightarrow> payloads_proper C K (recover_claim C K proc i s)"
  by (auto simp: payloads_proper_def recover_claim_def store_updates split: option.splits if_splits)

lemma finish_steps:
  "\<exists>as. steps K C s as (fold (acknowledge (jobs_key K) (processing_queue K p)) is s)"
  by (rule steps_fold [where P = "\<lambda>_. True"]) (use step.ack in \<open>metis steps_one\<close>, simp)

lemma put_registry_step:
  assumes "kh \<noteq> jobs_key K" "kz \<noteq> schedule_key K" "kz \<noteq> retry_key K"
  shows "step K C s Other (put_hash kh f v (put_zset kz m w s))"
  by (rule step.other) (use assms in \<open>simp_all add: store_updates\<close>)

lemma clear_step:
  assumes "k \<noteq> jobs_key K" "k \<noteq> schedule_key K" "k \<noteq> retry_key K" "\<not> job_list K k"
  shows "step K C s Other (clear_key k s)"
  by (rule step.other) (use assms in \<open>auto simp: clear_key_def\<close>)

lemma steps_expire: "\<exists>as. steps K C s as (drop_payloads K I s)"
  by (rule steps_one [OF step.expire])

context json_codec
begin

lemma to_payload_proper: "envelope_wf C e \<Longrightarrow> proper_queue K (env_queue e) \<Longrightarrow> payload_proper C K (to_payload C e)"
  by (simp add: payload_proper_def of_to_payload)

lemma retried_payload_proper:
  assumes "payload_proper C K p" "of_payload C p = Some e"
  shows "payload_proper C K (to_payload C (with_retries_incremented msg e))"
proof -
  have "envelope_wf C (with_retries_incremented msg e)"
    using of_payload_wf [OF assms(2)] by (simp add: envelope_wf_def meta_wf_def with_retries_incremented_def)
  moreover have "env_queue (with_retries_incremented msg e) = env_queue e" by (simp add: with_retries_incremented_def)
  moreover have "proper_queue K (env_queue e)" using assms by (simp add: payload_proper_def)
  ultimately show ?thesis by (intro to_payload_proper) simp_all
qed

end

context redis_server
begin

lemma enqueue_at_quiet:
  "settles_as R (enqueue_at R C S (\<lambda>d. d) ((\<lambda>d. d) # envs) now e d)
    (\<lambda>d'. unique (env_meta e) \<longrightarrow> d' = d)
    (\<lambda>i d'. i = env_id e \<and> store_of R d' =
       admit C (st_keys S) (if scheduled_at (env_meta e) \<le> now then DQueue else DSchedule) e (store_of R d))"
proof (cases "scheduled_at (env_meta e) \<le> now")
  case True
  with enqueue_quiet [of C S envs e d] show ?thesis by (simp add: enqueue_at_def)
next
  case False
  with enqueue_chunk_single [of C "st_keys S" DSchedule envs e d] show ?thesis
    by (auto simp: enqueue_at_def enqueue_w_conn_def with_connection_def settles_as_def bind_def
        split: option.splits prod.splits sum.splits)
qed

lemma admits_steps:
  assumes "json_codec C" "list_all (\<lambda>e. proper_queue K (env_queue e) \<and> envelope_wf C e) es"
  shows "\<exists>as. steps K C s as (fold (admit C K dest) es s)"
proof (rule steps_fold [where P = "\<lambda>_. True"])
  fix e s assume "e \<in> set es"
  with assms(2) have "proper_queue K (env_queue e)" "envelope_wf C e" by (auto simp: list_all_iff)
  with step.admit json_codec.to_payload_proper [OF assms(1)]
  show "(\<exists>as. steps K C s as (admit C K dest e s)) \<and> True" by (metis steps_one)
qed simp

lemma promote_run_steps:
  assumes "json_codec C" "st_keys S = keys_of n" "z \<in> {schedule_key (keys_of n), retry_key (keys_of n)}"
    and "payloads_proper C (keys_of n) (store_of R d)" "distinct (map fst js)"
    and "\<And>i sc. (i, sc) \<in> set js \<Longrightarrow> r_zscore R d z i = Some sc"
    and "promote_scheduled_jobs R C S z (\<lambda>_ d. d) 0 js d = (Inr m, d')"
  shows "\<exists>as. steps (keys_of n) C (store_of R d) as (store_of R d')"
proof -
  have "store_of R d' = fold (promote_due C (keys_of n) z) (map fst js) (store_of R d)"
    using promote_loop [OF assms(1,5,6,7)] assms(2) by simp
  moreover have "zsets (store_of R d) z i \<noteq> None" if "i \<in> set (map fst js)" for i
    using that assms(6) by auto
  ultimately show ?thesis
    using fold_promote_steps [OF assms(3) proper_empty assms(4,5)] by simp
qed

lemma enqueue_scheduled_steps:
  assumes "json_codec C" "st_keys S = keys_of n" "z \<in> {schedule_key (keys_of n), retry_key (keys_of n)}"
    and "payloads_proper C (keys_of n) (store_of R d)"
    and "enqueue_scheduled R C S (\<lambda>_ d. d) now z d = (Inr m, d')"
  shows "\<exists>as. steps (keys_of n) C (store_of R d) as (store_of R d')"
proof -
  let ?js = "filter (\<lambda>(m, sc). 0 \<le> sc \<and> sc \<le> now) (r_zrange R d z)"
  from assms(5) have run: "promote_scheduled_jobs R C S z (\<lambda>_ d. d) 0 ?js d = (Inr m, d')"
    by (auto simp: enqueue_scheduled_def with_connection_Inr bind_eq_Inr redis_defs split: if_splits)
  show ?thesis
    by (rule promote_run_steps [OF assms(1-4) _ _ run])
      (use zrange_distinct [of d z] zrange_mem in \<open>auto simp: distinct_map_filter\<close>)
qed

lemma retry_all_now_steps:
  assumes "json_codec C" "st_keys S = keys_of n" "payloads_proper C (keys_of n) (store_of R d)"
    and "retry_all_now R C S (\<lambda>_ d. d) d = (Inr m, d')"
  shows "\<exists>as. steps (keys_of n) C (store_of R d) as (store_of R d')"
proof -
  let ?z = "retry_key (keys_of n)"
  from assms(4) have run: "promote_scheduled_jobs R C S ?z (\<lambda>_ d. d) 0 (r_zrange R d ?z) d = (Inr m, d')"
    using assms(2) by (auto simp: retry_all_now_def with_connection_Inr bind_eq_Inr redis_defs split: if_splits)
  show ?thesis
    by (rule promote_run_steps [OF assms(1,2) _ assms(3) _ _ run]) (use zrange_distinct zrange_mem in auto)
qed

lemma resurrect_steps:
  assumes "json_codec C" "st_keys S = keys_of n" "payloads_proper C (keys_of n) (store_of R d)"
    and "resurrect_process R C S (\<lambda>_ d. d) p d = (Inr m, d')"
  shows "\<exists>as. steps (keys_of n) C (store_of R d) as (store_of R d')"
proof -
  let ?K = "keys_of n"
  let ?proc = "processing_queue ?K p"
  let ?s1 = "fold (recover_claim C ?K ?proc) (r_lrange R d ?proc) (store_of R d)"
  have "\<exists>as. steps ?K C (store_of R d) as ?s1"
    by (rule steps_fold [where P = "payloads_proper C ?K"])
      (use recover_claim_steps proper_empty recover_claim_proper assms(3) in blast)+
  moreover have "step ?K C ?s1 Other
      (put_hash (processes_data_key ?K) p None (put_zset (processes_key ?K) p None ?s1))"
    by (rule put_registry_step) simp_all
  ultimately show ?thesis
    using resurrect_process_refines [OF assms(1,4)] assms(2) steps_append steps_single
    by (simp split: if_splits) metis
qed

lemma delete_steps:
  assumes "delete_job R C S (\<lambda>d. d) i d = (Inr (), d')" "st_keys S = K"
  shows "\<exists>as. steps K C (store_of R d) as (store_of R d')"
proof -
  from delete_job_refines [OF assms(1)] assms(2) obtain qs where "store_of R d' =
      erase K (current_processing_queue S # qs) i (store_of R d)" by (auto simp: erase_def)
  then show ?thesis using step.delete by (metis steps_one)
qed

lemma wipe_steps:
  assumes "wipe_queue R S (\<lambda>d. d) q d = (Inr (), d')" "st_keys S = keys_of n" "proper_queue (keys_of n) q"
  shows "\<exists>as. steps (keys_of n) C (store_of R d) as (store_of R d')"
proof -
  let ?k = "namespace_queue (keys_of n) q"
  note jl = job_list_keys(1) [OF assms(3)]
  have "?k \<noteq> jobs_key (keys_of n)" using jl job_list_not_other(3) by metis
  with wipe_queue_refines [OF assms(1)] assms(2)
  have "store_of R d' = map_list ?k (\<lambda>_. []) (drop_payloads (keys_of n) (set (lists (store_of R d) ?k)) (store_of R d))"
    by (simp add: map_list_def drop_payloads_def store_of_def cong: if_cong)
  then show ?thesis using step.wipe [OF jl] by (metis steps_one)
qed

lemma cleanup_steps:
  assumes "cleanup R C S (\<lambda>d. d) now d = (Inr m, d')" "st_keys S = K"
  shows "\<exists>as. steps K C (store_of R d) as (store_of R d')"
proof -
  let ?I = "{i. \<exists>p. r_hget R d (jobs_key K) i = Some p \<and> expired C now p}"
  have "(\<lambda>i. case r_hget R d (jobs_key K) i of None \<Rightarrow> None | Some p \<Rightarrow> if expired C now p then None else Some p) =
      (\<lambda>i. if i \<in> ?I then None else r_hget R d (jobs_key K) i)"
    by (auto simp: fun_eq_iff split: option.splits)
  with cleanup_refines [OF assms(1)] assms(2) have "store_of R d' = drop_payloads K ?I (store_of R d)"
    by (simp only: drop_payloads_def store_of_sel)
  then show ?thesis by (simp only: steps_expire)
qed

lemma command_steps:
  assumes "json_codec C" "st_keys S = keys_of n" "payloads_proper C (keys_of n) (store_of R d)"
    and "command_proper C (keys_of n) c" "run_command R C S c d = (Inr (), d')"
  shows "\<exists>as. steps (keys_of n) C (store_of R d) as (store_of R d')"
proof -
  let ?K = "keys_of n"
  have kd: "keys_distinct (st_keys S)" using assms(2) keys_distinct_new by simp
  have proc: "current_processing_queue S = processing_queue ?K (process_id (current_process S 0))"
    using assms(2) by (simp add: current_processing_queue_def)
  show ?thesis
  proof (cases c)
    case (Enqueue e)
    with assms(5) have "discard (enqueue R C S (\<lambda>d. d) [\<lambda>d. d] e) d = (Inr (), d')" by simp
    from settles_discard [OF enqueue_quiet this] assms(2)
    have "store_of R d' = admit C ?K DQueue e (store_of R d)" by simp
    with Enqueue assms(4) json_codec.to_payload_proper [OF assms(1)] show ?thesis
      by (simp only: steps_one [OF step.admit] command_proper.simps)
  next
    case (EnqueueAt now e)
    let ?dest = "if scheduled_at (env_meta e) \<le> now then DQueue else DSchedule"
    from EnqueueAt assms(5) have "discard (enqueue_at R C S (\<lambda>d. d) [\<lambda>d. d] now e) d = (Inr (), d')" by simp
    from settles_discard [OF enqueue_at_quiet this] assms(2)
    have "store_of R d' = admit C ?K ?dest e (store_of R d)" by simp
    with EnqueueAt assms(4) json_codec.to_payload_proper [OF assms(1)] show ?thesis
      by (simp only: steps_one [OF step.admit] command_proper.simps)
  next
    case (EnqueueList es)
    with assms(5) have "discard (enqueue_list R C S (\<lambda>_. (\<lambda>d. d, [\<lambda>d. d])) es) d = (Inr (), d')" by simp
    from settles_discard [OF enqueue_list_quiet [OF assms(1)] this] EnqueueList assms(2,4)
    have "store_of R d' = fold (admit C ?K DQueue) es (store_of R d)" by (auto simp: list_all_iff)
    with admits_steps [OF assms(1)] EnqueueList assms(4) show ?thesis by simp
  next
    case (Dequeue q)
    with assms(5) dequeue_refines [of d S q] assms(2)
    have "store_of R d' = claim (namespace_queue ?K q) (current_processing_queue S) (store_of R d)"
      by (auto simp: discard_Inr atomically_def)
    with Dequeue assms(4) show ?thesis by (simp only: proc steps_one [OF step.claim] command_proper.simps)
  next
    case (Finish es)
    with assms(5) finish_success_atomic [OF kd, of d None es] assms(2)
    have "store_of R d' = fold (acknowledge (jobs_key ?K) (current_processing_queue S)) (map env_id es) (store_of R d)"
      by (auto simp: atomically_def)
    then show ?thesis by (simp only: proc finish_steps)
  next
    case (Kill e msg)
    with assms(5) kill_atomic [OF kd, of d C None e msg] assms(2)
    have "store_of R d' = bury (jobs_key ?K) (dead_key ?K) (current_processing_queue S) (env_id e)
        (to_payload C (with_error msg e)) (case dead_job_limit S of None \<Rightarrow> 0 | Some n \<Rightarrow> n) (store_of R d)"
      by (simp only: atomically_def run_command.simps sum.case prod.case)
    then show ?thesis by (simp only: proc steps_one [OF step.bury])
  next
    case (Retry now i delay_s msg)
    with assms(5) retry_in_atomic [OF kd, of d C None now i delay_s msg] assms(2)
    have st: "store_of R d' = (case hashes (store_of R d) (jobs_key ?K) i of
        None \<Rightarrow> map_list (processing_queue ?K (process_id (current_process S 0))) (remove1 i) (store_of R d)
      | Some p \<Rightarrow> (case of_payload C p of
            None \<Rightarrow> store_of R d
          | Some e \<Rightarrow> postpone (jobs_key ?K) (retry_key ?K) (processing_queue ?K (process_id (current_process S 0)))
              (env_id e) (to_payload C (with_retries_incremented msg e)) (retry_score now delay_s) (store_of R d)))"
      by (simp only: atomically_def run_command.simps sum.case prod.case proc)
    show ?thesis
    proof (cases "hashes (store_of R d) (jobs_key ?K) i")
      case None
      then show ?thesis by (simp only: st option.case steps_one [OF step.release])
    next
      case (Some p)
      show ?thesis
      proof (cases "of_payload C p")
        case None
        with Some show ?thesis by (simp only: st option.case steps_refl)
      next
        case e: (Some e)
        have "payload_proper C ?K p" using assms(3) Some by (simp add: payloads_proper_def)
        from json_codec.retried_payload_proper [OF assms(1) this e] Some e show ?thesis
          by (simp only: st option.case steps_one [OF step.postpone])
      qed
    qed
  next
    case (RunSchedule now)
    with assms(2,5) obtain m where "enqueue_scheduled R C S (\<lambda>_ d. d) now (schedule_key ?K) d = (Inr m, d')"
      by (auto simp: discard_Inr)
    from enqueue_scheduled_steps [OF assms(1,2) _ assms(3) this] show ?thesis by simp
  next
    case (RunRetries now)
    with assms(2,5) obtain m where "enqueue_scheduled R C S (\<lambda>_ d. d) now (retry_key ?K) d = (Inr m, d')"
      by (auto simp: discard_Inr)
    from enqueue_scheduled_steps [OF assms(1,2) _ assms(3) this] show ?thesis by simp
  next
    case RetryAllNow
    with assms(5) retry_all_now_steps [OF assms(1,2,3)] show ?thesis by (auto simp: discard_Inr)
  next
    case (Resurrect p)
    with assms(5) resurrect_steps [OF assms(1,2,3)] show ?thesis by (auto simp: discard_Inr)
  next
    case (DeleteJob i)
    with assms(5) delete_steps [OF _ assms(2)] show ?thesis by simp
  next
    case (WipeQueue q)
    with assms(4,5) wipe_steps [OF _ assms(2)] show ?thesis by simp
  next
    case WipeDead
    with assms(2,5) have "store_of R d' = clear_key (dead_key ?K) (store_of R d)"
      by (auto simp: wipe_dead_def with_connection_Inr redis_defs store_simps)
    moreover have "step ?K C (store_of R d) Other (clear_key (dead_key ?K) (store_of R d))"
      by (rule clear_step) (use job_list_not_other(1) in simp_all)
    ultimately show ?thesis by (simp only: steps_one)
  next
    case (Cleanup now)
    with assms(5) cleanup_steps [OF _ assms(2)] show ?thesis by (auto simp: discard_Inr)
  qed
qed

end

section \<open>Many processes\<close>

text \<open>
  A history of the system: the commands of all processes, in the order in which they took
  effect. It is \<open>None\<close> when a command of the history failed.
\<close>

fun run_all :: "'d redis \<Rightarrow> codec \<Rightarrow> (storage \<times> command) list \<Rightarrow> 'd \<Rightarrow> 'd option" where
  "run_all R C [] d = Some d"
| "run_all R C ((S, c) # rest) d =
     (case run_command R C S c d of (Inl _, _) \<Rightarrow> None | (Inr _, d') \<Rightarrow> run_all R C rest d')"

definition history_proper :: "codec \<Rightarrow> string \<Rightarrow> (storage \<times> command) list \<Rightarrow> bool" where
  "history_proper C n cs = list_all (\<lambda>(S, c). st_keys S = keys_of n \<and> command_proper C (keys_of n) c) cs"

context redis_server
begin

lemma history_steps:
  assumes "json_codec C" "history_proper C n cs" "payloads_proper C (keys_of n) (store_of R d)"
    and "run_all R C cs d = Some d'"
  shows "\<exists>as. steps (keys_of n) C (store_of R d) as (store_of R d')"
  using assms(2-)
proof (induction cs arbitrary: d)
  case Nil
  then show ?case by (auto intro: steps.Nil)
next
  case (Cons x cs)
  obtain S c where x: "x = (S, c)" by (cases x)
  from Cons.prems(3) x obtain d1 where d1: "run_command R C S c d = (Inr (), d1)" "run_all R C cs d1 = Some d'"
    by (auto split: prod.splits sum.splits)
  have pr: "st_keys S = keys_of n" "command_proper C (keys_of n) c" "history_proper C n cs"
    using Cons.prems(1) x by (simp_all add: history_proper_def)
  from command_steps [OF assms(1) pr(1) Cons.prems(2) pr(2) d1(1)] obtain as where
    as: "steps (keys_of n) C (store_of R d) as (store_of R d1)" by blast
  from Cons.IH [OF pr(3) steps_payloads_proper [OF as Cons.prems(2)] d1(2)] as show ?case
    using steps_append by blast
qed

end

end
