(* ===== verification/Executor.thy ===== *)
theory Executor
  imports Storage_Jobs
begin

text \<open>
  Running a job or a batch of jobs, \<^verbatim>\<open>executor.rs\<close>, with the retry policy of \<^verbatim>\<open>worker.rs\<close>.
  The worker is application code: a record of what the executor asks it and of what its
  \<^verbatim>\<open>process\<close> does to the store. An error of the application is the text of its \<^verbatim>\<open>Debug\<close>
  form. The outcome of the checkout for each storage call, the other clients' writes inside
  it and its clock reading are the record \<open>io\<close>, indexed by the call. A call of
  \<^verbatim>\<open>Runtime::fail\<close> is an entry of the list of failures that the operations return.
\<close>

section \<open>Workers\<close>

datatype execution_result =
    ExecSuccess
  | ExecFailed string
  | ExecPanicked string

datatype worker_result_kind = ResultSuccess | ResultPanicked | ResultFailed

record 'd processable =
  p_len :: nat
  p_max_retries :: "nat \<Rightarrow> 32 word"
  p_retry_delay :: "nat \<Rightarrow> 32 word \<Rightarrow> nat"
  p_should_resume :: bool
  p_process :: "job_meta list \<Rightarrow> 'd \<Rightarrow> execution_result \<times> 'd"

text \<open>
  The defaults of the \<^verbatim>\<open>Worker\<close> trait: two retries, and a delay of \<open>5 ^ (retries + 2)\<close> seconds
  in \<^verbatim>\<open>u64\<close>, with the wrap-around of the release build.
\<close>

definition default_max_retries :: "32 word" where
  "default_max_retries = 2"

definition default_retry_delay :: "32 word \<Rightarrow> 64 word" where
  "default_retry_delay n = 5 ^ unat (n + 2)"

record execution_settings =
  retry_delay_override :: "(string \<Rightarrow> 32 word \<Rightarrow> nat \<Rightarrow> nat option) option"
  error_formatter :: "(string \<Rightarrow> string) option"

definition format_error :: "execution_settings \<Rightarrow> string \<Rightarrow> string" where
  "format_error cfg er = (case error_formatter cfg of None \<Rightarrow> er | Some f \<Rightarrow> f er)"

record 'd io =
  io_acq :: "nat \<Rightarrow> oxana_error option"
  io_env :: "nat \<Rightarrow> 'd \<Rightarrow> 'd"
  io_now :: "nat \<Rightarrow> int"

section \<open>Policies and reports\<close>

record job_execution_policy =
  pol_max_retries :: "32 word"
  pol_retry_delay :: nat

definition execution_policy :: "'d processable \<Rightarrow> nat \<Rightarrow> job_envelope \<Rightarrow> job_execution_policy" where
  "execution_policy W index e =
     \<lparr>pol_max_retries = p_max_retries W index, pol_retry_delay = p_retry_delay W index (retries (env_meta e))\<rparr>"

record failed_job_metadata =
  fj_job_id :: job_id
  fj_args :: json
  fj_retry_count :: "32 word"
  fj_max_retries :: "32 word"
  fj_will_retry :: bool
  fj_terminal :: bool

record worker_failure_metadata =
  wf_batch_size :: nat
  wf_jobs :: "failed_job_metadata list"
  wf_queue :: string
  wf_will_retry :: bool
  wf_terminal :: bool

definition failed_job :: "job_envelope \<times> job_execution_policy \<Rightarrow> failed_job_metadata" where
  "failed_job = (\<lambda>(e, pol).
     let will_retry = (retries (env_meta e) < pol_max_retries pol) in
     \<lparr>fj_job_id = env_id e, fj_args = job_data_args (env_job e), fj_retry_count = retries (env_meta e),
      fj_max_retries = pol_max_retries pol, fj_will_retry = will_retry, fj_terminal = (\<not> will_retry)\<rparr>)"

definition failure_metadata :: "job_envelope list \<Rightarrow> job_execution_policy list \<Rightarrow> worker_failure_metadata" where
  "failure_metadata es pols =
     (let js = map failed_job (zip es pols); will_retry = list_ex fj_will_retry js in
      \<lparr>wf_batch_size = length js, wf_jobs = js,
       wf_queue = (case es of [] \<Rightarrow> [] | e # _ \<Rightarrow> env_queue e),
       wf_will_retry = will_retry, wf_terminal = (\<not> will_retry)\<rparr>)"

definition retry_delay :: "execution_settings \<Rightarrow> string \<Rightarrow> job_envelope \<Rightarrow> job_execution_policy \<Rightarrow> nat" where
  "retry_delay cfg er e pol =
     (case Option.bind (retry_delay_override cfg) (\<lambda>f. f er (retries (env_meta e)) (pol_retry_delay pol)) of
        Some n \<Rightarrow> n
      | None \<Rightarrow> pol_retry_delay pol)"

section \<open>Settling a batch\<close>

definition handle_err ::
    "'d redis \<Rightarrow> codec \<Rightarrow> storage \<Rightarrow> 'd io \<Rightarrow> nat \<Rightarrow> string \<Rightarrow> job_envelope \<Rightarrow> nat \<Rightarrow> 32 word \<Rightarrow> ('d, unit) op" where
  "handle_err R C S io k err_msg e delay max_retries =
     (if retries (env_meta e) < max_retries
      then retry_in R C S (io_acq io k) (io_env io k) (io_now io k) (env_id e) delay err_msg
      else kill R C S (io_acq io k) e err_msg)"

text \<open>The loops over the batch stop at the first error, which is handed to \<^verbatim>\<open>Runtime::fail\<close>.\<close>

fun handle_errs ::
    "'d redis \<Rightarrow> codec \<Rightarrow> storage \<Rightarrow> 'd io \<Rightarrow> nat \<Rightarrow> string \<Rightarrow> (job_envelope \<times> nat \<times> 32 word) list
       \<Rightarrow> 'd \<Rightarrow> oxana_error list \<times> 'd" where
  "handle_errs R C S io k err_msg [] d = ([], d)"
| "handle_errs R C S io k err_msg ((e, delay, max_retries) # rest) d =
     (case handle_err R C S io k err_msg e delay max_retries d of
        (Inl er, d') \<Rightarrow> ([er], d')
      | (Inr _, d') \<Rightarrow> handle_errs R C S io (k + 1) err_msg rest d')"

definition finish_batch_result ::
    "'d redis \<Rightarrow> codec \<Rightarrow> storage \<Rightarrow> execution_settings \<Rightarrow> 'd io \<Rightarrow> execution_result \<Rightarrow> job_envelope list
       \<Rightarrow> job_execution_policy list \<Rightarrow> 'd \<Rightarrow> worker_result_kind \<times> oxana_error list \<times> 'd" where
  "finish_batch_result R C S cfg io result es pols d =
     (case result of
        ExecSuccess \<Rightarrow>
          (case finish_with_success_batch R S (io_acq io 1) es d of
             (Inl er, d') \<Rightarrow> (ResultSuccess, [er], d')
           | (Inr _, d') \<Rightarrow> (ResultSuccess, [], d'))
      | ExecFailed er \<Rightarrow>
          (ResultFailed, handle_errs R C S io 1 (format_error cfg er)
             (map (\<lambda>(e, pol). (e, retry_delay cfg er e pol, pol_max_retries pol)) (zip es pols)) d)
      | ExecPanicked msg \<Rightarrow>
          (ResultPanicked, handle_errs R C S io 1 msg
             (map (\<lambda>(e, pol). (e, pol_retry_delay pol, pol_max_retries pol)) (zip es pols)) d))"

definition clear_state :: "job_envelope \<Rightarrow> job_envelope" where
  "clear_state e = e\<lparr>env_meta := (env_meta e)\<lparr>state := None\<rparr>\<rparr>"

definition length_mismatch :: "nat \<Rightarrow> nat \<Rightarrow> oxana_error" where
  "length_mismatch n m = GenericError
     (''Batch worker has '' @ show_nat n @ '' jobs but received '' @ show_nat m @ '' envelopes'')"

definition run_batch ::
    "'d redis \<Rightarrow> codec \<Rightarrow> storage \<Rightarrow> execution_settings \<Rightarrow> 'd io \<Rightarrow> 'd processable \<Rightarrow> job_envelope list
       \<Rightarrow> ('d, worker_result_kind \<times> oxana_error list) op" where
  "run_batch R C S cfg io W es =
     (if es = [] then return (ResultSuccess, [])
      else if p_len W \<noteq> length es then fail (length_mismatch (p_len W) (length es))
      else
        let pols = map (\<lambda>(i, e). execution_policy W i e) (List.enumerate 0 es);
            es1 = (if p_should_resume W then es else map clear_state es)
        in bind (set_started_at_batch R C S (io_acq io 0) (io_now io 0) es1) (\<lambda>es2 d.
             case p_process W (map env_meta es2) d of
               (result, d1) \<Rightarrow> (case finish_batch_result R C S cfg io result es2 pols d1 of
                   (kind, fails, d2) \<Rightarrow> (Inr (kind, fails), d2))))"

text \<open>\<^verbatim>\<open>executor::run\<close>: one job.\<close>

definition run_one ::
    "'d redis \<Rightarrow> codec \<Rightarrow> storage \<Rightarrow> execution_settings \<Rightarrow> 'd io \<Rightarrow> 'd processable \<Rightarrow> job_envelope
       \<Rightarrow> ('d, worker_result_kind \<times> oxana_error list) op" where
  "run_one R C S cfg io W e = run_batch R C S cfg io W [e]"

section \<open>Lemmas\<close>

text \<open>The fate of one failed job: postponed by its delay when it is to be retried, else buried.\<close>

definition retried :: "codec \<Rightarrow> storage \<Rightarrow> int \<Rightarrow> nat \<Rightarrow> string \<Rightarrow> job_id \<Rightarrow> store \<Rightarrow> store" where
  "retried C S now delay msg i s =
     (case hashes s (jobs_key (st_keys S)) i of
        None \<Rightarrow> map_list (current_processing_queue S) (remove1 i) s
      | Some p \<Rightarrow> (case of_payload C p of
            None \<Rightarrow> s
          | Some e \<Rightarrow> postpone (jobs_key (st_keys S)) (retry_key (st_keys S)) (current_processing_queue S)
              (env_id e) (to_payload C (with_retries_incremented msg e)) (retry_score now delay) s))"

definition buried :: "codec \<Rightarrow> storage \<Rightarrow> string \<Rightarrow> job_envelope \<Rightarrow> store \<Rightarrow> store" where
  "buried C S msg e = bury (jobs_key (st_keys S)) (dead_key (st_keys S)) (current_processing_queue S) (env_id e)
     (to_payload C (with_error msg e)) (case dead_job_limit S of None \<Rightarrow> 0 | Some n \<Rightarrow> n)"

definition settle :: "codec \<Rightarrow> storage \<Rightarrow> 'd io \<Rightarrow> string \<Rightarrow> nat \<times> job_envelope \<times> nat \<times> bool \<Rightarrow> store \<Rightarrow> store" where
  "settle C S io msg = (\<lambda>(k, e, delay, will_retry).
     if will_retry then retried C S (io_now io k) delay msg (env_id e) else buried C S msg e)"

context redis_server
begin

lemma handle_err_settles:
  assumes "keys_distinct (st_keys S)" and "\<And>k d. io_env io k d = d"
  shows "case handle_err R C S io k msg e delay mx d of
      (Inl er, d') \<Rightarrow> d' = d
    | (Inr _, d') \<Rightarrow> store_of R d' = settle C S io msg (k, e, delay, retries (env_meta e) < mx) (store_of R d)"
proof -
  have env: "io_env io k = (\<lambda>d. d)" using assms(2) by blast
  show ?thesis
    using retry_in_atomic [OF assms(1), of d C "io_acq io k" "io_now io k" "env_id e" delay msg]
      kill_atomic [OF assms(1), of d C "io_acq io k" e msg]
    by (auto simp: handle_err_def settle_def retried_def buried_def env atomically_def split: prod.splits sum.splits)
qed

lemma handle_errs_settle:
  assumes "keys_distinct (st_keys S)" and "\<And>k d. io_env io k d = d"
    and "handle_errs R C S io k msg items d = (fails, d')"
  shows "length fails \<le> 1 \<and> (\<exists>n\<le>length items. (fails = [] \<longleftrightarrow> n = length items) \<and>
    store_of R d' = fold (settle C S io msg)
      (take n (map (\<lambda>(j, e, delay, mx). (j, e, delay, retries (env_meta e) < mx)) (List.enumerate k items))) (store_of R d))"
  using assms(3)
proof (induction items arbitrary: k d)
  case (Cons x items)
  obtain e delay mx where x: "x = (e, delay, mx)" by (cases x)
  note h = handle_err_settles [OF assms(1,2), where C = C and k = k and msg = msg and e = e and delay = delay and mx = mx and d = d]
  show ?case
  proof (cases "handle_err R C S io k msg e delay mx d")
    case (Pair r d1)
    show ?thesis
    proof (cases r)
      case (Inl er)
      with Pair h x Cons.prems show ?thesis by (auto intro: exI [of _ 0])
    next
      case (Inr u)
      then have "handle_errs R C S io (k + 1) msg items d1 = (fails, d')" using Cons.prems Pair x by simp
      from Cons.IH [OF this] obtain n where n: "length fails \<le> 1" "n \<le> length items" "fails = [] \<longleftrightarrow> n = length items"
        "store_of R d' = fold (settle C S io msg) (take n (map (\<lambda>(j, e, delay, mx). (j, e, delay, retries (env_meta e) < mx))
           (List.enumerate (k + 1) items))) (store_of R d1)" by auto
      have "store_of R d1 = settle C S io msg (k, e, delay, retries (env_meta e) < mx) (store_of R d)"
        using h Pair Inr by simp
      with n x show ?thesis by (intro conjI exI [of _ "Suc n"]) auto
    qed
  qed
qed simp

end

text \<open>What the report of a failure says the executor will do with each job.\<close>

definition planned ::
    "(job_envelope \<Rightarrow> job_execution_policy \<Rightarrow> nat) \<Rightarrow> job_envelope list \<Rightarrow> job_execution_policy list
       \<Rightarrow> (nat \<times> job_envelope \<times> nat \<times> bool) list" where
  "planned delay es pols =
     map (\<lambda>((k, e, pol), fj). (k, e, delay e pol, fj_will_retry fj))
       (zip (List.enumerate 1 (zip es pols)) (wf_jobs (failure_metadata es pols)))"

lemma enumerate_map: "map (\<lambda>(i, x). (i, f x)) (List.enumerate k xs) = List.enumerate k (map f xs)"
  by (induction xs arbitrary: k) auto

lemma planned_eq:
  "planned delay es pols = map (\<lambda>(j, e, dl, mx). (j, e, dl, retries (env_meta e) < mx))
     (List.enumerate 1 (map (\<lambda>(e, pol). (e, delay e pol, pol_max_retries pol)) (zip es pols)))"
proof -
  have "map (\<lambda>((k, e, pol), fj). (k, e, delay e pol, fj_will_retry fj))
      (zip (List.enumerate n zs) (map failed_job zs)) =
    map (\<lambda>(j, e, dl, mx). (j, e, dl, retries (env_meta e) < mx))
     (List.enumerate n (map (\<lambda>(e, pol). (e, delay e pol, pol_max_retries pol)) zs))" for n zs
    by (induction zs arbitrary: n) (auto simp: failed_job_def Let_def)
  then show ?thesis by (simp add: planned_def failure_metadata_def Let_def)
qed

lemma length_planned: "length es = length pols \<Longrightarrow> length (planned delay es pols) = length es"
  by (simp add: planned_def failure_metadata_def Let_def)

section \<open>Properties\<close>


text \<open>
  The default retry delay is exact up to twenty-five retries: \<open>5 ^ (retries + 2)\<close> seconds
  without wrap-around, growing with every retry.
\<close>

theorem default_retry_delay_exact:
  assumes "unat n \<le> 25"
  shows "unat (default_retry_delay n) = 5 ^ (unat n + 2) \<and>
    (unat n < 25 \<longrightarrow> default_retry_delay n < default_retry_delay (n + 1))"
proof -
  have pow: "unat ((5 :: 64 word) ^ k) = 5 ^ k" if "k \<le> 27" for k
  proof -
    have "(5 :: nat) ^ k \<le> 5 ^ 27" using that by (intro power_increasing) simp_all
    then have "(5 :: nat) ^ k < 2 ^ 64" by (rule le_less_trans) simp
    then have "take_bit LENGTH(64) ((5 :: nat) ^ k) = 5 ^ k" by (simp add: take_bit_nat_eq_self)
    then have "unat (word_of_nat (5 ^ k) :: 64 word) = 5 ^ k"
      by (simp only: unsigned_of_nat of_nat_id)
    then show ?thesis by simp
  qed
  have two: "unat (m + 2) = unat m + 2" if "unat m \<le> 26" for m :: "32 word"
    using that by (simp add: unat_word_ariths)
  have val: "unat (default_retry_delay m) = 5 ^ (unat m + 2)" if "unat m \<le> 25" for m
  proof -
    have "unat m \<le> 26" using that by simp
    from two [OF this] have "default_retry_delay m = 5 ^ (unat m + 2)" by (simp only: default_retry_delay_def)
    moreover have "unat ((5 :: 64 word) ^ (unat m + 2)) = 5 ^ (unat m + 2)" using that by (intro pow) simp
    ultimately show ?thesis by simp
  qed
  have next_n: "unat (n + 1) = unat n + 1" using assms by (simp add: unat_word_ariths)
  have "default_retry_delay n < default_retry_delay (n + 1)" if "unat n < 25"
    using that val [of n] val [of "n + 1"] next_n by (simp add: word_less_nat_alt)
  with val [OF assms] show ?thesis by blast
qed

section \<open>Witnesses\<close>

text \<open>The claimed job of the samples fails in its first run, with two retries allowed.\<close>

definition quiet_io :: "mem io" where
  "quiet_io = \<lparr>io_acq = (\<lambda>_. None), io_env = (\<lambda>_ d. d), io_now = (\<lambda>_. 1000)\<rparr>"

definition plain_settings :: execution_settings where
  "plain_settings = \<lparr>retry_delay_override = None, error_formatter = None\<rparr>"


theorem default_retry_delay_exact_witness:
  "unat (default_retry_delay 3) = 3125 \<and> default_retry_delay 3 < default_retry_delay 4"
  using default_retry_delay_exact [of 3] by simp

end
