(* ===== verification/Queue_Config.thy ===== *)
theory Queue_Config
  imports Storage_Jobs
begin

text \<open>
  Queues: the static configuration of \<^verbatim>\<open>queue.rs\<close> (kind, concurrency, throttle, with the
  builder's panics as \<open>None\<close>), the runtime configuration stored in Redis and its operations
  in \<^verbatim>\<open>storage_internal.rs\<close>, and \<^verbatim>\<open>runtime_queue_config\<close> of \<^verbatim>\<open>coordinator.rs\<close>, which
  combines a queue's own stored configuration, its prefix's and the default. Durations are
  numbers of nanoseconds.
\<close>

section \<open>Static configuration\<close>

datatype queue_kind =
    Static string
  | Dynamic string nat

datatype queue_concurrency =
    Fixed nat
  | DynamicConcurrency nat

record queue_throttle =
  throttle_window_ms :: int
  throttle_limit :: nat

datatype queue_state = Active | Paused

record queue_runtime_config =
  rc_concurrency :: "nat option"
  rc_state :: queue_state

record queue_config =
  qc_kind :: queue_kind
  qc_concurrency :: queue_concurrency
  qc_throttle :: "queue_throttle option"

definition as_dynamic :: "string \<Rightarrow> queue_config" where
  "as_dynamic pre = \<lparr>qc_kind = Dynamic pre 500000000, qc_concurrency = Fixed 1, qc_throttle = None\<rparr>"

definition as_static :: "string \<Rightarrow> queue_config" where
  "as_static key = \<lparr>qc_kind = Static key, qc_concurrency = Fixed 1, qc_throttle = None\<rparr>"

definition with_concurrency :: "nat \<Rightarrow> queue_config \<Rightarrow> queue_config option" where
  "with_concurrency n qc = (if n = 0 then None else Some (qc\<lparr>qc_concurrency := Fixed n\<rparr>))"

definition with_dynamic_concurrency :: "nat \<Rightarrow> queue_config \<Rightarrow> queue_config" where
  "with_dynamic_concurrency n qc = qc\<lparr>qc_concurrency := DynamicConcurrency n\<rparr>"

definition with_throttle :: "queue_throttle \<Rightarrow> queue_config \<Rightarrow> queue_config" where
  "with_throttle t qc = qc\<lparr>qc_throttle := Some t\<rparr>"

definition require_non_zero_duration :: "nat \<Rightarrow> nat option" where
  "require_non_zero_duration d = (if d = 0 then None else Some d)"

definition with_discovery_interval :: "nat \<Rightarrow> queue_config \<Rightarrow> queue_config option" where
  "with_discovery_interval d qc =
     Option.bind (require_non_zero_duration d) (\<lambda>i.
       case qc_kind qc of
         Dynamic pre _ \<Rightarrow> Some (qc\<lparr>qc_kind := Dynamic pre i\<rparr>)
       | Static _ \<Rightarrow> None)"

definition static_key :: "queue_config \<Rightarrow> string option" where
  "static_key qc = (case qc_kind qc of Static k \<Rightarrow> Some k | Dynamic _ _ \<Rightarrow> None)"

definition key_or_prefix :: "queue_config \<Rightarrow> string" where
  "key_or_prefix qc = (case qc_kind qc of Static k \<Rightarrow> k | Dynamic pre _ \<Rightarrow> pre)"

text \<open>\<^verbatim>\<open>PartialEq\<close> and \<^verbatim>\<open>Hash\<close> look at the kind only, and not at the discovery interval.\<close>

fun kind_eq :: "queue_kind \<Rightarrow> queue_kind \<Rightarrow> bool" where
  "kind_eq (Static k1) (Static k2) = (k1 = k2)"
| "kind_eq (Dynamic p1 _) (Dynamic p2 _) = (p1 = p2)"
| "kind_eq _ _ = False"

definition config_eq :: "queue_config \<Rightarrow> queue_config \<Rightarrow> bool" where
  "config_eq a b = kind_eq (qc_kind a) (qc_kind b)"

fun kind_hash :: "(string \<Rightarrow> 'h) \<Rightarrow> queue_kind \<Rightarrow> 'h" where
  "kind_hash h (Static k) = h k"
| "kind_hash h (Dynamic p _) = h p"

fun default_concurrency :: "queue_concurrency \<Rightarrow> nat" where
  "default_concurrency (Fixed n) = n"
| "default_concurrency (DynamicConcurrency n) = n"

fun concurrency_is_dynamic :: "queue_concurrency \<Rightarrow> bool" where
  "concurrency_is_dynamic (Fixed _) = False"
| "concurrency_is_dynamic (DynamicConcurrency _) = True"

definition stored_runtime_default :: "queue_concurrency \<Rightarrow> queue_runtime_config" where
  "stored_runtime_default c =
     \<lparr>rc_concurrency = (if concurrency_is_dynamic c then Some (default_concurrency c) else None),
      rc_state = Active\<rparr>"

definition effective_runtime_config :: "queue_concurrency \<Rightarrow> queue_runtime_config \<Rightarrow> queue_runtime_config" where
  "effective_runtime_config c rc =
     \<lparr>rc_concurrency = Some (case c of
          Fixed n \<Rightarrow> n
        | DynamicConcurrency n \<Rightarrow> (case rc_concurrency rc of Some m \<Rightarrow> m | None \<Rightarrow> n)),
      rc_state = rc_state rc\<rparr>"

definition runtime_config_new :: "nat \<Rightarrow> queue_runtime_config" where
  "runtime_config_new n = \<lparr>rc_concurrency = Some n, rc_state = Active\<rparr>"

definition runtime_config_default :: queue_runtime_config where
  "runtime_config_default = \<lparr>rc_concurrency = None, rc_state = Active\<rparr>"

definition with_defaults :: "queue_runtime_config \<Rightarrow> queue_runtime_config \<Rightarrow> queue_runtime_config" where
  "with_defaults rc dflts = rc\<lparr>rc_concurrency :=
     (case rc_concurrency rc of Some n \<Rightarrow> Some n | None \<Rightarrow> rc_concurrency dflts)\<rparr>"

text \<open>\<^verbatim>\<open>value_to_queue_key\<close>: the suffix of a dynamic queue's key.\<close>

fun join_colon :: "string list \<Rightarrow> string" where
  "join_colon [] = []"
| "join_colon [s] = s"
| "join_colon (s # ss) = s @ CHR '':'' # join_colon ss"

fun value_to_queue_key :: "json \<Rightarrow> string" where
  "value_to_queue_key JNull = []"
| "value_to_queue_key (JStr s) = s"
| "value_to_queue_key (JInt i) = show_int i"
| "value_to_queue_key (JFloat s) = s"
| "value_to_queue_key (JBool b) = (if b then ''true'' else ''false'')"
| "value_to_queue_key (JArr xs) = join_colon (map value_to_queue_key xs)"
| "value_to_queue_key (JObj kvs) = join_colon (map (\<lambda>(k, v). k @ ''='' @ value_to_queue_key v) kvs)"

section \<open>Stored form\<close>

fun queue_state_to_json :: "queue_state \<Rightarrow> json" where
  "queue_state_to_json Active = JStr ''active''"
| "queue_state_to_json Paused = JStr ''paused''"

definition as_queue_state :: "json \<Rightarrow> queue_state option" where
  "as_queue_state j = (if j = JStr ''active'' then Some Active
     else if j = JStr ''paused'' then Some Paused else None)"

definition as_usize :: "json \<Rightarrow> nat option" where
  "as_usize j = map_option nat (as_int 0 18446744073709551615 j)"

definition runtime_config_to_json :: "queue_runtime_config \<Rightarrow> json" where
  "runtime_config_to_json rc = JObj
     (opt_field ''concurrency'' (\<lambda>n. JInt (int n)) (rc_concurrency rc)
      @ [(''state'', queue_state_to_json (rc_state rc))])"

definition runtime_config_of_json :: "json \<Rightarrow> queue_runtime_config option" where
  "runtime_config_of_json j = (case j of
       JObj _ \<Rightarrow>
         Option.bind (optional j ''concurrency'' as_usize) (\<lambda>n.
         Option.bind (dflt j ''state'' Active as_queue_state) (\<lambda>s.
           Some \<lparr>rc_concurrency = n, rc_state = s\<rparr>))
     | _ \<Rightarrow> None)"

definition runtime_config_of_text :: "codec \<Rightarrow> string \<Rightarrow> queue_runtime_config option" where
  "runtime_config_of_text C s = Option.bind (jparse C s) runtime_config_of_json"

definition queue_config_w_conn ::
    "'d redis \<Rightarrow> codec \<Rightarrow> storage \<Rightarrow> string \<Rightarrow> ('d, queue_runtime_config option) op" where
  "queue_config_w_conn R C S queue =
     bind (hget R (queue_configs_key (st_keys S)) queue) (\<lambda>r. case r of
         None \<Rightarrow> return None
       | Some s \<Rightarrow> (case runtime_config_of_text C s of None \<Rightarrow> fail JsonError | Some c \<Rightarrow> return (Some c)))"

text \<open>\<^verbatim>\<open>StorageInternal::queue_config\<close>; the record of that name is \<^verbatim>\<open>QueueConfig\<close>.\<close>

definition stored_queue_config ::
    "'d redis \<Rightarrow> codec \<Rightarrow> storage \<Rightarrow> string \<Rightarrow> ('d, queue_runtime_config option) op" where
  "stored_queue_config R C S queue = with_connection R (queue_config_w_conn R C S queue)"

definition queue_config_or_default_w_conn ::
    "'d redis \<Rightarrow> codec \<Rightarrow> storage \<Rightarrow> string \<Rightarrow> queue_runtime_config \<Rightarrow> ('d, queue_runtime_config) op" where
  "queue_config_or_default_w_conn R C S queue dflts =
     bind (queue_config_w_conn R C S queue) (\<lambda>c. return (case c of
         Some c \<Rightarrow> with_defaults c dflts
       | None \<Rightarrow> dflts))"

definition queue_config_or_default ::
    "'d redis \<Rightarrow> codec \<Rightarrow> storage \<Rightarrow> string \<Rightarrow> queue_runtime_config \<Rightarrow> ('d, queue_runtime_config) op" where
  "queue_config_or_default R C S queue dflts =
     with_connection R (queue_config_or_default_w_conn R C S queue dflts)"

fun collect_configs ::
    "codec \<Rightarrow> (string \<times> string option) list \<Rightarrow> oxana_error + (string \<rightharpoonup> queue_runtime_config)" where
  "collect_configs C [] = Inr Map.empty"
| "collect_configs C ((q, None) # rest) = collect_configs C rest"
| "collect_configs C ((q, Some s) # rest) = (case runtime_config_of_text C s of
       None \<Rightarrow> Inl JsonError
     | Some c \<Rightarrow> (case collect_configs C rest of
           Inl e \<Rightarrow> Inl e
         | Inr m \<Rightarrow> Inr (case m q of None \<Rightarrow> m(q \<mapsto> c) | Some _ \<Rightarrow> m)))"

definition queue_configs ::
    "'d redis \<Rightarrow> codec \<Rightarrow> storage \<Rightarrow> string list \<Rightarrow> ('d, string \<rightharpoonup> queue_runtime_config) op" where
  "queue_configs R C S queues =
     (if queues = [] then return Map.empty
      else with_connection R
        (bind (hmget R (queue_configs_key (st_keys S)) queues) (\<lambda>configs.
           lift_result (collect_configs C (zip queues configs)))))"

definition set_queue_config ::
    "'d redis \<Rightarrow> codec \<Rightarrow> storage \<Rightarrow> string \<Rightarrow> queue_runtime_config \<Rightarrow> ('d, unit) op" where
  "set_queue_config R C S queue rc =
     with_connection R
       (hset R (queue_configs_key (st_keys S)) queue (jprint C (runtime_config_to_json rc)))"

definition reset_queue_config :: "'d redis \<Rightarrow> storage \<Rightarrow> string \<Rightarrow> ('d, unit) op" where
  "reset_queue_config R S queue = with_connection R (hdel R (queue_configs_key (st_keys S)) queue)"

definition set_queue_state ::
    "'d redis \<Rightarrow> codec \<Rightarrow> storage \<Rightarrow> ('d \<Rightarrow> 'd) \<Rightarrow> string \<Rightarrow> queue_state \<Rightarrow> ('d, unit) op" where
  "set_queue_state R C S env queue st =
     bind (stored_queue_config R C S queue) (\<lambda>c. seq (interfere env)
       (set_queue_config R C S queue
          ((case c of Some c \<Rightarrow> c | None \<Rightarrow> runtime_config_default)\<lparr>rc_state := st\<rparr>)))"

text \<open>
  \<^verbatim>\<open>queues\<close> at the pattern \<^verbatim>\<open>prefix*\<close>, the only one the coordinator asks for; the prefix is
  taken literally.
\<close>

definition queues_w_conn :: "'d redis \<Rightarrow> storage \<Rightarrow> string \<Rightarrow> ('d, string list) op" where
  "queues_w_conn R S pre =
     bind (scan R (butlast (namespace_queue (st_keys S) (pre @ ''*'')))) (\<lambda>ks.
       return (List.map_filter (queue_of_key (st_keys S)) ks))"

definition queues :: "'d redis \<Rightarrow> storage \<Rightarrow> string \<Rightarrow> ('d, string list) op" where
  "queues R S pre = with_connection R (queues_w_conn R S pre)"

section \<open>The configuration a queue runs with\<close>

definition runtime_queue_config ::
    "'d redis \<Rightarrow> codec \<Rightarrow> storage \<Rightarrow> string \<Rightarrow> string \<Rightarrow> queue_runtime_config \<Rightarrow> ('d, queue_runtime_config) op" where
  "runtime_queue_config R C S queue_key base_queue_key dflts =
     (if queue_key = base_queue_key then queue_config_or_default R C S queue_key dflts
      else bind (queue_config_or_default R C S base_queue_key dflts) (\<lambda>base.
             queue_config_or_default R C S queue_key base))"

section \<open>Lemmas\<close>

text \<open>Equality implies equal hashes, as \<^verbatim>\<open>HashSet\<close> requires.\<close>

lemma kind_eq_hash: "kind_eq a b \<Longrightarrow> kind_hash h a = kind_hash h b"
  by (cases a; cases b) simp_all

text \<open>What the configuration hash says about a queue.\<close>

definition stored_config :: "'d redis \<Rightarrow> codec \<Rightarrow> storage \<Rightarrow> 'd \<Rightarrow> string \<Rightarrow> queue_runtime_config option" where
  "stored_config R C S d q =
     Option.bind (r_hget R d (queue_configs_key (st_keys S)) q) (runtime_config_of_text C)"

lemma queue_config_or_default_Inr:
  assumes "queue_config_or_default R C S q dflts d = (Inr rc, d')"
  shows "d' = d \<and> rc = (case stored_config R C S d q of Some c \<Rightarrow> with_defaults c dflts | None \<Rightarrow> dflts)"
  using assms
  by (auto simp: queue_config_or_default_def queue_config_or_default_w_conn_def queue_config_w_conn_def
      with_connection_Inr bind_eq_Inr hget_def reading_def stored_config_def
      split: if_splits option.splits)

lemma runtime_queue_config_Inr:
  assumes "runtime_queue_config R C S q base dflts d = (Inr rc, d')"
  shows "d' = d \<and>
    rc_state rc = (case stored_config R C S d q of Some c \<Rightarrow> rc_state c
      | None \<Rightarrow> (case stored_config R C S d base of Some c \<Rightarrow> rc_state c | None \<Rightarrow> rc_state dflts)) \<and>
    rc_concurrency rc =
      (case Option.bind (stored_config R C S d q) rc_concurrency of Some n \<Rightarrow> Some n
       | None \<Rightarrow> (case Option.bind (stored_config R C S d base) rc_concurrency of Some n \<Rightarrow> Some n
           | None \<Rightarrow> rc_concurrency dflts))"
proof (cases "q = base")
  case True
  with assms have "queue_config_or_default R C S q dflts d = (Inr rc, d')"
    by (simp add: runtime_queue_config_def)
  from queue_config_or_default_Inr [OF this] True show ?thesis
    by (auto simp: with_defaults_def split: option.splits)
next
  case False
  with assms obtain b d1 where b: "queue_config_or_default R C S base dflts d = (Inr b, d1)"
    and q: "queue_config_or_default R C S q b d1 = (Inr rc, d')"
    by (auto simp: runtime_queue_config_def bind_eq_Inr)
  from queue_config_or_default_Inr [OF b] queue_config_or_default_Inr [OF q] show ?thesis
    by (auto simp: with_defaults_def split: option.splits)
qed

lemma collect_configs_Inr:
  "collect_configs C (zip qs (map g qs)) = Inr m \<Longrightarrow>
     m q = (if q \<in> set qs then Option.bind (g q) (runtime_config_of_text C) else None)"
proof (induction qs arbitrary: m)
  case (Cons p qs)
  show ?case
  proof (cases "g p")
    case None
    with Cons show ?thesis by auto
  next
    case (Some t)
    with Cons.prems obtain c m' where c: "runtime_config_of_text C t = Some c"
      and m': "collect_configs C (zip qs (map g qs)) = Inr m'" and m: "m = (case m' p of None \<Rightarrow> m'(p \<mapsto> c) | Some _ \<Rightarrow> m')"
      by (auto split: option.splits sum.splits)
    show ?thesis using Cons.IH [OF m'] c Some by (auto simp: m split: option.splits if_splits)
  qed
qed simp

lemma queue_configs_Inr:
  assumes "queue_configs R C S qs d = (Inr m, d')"
  shows "d' = d \<and> m q = (if q \<in> set qs then stored_config R C S d q else None)"
  using assms
  by (auto simp: queue_configs_def return_def with_connection_Inr bind_eq_Inr hmget_def reading_def lift_result_def
      stored_config_def collect_configs_Inr split: if_splits)

lemma config_json_roundtrip:
  assumes "case rc_concurrency rc of None \<Rightarrow> True | Some n \<Rightarrow> n \<le> u64_max"
  shows "runtime_config_of_json (runtime_config_to_json rc) = Some rc"
  using assms
  by (cases "rc_state rc"; cases "rc_concurrency rc")
    (simp_all add: runtime_config_to_json_def runtime_config_of_json_def optional_def dflt_def json_field_def
      opt_field_def as_usize_def as_queue_state_def)

lemma config_json_ok:
  "json_ok C (runtime_config_to_json rc) \<longleftrightarrow>
     (case rc_concurrency rc of None \<Rightarrow> True | Some n \<Rightarrow> n \<le> u64_max)"
  by (cases "rc_state rc"; cases "rc_concurrency rc") (auto simp: runtime_config_to_json_def opt_field_def)

lemma of_text_concurrency:
  assumes "runtime_config_of_text C s = Some rc"
  shows "case rc_concurrency rc of None \<Rightarrow> True | Some n \<Rightarrow> n \<le> u64_max"
proof -
  obtain j where j: "runtime_config_of_json j = Some rc"
    using assms by (auto simp: runtime_config_of_text_def bind_eq_Some_conv)
  then have "optional j ''concurrency'' as_usize = Some (rc_concurrency rc)"
    by (auto simp: runtime_config_of_json_def bind_eq_Some_conv split: json.splits)
  moreover have "as_usize x = Some n \<Longrightarrow> n \<le> u64_max" for x n
    by (cases x) (auto simp: as_usize_def split: if_splits)
  ultimately show ?thesis
    by (auto simp: optional_def split: option.splits json.splits)
qed

context json_codec
begin

lemma config_text_roundtrip:
  assumes "case rc_concurrency rc of None \<Rightarrow> True | Some n \<Rightarrow> n \<le> u64_max"
  shows "runtime_config_of_text C (jprint C (runtime_config_to_json rc)) = Some rc"
  using parse_print [of "runtime_config_to_json rc"] config_json_ok [of C rc] config_json_roundtrip [OF assms] assms
  by (simp add: runtime_config_of_text_def)

end

lemma stored_queue_config_Inr:
  assumes "stored_queue_config R C S q d = (Inr c, d')"
  shows "d' = d \<and> c = stored_config R C S d q"
  using assms by (auto simp: stored_queue_config_def queue_config_w_conn_def with_connection_Inr bind_eq_Inr
      hget_def reading_def stored_config_def split: if_splits option.splits)

lemma stored_concurrency_fits:
  "case Option.bind (stored_config R C S d q) rc_concurrency of None \<Rightarrow> True | Some n \<Rightarrow> n \<le> u64_max"
proof (cases "stored_config R C S d q")
  case (Some rc)
  then obtain t where "runtime_config_of_text C t = Some rc"
    by (auto simp: stored_config_def bind_eq_Some_conv)
  from of_text_concurrency [OF this] Some show ?thesis by simp
qed simp

lemma set_queue_config_writes:
  assumes "redis_server R" and "json_codec C" and "set_queue_config R C S q rc d = (Inr (), d')"
    and "case rc_concurrency rc of None \<Rightarrow> True | Some n \<Rightarrow> n \<le> u64_max"
  shows "stored_config R C S d' = (stored_config R C S d)(q \<mapsto> rc)"
proof -
  let ?k = "queue_configs_key (st_keys S)"
  have fits: "fits R d ?k THash" and d': "d' = r_hset R d ?k q (jprint C (runtime_config_to_json rc))"
    using assms(3) by (auto simp: set_queue_config_def with_connection_Inr hset_def writing_def split: if_splits)
  show ?thesis
    by (simp add: fun_eq_iff stored_config_def d' redis_server.hset_h [OF assms(1) fits]
        json_codec.config_text_roundtrip [OF assms(2,4)])
qed

lemma set_queue_state_writes:
  assumes "redis_server R" and "json_codec C"
    and "set_queue_state R C S (\<lambda>d. d) q st d = (Inr (), d')"
  shows "stored_config R C S d' = (stored_config R C S d)(q \<mapsto>
    (case stored_config R C S d q of Some c \<Rightarrow> c | None \<Rightarrow> runtime_config_default)\<lparr>rc_state := st\<rparr>)"
proof -
  obtain c d1 where c: "stored_queue_config R C S q d = (Inr c, d1)"
    and w: "set_queue_config R C S q ((case c of Some c \<Rightarrow> c | None \<Rightarrow> runtime_config_default)\<lparr>rc_state := st\<rparr>) d1 = (Inr (), d')"
    using assms(3) by (auto simp: set_queue_state_def bind_eq_Inr seq_eq_Inr interfere_def)
  from stored_queue_config_Inr [OF c] have c: "c = stored_config R C S d q" "d1 = d" by simp_all
  show ?thesis
    using set_queue_config_writes [OF assms(1,2) w] stored_concurrency_fits [of R C S d q]
    by (cases "stored_config R C S d q") (simp_all add: c runtime_config_default_def)
qed

section \<open>Properties\<close>

text \<open>
  Precedence of the runtime configuration: a queue runs with the concurrency its static
  configuration fixes, or else with the first of its own stored value, its prefix's stored
  value and the declared default; its state is its own stored state, or else its prefix's,
  or else active. Reading it changes nothing.
\<close>

theorem effective_config_precedence:
  assumes "runtime_queue_config R C S q base (stored_runtime_default c) d = (Inr rc, d')"
  shows "d' = d \<and>
    effective_runtime_config c rc =
      \<lparr>rc_concurrency = Some (case c of
           Fixed n \<Rightarrow> n
         | DynamicConcurrency n \<Rightarrow>
             (case Option.bind (stored_config R C S d q) rc_concurrency of Some m \<Rightarrow> m
              | None \<Rightarrow> (case Option.bind (stored_config R C S d base) rc_concurrency of Some m \<Rightarrow> m
                  | None \<Rightarrow> n))),
       rc_state = (case stored_config R C S d q of Some x \<Rightarrow> rc_state x
         | None \<Rightarrow> (case stored_config R C S d base of Some x \<Rightarrow> rc_state x | None \<Rightarrow> Active))\<rparr>"
  using runtime_queue_config_Inr [OF assms]
  by (cases c) (auto simp: effective_runtime_config_def stored_runtime_default_def split: option.splits)

text \<open>
  Pausing and resuming: after \<^verbatim>\<open>set_queue_state\<close> the queue runs in the requested state,
  with the concurrency it had before, and every other queue keeps its stored configuration.
\<close>

theorem set_queue_state_contract:
  assumes "redis_server R" and "json_codec C"
    and "runtime_queue_config R C S q base dflts d = (Inr rc, d0)"
    and "set_queue_state R C S (\<lambda>d. d) q st d = (Inr (), d')"
    and "runtime_queue_config R C S q base dflts d' = (Inr rc', d'')"
  shows "rc' = rc\<lparr>rc_state := st\<rparr> \<and> (\<forall>p. p \<noteq> q \<longrightarrow> stored_config R C S d' p = stored_config R C S d p)"
proof -
  have w: "stored_config R C S d' = (stored_config R C S d)(q \<mapsto>
      (case stored_config R C S d q of Some c \<Rightarrow> c | None \<Rightarrow> runtime_config_default)\<lparr>rc_state := st\<rparr>)"
    by (rule set_queue_state_writes [OF assms(1,2,4)])
  have "rc_concurrency rc' = rc_concurrency rc" "rc_state rc' = st"
    using runtime_queue_config_Inr [OF assms(3)] runtime_queue_config_Inr [OF assms(5)]
    by (auto simp: w runtime_config_default_def split: option.splits)
  then show ?thesis by (cases rc'; cases rc) (simp add: w)
qed

section \<open>Witnesses\<close>

lemmas config_run = runtime_queue_config_def queue_config_or_default_def queue_config_or_default_w_conn_def
  queue_config_w_conn_def stored_queue_config_def set_queue_state_def set_queue_config_def sample_run

theorem effective_config_precedence_witness:
  "runtime_queue_config mem_redis netstring_codec sample_storage ''mail:7'' ''mail''
     (stored_runtime_default (DynamicConcurrency 4)) [] = (Inr \<lparr>rc_concurrency = Some 4, rc_state = Active\<rparr>, []) \<and>
   rc_concurrency (effective_runtime_config (DynamicConcurrency 4) \<lparr>rc_concurrency = Some 4, rc_state = Active\<rparr>) = Some 4"
proof -
  have run: "runtime_queue_config mem_redis netstring_codec sample_storage ''mail:7'' ''mail''
     (stored_runtime_default (DynamicConcurrency 4)) [] = (Inr \<lparr>rc_concurrency = Some 4, rc_state = Active\<rparr>, [])"
    by (simp add: config_run stored_runtime_default_def)
  from effective_config_precedence [OF run] run show ?thesis by (simp add: stored_config_def mem_defs)
qed

theorem set_queue_state_contract_witness:
  "\<exists>d' rc'. set_queue_state mem_redis netstring_codec sample_storage (\<lambda>d. d) ''mail'' Paused [] = (Inr (), d') \<and>
     runtime_queue_config mem_redis netstring_codec sample_storage ''mail'' ''mail''
       (stored_runtime_default (DynamicConcurrency 4)) d' = (Inr rc', d') \<and>
     rc' = \<lparr>rc_concurrency = Some 4, rc_state = Paused\<rparr>"
proof -
  let ?R = mem_redis and ?C = netstring_codec and ?S = sample_storage
  let ?dflt = "stored_runtime_default (DynamicConcurrency 4)"
  define stored where "stored = jprint ?C (runtime_config_to_json (runtime_config_default\<lparr>rc_state := Paused\<rparr>))"
  have t: "runtime_config_of_text ?C stored = Some (runtime_config_default\<lparr>rc_state := Paused\<rparr>)"
    unfolding stored_def by (rule net.config_text_roundtrip) (simp add: runtime_config_default_def)
  have k: "queue_configs_key (st_keys ?S) = ''app:queue_configs''"
    by (simp add: sample_storage_def storage_keys_new_def)
  let ?d = "[(''app:queue_configs'', VHash [(''mail'', stored)])]"
  have r: "runtime_queue_config ?R ?C ?S ''mail'' ''mail'' ?dflt [] = (Inr \<lparr>rc_concurrency = Some 4, rc_state = Active\<rparr>, [])"
    by (simp add: config_run stored_runtime_default_def)
  have w: "set_queue_state ?R ?C ?S (\<lambda>d. d) ''mail'' Paused [] = (Inr (), ?d)"
    by (simp add: config_run k stored_def)
  have r': "runtime_queue_config ?R ?C ?S ''mail'' ''mail'' ?dflt ?d = (Inr \<lparr>rc_concurrency = Some 4, rc_state = Paused\<rparr>, ?d)"
    by (simp add: config_run k t with_defaults_def runtime_config_default_def stored_runtime_default_def)
  from set_queue_state_contract [OF mem.redis_server_axioms net.json_codec_axioms r w r'] w r' show ?thesis by blast
qed

end
