(* ===== verification/Worker_Registry.thy ===== *)
theory Worker_Registry
  imports Queue_Config
begin

text \<open>
  The registry of workers, \<^verbatim>\<open>worker_registry.rs\<close>, and the registration container and queue
  filters of \<^verbatim>\<open>config.rs\<close>. The worker objects a factory builds are of any type \<open>'w\<close>; the
  application's context is of any type \<open>'c\<close>; the parser of cron expressions is a library and
  so an argument. A panic is \<open>None\<close>.
\<close>

section \<open>Factories\<close>

record 'w batch_build =
  bb_job :: "'w option"
  bb_invalid :: "(nat \<times> string) list"

text \<open>\<^verbatim>\<open>WorkerBatchConfig::new\<close> refuses an empty batch; the timeout is in nanoseconds.\<close>

record worker_batch_config =
  batch_size :: nat
  batch_timeout :: nat

definition worker_batch_config_new :: "nat \<Rightarrow> nat \<Rightarrow> worker_batch_config option" where
  "worker_batch_config_new n t = (if n = 0 then None else Some \<lparr>batch_size = n, batch_timeout = t\<rparr>)"

type_synonym ('c, 'w) job_factory_fn = "json \<Rightarrow> 'c \<Rightarrow> oxana_error + 'w"
type_synonym ('c, 'w) batch_factory_fn = "json list \<Rightarrow> 'c \<Rightarrow> oxana_error + 'w batch_build"
type_synonym cron_factory_fn = "string \<Rightarrow> string \<Rightarrow> int \<Rightarrow> bool \<Rightarrow> oxana_error + (job_envelope \<times> bool)"

text \<open>
  The generic factories, over \<^verbatim>\<open>serde_json::from_value\<close> at the job type (an error text or a
  job), the constructors of the bound jobs and the worker made from the context.
\<close>

definition job_factory :: "(json \<Rightarrow> string + 'j) \<Rightarrow> ('c \<Rightarrow> 'j \<Rightarrow> 'w) \<Rightarrow> ('c, 'w) job_factory_fn" where
  "job_factory from_value bound v ctx = (case from_value v of
       Inl _ \<Rightarrow> Inl JsonError
     | Inr j \<Rightarrow> Inr (bound ctx j))"

fun split_values :: "(json \<Rightarrow> string + 'j) \<Rightarrow> nat \<Rightarrow> json list \<Rightarrow> 'j list \<times> (nat \<times> string) list" where
  "split_values from_value index [] = ([], [])"
| "split_values from_value index (v # vs) =
     (let (jobs, invalid) = split_values from_value (index + 1) vs in
      case from_value v of
        Inr j \<Rightarrow> (j # jobs, invalid)
      | Inl er \<Rightarrow> (jobs, (index, er) # invalid))"

definition job_batch_factory ::
    "(json \<Rightarrow> string + 'j) \<Rightarrow> ('c \<Rightarrow> 'j list \<Rightarrow> 'w) \<Rightarrow> ('c, 'w) batch_factory_fn" where
  "job_batch_factory from_value bound_batch vs ctx =
     (let (jobs, invalid) = split_values from_value 0 vs in
      if jobs = [] then Inr \<lparr>bb_job = None, bb_invalid = invalid\<rparr>
      else Inr \<lparr>bb_job = Some (bound_batch ctx jobs), bb_invalid = invalid\<rparr>)"

section \<open>The registry\<close>

record 's cron_job =
  cron_schedule :: 's
  cron_queue_key :: string
  cron_resurrect :: bool

datatype worker_config_kind =
    Normal
  | Cron string string bool

record on_demand_registration =
  args_template :: json
  enqueue_factory :: "string \<Rightarrow> json \<Rightarrow> oxana_error + job_envelope"

record ('c, 'w) worker_config =
  wc_name :: string
  wc_legacy_names :: "string list"
  wc_factory :: "('c, 'w) job_factory_fn"
  wc_batch_factory :: "('c, 'w) batch_factory_fn"
  wc_batch_config :: "worker_batch_config option"
  wc_on_demand :: "on_demand_registration option"
  wc_kind :: worker_config_kind

record ('c, 'w) worker_factories =
  factory :: "('c, 'w) job_factory_fn"
  batch_factory :: "('c, 'w) batch_factory_fn"
  factories_batch_config :: "worker_batch_config option"
  cron_factory :: "cron_factory_fn option"

record ('c, 'w, 's) worker_registry =
  jobs :: "string \<rightharpoonup> ('c, 'w) worker_factories"
  aliases :: "string \<rightharpoonup> string"
  schedules :: "string \<rightharpoonup> 's cron_job"
  on_demand_jobs :: "string \<rightharpoonup> on_demand_registration"

definition registry_new :: "('c, 'w, 's) worker_registry" where
  "registry_new = \<lparr>jobs = Map.empty, aliases = Map.empty, schedules = Map.empty, on_demand_jobs = Map.empty\<rparr>"

definition register_legacy_name ::
    "string \<Rightarrow> string \<Rightarrow> ('c, 'w, 's) worker_registry \<Rightarrow> ('c, 'w, 's) worker_registry" where
  "register_legacy_name canonical legacy reg =
     (if legacy = canonical then reg
      else if jobs reg legacy \<noteq> None then reg
      else case aliases reg legacy of
             Some _ \<Rightarrow> reg
           | None \<Rightarrow> reg\<lparr>aliases := (aliases reg)(legacy \<mapsto> canonical)\<rparr>)"

definition register_worker_with ::
    "(string \<Rightarrow> 's option) \<Rightarrow> ('c, 'w) worker_config \<Rightarrow> cron_factory_fn option
       \<Rightarrow> ('c, 'w, 's) worker_registry \<Rightarrow> ('c, 'w, 's) worker_registry option" where
  "register_worker_with parse_schedule cfg cron reg =
     (if cron = None \<and> wc_kind cfg \<noteq> Normal then None
      else
        let name = wc_name cfg;
            fs = \<lparr>factory = wc_factory cfg, batch_factory = wc_batch_factory cfg,
                  factories_batch_config = wc_batch_config cfg, cron_factory = cron\<rparr>;
            reg1 = reg\<lparr>aliases := (aliases reg)(name := None),
                       on_demand_jobs := (on_demand_jobs reg)(name := wc_on_demand cfg),
                       jobs := (jobs reg)(name \<mapsto> fs)\<rparr>
        in map_option (fold (register_legacy_name name) (wc_legacy_names cfg))
             (case wc_kind cfg of
                Normal \<Rightarrow> Some (reg1\<lparr>schedules := (schedules reg)(name := None)\<rparr>)
              | Cron schedule queue_key res \<Rightarrow>
                  (case parse_schedule schedule of
                     None \<Rightarrow> None
                   | Some sch \<Rightarrow> Some (reg1\<lparr>schedules := (schedules reg)(name \<mapsto>
                       \<lparr>cron_schedule = sch, cron_queue_key = queue_key, cron_resurrect = res\<rparr>)\<rparr>))))"

definition resolve_name :: "('c, 'w, 's) worker_registry \<Rightarrow> string \<Rightarrow> string" where
  "resolve_name reg name =
     (if jobs reg name \<noteq> None then name
      else case aliases reg name of Some target \<Rightarrow> target | None \<Rightarrow> name)"

definition factories_for :: "('c, 'w, 's) worker_registry \<Rightarrow> string \<Rightarrow> ('c, 'w) worker_factories option" where
  "factories_for reg name = jobs reg (resolve_name reg name)"

definition batch_config :: "('c, 'w, 's) worker_registry \<Rightarrow> string \<Rightarrow> worker_batch_config option" where
  "batch_config reg name = Option.bind (factories_for reg name) factories_batch_config"

text \<open>\<open>show_error\<close> is the \<^verbatim>\<open>Display\<close> text of an error.\<close>

definition build ::
    "(oxana_error \<Rightarrow> string) \<Rightarrow> ('c, 'w, 's) worker_registry \<Rightarrow> string \<Rightarrow> json \<Rightarrow> 'c \<Rightarrow> oxana_error + 'w" where
  "build show_error reg name v ctx = (case factories_for reg name of
       None \<Rightarrow> Inl (GenericError (''Job type '' @ name @ '' not registered''))
     | Some fs \<Rightarrow> (case factory fs v ctx of
           Inr w \<Rightarrow> Inr w
         | Inl e \<Rightarrow> Inl (JobFactoryError (''Failed to build job '' @ name @ '': '' @ show_error e))))"

definition build_batch ::
    "(oxana_error \<Rightarrow> string) \<Rightarrow> ('c, 'w, 's) worker_registry \<Rightarrow> string \<Rightarrow> json list \<Rightarrow> 'c
       \<Rightarrow> oxana_error + 'w batch_build" where
  "build_batch show_error reg name vs ctx = (case factories_for reg name of
       None \<Rightarrow> Inl (GenericError (''Job type '' @ name @ '' not registered''))
     | Some fs \<Rightarrow> (case batch_factory fs vs ctx of
           Inr b \<Rightarrow> Inr b
         | Inl e \<Rightarrow> Inl (JobFactoryError (''Failed to build job batch '' @ name @ '': '' @ show_error e))))"

definition cron_envelope ::
    "('c, 'w, 's) worker_registry \<Rightarrow> string \<Rightarrow> int \<Rightarrow> (oxana_error + (job_envelope \<times> bool)) option" where
  "cron_envelope reg name scheduled = (case schedules reg name of
       None \<Rightarrow> Some (Inl (GenericError (''Cron job type '' @ name @ '' not registered'')))
     | Some cj \<Rightarrow> (case Option.bind (factories_for reg name) cron_factory of
           None \<Rightarrow> None
         | Some f \<Rightarrow> Some (f (cron_queue_key cj) (name @ ''-'' @ show_int scheduled) scheduled (cron_resurrect cj))))"

section \<open>Queue registration and filters\<close>

text \<open>
  A \<^verbatim>\<open>HashSet<QueueConfig>\<close> as a list without two equal configurations.
\<close>

definition contains_queue :: "queue_config \<Rightarrow> queue_config list \<Rightarrow> bool" where
  "contains_queue q qs = list_ex (config_eq q) qs"

definition register_queue_with :: "queue_config \<Rightarrow> queue_config list \<Rightarrow> queue_config list" where
  "register_queue_with q qs = q # filter (\<lambda>q'. \<not> config_eq q q') qs"

definition register_default_queue :: "queue_config \<Rightarrow> queue_config list \<Rightarrow> queue_config list" where
  "register_default_queue q qs = (if contains_queue q qs then qs else q # qs)"

record queue_filters =
  queue_allowlist :: "queue_config list"
  queue_denylist :: "queue_config list"

definition runs_queue :: "queue_filters \<Rightarrow> queue_config \<Rightarrow> bool" where
  "runs_queue F q \<longleftrightarrow> (queue_allowlist F = [] \<or> contains_queue q (queue_allowlist F)) \<and>
     \<not> contains_queue q (queue_denylist F)"

definition runs_static_queue :: "queue_filters \<Rightarrow> string \<Rightarrow> bool" where
  "runs_static_queue F key \<longleftrightarrow>
     (queue_allowlist F = [] \<or> list_ex (\<lambda>q. static_key q = Some key) (queue_allowlist F)) \<and>
     \<not> list_ex (\<lambda>q. static_key q = Some key) (queue_denylist F)"

section \<open>Lemmas\<close>

text \<open>
  The registry invariant: no alias shadows or is a registered name, every alias points at a
  registered worker, every scheduled worker is registered with a typed envelope factory.
\<close>

definition registry_inv :: "('c, 'w, 's) worker_registry \<Rightarrow> bool" where
  "registry_inv reg \<longleftrightarrow> dom (aliases reg) \<inter> dom (jobs reg) = {} \<and> ran (aliases reg) \<subseteq> dom (jobs reg) \<and>
     (\<forall>n\<in>dom (schedules reg). \<exists>fs. jobs reg n = Some fs \<and> cron_factory fs \<noteq> None)"

lemma legacy_frame:
  "jobs (register_legacy_name n l reg) = jobs reg"
  "schedules (register_legacy_name n l reg) = schedules reg"
  "on_demand_jobs (register_legacy_name n l reg) = on_demand_jobs reg"
  by (simp_all add: register_legacy_name_def split: option.split)

lemma fold_legacy_frame:
  "jobs (fold (register_legacy_name n) ls reg) = jobs reg"
  "schedules (fold (register_legacy_name n) ls reg) = schedules reg"
  by (induction ls arbitrary: reg) (simp_all add: legacy_frame)

lemma legacy_inv: "registry_inv reg \<Longrightarrow> jobs reg n \<noteq> None \<Longrightarrow> registry_inv (register_legacy_name n l reg)"
  by (auto simp: registry_inv_def register_legacy_name_def ran_def split: option.split)

lemma fold_legacy_inv:
  "registry_inv reg \<Longrightarrow> jobs reg n \<noteq> None \<Longrightarrow> registry_inv (fold (register_legacy_name n) ls reg)"
  by (induction ls arbitrary: reg) (simp_all add: legacy_inv legacy_frame)

lemma fold_legacy_aliases:
  "aliases reg a = Some t \<Longrightarrow> aliases (fold (register_legacy_name n) ls reg) a = Some t"
proof (induction ls arbitrary: reg)
  case (Cons l ls)
  have "aliases (register_legacy_name n l reg) a = Some t"
    using Cons.prems by (auto simp: register_legacy_name_def split: option.split)
  then show ?case using Cons.IH by simp
qed simp

text \<open>A registration is one update of the maps followed by the legacy names.\<close>

lemma register_shape:
  assumes "register_worker_with P cfg cron reg = Some reg'"
  obtains reg1 where "reg' = fold (register_legacy_name (wc_name cfg)) (wc_legacy_names cfg) reg1"
    "jobs reg1 = (jobs reg)(wc_name cfg \<mapsto> \<lparr>factory = wc_factory cfg, batch_factory = wc_batch_factory cfg,
        factories_batch_config = wc_batch_config cfg, cron_factory = cron\<rparr>)"
    "aliases reg1 = (aliases reg)(wc_name cfg := None)"
    "dom (schedules reg1) \<subseteq> insert (wc_name cfg) (dom (schedules reg))"
    "wc_name cfg \<in> dom (schedules reg1) \<longrightarrow> cron \<noteq> None"
proof -
  let ?r = "reg\<lparr>aliases := (aliases reg)(wc_name cfg := None),
    on_demand_jobs := (on_demand_jobs reg)(wc_name cfg := wc_on_demand cfg),
    jobs := (jobs reg)(wc_name cfg \<mapsto> \<lparr>factory = wc_factory cfg, batch_factory = wc_batch_factory cfg,
        factories_batch_config = wc_batch_config cfg, cron_factory = cron\<rparr>)\<rparr>"
  show thesis
  proof (cases "wc_kind cfg")
    case Normal
    show thesis
      by (rule that [of "?r\<lparr>schedules := (schedules reg)(wc_name cfg := None)\<rparr>"])
        (use assms Normal in \<open>auto simp: register_worker_with_def Let_def\<close>)
  next
    case (Cron schedule queue_key res)
    with assms obtain sch where sch: "P schedule = Some sch" and c: "cron \<noteq> None"
      by (auto simp: register_worker_with_def Let_def split: if_splits option.splits)
    show thesis
      by (rule that [of "?r\<lparr>schedules := (schedules reg)(wc_name cfg \<mapsto>
            \<lparr>cron_schedule = sch, cron_queue_key = queue_key, cron_resurrect = res\<rparr>)\<rparr>"])
        (use assms Cron sch c in \<open>auto simp: register_worker_with_def Let_def\<close>)
  qed
qed

lemma register_inv:
  assumes "registry_inv reg" and "register_worker_with P cfg cron reg = Some reg'"
  shows "registry_inv reg'"
  using assms(2)
proof (rule register_shape)
  fix reg1
  assume r: "reg' = fold (register_legacy_name (wc_name cfg)) (wc_legacy_names cfg) reg1"
    and j: "jobs reg1 = (jobs reg)(wc_name cfg \<mapsto> \<lparr>factory = wc_factory cfg, batch_factory = wc_batch_factory cfg,
        factories_batch_config = wc_batch_config cfg, cron_factory = cron\<rparr>)"
    and a: "aliases reg1 = (aliases reg)(wc_name cfg := None)"
    and s: "dom (schedules reg1) \<subseteq> insert (wc_name cfg) (dom (schedules reg))"
      "wc_name cfg \<in> dom (schedules reg1) \<longrightarrow> cron \<noteq> None"
  have "\<exists>fs. jobs reg1 n = Some fs \<and> cron_factory fs \<noteq> None" if "n \<in> dom (schedules reg1)" for n
  proof (cases "n = wc_name cfg")
    case True
    then show ?thesis using s(2) that by (simp add: j)
  next
    case False
    then have "n \<in> dom (schedules reg)" using s(1) that by blast
    with assms(1) False show ?thesis by (auto simp: j registry_inv_def)
  qed
  moreover have "dom (aliases reg1) \<inter> dom (jobs reg1) = {}" "ran (aliases reg1) \<subseteq> dom (jobs reg1)"
    using assms(1) by (auto simp: j a registry_inv_def ran_def)
  ultimately have "registry_inv reg1" by (simp add: registry_inv_def)
  then show ?thesis unfolding r by (rule fold_legacy_inv) (simp add: j)
qed

lemma register_resolves:
  assumes "registry_inv reg" and "register_worker_with P cfg cron reg = Some reg'"
    and "factories_for reg a \<noteq> None"
  shows "factories_for reg' a \<noteq> None"
  using assms(2)
proof (rule register_shape)
  fix reg1
  assume r: "reg' = fold (register_legacy_name (wc_name cfg)) (wc_legacy_names cfg) reg1"
    and j: "jobs reg1 = (jobs reg)(wc_name cfg \<mapsto> \<lparr>factory = wc_factory cfg, batch_factory = wc_batch_factory cfg,
        factories_batch_config = wc_batch_config cfg, cron_factory = cron\<rparr>)"
    and al: "aliases reg1 = (aliases reg)(wc_name cfg := None)"
  have jr: "jobs reg' = jobs reg1" by (simp add: r fold_legacy_frame)
  show ?thesis
  proof (cases "jobs reg1 a")
    case (Some x)
    then show ?thesis by (simp add: factories_for_def resolve_name_def jr)
  next
    case None
    then have na: "a \<noteq> wc_name cfg" "jobs reg a = None" by (auto simp: j split: if_splits)
    with assms(3) obtain t where t: "aliases reg a = Some t" "jobs reg t \<noteq> None"
      by (auto simp: factories_for_def resolve_name_def split: option.splits if_splits)
    then have "aliases reg1 a = Some t" using na by (simp add: al)
    then have "aliases reg' a = Some t" unfolding r by (rule fold_legacy_aliases)
    with None t(2) show ?thesis by (auto simp: factories_for_def resolve_name_def jr j)
  qed
qed

fun register_all ::
    "(string \<Rightarrow> 's option) \<Rightarrow> (('c, 'w) worker_config \<times> cron_factory_fn option) list
       \<Rightarrow> ('c, 'w, 's) worker_registry \<Rightarrow> ('c, 'w, 's) worker_registry option" where
  "register_all P [] reg = Some reg"
| "register_all P ((cfg, cron) # rest) reg = Option.bind (register_worker_with P cfg cron reg) (register_all P rest)"

lemma register_all_inv:
  "registry_inv reg \<Longrightarrow> register_all P cs reg = Some reg' \<Longrightarrow> registry_inv reg'"
  by (induction P cs reg rule: register_all.induct) (auto simp: bind_eq_Some_conv dest: register_inv)

lemma registry_inv_new: "registry_inv registry_new"
  by (simp add: registry_inv_def registry_new_def)

lemma split_values_spec:
  "split_values fv n vs =
     (map projr (filter (\<lambda>r. \<not> isl r) (map fv vs)),
      map (\<lambda>(i, r). (i, projl r)) (filter (\<lambda>(i, r). isl r) (zip [n..<n + length vs] (map fv vs))))"
proof (induction vs arbitrary: n)
  case (Cons v vs)
  have "[n..<n + length (v # vs)] = n # [n + 1..<n + 1 + length vs]" by (simp add: upt_rec)
  with Cons.IH [of "n + 1"] show ?case by (cases "fv v") (simp_all add: Let_def)
qed simp

section \<open>Properties\<close>

text \<open>
  The registry stays consistent under any registrations: a registered name always
  resolves to itself, a legacy alias to a registered worker, every name that could be
  resolved before a registration can be resolved after it, and building the envelope of a
  scheduled job never meets a worker without an envelope factory.
\<close>

theorem registry_sound:
  assumes "register_all P cs registry_new = Some reg"
  shows "(\<forall>n\<in>dom (jobs reg). resolve_name reg n = n) \<and>
    (\<forall>a\<in>dom (aliases reg). factories_for reg a \<noteq> None) \<and>
    (\<forall>n t. cron_envelope reg n t \<noteq> None) \<and>
    (\<forall>cfg cron reg' a. register_worker_with P cfg cron reg = Some reg' \<and> factories_for reg a \<noteq> None \<longrightarrow>
       factories_for reg' a \<noteq> None)"
proof -
  have inv: "registry_inv reg" using register_all_inv [OF registry_inv_new assms] .
  have "factories_for reg a \<noteq> None" if "a \<in> dom (aliases reg)" for a
  proof -
    from that obtain t where t: "aliases reg a = Some t" by blast
    then have "jobs reg a = None" using inv by (auto simp: registry_inv_def)
    moreover have "t \<in> ran (aliases reg)" using t by (rule ranI)
    then have "jobs reg t \<noteq> None" using inv by (auto simp: registry_inv_def)
    ultimately show ?thesis using t by (simp add: factories_for_def resolve_name_def)
  qed
  moreover have "cron_envelope reg n t \<noteq> None" for n t
  proof (cases "schedules reg n")
    case (Some cj)
    then obtain fs where "jobs reg n = Some fs" "cron_factory fs \<noteq> None"
      using inv unfolding registry_inv_def by blast
    with Some show ?thesis by (auto simp: cron_envelope_def factories_for_def resolve_name_def)
  qed (simp add: cron_envelope_def)
  ultimately show ?thesis using register_resolves [OF inv] by (auto simp: resolve_name_def)
qed

section \<open>Witnesses\<close>

definition unit_worker :: "string \<Rightarrow> string list \<Rightarrow> (unit, unit) worker_config" where
  "unit_worker name legacy = \<lparr>wc_name = name, wc_legacy_names = legacy,
     wc_factory = (\<lambda>_ _. Inr ()), wc_batch_factory = (\<lambda>_ _. Inr \<lparr>bb_job = Some (), bb_invalid = []\<rparr>),
     wc_batch_config = None, wc_on_demand = None, wc_kind = Normal\<rparr>"

theorem registry_sound_witness:
  "\<exists>reg. register_all (\<lambda>s. Some s) [(unit_worker ''Mail'' [''OldMail''], None), (unit_worker ''Push'' [''OldMail''], None)]
      registry_new = Some reg \<and> factories_for reg ''OldMail'' \<noteq> None \<and> resolve_name reg ''OldMail'' = ''Mail''"
proof -
  let ?cs = "[(unit_worker ''Mail'' [''OldMail''], None), (unit_worker ''Push'' [''OldMail''], None)]"
  have "\<exists>reg. register_all (\<lambda>s. Some s) ?cs registry_new = Some reg \<and>
      aliases reg ''OldMail'' = Some ''Mail'' \<and> jobs reg ''OldMail'' = None"
    by (simp add: unit_worker_def register_worker_with_def register_legacy_name_def registry_new_def Let_def)
  then obtain reg where reg: "register_all (\<lambda>s. Some s) ?cs registry_new = Some reg"
    and a: "aliases reg ''OldMail'' = Some ''Mail''" and j: "jobs reg ''OldMail'' = None" by blast
  from registry_sound [OF reg] a have "factories_for reg ''OldMail'' \<noteq> None" by auto
  with reg a j show ?thesis by (simp add: resolve_name_def)
qed

end
