(* ===== verification/Throttler.thy ===== *)
theory Throttler
  imports Queue_Config
begin

text \<open>
  The rate limiter of throttled queues, \<^verbatim>\<open>throttler.rs\<close>: a sorted set of the consumed units
  of the last window, scored with their times in microseconds. The clock readings and the
  member identifiers are arguments. The time to live that \<^verbatim>\<open>consume\<close> puts on the set is
  left out: a set that lives to its expiry holds only units that the next reading removes
  anyway. The window in microseconds is taken to fit \<^verbatim>\<open>i64\<close>.
\<close>

section \<open>Commands\<close>

definition zremrangebyscore :: "'d redis \<Rightarrow> string \<Rightarrow> int \<Rightarrow> int \<Rightarrow> ('d, unit) op" where
  "zremrangebyscore R k lo hi = writing R TZset k (\<lambda>d.
     fold (\<lambda>(m, s) d. if lo \<le> s \<and> s \<le> hi then r_zrem R d k m else d) (r_zrange R d k) d)"

text \<open>\<^verbatim>\<open>ZADD\<close> of several members replies with the number of new ones.\<close>

definition zadd_multiple :: "'d redis \<Rightarrow> string \<Rightarrow> (int \<times> string) list \<Rightarrow> ('d, nat) op" where
  "zadd_multiple R k items = (\<lambda>d.
     if fits R d k TZset
     then (Inr (length (filter (\<lambda>m. r_zscore R d k m = None) (remdups (map snd items)))),
           fold (\<lambda>(s, m) d. r_zadd R d k m s) items d)
     else (Inl wrong_type, d))"

section \<open>The throttler\<close>

record throttler =
  thr_key :: string
  thr_limit :: nat
  thr_window_ms :: int

record throttler_state =
  requests :: nat
  is_allowed :: bool
  throttled_for :: "int option"

definition build_key :: "string \<Rightarrow> string" where
  "build_key key = ''oxana:throttler:'' @ key"

definition throttler_new :: "string \<Rightarrow> nat \<Rightarrow> int \<Rightarrow> throttler" where
  "throttler_new key lim window = \<lparr>thr_key = build_key key, thr_limit = lim, thr_window_ms = window\<rparr>"

definition window_micros :: "throttler \<Rightarrow> int" where
  "window_micros T = thr_window_ms T * 1000"

definition state_w_conn :: "'d redis \<Rightarrow> throttler \<Rightarrow> int \<Rightarrow> ('d, throttler_state) op" where
  "state_w_conn R T now =
     seq (zremrangebyscore R (thr_key T) 0 (now - window_micros T))
       (bind (zrange_withscores R (thr_key T)) (\<lambda>members.
          let request_count = length members;
              accurate_window_start = (case members of [] \<Rightarrow> None | (_, score) # _ \<Rightarrow> Some score);
              allowed = (request_count < thr_limit T);
              throttled_for_micros = (if allowed then None
                else map_option (\<lambda>start. now - start + window_micros T) accurate_window_start)
          in return \<lparr>requests = request_count, is_allowed = allowed,
               throttled_for = map_option (\<lambda>micros. trunc_div micros 1000 + 1) throttled_for_micros\<rparr>))"

definition throttler_state :: "'d redis \<Rightarrow> throttler \<Rightarrow> int \<Rightarrow> ('d, throttler_state) op" where
  "throttler_state R T now = with_connection R (state_w_conn R T now)"

text \<open>\<open>current_time\<close> is read before \<open>now\<close>; \<open>uuid\<close> numbers the fresh member identifiers.\<close>

definition consume ::
    "'d redis \<Rightarrow> throttler \<Rightarrow> int \<Rightarrow> int \<Rightarrow> (nat \<Rightarrow> string) \<Rightarrow> nat option \<Rightarrow> ('d, throttler_state) op" where
  "consume R T current_time now uuid cost =
     with_connection R
       (if current_time < 0 then fail TryFromIntError
        else bind (state_w_conn R T now) (\<lambda>st.
          if is_allowed st then
            (let effective_cost = (case cost of Some c \<Rightarrow> c | None \<Rightarrow> 1) in
             if effective_cost = 0 then return st
             else bind (zadd_multiple R (thr_key T) (map (\<lambda>i. (current_time, uuid i)) [0..<effective_cost]))
                    (\<lambda>updated. return (st\<lparr>requests := requests st + updated\<rparr>)))
          else return st))"

section \<open>A sliding-window log\<close>

text \<open>
  The reference: a unit is admitted when fewer than the limit were admitted within the
  window before it. \<open>log\<close> holds the times of the units admitted so far.
\<close>

fun window_log :: "nat \<Rightarrow> int \<Rightarrow> int list \<Rightarrow> (int \<times> int) list \<Rightarrow> int list" where
  "window_log lim w log [] = []"
| "window_log lim w log ((current_time, now) # rest) =
     (if length (filter (\<lambda>a. now - w < a) log) < lim
      then current_time # window_log lim w (current_time # log) rest
      else window_log lim w log rest)"

text \<open>The times of the units a sequence of unit-cost calls of \<^verbatim>\<open>consume\<close> admits.\<close>

fun admissions :: "'d redis \<Rightarrow> throttler \<Rightarrow> (int \<times> int \<times> string) list \<Rightarrow> ('d, int list) op" where
  "admissions R T [] = return []"
| "admissions R T ((current_time, now, u) # calls) =
     bind (consume R T current_time now (\<lambda>_. u) None) (\<lambda>st.
     bind (admissions R T calls) (\<lambda>rest.
       return (if is_allowed st then current_time # rest else rest)))"

lemma window_log_bounded:
  assumes "\<And>x. x \<ge> lo \<Longrightarrow> length (filter (\<lambda>a. x < a) log) \<le> lim"
    and "cs \<noteq> []" and "sorted (map snd cs)" and "\<And>c. c \<in> set cs \<Longrightarrow> lo \<le> snd c - w"
  shows "length (filter (\<lambda>a. snd (last cs) - w < a) (log @ window_log lim w log cs)) \<le> lim"
  using assms
proof (induction cs arbitrary: log lo)
  case (Cons c cs)
  obtain t1 t2 where c: "c = (t1, t2)" by (cases c)
  let ?log = "if length (filter (\<lambda>a. t2 - w < a) log) < lim then t1 # log else log"
  have lo: "lo \<le> t2 - w" using Cons.prems(4) [of c] c by simp
  have step: "length (filter (\<lambda>a. x < a) ?log) \<le> lim" if "x \<ge> t2 - w" for x
  proof -
    have "length (filter (\<lambda>a. x < a) log) \<le> length (filter (\<lambda>a. t2 - w < a) log)"
      using that by (induction log) auto
    then show ?thesis using Cons.prems(1) [of x] that lo by auto
  qed
  have perm: "length (filter P (log @ window_log lim w log (c # cs))) =
      length (filter P (?log @ window_log lim w ?log cs))" for P
    by (simp add: c)
  show ?case
  proof (cases "cs = []")
    case True
    with perm [of "\<lambda>a. t2 - w < a"] step [of "t2 - w"] c show ?thesis by simp
  next
    case False
    have "length (filter (\<lambda>a. snd (last cs) - w < a) (?log @ window_log lim w ?log cs)) \<le> lim"
      by (rule Cons.IH [of "t2 - w", OF step]) (use False Cons.prems(3) c in auto)
    with perm [of "\<lambda>a. snd (last cs) - w < a"] False show ?thesis by simp
  qed
qed simp

section \<open>Lemmas\<close>

text \<open>The set holds exactly the admitted units that some later window can still contain.\<close>

definition logged :: "'d redis \<Rightarrow> string \<Rightarrow> int \<Rightarrow> int list \<Rightarrow> string set \<Rightarrow> 'd \<Rightarrow> bool" where
  "logged R k lo log used d \<longleftrightarrow> fits R d k TZset \<and> dom (r_zscore R d k) \<subseteq> used \<and>
     (\<forall>m s. r_zscore R d k m = Some s \<longrightarrow> 0 \<le> s) \<and>
     (\<forall>x\<ge>lo. card {m. \<exists>s. r_zscore R d k m = Some s \<and> x < s} = length (filter (\<lambda>a. x < a) log))"

context redis_server
begin

lemma fold_zrem:
  assumes "fits R d k TZset"
  shows "fits R (fold (\<lambda>(m, s) d. if P s then r_zrem R d k m else d) items d) k TZset \<and>
    r_lrange R (fold (\<lambda>(m, s) d. if P s then r_zrem R d k m else d) items d) = r_lrange R d \<and>
    r_zscore R (fold (\<lambda>(m, s) d. if P s then r_zrem R d k m else d) items d) k =
      (\<lambda>m. if \<exists>s. (m, s) \<in> set items \<and> P s then None else r_zscore R d k m)"
  using assms
proof (induction items arbitrary: d)
  case (Cons x items)
  obtain m s where x: "x = (m, s)" by (cases x)
  show ?case
  proof (cases "P s")
    case False
    with Cons x show ?thesis by (auto simp: fun_eq_iff)
  next
    case True
    have "fits R (r_zrem R d k m) k TZset" using Cons.prems by (rule zrem_own)
    from Cons.IH [OF this] True x Cons.prems show ?thesis
      by (auto simp: fun_eq_iff zrem_l zrem_z)
  qed
qed (auto simp: fun_eq_iff)

lemma fold_zadd:
  assumes "fits R d k TZset"
  shows "r_lrange R (fold (\<lambda>(s, m) d. r_zadd R d k m s) items d) = r_lrange R d"
  using assms
  by (induction items arbitrary: d) (auto simp: zadd_l fits_zadd)

lemma finite_scores: "finite (dom (r_zscore R d k))"
  by (metis zrange_map finite_dom_map_of)

lemma zrange_length: "length (r_zrange R d k) = card (dom (r_zscore R d k))"
proof -
  have "dom (r_zscore R d k) = set (map fst (r_zrange R d k))"
    by (simp add: zrange_map [symmetric] dom_map_of_conv_image_fst)
  then show ?thesis by (metis distinct_card length_map zrange_distinct)
qed

text \<open>Reading the state first drops what left the window.\<close>

lemma zremrange_scores:
  assumes "fits R d k TZset"
  shows "\<exists>d'. zremrangebyscore R k lo hi d = (Inr (), d') \<and> fits R d' k TZset \<and> r_lrange R d' = r_lrange R d \<and>
    r_zscore R d' k = (\<lambda>m. case r_zscore R d k m of None \<Rightarrow> None
       | Some s \<Rightarrow> if lo \<le> s \<and> s \<le> hi then None else Some s)"
proof -
  have "(\<lambda>m. if \<exists>s. (m, s) \<in> set (r_zrange R d k) \<and> lo \<le> s \<and> s \<le> hi then None else r_zscore R d k m) =
      (\<lambda>m. case r_zscore R d k m of None \<Rightarrow> None | Some s \<Rightarrow> if lo \<le> s \<and> s \<le> hi then None else Some s)"
    by (auto simp: fun_eq_iff zrange_mem split: option.splits)
  with fold_zrem [OF assms, of "\<lambda>s. lo \<le> s \<and> s \<le> hi" "r_zrange R d k"] assms show ?thesis
    by (simp add: zremrangebyscore_def writing_def)
qed

lemma state_spec:
  assumes "fits R d (thr_key T) TZset"
  shows "\<exists>d' st. state_w_conn R T now d = (Inr st, d') \<and> fits R d' (thr_key T) TZset \<and>
    r_lrange R d' = r_lrange R d \<and>
    r_zscore R d' (thr_key T) = (\<lambda>m. case r_zscore R d (thr_key T) m of None \<Rightarrow> None
       | Some s \<Rightarrow> if 0 \<le> s \<and> s \<le> now - window_micros T then None else Some s) \<and>
    requests st = card (dom (r_zscore R d' (thr_key T))) \<and>
    is_allowed st = (requests st < thr_limit T) \<and>
    throttled_for st = (if is_allowed st then None
      else map_option (\<lambda>(m, s). trunc_div (now - s + window_micros T) 1000 + 1)
        (case r_zrange R d' (thr_key T) of [] \<Rightarrow> None | x # _ \<Rightarrow> Some x))"
proof -
  obtain d' where "zremrangebyscore R (thr_key T) 0 (now - window_micros T) d = (Inr (), d')"
    and "fits R d' (thr_key T) TZset" and "r_lrange R d' = r_lrange R d"
    and "r_zscore R d' (thr_key T) = (\<lambda>m. case r_zscore R d (thr_key T) m of None \<Rightarrow> None
       | Some s \<Rightarrow> if 0 \<le> s \<and> s \<le> now - window_micros T then None else Some s)"
    using zremrange_scores [OF assms] by blast
  then show ?thesis
    by (auto simp: state_w_conn_def seq_def bind_def zrange_withscores_def reading_def Let_def
        zrange_length [symmetric] split: list.splits)
qed

lemma logged_state:
  assumes "logged R (thr_key T) lo log used d" and "lo \<le> now - window_micros T"
  shows "\<exists>d' st. state_w_conn R T now d = (Inr st, d') \<and>
    logged R (thr_key T) (now - window_micros T) log used d' \<and>
    is_allowed st = (length (filter (\<lambda>a. now - window_micros T < a) log) < thr_limit T)"
proof -
  let ?k = "thr_key T" and ?b = "now - window_micros T"
  obtain d' st where st: "state_w_conn R T now d = (Inr st, d')" "fits R d' ?k TZset"
    "r_zscore R d' ?k = (\<lambda>m. case r_zscore R d ?k m of None \<Rightarrow> None
       | Some s \<Rightarrow> if 0 \<le> s \<and> s \<le> ?b then None else Some s)"
    "requests st = card (dom (r_zscore R d' ?k))" "is_allowed st = (requests st < thr_limit T)"
    using state_spec [of d T now] assms(1) by (auto simp: logged_def)
  have kept: "r_zscore R d' ?k m = Some s \<longleftrightarrow> r_zscore R d ?k m = Some s \<and> ?b < s" for m s
    using assms(1) by (auto simp: st(3) logged_def split: option.splits)
  have "dom (r_zscore R d' ?k) = {m. \<exists>s. r_zscore R d ?k m = Some s \<and> ?b < s}" using kept by auto
  with st(4) assms have n: "requests st = length (filter (\<lambda>a. ?b < a) log)" by (simp add: logged_def)
  have "{m. \<exists>s. r_zscore R d' ?k m = Some s \<and> x < s} = {m. \<exists>s. r_zscore R d ?k m = Some s \<and> x < s}" if "x \<ge> ?b" for x
    using that kept by force
  then have "logged R ?k ?b log used d'"
    using assms st(2) kept by (auto simp: logged_def)
  with st(1,5) n show ?thesis by auto
qed

lemma logged_admit:
  assumes "logged R k lo log used d" and "u \<notin> used" and "0 \<le> t"
  shows "logged R k lo (t # log) (insert u used) (r_zadd R d k u t)"
proof -
  have f: "fits R d k TZset" using assms(1) by (simp add: logged_def)
  have z: "r_zscore R (r_zadd R d k u t) k = (r_zscore R d k)(u \<mapsto> t)" using f by (simp add: zadd_z)
  have new: "r_zscore R d k u = None" using assms(1,2) by (auto simp: logged_def)
  have "card {m. \<exists>s. ((r_zscore R d k)(u \<mapsto> t)) m = Some s \<and> x < s} =
      (if x < t then 1 else 0) + card {m. \<exists>s. r_zscore R d k m = Some s \<and> x < s}" for x
  proof -
    have fin: "finite {m. \<exists>s. r_zscore R d k m = Some s \<and> x < s}"
      by (rule finite_subset [OF _ finite_scores [of d k]]) auto
    have "{m. \<exists>s. ((r_zscore R d k)(u \<mapsto> t)) m = Some s \<and> x < s} =
        (if x < t then {u} else {}) \<union> {m. \<exists>s. r_zscore R d k m = Some s \<and> x < s}"
      using new by auto
    then show ?thesis using fin new by simp
  qed
  then show ?thesis using assms f by (auto simp: logged_def z fits_zadd split: if_splits)
qed

lemma admissions_log:
  assumes "\<And>d. r_get R d = None" and "logged R (thr_key T) lo log used d"
    and "sorted (map (\<lambda>(t1, t2, u). t2) calls)" and "\<forall>(t1, t2, u)\<in>set calls. 0 \<le> t1 \<and> lo \<le> t2 - window_micros T \<and> u \<notin> used"
    and "distinct (map (\<lambda>(t1, t2, u). u) calls)"
  shows "\<exists>d'. admissions R T calls d =
    (Inr (window_log (thr_limit T) (window_micros T) log (map (\<lambda>(t1, t2, u). (t1, t2)) calls)), d')"
  using assms(2-)
proof (induction calls arbitrary: d lo log used)
  case (Cons c calls)
  obtain t1 t2 u where c: "c = (t1, t2, u)" by (cases c)
  let ?k = "thr_key T" and ?b = "t2 - window_micros T"
  obtain d1 st where st: "state_w_conn R T t2 d = (Inr st, d1)" and lg: "logged R ?k ?b log used d1"
    and al: "is_allowed st = (length (filter (\<lambda>a. ?b < a) log) < thr_limit T)"
    using logged_state [OF Cons.prems(1), of t2] Cons.prems(3) c by auto
  have later: "sorted (map (\<lambda>(t1, t2, u). t2) calls)" "distinct (map (\<lambda>(t1, t2, u). u) calls)"
    using Cons.prems by (simp_all add: c)
  have fr: "\<forall>(t1', t2', u')\<in>set calls. 0 \<le> t1' \<and> ?b \<le> t2' - window_micros T \<and> u' \<notin> insert u used"
    using Cons.prems c by (fastforce simp: image_iff)
  have t1: "0 \<le> t1" "u \<notin> used" using Cons.prems(3) c by auto
  show ?case
  proof (cases "is_allowed st")
    case False
    obtain d' where "admissions R T calls d1 =
        (Inr (window_log (thr_limit T) (window_micros T) log (map (\<lambda>(t1, t2, u). (t1, t2)) calls)), d')"
      using Cons.IH [OF lg later(1) _ later(2)] fr by fastforce
    with False st t1 al c assms(1) show ?thesis by (simp add: consume_def with_connection_def bind_def)
  next
    case True
    have "fits R d1 ?k TZset" using lg by (simp add: logged_def)
    then have w: "\<exists>st'. is_allowed st' \<and> consume R T t1 t2 (\<lambda>_. u) None d = (Inr st', r_zadd R d1 ?k u t1)"
      using True st t1 assms(1) by (simp add: consume_def with_connection_def bind_def zadd_multiple_def)
    obtain d' where "admissions R T calls (r_zadd R d1 ?k u t1) =
        (Inr (window_log (thr_limit T) (window_micros T) (t1 # log) (map (\<lambda>(t1, t2, u). (t1, t2)) calls)), d')"
      using Cons.IH [OF logged_admit [OF lg t1(2,1)] later(1) fr later(2)] by blast
    with True w al c show ?thesis by (auto simp: bind_def)
  qed
qed simp

end

section \<open>Properties\<close>


text \<open>
  A throttled caller is told to wait for more than a whole window, however soon the
  oldest unit leaves it, and after that wait the window is empty and the next call is
  admitted.
\<close>

theorem throttled_wait_clears_window:
  assumes "redis_server R" and "fits R d (thr_key T) TZset"
    and "\<forall>m s. r_zscore R d (thr_key T) m = Some s \<longrightarrow> 0 \<le> s \<and> s \<le> now"
    and "0 < thr_limit T" and "0 < thr_window_ms T"
    and "state_w_conn R T now d = (Inr st, d')" and "\<not> is_allowed st"
    and "now + 1000 * the (throttled_for st) \<le> later"
  shows "throttled_for st \<noteq> None \<and> thr_window_ms T < the (throttled_for st) \<and>
    (\<exists>d'' st'. state_w_conn R T later d' = (Inr st', d'') \<and> is_allowed st' \<and> requests st' = 0)"
proof -
  let ?k = "thr_key T"
  have sp: "fits R d' ?k TZset"
    "r_zscore R d' ?k = (\<lambda>m. case r_zscore R d ?k m of None \<Rightarrow> None
       | Some s \<Rightarrow> if 0 \<le> s \<and> s \<le> now - window_micros T then None else Some s)"
    "requests st = card (dom (r_zscore R d' ?k))" "is_allowed st = (requests st < thr_limit T)"
    "throttled_for st = map_option (\<lambda>(m, s). trunc_div (now - s + window_micros T) 1000 + 1)
        (case r_zrange R d' ?k of [] \<Rightarrow> None | x # _ \<Rightarrow> Some x)"
    using redis_server.state_spec [OF assms(1,2), of now] assms(6,7) by auto
  have kept: "0 \<le> s \<and> s \<le> now" if "r_zscore R d' ?k m = Some s" for m s
    using that assms(3) by (auto simp: sp(2) split: option.splits if_splits)
  have "r_zrange R d' ?k \<noteq> []"
    using sp(3,4) assms(4,7) redis_server.zrange_length [OF assms(1), of d' ?k] by auto
  then obtain m s rest where z: "r_zrange R d' ?k = (m, s) # rest" by (metis list.exhaust surj_pair)
  then have s: "0 \<le> s" "s \<le> now" using kept redis_server.zrange_mem [OF assms(1), of m s d' ?k] by auto
  let ?x = "now - s + thr_window_ms T * 1000"
  have wait: "throttled_for st = Some (?x div 1000 + 1)"
    using s assms(5) by (simp add: sp(5) z window_micros_def trunc_div_nonneg)
  have "thr_window_ms T * 1000 \<le> ?x" using s by simp
  then have longer: "thr_window_ms T \<le> ?x div 1000" by linarith
  have "y < 1000 * (y div 1000 + 1)" for y :: int by presburger
  then have covers: "?x < 1000 * (?x div 1000 + 1)" by blast
  have none: "r_zscore R e' ?k = Map.empty"
    if "r_zscore R e' ?k = (\<lambda>m. case r_zscore R d' ?k m of None \<Rightarrow> None
       | Some s \<Rightarrow> if 0 \<le> s \<and> s \<le> later - window_micros T then None else Some s)" for e'
    using that kept covers assms(8) wait s
    by (fastforce simp: fun_eq_iff window_micros_def split: option.splits)
  obtain d'' st' where "state_w_conn R T later d' = (Inr st', d'')"
    and "requests st' = card (dom (r_zscore R d'' ?k))" "is_allowed st' = (requests st' < thr_limit T)"
    and "r_zscore R d'' ?k = (\<lambda>m. case r_zscore R d' ?k m of None \<Rightarrow> None
       | Some s \<Rightarrow> if 0 \<le> s \<and> s \<le> later - window_micros T then None else Some s)"
    using redis_server.state_spec [OF assms(1) sp(1), of later] by blast
  then show ?thesis using none [of d''] wait longer assms(4) by auto
qed

section \<open>Witnesses\<close>

definition sample_throttler :: throttler where
  "sample_throttler = throttler_new ''mail'' 1 10"

lemma sample_throttler_sel:
  "thr_key sample_throttler = ''oxana:throttler:mail''" "thr_limit sample_throttler = 1"
  "thr_window_ms sample_throttler = 10" "window_micros sample_throttler = 10000"
  by (simp_all add: sample_throttler_def throttler_new_def build_key_def window_micros_def)


theorem throttled_wait_clears_window_witness:
  "let d = [(''oxana:throttler:mail'', VZset [(''a'', 5)])] in
   \<exists>d'' st'. state_w_conn mem_redis sample_throttler 20004 d = (Inr st', d'') \<and> is_allowed st' \<and> requests st' = 0"
proof -
  let ?d = "[(''oxana:throttler:mail'', VZset [(''a'', 5)])]"
  have r: "state_w_conn mem_redis sample_throttler 8 ?d =
      (Inr \<lparr>requests = 1, is_allowed = False, throttled_for = Some 11\<rparr>, ?d)"
    by (simp add: state_w_conn_def zremrangebyscore_def sample_throttler_sel sample_run trunc_div_def)
  have "\<exists>d'' st'. state_w_conn mem_redis sample_throttler 20004 ?d = (Inr st', d'') \<and> is_allowed st' \<and> requests st' = 0"
    using throttled_wait_clears_window [OF mem.redis_server_axioms _ _ _ _ r, of 20004]
    by (simp add: sample_throttler_sel fits_def mem_defs)
  then show ?thesis by simp
qed

end
