(* ===== verification/Queue_Control.thy ===== *)
theory Queue_Control
  imports Queue_Config
begin

text \<open>
  The concurrency control of a queue, \<^verbatim>\<open>semaphores_map.rs\<close>: a counter of running jobs under a
  mutex, and \<^verbatim>\<open>tokio::sync::Notify\<close> to wake the dispatchers that wait for a free slot. The
  notifier is a library, so it is a parameter (\<open>notifier\<close>) with its documented behaviour as
  the locale \<open>notify_waiters_laws\<close>. The interleavings of the tasks are an inductive step
  relation whose steps are the code's critical sections: the mutex section of \<^verbatim>\<open>acquire\<close>,
  \<^verbatim>\<open>release\<close> and \<^verbatim>\<open>apply_config\<close>, and the notification that follows the latter two outside
  the mutex.
\<close>

section \<open>State and critical sections\<close>

record queue_control =
  ctl_concurrency :: nat
  ctl_active :: nat
  ctl_state :: queue_state

definition control_new :: "queue_runtime_config \<Rightarrow> queue_control" where
  "control_new rc =
     \<lparr>ctl_concurrency = (case rc_concurrency rc of Some n \<Rightarrow> n | None \<Rightarrow> 1),
      ctl_active = 0,
      ctl_state = rc_state rc\<rparr>"

text \<open>The mutex section of one turn of the loop of \<^verbatim>\<open>acquire\<close>.\<close>

definition admissible :: "queue_control \<Rightarrow> bool" where
  "admissible c \<longleftrightarrow> ctl_state c = Active \<and> ctl_active c < ctl_concurrency c"

definition try_acquire :: "queue_control \<Rightarrow> queue_control option" where
  "try_acquire c = (if admissible c then Some (c\<lparr>ctl_active := ctl_active c + 1\<rparr>) else None)"

definition apply_config :: "queue_runtime_config \<Rightarrow> queue_control \<Rightarrow> queue_control" where
  "apply_config rc c =
     c\<lparr>ctl_concurrency := (case rc_concurrency rc of Some n \<Rightarrow> n | None \<Rightarrow> ctl_concurrency c),
       ctl_state := rc_state rc\<rparr>"

text \<open>\<^verbatim>\<open>saturating_sub\<close> is subtraction on the naturals.\<close>

definition release :: "queue_control \<Rightarrow> queue_control" where
  "release c = c\<lparr>ctl_active := ctl_active c - 1\<rparr>"

text \<open>\<^verbatim>\<open>QueueControlsMap::get_or_create\<close>: the first configuration creates the control.\<close>

definition get_or_create ::
    "string \<Rightarrow> queue_runtime_config \<Rightarrow> (string \<rightharpoonup> queue_control) \<Rightarrow> queue_control \<times> (string \<rightharpoonup> queue_control)" where
  "get_or_create key rc m = (case m key of
       Some c \<Rightarrow> (c, m)
     | None \<Rightarrow> (control_new rc, m(key \<mapsto> control_new rc)))"

section \<open>The notifier\<close>

text \<open>
  \<open>n_token\<close> is \<^verbatim>\<open>notified()\<close>, \<open>n_signal\<close> is \<^verbatim>\<open>notify_waiters()\<close>, \<open>n_ready\<close> is whether awaiting
  the future completes.
\<close>

record ('n, 't) notifier =
  n_token :: "'n \<Rightarrow> 't"
  n_signal :: "'n \<Rightarrow> 'n"
  n_ready :: "'n \<Rightarrow> 't \<Rightarrow> bool"

text \<open>
  \<^verbatim>\<open>notify_waiters\<close> wakes every future created before the call, even one that has not been
  polled yet, and stores no permit for later ones.
\<close>

locale notify_waiters_laws =
  fixes N :: "('n, 't) notifier"
  assumes earlier_woken: "n_ready N ((n_signal N ^^ Suc k) n) (n_token N n)"
    and no_permit_stored: "\<not> n_ready N n (n_token N n)"

definition counting_notifier :: "(nat, nat) notifier" where
  "counting_notifier = \<lparr>n_token = (\<lambda>n. n), n_signal = Suc, n_ready = (\<lambda>n t. t < n)\<rparr>"

lemma Suc_funpow_add: "(Suc ^^ k) n = k + n"
  by (induction k) simp_all

interpretation counting: notify_waiters_laws counting_notifier
  by unfold_locales (simp_all add: counting_notifier_def Suc_funpow_add)

section \<open>Tasks\<close>

text \<open>
  A task is about to enter \<^verbatim>\<open>acquire\<close> (\<open>Idle\<close>), has created its \<^verbatim>\<open>notified\<close> future but not
  yet looked at the state (\<open>Checking\<close>), awaits the future (\<open>Waiting\<close>), or owns a permit
  (\<open>Holding\<close>). \<open>unsignalled\<close> counts the critical sections whose notification is still to
  come.
\<close>

datatype 't task = Idle | Checking 't | Waiting 't | Holding

record ('n, 't) gate =
  control :: queue_control
  signals :: 'n
  unsignalled :: nat
  tasks :: "'t task list"

definition holders :: "'t task list \<Rightarrow> nat" where
  "holders ts = length (filter (\<lambda>t. t = Holding) ts)"

inductive gate_step :: "('n, 't) notifier \<Rightarrow> ('n, 't) gate \<Rightarrow> ('n, 't) gate \<Rightarrow> bool" for N where
  Notified: "\<lbrakk>i < length (tasks g); tasks g ! i = Idle\<rbrakk> \<Longrightarrow>
    gate_step N g (g\<lparr>tasks := (tasks g)[i := Checking (n_token N (signals g))]\<rparr>)"
| Admit: "\<lbrakk>i < length (tasks g); tasks g ! i = Checking t; try_acquire (control g) = Some c\<rbrakk> \<Longrightarrow>
    gate_step N g (g\<lparr>control := c, tasks := (tasks g)[i := Holding]\<rparr>)"
| Block: "\<lbrakk>i < length (tasks g); tasks g ! i = Checking t; try_acquire (control g) = None\<rbrakk> \<Longrightarrow>
    gate_step N g (g\<lparr>tasks := (tasks g)[i := Waiting t]\<rparr>)"
| Wake: "\<lbrakk>i < length (tasks g); tasks g ! i = Waiting t; n_ready N (signals g) t\<rbrakk> \<Longrightarrow>
    gate_step N g (g\<lparr>tasks := (tasks g)[i := Idle]\<rparr>)"
| Cancel: "\<lbrakk>i < length (tasks g); tasks g ! i \<noteq> Holding\<rbrakk> \<Longrightarrow>
    gate_step N g (g\<lparr>tasks := (tasks g)[i := Idle]\<rparr>)"
| Release: "\<lbrakk>i < length (tasks g); tasks g ! i = Holding\<rbrakk> \<Longrightarrow>
    gate_step N g (g\<lparr>control := release (control g), unsignalled := unsignalled g + 1, tasks := (tasks g)[i := Idle]\<rparr>)"
| Apply: "gate_step N g (g\<lparr>control := apply_config rc (control g), unsignalled := unsignalled g + 1\<rparr>)"
| Signal: "0 < unsignalled g \<Longrightarrow>
    gate_step N g (g\<lparr>signals := n_signal N (signals g), unsignalled := unsignalled g - 1\<rparr>)"

inductive_cases gate_stepE: "gate_step N g g'"

inductive gate_steps :: "('n, 't) notifier \<Rightarrow> ('n, 't) gate \<Rightarrow> ('n, 't) gate \<Rightarrow> bool" for N g0 where
  Start: "gate_steps N g0 g0"
| Next: "\<lbrakk>gate_steps N g0 g; gate_step N g g'\<rbrakk> \<Longrightarrow> gate_steps N g0 g'"

definition gate_init :: "queue_runtime_config \<Rightarrow> 'n \<Rightarrow> nat \<Rightarrow> ('n, 't) gate" where
  "gate_init rc n k = \<lparr>control = control_new rc, signals = n, unsignalled = 0, tasks = replicate k Idle\<rparr>"

section \<open>Invariants\<close>

lemma holders_update:
  assumes "i < length ts"
  shows "holders (ts[i := t]) + (if ts ! i = Holding then 1 else 0) = holders ts + (if t = Holding then 1 else 0)"
  using assms
proof (induction ts arbitrary: i)
  case (Cons a ts)
  show ?case
  proof (cases i)
    case 0
    then show ?thesis by (simp add: holders_def)
  next
    case (Suc j)
    then show ?thesis using Cons.IH [of j] Cons.prems by (simp add: holders_def split: if_splits)
  qed
qed simp

lemma holders_step:
  assumes "gate_step N g g'" and "ctl_active (control g) = holders (tasks g)"
  shows "ctl_active (control g') = holders (tasks g')"
  using assms
proof (cases rule: gate_step.cases)
  case (Release i)
  with assms(2) holders_update [of i "tasks g" Idle] show ?thesis by (simp add: release_def)
next
  case (Admit i t c)
  with assms(2) holders_update [of i "tasks g" Holding] show ?thesis
    by (auto simp: try_acquire_def split: if_splits)
next
  case (Notified i)
  with assms(2) holders_update [of i "tasks g" "Checking (n_token N (signals g))"] show ?thesis by simp
next
  case (Block i t)
  with assms(2) holders_update [of i "tasks g" "Waiting t"] show ?thesis by simp
next
  case (Wake i t)
  with assms(2) holders_update [of i "tasks g" Idle] show ?thesis by simp
next
  case (Cancel i)
  with assms(2) holders_update [of i "tasks g" Idle] show ?thesis by simp
qed (simp_all add: apply_config_def)

text \<open>
  Every future was created at an earlier state of the notifier, and a waiting task either
  has been woken, or has no reason to run, or a notification is on its way.
\<close>

definition issued :: "('n, 't) notifier \<Rightarrow> 'n \<Rightarrow> 't \<Rightarrow> bool" where
  "issued N n t \<longleftrightarrow> (\<exists>m k. t = n_token N m \<and> n = (n_signal N ^^ k) m)"

definition wakeup_inv :: "('n, 't) notifier \<Rightarrow> ('n, 't) gate \<Rightarrow> bool" where
  "wakeup_inv N g \<longleftrightarrow> (\<forall>t. Checking t \<in> set (tasks g) \<or> Waiting t \<in> set (tasks g) \<longrightarrow> issued N (signals g) t) \<and>
     (\<forall>t. Waiting t \<in> set (tasks g) \<longrightarrow>
        n_ready N (signals g) t \<or> \<not> admissible (control g) \<or> 0 < unsignalled g)"

lemma mem_update: "x \<in> set (xs[i := y]) \<Longrightarrow> x = y \<or> x \<in> set xs"
  using set_update_subset_insert by fastforce

lemma issued_now: "issued N n (n_token N n)"
  unfolding issued_def by (metis funpow_0)

lemma issued_signal: "issued N n t \<Longrightarrow> issued N (n_signal N n) t"
  unfolding issued_def by (metis comp_apply funpow.simps(2))

lemma wakeup_inv_update:
  assumes "wakeup_inv N g"
    and "\<And>t. x = Checking t \<or> x = Waiting t \<Longrightarrow> issued N (signals g) t"
    and "\<And>t. x = Waiting t \<Longrightarrow> \<not> admissible (control g)"
  shows "wakeup_inv N (g\<lparr>tasks := (tasks g)[i := x]\<rparr>)"
  using assms unfolding wakeup_inv_def by (auto dest!: mem_update)

lemma wakeup_inv_control:
  assumes "wakeup_inv N g" and "admissible c \<Longrightarrow> admissible (control g) \<or> 0 < n" and "unsignalled g \<le> n"
  shows "wakeup_inv N (g\<lparr>control := c, unsignalled := n\<rparr>)"
  using assms unfolding wakeup_inv_def by auto

context notify_waiters_laws
begin

lemma issued_woken: "issued N n t \<Longrightarrow> n_ready N (n_signal N n) t"
proof -
  assume "issued N n t"
  then obtain m k where "t = n_token N m" "n = (n_signal N ^^ k) m" by (auto simp: issued_def)
  then show ?thesis using earlier_woken [of k m] by simp
qed

lemma wakeup_inv_step:
  assumes "gate_step N g g'" and inv: "wakeup_inv N g"
  shows "wakeup_inv N g'"
  using assms(1)
proof (cases rule: gate_step.cases)
  case (Notified i)
  then show ?thesis
    using wakeup_inv_update [OF inv, of "Checking (n_token N (signals g))" i] by (simp add: issued_now)
next
  case (Admit i t c)
  then have "admissible (control g)" by (simp add: try_acquire_def split: if_splits)
  then have "wakeup_inv N (g\<lparr>control := c, unsignalled := unsignalled g\<rparr>)" by (intro wakeup_inv_control [OF inv]) simp_all
  from wakeup_inv_update [OF this, of Holding i] Admit show ?thesis by simp
next
  case (Block i t)
  have "Checking t \<in> set (tasks g)" using Block by (metis nth_mem)
  then have "issued N (signals g) t" using inv by (auto simp: wakeup_inv_def)
  with Block show ?thesis
    using wakeup_inv_update [OF inv, of "Waiting t" i] by (simp add: try_acquire_def split: if_splits)
next
  case (Wake i t)
  then show ?thesis using wakeup_inv_update [OF inv, of Idle i] by simp
next
  case (Cancel i)
  then show ?thesis using wakeup_inv_update [OF inv, of Idle i] by simp
next
  case (Release i)
  have "wakeup_inv N (g\<lparr>control := release (control g), unsignalled := unsignalled g + 1\<rparr>)"
    by (rule wakeup_inv_control [OF inv]) simp_all
  from wakeup_inv_update [OF this, of Idle i] Release show ?thesis by simp
next
  case (Apply rc)
  then show ?thesis using wakeup_inv_control [OF inv, of _ "unsignalled g + 1"] by simp
next
  case Signal
  then show ?thesis using inv by (auto simp: wakeup_inv_def issued_signal issued_woken)
qed

lemma gate_reachable:
  assumes "gate_steps N (gate_init rc n k) g"
  shows "wakeup_inv N g \<and> ctl_active (control g) = holders (tasks g)"
  using assms
proof (induction rule: gate_steps.induct)
  case Start
  show ?case by (auto simp: gate_init_def wakeup_inv_def holders_def control_new_def)
next
  case (Next g g')
  then show ?case using wakeup_inv_step holders_step by blast
qed

end

section \<open>Properties\<close>

text \<open>
  C21. Permits are conserved: in every interleaving of acquiring, releasing, cancelled and
  reconfiguring tasks the counter of a queue control is the number of permits held (so the
  saturating subtraction of \<^verbatim>\<open>release\<close> never hides an error), and a new permit is only
  granted when the queue is active and fewer permits than the current limit are held.
\<close>

theorem permits_conserved:
  assumes "notify_waiters_laws N" and "gate_steps N (gate_init rc n k) g"
  shows "ctl_active (control g) = holders (tasks g) \<and>
    (\<forall>g'. gate_step N g g' \<and> holders (tasks g) < holders (tasks g') \<longrightarrow>
       ctl_state (control g) = Active \<and> holders (tasks g') \<le> ctl_concurrency (control g))"
proof -
  have h: "ctl_active (control g) = holders (tasks g)"
    using notify_waiters_laws.gate_reachable [OF assms] by blast
  have "ctl_state (control g) = Active \<and> holders (tasks g') \<le> ctl_concurrency (control g)"
    if st: "gate_step N g g'" and lt: "holders (tasks g) < holders (tasks g')" for g'
    using st
  proof (cases rule: gate_step.cases)
    case (Admit i t c)
    with holders_update [of i "tasks g" Holding] h show ?thesis
      by (auto simp: try_acquire_def admissible_def split: if_splits)
  next
    case (Notified i)
    with lt holders_update [of i "tasks g" "Checking (n_token N (signals g))"] show ?thesis by simp
  next
    case (Block i t)
    with lt holders_update [of i "tasks g" "Waiting t"] show ?thesis by simp
  next
    case (Wake i t)
    with lt holders_update [of i "tasks g" Idle] show ?thesis by simp
  next
    case (Cancel i)
    with lt holders_update [of i "tasks g" Idle] show ?thesis by simp
  next
    case (Release i)
    with lt holders_update [of i "tasks g" Idle] show ?thesis by simp
  qed (use lt in simp_all)
  with h show ?thesis by blast
qed

text \<open>
  C22. No lost wake-up: in every interleaving, when a slot is free in an active queue and no
  notification is outstanding, every waiting task has been woken and can take its next turn.
  A dispatcher therefore never sleeps through a released permit, a raised limit or a resumed
  queue.
\<close>

theorem no_lost_wakeup:
  assumes "notify_waiters_laws N" and "gate_steps N (gate_init rc n k) g"
    and "admissible (control g)" and "unsignalled g = 0"
    and "i < length (tasks g)" and "tasks g ! i = Waiting t"
  shows "n_ready N (signals g) t \<and> gate_step N g (g\<lparr>tasks := (tasks g)[i := Idle]\<rparr>)"
proof -
  have "Waiting t \<in> set (tasks g)" using assms(5,6) by (metis nth_mem)
  then have r: "n_ready N (signals g) t"
    using notify_waiters_laws.gate_reachable [OF assms(1,2)] assms(3,4) by (auto simp: wakeup_inv_def)
  with gate_step.Wake [OF assms(5,6)] show ?thesis by blast
qed

section \<open>Witnesses\<close>

text \<open>Two dispatchers and one slot: the second waits, the first releases and signals.\<close>

definition busy_gate :: "(nat, nat) gate" where
  "busy_gate = \<lparr>control = \<lparr>ctl_concurrency = 1, ctl_active = 1, ctl_state = Active\<rparr>, signals = 0,
     unsignalled = 0, tasks = [Holding, Waiting 0]\<rparr>"

definition freed_gate :: "(nat, nat) gate" where
  "freed_gate = \<lparr>control = \<lparr>ctl_concurrency = 1, ctl_active = 0, ctl_state = Active\<rparr>, signals = 1,
     unsignalled = 0, tasks = [Idle, Waiting 0]\<rparr>"

lemma gate_step_eq: "gate_step N g g' \<Longrightarrow> g' = h \<Longrightarrow> gate_step N g h"
  by simp

lemmas gate_run = gate_init_def control_new_def counting_notifier_def try_acquire_def admissible_def
  release_def busy_gate_def freed_gate_def runtime_config_new_def numeral_2_eq_2

lemma busy_reached: "gate_steps counting_notifier (gate_init (runtime_config_new 1) 0 2) busy_gate"
proof -
  let ?N = counting_notifier
  let ?c0 = "\<lparr>ctl_concurrency = 1, ctl_active = 0, ctl_state = Active\<rparr>"
  let ?c1 = "\<lparr>ctl_concurrency = 1, ctl_active = 1, ctl_state = Active\<rparr>"
  let ?g = "\<lambda>c ts. \<lparr>control = c, signals = 0, unsignalled = 0, tasks = ts\<rparr> :: (nat, nat) gate"
  have "gate_step ?N (gate_init (runtime_config_new 1) 0 2) (?g ?c0 [Checking 0, Idle])"
    by (rule gate_step_eq [OF gate_step.Notified [of 0]]) (simp_all add: gate_run)
  moreover have "gate_step ?N (?g ?c0 [Checking 0, Idle]) (?g ?c1 [Holding, Idle])"
    by (rule gate_step_eq [OF gate_step.Admit [of 0 _ 0 ?c1]]) (simp_all add: gate_run)
  moreover have "gate_step ?N (?g ?c1 [Holding, Idle]) (?g ?c1 [Holding, Checking 0])"
    by (rule gate_step_eq [OF gate_step.Notified [of 1]]) (simp_all add: gate_run)
  moreover have "gate_step ?N (?g ?c1 [Holding, Checking 0]) busy_gate"
    by (rule gate_step_eq [OF gate_step.Block [of 1 _ 0]]) (simp_all add: gate_run)
  ultimately show ?thesis by (meson gate_steps.intros)
qed

lemma freed_reached: "gate_steps counting_notifier (gate_init (runtime_config_new 1) 0 2) freed_gate"
proof -
  let ?N = counting_notifier
  let ?m = "freed_gate\<lparr>signals := 0, unsignalled := 1\<rparr>"
  have "gate_step ?N busy_gate ?m"
    by (rule gate_step_eq [OF gate_step.Release [of 0]]) (simp_all add: gate_run)
  moreover have "gate_step ?N ?m freed_gate"
    by (rule gate_step_eq [OF gate_step.Signal]) (simp_all add: gate_run)
  ultimately show ?thesis using busy_reached by (meson gate_steps.intros)
qed

theorem permits_conserved_witness:
  "ctl_active (control busy_gate) = 1 \<and> holders (tasks busy_gate) = 1"
  using permits_conserved [OF counting.notify_waiters_laws_axioms busy_reached] by (simp add: busy_gate_def)

theorem no_lost_wakeup_witness:
  "gate_step counting_notifier freed_gate (freed_gate\<lparr>tasks := [Idle, Idle]\<rparr>)"
  using no_lost_wakeup [OF counting.notify_waiters_laws_axioms freed_reached, of 1 0]
  by (simp add: freed_gate_def admissible_def)

end
