(* ===== verification/Connection.thy ===== *)
theory Connection
  imports Enqueue
begin

text \<open>
  The resilience policies of \<^verbatim>\<open>storage_internal.rs\<close> and \<^verbatim>\<open>pool_retry_config.rs\<close>: the counter of
  consecutive Redis failures, the polling loops that run under it, the checkout of a
  connection for a claimed job and the read of a claimed job's payload. Durations are
  numbers of nanoseconds (of milliseconds in \<open>get_claimed_job\<close>, as in the code); what the
  pool and the server answer at each attempt, how long it takes and the random jitter are
  arguments. A list of attempts that ends before the loop does gives \<open>None\<close>.
\<close>

section \<open>Consecutive failures\<close>

definition record_redis_success :: "32 word \<Rightarrow> 32 word" where
  "record_redis_success c = (if c \<noteq> 0 then 0 else c)"

definition record_redis_failure :: "32 word \<Rightarrow> 32 word \<Rightarrow> bool \<times> 32 word" where
  "record_redis_failure c failure_tolerance = (c + 1 \<ge> failure_tolerance, c + 1)"

definition track_redis_result ::
    "32 word \<Rightarrow> oxana_error + 'a \<Rightarrow> 32 word \<Rightarrow> (oxana_error + 'a option) \<times> 32 word" where
  "track_redis_result c result failure_tolerance =
     (case result of
        Inr val \<Rightarrow> (Inr (Some val), record_redis_success c)
      | Inl e \<Rightarrow> (case record_redis_failure c failure_tolerance of
            (exceeded, c') \<Rightarrow> (if exceeded then Inl e else Inr None, c')))"

text \<open>
  \<^verbatim>\<open>poll_redis\<close>: one operation per interval until cancelled. The list holds the outcomes of
  the operations before the cancellation.
\<close>

fun poll_redis :: "32 word \<Rightarrow> 32 word \<Rightarrow> (oxana_error + 'a) list \<Rightarrow> (oxana_error + unit) \<times> 32 word" where
  "poll_redis c tol [] = (Inr (), c)"
| "poll_redis c tol (r # rs) =
     (case track_redis_result c r tol of
        (Inl e, c') \<Rightarrow> (Inl e, c')
      | (Inr _, c') \<Rightarrow> poll_redis c' tol rs)"

text \<open>
  \<^verbatim>\<open>register\<close>: ping until one lands. Each entry is the outcome of one ping and whether the
  shutdown token was cancelled before it; the end of the list is a cancellation.
\<close>

fun register :: "32 word \<Rightarrow> 32 word \<Rightarrow> (bool \<times> (oxana_error + unit)) list \<Rightarrow> (oxana_error + bool) \<times> 32 word" where
  "register c tol [] = (Inr False, c)"
| "register c tol ((cancelled, ping) # rest) =
     (if cancelled then (Inr False, c)
      else case track_redis_result c ping tol of
             (Inl e, c') \<Rightarrow> (Inl e, c')
           | (Inr (Some _), c') \<Rightarrow> (Inr True, c')
           | (Inr None, c') \<Rightarrow> register c' tol rest)"

section \<open>Checkout of a claimed connection\<close>

abbreviation ms :: nat where "ms \<equiv> 1000000"
abbreviation duration_max :: nat where "duration_max \<equiv> 18446744073709551615999999999"
abbreviation min_claimed_connection_retry_window :: nat where
  "min_claimed_connection_retry_window \<equiv> 2000 * ms"

definition pool_retry_config_default :: pool_retry_config where
  "pool_retry_config_default = \<lparr>retry_window = None, initial_backoff = 100 * ms, max_backoff = 1000 * ms\<rparr>"

text \<open>\<open>limit\<close> is the longest duration that can still be added to the monotonic clock.\<close>

definition pool_retry_config_validate :: "nat \<Rightarrow> pool_retry_config \<Rightarrow> oxana_error + unit" where
  "pool_retry_config_validate limit cfg =
     (if (case retry_window cfg of None \<Rightarrow> False | Some w \<Rightarrow> w = 0 \<or> limit < w)
      then Inl (ConfigError ''pool retry window must be positive and fit a monotonic deadline'')
      else if initial_backoff cfg < ms \<or> max_backoff cfg < initial_backoff cfg \<or> limit < max_backoff cfg
      then Inl (ConfigError ''pool retry backoff must satisfy 1ms <= initial_backoff <= max_backoff and fit a monotonic deadline'')
      else Inr ())"

definition claimed_retry_window :: "pool_retry_config \<Rightarrow> nat option list \<Rightarrow> nat" where
  "claimed_retry_window cfg timeouts =
     (case retry_window cfg of
        Some w \<Rightarrow> w
      | None \<Rightarrow> max (min (2 * foldr max (List.map_filter (\<lambda>x. x) timeouts) 0) duration_max)
                  min_claimed_connection_retry_window)"

fun checkout_retryable :: "pool_error \<Rightarrow> bool" where
  "checkout_retryable PoolTimeout = True"
| "checkout_retryable (PoolBackend IoError) = True"
| "checkout_retryable _ = False"

definition checkout_delay :: "nat \<Rightarrow> nat \<Rightarrow> nat" where
  "checkout_delay backoff jitter =
     (let half = backoff div 2 in half + (backoff - half) div 255 * jitter)"

text \<open>
  The loop after a failed attempt. Each further attempt is its jitter byte, the time the
  pool takes to answer, and the answer (\<open>None\<close> for a connection).
\<close>

fun claimed_loop ::
    "pool_retry_config \<Rightarrow> nat \<Rightarrow> nat \<Rightarrow> nat \<Rightarrow> pool_error \<Rightarrow> (nat \<times> nat \<times> pool_error option) list
       \<Rightarrow> (oxana_error + unit) option" where
  "claimed_loop cfg window elapsed backoff er [] =
     (if checkout_retryable er then None else Some (Inl (DeadpoolRedisPoolError er)))"
| "claimed_loop cfg window elapsed backoff er ((jitter, takes, answer) # rest) =
     (if \<not> checkout_retryable er then Some (Inl (DeadpoolRedisPoolError er))
      else let t = elapsed + checkout_delay backoff jitter + takes in
           if window < t then Some (Inl (DeadpoolRedisPoolError er))
           else case answer of
                  None \<Rightarrow> Some (Inr ())
                | Some er' \<Rightarrow> claimed_loop cfg window t (min (min (backoff * 2) duration_max) (max_backoff cfg)) er' rest)"

definition claimed_connection ::
    "nat \<Rightarrow> pool_retry_config option \<Rightarrow> nat option list \<Rightarrow> nat \<times> pool_error option
       \<Rightarrow> (nat \<times> nat \<times> pool_error option) list \<Rightarrow> (oxana_error + unit) option" where
  "claimed_connection limit config timeouts first rest =
     (case config of
        None \<Rightarrow> Some (case snd first of None \<Rightarrow> Inr () | Some e \<Rightarrow> Inl (DeadpoolRedisPoolError e))
      | Some cfg \<Rightarrow>
          let window = claimed_retry_window cfg timeouts in
          if limit < window then Some (Inl (ConfigError ''pool retry deadline is out of range''))
          else if window < fst first then Some (Inl (DeadpoolRedisError IoError))
          else case snd first of
                 None \<Rightarrow> Some (Inr ())
               | Some e \<Rightarrow> claimed_loop cfg window (fst first) (initial_backoff cfg) e rest)"

section \<open>Reading a claimed job\<close>

fun transient_redis_error :: "redis_error \<Rightarrow> bool" where
  "transient_redis_error IoError = True"
| "transient_redis_error BusyLoading = True"
| "transient_redis_error TryAgain = True"
| "transient_redis_error ClusterDown = True"
| "transient_redis_error MasterDown = True"
| "transient_redis_error _ = False"

fun transient_payload_read_error :: "oxana_error \<Rightarrow> bool" where
  "transient_payload_read_error (DeadpoolRedisPoolError PoolTimeout) = True"
| "transient_payload_read_error (DeadpoolRedisPoolError (PoolBackend e)) = transient_redis_error e"
| "transient_payload_read_error (DeadpoolRedisError e) = transient_redis_error e"
| "transient_payload_read_error _ = False"

abbreviation claimed_job_read_retry_window :: nat where
  "claimed_job_read_retry_window \<equiv> 5000"

definition read_delay :: "nat \<Rightarrow> nat \<Rightarrow> nat" where
  "read_delay backoff rnd = backoff div 2 + rnd mod (backoff div 2 + 1)"

fun claimed_read_loop ::
    "nat \<Rightarrow> nat \<Rightarrow> oxana_error + 'a \<Rightarrow> (nat \<times> nat \<times> (oxana_error + 'a)) list \<Rightarrow> (oxana_error + 'a) option" where
  "claimed_read_loop elapsed backoff (Inr v) tries = Some (Inr v)"
| "claimed_read_loop elapsed backoff (Inl e) tries =
     (if \<not> transient_payload_read_error e then Some (Inl e)
      else case tries of
             [] \<Rightarrow> None
           | (rnd, takes, answer) # rest \<Rightarrow>
               let t = elapsed + read_delay backoff rnd + takes in
               if claimed_job_read_retry_window < t then Some (Inl e)
               else claimed_read_loop t (min (backoff * 2) 1000) answer rest)"

definition get_claimed_job ::
    "oxana_error + 'a \<Rightarrow> (nat \<times> nat \<times> (oxana_error + 'a)) list \<Rightarrow> (oxana_error + 'a) option" where
  "get_claimed_job first tries = claimed_read_loop 0 100 first tries"

section \<open>Lemmas\<close>

lemma track_simps [simp]:
  "track_redis_result c (Inr v) tol = (Inr (Some v), 0)"
  "track_redis_result c (Inl e) tol = (if tol \<le> c + 1 then Inl e else Inr None, c + 1)"
  by (simp_all add: track_redis_result_def record_redis_success_def record_redis_failure_def)

lemma next_failure:
  fixes c tol :: "32 word"
  assumes "c < tol"
  shows "unat (c + 1) = Suc (unat c)"
proof -
  have "unat tol < 2 ^ 32" using unsigned_less [of tol, where ?'a = nat] by simp
  then have "unat c + 1 < 2 ^ 32" using assms by (simp add: word_less_nat_alt)
  then show ?thesis by (simp add: unat_word_ariths)
qed

lemma sublist_avoiding:
  assumes "x \<notin> set xs"
  shows "sublist xs (as @ x # bs) \<longleftrightarrow> sublist xs as \<or> sublist xs bs"
proof -
  have "prefix ys (x # bs) \<Longrightarrow> x \<notin> set ys \<Longrightarrow> ys = []" for ys by (cases ys) auto
  with assms show ?thesis
    by (auto simp: sublist_append sublist_Cons_right) (metis append_Nil2 suffix_imp_sublist)
qed

lemma sublist_replicate: "sublist (replicate n True) (replicate k True) \<longleftrightarrow> n \<le> k"
  by (metis length_replicate replicate_add le_add_diff_inverse sublist_appendI append_Nil sublist_length_le)

text \<open>
  The counter reaches the tolerance exactly when that many outcomes in a row are errors;
  \<open>c\<close> errors in a row came before the list.
\<close>

lemma poll_fails_iff_run:
  fixes c tol :: "32 word"
  assumes "c < tol"
  shows "isl (fst (poll_redis c tol rs)) \<longleftrightarrow>
    sublist (replicate (unat tol) True) (replicate (unat c) True @ map isl rs)"
  using assms
proof (induction rs arbitrary: c)
  case Nil
  then show ?case by (simp add: sublist_replicate word_less_nat_alt)
next
  case (Cons r rs)
  have pos: "0 < tol" using Cons.prems by (metis word_gt_0 word_not_simps(1))
  show ?case
  proof (cases r)
    case (Inr v)
    have "sublist (replicate (unat tol) True) (replicate (unat c) True @ False # map isl rs) \<longleftrightarrow>
        sublist (replicate (unat tol) True) (map isl rs)"
      using Cons.prems by (subst sublist_avoiding) (simp_all add: sublist_replicate word_less_nat_alt)
    with Cons.IH [of 0] pos Inr show ?thesis by simp
  next
    case (Inl e)
    have n: "unat (c + 1) = Suc (unat c)" by (rule next_failure [OF Cons.prems])
    have sh: "replicate (unat c) True @ True # map isl rs = replicate (Suc (unat c)) True @ map isl rs"
      by (simp add: replicate_app_Cons_same)
    show ?thesis
    proof (cases "tol \<le> c + 1")
      case True
      then have "unat tol \<le> Suc (unat c)" using n by (simp add: word_le_nat_alt)
      then have "sublist (replicate (unat tol) True) (replicate (Suc (unat c)) True @ map isl rs)"
        using sublist_replicate sublist_append by blast
      with True Inl show ?thesis by (simp add: sh del: replicate_Suc)
    next
      case False
      then have "c + 1 < tol" by simp
      from Cons.IH [OF this] False Inl n show ?thesis by (simp add: sh del: replicate_Suc)
    qed
  qed
qed

lemma checkout_delay_bounds:
  assumes "jitter \<le> 255"
  shows "backoff div 2 \<le> checkout_delay backoff jitter" "checkout_delay backoff jitter \<le> backoff"
proof -
  have "(backoff - backoff div 2) div 255 * jitter \<le> (backoff - backoff div 2) div 255 * 255"
    using assms by (rule mult_le_mono2)
  also have "\<dots> \<le> backoff - backoff div 2" by (metis div_times_less_eq_dividend)
  finally show "checkout_delay backoff jitter \<le> backoff" by (simp add: checkout_delay_def Let_def)
qed (simp add: checkout_delay_def Let_def)

lemma claimed_loop_ends:
  assumes "m \<le> backoff div 2" "backoff \<le> max_backoff cfg" "max_backoff cfg \<le> duration_max"
    and "elapsed \<le> window" "window < elapsed + m * length tries"
  shows "claimed_loop cfg window elapsed backoff er tries \<noteq> None"
  using assms
proof (induction tries arbitrary: elapsed backoff er)
  case Nil
  then show ?case by simp
next
  case (Cons x tries)
  obtain jitter takes answer where x: "x = (jitter, takes, answer)" by (cases x)
  let ?t = "elapsed + checkout_delay backoff jitter + takes"
  let ?b = "min (min (backoff * 2) duration_max) (max_backoff cfg)"
  show ?case
  proof (cases "checkout_retryable er \<and> ?t \<le> window \<and> answer \<noteq> None")
    case False
    with x show ?thesis by (cases answer) (auto simp: Let_def)
  next
    case True
    then obtain er' where a: "answer = Some er'" by blast
    have "backoff \<le> ?b" using Cons.prems(2,3) by simp
    then have "m \<le> ?b div 2" using Cons.prems(1) by (meson div_le_mono order_trans)
    moreover have "window < ?t + m * length tries"
      using Cons.prems(1,5) by (simp add: checkout_delay_def Let_def)
    ultimately have "claimed_loop cfg window ?t ?b er' tries \<noteq> None"
      using Cons.prems(3) True by (intro Cons.IH) auto
    with True a x show ?thesis by (simp add: Let_def)
  qed
qed

lemma claimed_read_ends:
  assumes "50 \<le> backoff div 2" "backoff \<le> 1000" "elapsed \<le> claimed_job_read_retry_window"
    and "claimed_job_read_retry_window < elapsed + 50 * length tries"
  shows "claimed_read_loop elapsed backoff r tries \<noteq> None"
  using assms
proof (induction tries arbitrary: elapsed backoff r)
  case Nil
  then show ?case by simp
next
  case (Cons x tries)
  obtain rnd takes answer where x: "x = (rnd, takes, answer)" by (cases x)
  let ?t = "elapsed + read_delay backoff rnd + takes"
  show ?case
  proof (cases r)
    case (Inr v)
    then show ?thesis by simp
  next
    case (Inl e)
    show ?thesis
    proof (cases "transient_payload_read_error e \<and> ?t \<le> claimed_job_read_retry_window")
      case False
      with x Inl show ?thesis by (auto simp: Let_def)
    next
      case True
      have "claimed_read_loop ?t (min (backoff * 2) 1000) answer tries \<noteq> None"
        using Cons.prems True by (intro Cons.IH) (auto simp: read_delay_def)
      with True x Inl show ?thesis by (simp add: Let_def)
    qed
  qed
qed

section \<open>Properties\<close>

text \<open>
  The failure tolerance is exactly a bound on consecutive failures: a polling loop that
  starts with a clear counter and a positive tolerance gives up if and only if some
  tolerance-many consecutive operations all failed; isolated failures never end it.
\<close>

theorem poll_redis_tolerance:
  fixes tol :: "32 word"
  assumes "0 < tol"
  shows "isl (fst (poll_redis 0 tol rs)) \<longleftrightarrow> sublist (replicate (unat tol) True) (map isl rs)"
  using poll_fails_iff_run [OF assms, of rs] by simp

text \<open>
  The checkout of a connection for a claimed job ends: with a validated configuration,
  whatever the pool answers and however the jitter falls, the call has returned by the time
  the attempts after the first, each at least half the initial backoff apart, add up to
  more than the retry window.
\<close>

theorem claimed_connection_ends:
  assumes "pool_retry_config_validate limit cfg = Inr ()" and "limit \<le> duration_max"
    and "claimed_retry_window cfg timeouts < initial_backoff cfg div 2 * length rest"
  shows "claimed_connection limit (Some cfg) timeouts first rest \<noteq> None"
proof -
  let ?w = "claimed_retry_window cfg timeouts"
  from assms(1) have v: "initial_backoff cfg \<le> max_backoff cfg" "max_backoff cfg \<le> limit"
    by (auto simp: pool_retry_config_validate_def split: if_splits)
  have "claimed_loop cfg ?w (fst first) (initial_backoff cfg) e rest \<noteq> None" if "fst first \<le> ?w" for e
    using that v assms(2,3)
    by (intro claimed_loop_ends [where m = "initial_backoff cfg div 2"]) auto
  then show ?thesis by (auto simp: claimed_connection_def Let_def split: option.split)
qed

text \<open>
  The read of a claimed job ends after at most 101 further attempts within its five
  second window, and what it returns is the last answer: a value, an error that is not
  transient, or a transient error once the window has closed.
\<close>

theorem get_claimed_job_ends:
  assumes "100 < length tries"
  shows "\<exists>r. get_claimed_job first tries = Some r \<and> r \<in> insert first (set (map (\<lambda>(_, _, a). a) tries))"
proof -
  have "get_claimed_job first tries \<noteq> None"
    unfolding get_claimed_job_def by (rule claimed_read_ends) (use assms in auto)
  moreover have "claimed_read_loop elapsed backoff first ts = Some r \<Longrightarrow>
      r \<in> insert first (set (map (\<lambda>(_, _, a). a) ts))" for elapsed backoff ts r
  proof (induction ts arbitrary: elapsed backoff first)
    case Nil
    then show ?case by (cases first) (auto split: if_splits)
  next
    case (Cons x ts)
    then show ?case by (cases first) (auto simp: Let_def split: if_splits prod.splits dest!: Cons.IH)
  qed
  ultimately show ?thesis by (auto simp: get_claimed_job_def)
qed

theorem poll_redis_tolerance_witness:
  "(0 :: 32 word) < 2 \<and>
   isl (fst (poll_redis 0 (2 :: 32 word) [Inl JsonError, Inr (), Inl JsonError])) =
     sublist (replicate (unat (2 :: 32 word)) True) (map isl [Inl JsonError :: oxana_error + unit, Inr (), Inl JsonError])"
  using poll_redis_tolerance [of "2 :: 32 word" "[Inl JsonError :: oxana_error + unit, Inr (), Inl JsonError]"] by simp

theorem claimed_connection_ends_witness:
  "pool_retry_config_validate duration_max pool_retry_config_default = Inr () \<and>
   claimed_connection duration_max (Some pool_retry_config_default) [] (0, Some PoolTimeout)
     (replicate 41 (0, 0, Some PoolTimeout)) \<noteq> None"
proof -
  have v: "pool_retry_config_validate duration_max pool_retry_config_default = Inr ()"
    by (simp add: pool_retry_config_validate_def pool_retry_config_default_def)
  moreover have "claimed_retry_window pool_retry_config_default [] <
      initial_backoff pool_retry_config_default div 2 * length (replicate 41 (0 :: nat, 0 :: nat, Some PoolTimeout))"
    by (simp add: claimed_retry_window_def pool_retry_config_default_def List.map_filter_simps)
  ultimately show ?thesis using claimed_connection_ends [OF v _] by blast
qed

theorem get_claimed_job_ends_witness:
  "\<exists>r. get_claimed_job (Inl (DeadpoolRedisError IoError)) (replicate 101 (0, 0, Inr 5)) = Some (r :: oxana_error + nat) \<and>
     r \<in> {Inl (DeadpoolRedisError IoError), Inr 5}"
  using get_claimed_job_ends [of "replicate 101 (0, 0, Inr 5)" "Inl (DeadpoolRedisError IoError) :: oxana_error + nat"]
  by (auto simp del: replicate.simps)

end
