(* ===== verification/Dispatcher.thy ===== *)
theory Dispatcher
  imports Throttler Queue_Control Connection
begin

text \<open>
  The dispatcher of a queue, \<^verbatim>\<open>dispatcher.rs\<close>: it takes a permit of the queue control, claims a
  job, asks the throttler first when the queue is throttled, and hands the claimed
  identifier with its permit to the coordinator. One turn of its loop is a function of what
  happens around it: whether the shutdown token fires and which branch of the \<^verbatim>\<open>select!\<close>
  wins, whether the server's reply to the claim is lost, the clock. Sleeping is left out.
\<close>

section \<open>Claiming\<close>

datatype pop_error =
    BeforeClaim oxana_error
  | Claim oxana_error

text \<open>\<open>lost\<close> is a connection error that hides the reply of an executed \<^verbatim>\<open>LMOVE\<close>.\<close>

definition claim_job ::
    "'d redis \<Rightarrow> storage \<Rightarrow> redis_error option \<Rightarrow> string \<Rightarrow> 'd \<Rightarrow> (pop_error + job_id option) \<times> 'd" where
  "claim_job R S lost queue_key d =
     (case r_get R d of
        Some e \<Rightarrow> (Inl (BeforeClaim (DeadpoolRedisPoolError e)), d)
      | None \<Rightarrow> (case dequeue_w_conn R S queue_key d of
            (Inl e, d') \<Rightarrow> (Inl (Claim e), d')
          | (Inr r, d') \<Rightarrow> (case lost of
                Some e \<Rightarrow> (Inl (Claim (DeadpoolRedisError e)), d')
              | None \<Rightarrow> (Inr r, d'))))"

record pop_input =
  pi_lost :: "redis_error option"
  pi_state_now :: int
  pi_read_error :: "oxana_error option"
  pi_consume_time :: int
  pi_consume_now :: int
  pi_uuid :: "nat \<Rightarrow> string"

text \<open>
  \<^verbatim>\<open>get_claimed_job\<close> retries transient errors (theory Connection); \<open>pi_read_error\<close> is the error it
  gives up with.
\<close>

definition claimed_cost ::
    "'d redis \<Rightarrow> codec \<Rightarrow> storage \<Rightarrow> oxana_error option \<Rightarrow> job_id \<Rightarrow> ('d, nat option) op" where
  "claimed_cost R C S read_error i =
     (case read_error of
        Some e \<Rightarrow> fail e
      | None \<Rightarrow> bind (get_job R C S i) (\<lambda>r. return
          (Option.bind r (\<lambda>e. map_option unat (throttle_cost (env_meta e))))))"

definition pop_queue_message_wo_throttle ::
    "'d redis \<Rightarrow> storage \<Rightarrow> pop_input \<Rightarrow> string \<Rightarrow> 'd \<Rightarrow> (pop_error + job_id option) \<times> 'd" where
  "pop_queue_message_wo_throttle R S inp queue_key = claim_job R S (pi_lost inp) queue_key"

definition pop_queue_message_w_throttle ::
    "'d redis \<Rightarrow> codec \<Rightarrow> storage \<Rightarrow> pop_input \<Rightarrow> string \<Rightarrow> queue_throttle \<Rightarrow> 'd
       \<Rightarrow> (pop_error + job_id option) \<times> 'd" where
  "pop_queue_message_w_throttle R C S inp queue_key throttle d =
     (let T = throttler_new queue_key (throttle_limit throttle) (throttle_window_ms throttle) in
      case throttler_state R T (pi_state_now inp) d of
        (Inl e, d1) \<Rightarrow> (Inl (BeforeClaim e), d1)
      | (Inr st, d1) \<Rightarrow>
          if is_allowed st then
            (case claim_job R S (pi_lost inp) queue_key d1 of
               (Inl e, d2) \<Rightarrow> (Inl e, d2)
             | (Inr None, d2) \<Rightarrow> (Inr None, d2)
             | (Inr (Some job_id), d2) \<Rightarrow>
                 (case claimed_cost R C S (pi_read_error inp) job_id d2 of
                    (Inl e, d3) \<Rightarrow> (Inl (Claim e), d3)
                  | (Inr cost, d3) \<Rightarrow>
                      (case consume R T (pi_consume_time inp) (pi_consume_now inp) (pi_uuid inp) cost d3 of
                         (Inl e, d4) \<Rightarrow> (Inl (Claim e), d4)
                       | (Inr _, d4) \<Rightarrow> (Inr (Some job_id), d4))))
          else (Inr None, d1))"

definition pop_queue_message ::
    "'d redis \<Rightarrow> codec \<Rightarrow> storage \<Rightarrow> pop_input \<Rightarrow> queue_config \<Rightarrow> string \<Rightarrow> 'd
       \<Rightarrow> (pop_error + job_id option) \<times> 'd" where
  "pop_queue_message R C S inp qc queue_key d =
     (case qc_throttle qc of
        Some throttle \<Rightarrow> pop_queue_message_w_throttle R C S inp queue_key throttle d
      | None \<Rightarrow> pop_queue_message_wo_throttle R S inp queue_key d)"

section \<open>One turn of the loop\<close>

text \<open>
  Which branch of each \<^verbatim>\<open>select!\<close> wins: the shutdown token may fire before a permit is
  acquired, while the pop is under way (with any prefix of its effects on the store), or
  while the job is handed over; the channel may be closed.
\<close>

datatype 'd turn =
    CancelledBeforePermit
  | CancelledDuringPop "'d \<Rightarrow> 'd"
  | Popped pop_input
  | PoppedCancelledSend pop_input
  | PoppedClosed pop_input bool

datatype turn_outcome = Continue | Stopped | Exited oxana_error

text \<open>
  The turn returns what the loop does next, the identifier sent (its permit goes with it),
  and whether the permit taken for the turn was dropped here. The counter of failures is
  the storage's.
\<close>

record turn_result =
  tr_outcome :: turn_outcome
  tr_sent :: "job_id option"
  tr_permit_dropped :: bool
  tr_failures :: "32 word"

definition closed_error :: oxana_error where
  "closed_error = GenericError ''Job receiver closed unexpectedly''"

definition after_pop ::
    "32 word \<Rightarrow> 32 word \<Rightarrow> (job_id \<Rightarrow> turn_outcome \<times> bool) \<Rightarrow> pop_error + job_id option \<Rightarrow> turn_result" where
  "after_pop c tol send r =
     (case r of
        Inl (Claim e) \<Rightarrow> \<lparr>tr_outcome = Exited e, tr_sent = None, tr_permit_dropped = True, tr_failures = c\<rparr>
      | _ \<Rightarrow>
        (case track_redis_result c (case r of Inl (BeforeClaim e) \<Rightarrow> Inl e | Inl (Claim e) \<Rightarrow> Inl e | Inr v \<Rightarrow> Inr v) tol of
           (Inl e, c') \<Rightarrow> \<lparr>tr_outcome = Exited e, tr_sent = None, tr_permit_dropped = True, tr_failures = c'\<rparr>
         | (Inr (Some (Some job_id)), c') \<Rightarrow>
             (case send job_id of (next, sent) \<Rightarrow>
                \<lparr>tr_outcome = next, tr_sent = (if sent then Some job_id else None),
                 tr_permit_dropped = (\<not> sent), tr_failures = c'\<rparr>)
         | (Inr _, c') \<Rightarrow> \<lparr>tr_outcome = Continue, tr_sent = None, tr_permit_dropped = True, tr_failures = c'\<rparr>))"

definition dispatch_turn ::
    "'d redis \<Rightarrow> codec \<Rightarrow> storage \<Rightarrow> queue_config \<Rightarrow> string \<Rightarrow> 32 word \<Rightarrow> 32 word \<Rightarrow> 'd turn \<Rightarrow> 'd
       \<Rightarrow> turn_result \<times> 'd" where
  "dispatch_turn R C S qc queue_key tol c t d =
     (case t of
        CancelledBeforePermit \<Rightarrow>
          (\<lparr>tr_outcome = Stopped, tr_sent = None, tr_permit_dropped = False, tr_failures = c\<rparr>, d)
      | CancelledDuringPop partial \<Rightarrow>
          (\<lparr>tr_outcome = Stopped, tr_sent = None, tr_permit_dropped = True, tr_failures = c\<rparr>, partial d)
      | Popped inp \<Rightarrow>
          (case pop_queue_message R C S inp qc queue_key d of
             (r, d') \<Rightarrow> (after_pop c tol (\<lambda>_. (Continue, True)) r, d'))
      | PoppedCancelledSend inp \<Rightarrow>
          (case pop_queue_message R C S inp qc queue_key d of
             (r, d') \<Rightarrow> (after_pop c tol (\<lambda>_. (Stopped, False)) r, d'))
      | PoppedClosed inp cancelled \<Rightarrow>
          (case pop_queue_message R C S inp qc queue_key d of
             (r, d') \<Rightarrow> (after_pop c tol (\<lambda>_. (if cancelled then Stopped else Exited closed_error, False)) r, d')))"

section \<open>Lemmas\<close>

definition claims_of :: "'d redis \<Rightarrow> storage \<Rightarrow> 'd \<Rightarrow> job_id list" where
  "claims_of R S d = r_lrange R d (current_processing_queue S)"

text \<open>What a pop that is not a claim error does to the processing list.\<close>

definition pop_effect :: "'d redis \<Rightarrow> storage \<Rightarrow> 'd \<Rightarrow> (pop_error + job_id option) \<times> 'd \<Rightarrow> bool" where
  "pop_effect R S d x = (case x of
       (Inl (Claim e), d') \<Rightarrow> True
     | (Inl (BeforeClaim e), d') \<Rightarrow> claims_of R S d' = claims_of R S d
     | (Inr None, d') \<Rightarrow> claims_of R S d' = claims_of R S d
     | (Inr (Some i), d') \<Rightarrow> claims_of R S d' = i # claims_of R S d)"

context redis_server
begin

lemma claim_job_effect:
  assumes "namespace_queue (st_keys S) q \<noteq> current_processing_queue S"
  shows "pop_effect R S d (claim_job R S lost q d)"
  using assms
  by (auto simp: pop_effect_def claims_of_def claim_job_def dequeue_w_conn_def lmove_def Let_def
      lpush_l rpop_l fits_rpop split: option.splits)

lemma throttler_state_lists:
  "throttler_state R T now d = (r, d') \<Longrightarrow> r_lrange R d' = r_lrange R d"
proof -
  assume run: "throttler_state R T now d = (r, d')"
  show ?thesis
  proof (cases "fits R d (thr_key T) TZset")
    case True
    then show ?thesis using run state_spec [OF True, of now]
      by (auto simp: throttler_state_def with_connection_def split: option.splits)
  next
    case False
    then show ?thesis using run
      by (auto simp: throttler_state_def with_connection_def state_w_conn_def zremrangebyscore_def writing_def seq_def
          bind_def split: option.splits)
  qed
qed

lemma consume_lists:
  "consume R T t now uuid cost d = (r, d') \<Longrightarrow> r_lrange R d' = r_lrange R d"
proof -
  assume run: "consume R T t now uuid cost d = (r, d')"
  show ?thesis
  proof (cases "r_get R d = None \<and> 0 \<le> t \<and> fits R d (thr_key T) TZset")
    case True
    then obtain d1 st where "state_w_conn R T now d = (Inr st, d1)" "fits R d1 (thr_key T) TZset"
      "r_lrange R d1 = r_lrange R d" using state_spec [of d T now] by auto
    then show ?thesis using run True fold_zadd [of d1 "thr_key T"]
      by (auto simp: consume_def with_connection_def bind_def zadd_multiple_def Let_def split: if_splits)
  next
    case False
    then show ?thesis using run
      by (auto simp: consume_def with_connection_def state_w_conn_def zremrangebyscore_def writing_def seq_def bind_def
          split: option.splits if_splits)
  qed
qed

lemma claimed_cost_same: "claimed_cost R C S er i d = (r, d') \<Longrightarrow> d' = d"
  by (cases rule: get_job_cases [of C S i d])
    (auto simp: claimed_cost_def get_job_def with_connection_def bind_def split: option.splits)

lemma pop_effect_pop:
  assumes "namespace_queue (st_keys S) q \<noteq> current_processing_queue S"
  shows "pop_effect R S d (pop_queue_message R C S inp qc q d)"
proof (cases "qc_throttle qc")
  case None
  then show ?thesis
    using claim_job_effect [OF assms] by (simp add: pop_queue_message_def pop_queue_message_wo_throttle_def)
next
  case (Some throttle)
  let ?T = "throttler_new q (throttle_limit throttle) (throttle_window_ms throttle)"
  obtain r1 d1 where s: "throttler_state R ?T (pi_state_now inp) d = (r1, d1)" by (metis surj_pair)
  have l1: "claims_of R S d1 = claims_of R S d"
    using throttler_state_lists [OF s] by (simp add: claims_of_def)
  obtain r2 d2 where c: "claim_job R S (pi_lost inp) q d1 = (r2, d2)" by (metis surj_pair)
  have e: "pop_effect R S d1 (r2, d2)" using claim_job_effect [OF assms, of d1 "pi_lost inp"] c by simp
  have tail: "pop_effect R S d (case claimed_cost R C S (pi_read_error inp) i d2 of
        (Inl e, d3) \<Rightarrow> (Inl (Claim e), d3)
      | (Inr cost, d3) \<Rightarrow> (case consume R ?T (pi_consume_time inp) (pi_consume_now inp) (pi_uuid inp) cost d3 of
            (Inl e, d4) \<Rightarrow> (Inl (Claim e), d4) | (Inr _, d4) \<Rightarrow> (Inr (Some i), d4)))"
    if "claims_of R S d2 = i # claims_of R S d" for i
    using that by (auto simp: pop_effect_def claims_of_def split: prod.splits sum.splits
        dest!: claimed_cost_same consume_lists)
  show ?thesis
    using s c e l1 tail Some
    by (auto simp: pop_queue_message_def pop_queue_message_w_throttle_def Let_def pop_effect_def
        split: sum.splits option.splits pop_error.splits)
qed

end

section \<open>Properties\<close>


section \<open>Witnesses\<close>

definition sample_pop :: pop_input where
  "sample_pop = \<lparr>pi_lost = None, pi_state_now = 1000, pi_read_error = None, pi_consume_time = 1000,
     pi_consume_now = 1001, pi_uuid = show_nat\<rparr>"


end
