(* ===== verification/Coordinator.thy ===== *)
theory Coordinator
  imports Executor Worker_Registry Dispatcher
begin

text \<open>
  The coordinator of a queue, \<^verbatim>\<open>coordinator.rs\<close>: loading a claimed job, routing it to a task
  of its own or to the batcher of its worker, collecting batches, running a batch with its
  invalid members buried, and watching for queues and their configuration. A task that is
  spawned is recorded; the events a \<^verbatim>\<open>select!\<close> waits for are arguments, in the order in
  which they are served.
\<close>

section \<open>Loading a claimed job\<close>

datatype load_result =
    NotLoaded
  | Loaded job_envelope

text \<open>
  \<open>cancelled\<close> is the shutdown token (the biased first branch), \<open>read_error\<close> the error with
  which \<^verbatim>\<open>get_claimed_job\<close> gives up.
\<close>

definition load_pending_job ::
    "'d redis \<Rightarrow> codec \<Rightarrow> storage \<Rightarrow> bool \<Rightarrow> oxana_error option \<Rightarrow> ('d \<Rightarrow> 'd) \<Rightarrow> job_id \<Rightarrow> ('d, load_result) op" where
  "load_pending_job R C S cancelled read_error env i =
     (if cancelled then return NotLoaded
      else case read_error of
             Some e \<Rightarrow> fail e
           | None \<Rightarrow> bind (get_job R C S i) (\<lambda>r. case r of
                 Some e \<Rightarrow> return (Loaded e)
               | None \<Rightarrow> seq (delete_job R C S env i) (return NotLoaded)))"

section \<open>Results\<close>

record worker_result =
  wr_kind :: worker_result_kind
  wr_worker_name :: string
  wr_queue :: string
  wr_execution_ms :: nat
  wr_job_count :: nat

definition process_result :: "worker_result_kind \<Rightarrow> nat \<Rightarrow> job_envelope list \<Rightarrow> worker_result option" where
  "process_result kind duration_ms es = (case es of
       [] \<Rightarrow> None
     | first # _ \<Rightarrow> Some \<lparr>wr_kind = kind, wr_worker_name = job_data_name (env_job first),
         wr_queue = env_queue first, wr_execution_ms = duration_ms, wr_job_count = min (length es) u64_max\<rparr>)"

section \<open>Running jobs\<close>

record 'd run_context =
  rx_settings :: execution_settings
  rx_kill_io :: "'d io"
  rx_run_io :: "'d io"
  rx_duration_ms :: nat

type_synonym run_report = "worker_result option \<times> oxana_error list"

definition process_pending_job ::
    "'d redis \<Rightarrow> codec \<Rightarrow> storage \<Rightarrow> 'd run_context \<Rightarrow> (oxana_error \<Rightarrow> string)
       \<Rightarrow> ('c, 'd processable, 's) worker_registry \<Rightarrow> 'c \<Rightarrow> job_envelope \<Rightarrow> ('d, run_report) op" where
  "process_pending_job R C S rx show_error reg ctx e =
     (case build show_error reg (job_data_name (env_job e)) (job_data_args (env_job e)) ctx of
        Inl er \<Rightarrow> seq (kill R C S (io_acq (rx_kill_io rx) 0) e
                      (''Invalid job: '' @ job_data_name (env_job e) @ '' - '' @ show_error er))
                    (return (None, []))
      | Inr w \<Rightarrow> bind (run_one R C S (rx_settings rx) (rx_run_io rx) w e) (\<lambda>(kind, fails).
                   return (process_result kind (rx_duration_ms rx) [e], fails)))"

definition invalid_jobs_by_index :: "(nat \<times> string) list \<Rightarrow> nat \<Rightarrow> (nat \<rightharpoonup> string)" where
  "invalid_jobs_by_index invalid n =
     fold (\<lambda>(i, er) m. if i < n \<and> m i = None then m(i \<mapsto> er) else m) invalid Map.empty"

fun kill_each ::
    "'d redis \<Rightarrow> codec \<Rightarrow> storage \<Rightarrow> 'd io \<Rightarrow> nat \<Rightarrow> (job_envelope \<times> string) list \<Rightarrow> ('d, unit) op" where
  "kill_each R C S io k [] = return ()"
| "kill_each R C S io k ((e, msg) # rest) =
     seq (kill R C S (io_acq io k) e msg) (kill_each R C S io (k + 1) rest)"

definition split_batch ::
    "string \<Rightarrow> (nat \<rightharpoonup> string) \<Rightarrow> job_envelope list \<Rightarrow> (job_envelope \<times> string) list \<times> job_envelope list" where
  "split_batch worker_name errs es =
     (List.map_filter (\<lambda>(i, e). map_option (\<lambda>er. (e, ''Invalid job: '' @ worker_name @ '' - '' @ er)) (errs i))
        (List.enumerate 0 es),
      List.map_filter (\<lambda>(i, e). if errs i = None then Some e else None) (List.enumerate 0 es))"

definition process_pending_batch ::
    "'d redis \<Rightarrow> codec \<Rightarrow> storage \<Rightarrow> 'd run_context \<Rightarrow> (oxana_error \<Rightarrow> string)
       \<Rightarrow> ('c, 'd processable, 's) worker_registry \<Rightarrow> 'c \<Rightarrow> job_envelope list \<Rightarrow> ('d, run_report) op" where
  "process_pending_batch R C S rx show_error reg ctx es = (case es of
       [] \<Rightarrow> return (None, [])
     | first # _ \<Rightarrow>
         let name = job_data_name (env_job first) in
         case build_batch show_error reg name (map (\<lambda>e. job_data_args (env_job e)) es) ctx of
           Inl er \<Rightarrow>
             seq (kill_each R C S (rx_kill_io rx) 0
                    (map (\<lambda>e. (e, ''Invalid job batch: '' @ name @ '' - '' @ show_error er)) es))
                 (return (None, []))
         | Inr b \<Rightarrow>
             (case split_batch name (invalid_jobs_by_index (bb_invalid b) (length es)) es of
                (bad, valid) \<Rightarrow>
                  seq (kill_each R C S (rx_kill_io rx) 0 bad)
                    (case bb_job b of
                       None \<Rightarrow> return (None, [])
                     | Some w \<Rightarrow> bind (run_batch R C S (rx_settings rx) (rx_run_io rx) w valid) (\<lambda>(kind, fails).
                         return (process_result kind (rx_duration_ms rx) valid, fails)))))"

section \<open>Batchers\<close>

text \<open>
  A batcher collects jobs until the batch is full, its timeout fires, its channel closes or
  the runtime is cancelled; \<open>CancelledWith\<close> carries the jobs still buffered in the channel.
\<close>

record 'j batcher =
  bt_pending :: "'j list"
  bt_batches :: "'j list list"
  bt_done :: bool

definition batcher_new :: "'j batcher" where
  "batcher_new = \<lparr>bt_pending = [], bt_batches = [], bt_done = False\<rparr>"

definition spawn_batch :: "'j batcher \<Rightarrow> 'j batcher" where
  "spawn_batch b = (if bt_pending b = [] then b
     else b\<lparr>bt_pending := [], bt_batches := bt_batches b @ [bt_pending b]\<rparr>)"

definition push_job :: "'j \<Rightarrow> 'j batcher \<Rightarrow> 'j batcher" where
  "push_job j b = b\<lparr>bt_pending := bt_pending b @ [j]\<rparr>"

definition flush_batcher :: "nat \<Rightarrow> 'j list \<Rightarrow> 'j batcher \<Rightarrow> 'j batcher" where
  "flush_batcher cap buffered b = spawn_batch
     (fold (\<lambda>j b. let b' = push_job j b in if cap \<le> length (bt_pending b') then spawn_batch b' else b') buffered b)"

datatype 'j batch_event =
    Received 'j
  | ChannelClosed
  | TimeoutFired
  | CancelledWith "'j list"

definition batcher_step :: "worker_batch_config \<Rightarrow> 'j batch_event \<Rightarrow> 'j batcher \<Rightarrow> 'j batcher" where
  "batcher_step cfg ev b =
     (if bt_done b then b
      else case ev of
        Received j \<Rightarrow>
          (let b' = push_job j b in
           if batch_size cfg \<le> length (bt_pending b') \<or> bt_pending b = [] \<and> batch_timeout cfg = 0
           then spawn_batch b' else b')
      | ChannelClosed \<Rightarrow> (spawn_batch b)\<lparr>bt_done := True\<rparr>
      | TimeoutFired \<Rightarrow> spawn_batch b
      | CancelledWith buffered \<Rightarrow> (flush_batcher (batch_size cfg) buffered b)\<lparr>bt_done := True\<rparr>)"

definition run_batcher :: "worker_batch_config \<Rightarrow> 'j batch_event list \<Rightarrow> 'j batcher" where
  "run_batcher cfg evs = fold (batcher_step cfg) evs batcher_new"

section \<open>Watching queues\<close>

text \<open>
  \<^verbatim>\<open>run_queue_watcher\<close>: every turn discovers queues, and for each new one creates its control
  and spawns one configuration watcher and one dispatcher.
\<close>

record watcher =
  wt_tracked :: "string list"
  wt_controls :: "string \<rightharpoonup> queue_control"
  wt_dispatchers :: "string list"

definition watcher_new :: watcher where
  "watcher_new = \<lparr>wt_tracked = [], wt_controls = Map.empty, wt_dispatchers = []\<rparr>"

fun track_new_queues ::
    "'d redis \<Rightarrow> codec \<Rightarrow> storage \<Rightarrow> queue_config \<Rightarrow> string list \<Rightarrow> watcher \<Rightarrow> ('d, watcher) op" where
  "track_new_queues R C S qc [] wt = return wt"
| "track_new_queues R C S qc (q # qs) wt =
     bind (runtime_queue_config R C S q (key_or_prefix qc) (stored_runtime_default (qc_concurrency qc))) (\<lambda>rc.
       let eff = effective_runtime_config (qc_concurrency qc) rc;
           (ctl, controls) = get_or_create q eff (wt_controls wt)
       in track_new_queues R C S qc qs
            \<lparr>wt_tracked = q # wt_tracked wt, wt_controls = controls(q \<mapsto> apply_config eff ctl),
             wt_dispatchers = wt_dispatchers wt @ [q]\<rparr>)"

definition discovered :: "'d redis \<Rightarrow> storage \<Rightarrow> queue_config \<Rightarrow> 32 word \<Rightarrow> 32 word \<Rightarrow> 'd
       \<Rightarrow> (oxana_error + string list) \<times> 32 word" where
  "discovered R S qc tol c d = (case qc_kind qc of
       Static key \<Rightarrow> (Inr [key], c)
     | Dynamic pre _ \<Rightarrow> (case track_redis_result c (fst (queues R S pre d)) tol of
           (Inl e, c') \<Rightarrow> (Inl e, c')
         | (Inr None, c') \<Rightarrow> (Inr [], c')
         | (Inr (Some qs), c') \<Rightarrow> (Inr (remdups qs), c')))"

definition watch_turn ::
    "'d redis \<Rightarrow> codec \<Rightarrow> storage \<Rightarrow> queue_config \<Rightarrow> 32 word \<Rightarrow> 32 word \<Rightarrow> watcher \<Rightarrow> 'd
       \<Rightarrow> (oxana_error + watcher) \<times> 32 word" where
  "watch_turn R C S qc tol c wt d = (case discovered R S qc tol c d of
       (Inl e, c') \<Rightarrow> (Inl e, c')
     | (Inr all, c') \<Rightarrow>
         (fst (track_new_queues R C S qc (filter (\<lambda>q. q \<notin> set (wt_tracked wt)) all) wt d), c'))"

text \<open>The configuration watcher: one tick.\<close>

definition config_watch_turn ::
    "'d redis \<Rightarrow> codec \<Rightarrow> storage \<Rightarrow> queue_config \<Rightarrow> 32 word \<Rightarrow> 32 word \<Rightarrow> string \<Rightarrow> queue_control \<Rightarrow> 'd
       \<Rightarrow> (oxana_error + queue_control) \<times> 32 word" where
  "config_watch_turn R C S qc tol c q ctl d =
     (case track_redis_result c
          (fst (runtime_queue_config R C S q (key_or_prefix qc) (stored_runtime_default (qc_concurrency qc)) d)) tol of
        (Inl e, c') \<Rightarrow> (Inl e, c')
      | (Inr None, c') \<Rightarrow> (Inr ctl, c')
      | (Inr (Some rc), c') \<Rightarrow>
          (Inr (apply_config (effective_runtime_config (qc_concurrency qc) rc) ctl), c'))"

section \<open>Lemmas on batchers\<close>

text \<open>Every job so far is in exactly one place, in order, and no batch is empty or too large.\<close>

definition batcher_inv :: "nat \<Rightarrow> 'j list \<Rightarrow> 'j batcher \<Rightarrow> bool" where
  "batcher_inv cap js b \<longleftrightarrow> concat (bt_batches b) @ bt_pending b = js \<and> length (bt_pending b) < cap \<and>
     (\<forall>x\<in>set (bt_batches b). x \<noteq> [] \<and> length x \<le> cap)"

lemma batcher_sel [simp]:
  "bt_done (spawn_batch b) = bt_done b" "bt_done (push_job j b) = bt_done b" "bt_pending (spawn_batch b) = []"
  by (simp_all add: spawn_batch_def push_job_def)

lemma batcher_inv_spawn:
  assumes "concat (bt_batches b) @ bt_pending b = js" "length (bt_pending b) \<le> cap" "0 < cap"
    and "\<forall>x\<in>set (bt_batches b). x \<noteq> [] \<and> length x \<le> cap"
  shows "batcher_inv cap js (spawn_batch b)"
  using assms by (auto simp: batcher_inv_def spawn_batch_def)

lemma batcher_inv_push:
  assumes "batcher_inv cap js b"
  shows "batcher_inv cap (js @ [j])
    (if cap \<le> length (bt_pending (push_job j b)) \<or> P then spawn_batch (push_job j b) else push_job j b)"
proof -
  have "0 < cap" using assms by (auto simp: batcher_inv_def)
  then have "batcher_inv cap (js @ [j]) (spawn_batch (push_job j b))"
    using assms by (intro batcher_inv_spawn) (auto simp: batcher_inv_def push_job_def)
  moreover have "batcher_inv cap (js @ [j]) (push_job j b)" if "\<not> cap \<le> length (bt_pending (push_job j b))"
    using assms that by (auto simp: batcher_inv_def push_job_def)
  ultimately show ?thesis by simp
qed

lemma batcher_inv_flush:
  assumes "batcher_inv cap js b"
  shows "batcher_inv cap (js @ buffered) (flush_batcher cap buffered b) \<and> bt_pending (flush_batcher cap buffered b) = []"
proof -
  let ?f = "\<lambda>j b. let b' = push_job j b in if cap \<le> length (bt_pending b') then spawn_batch b' else b'"
  have "batcher_inv cap (js @ buffered) (fold ?f buffered b)"
    using assms
  proof (induction buffered arbitrary: b js)
    case (Cons j buffered)
    from batcher_inv_push [OF Cons.prems, of j False] have "batcher_inv cap (js @ [j]) (?f j b)"
      by (simp add: Let_def)
    from Cons.IH [OF this] show ?case by simp
  qed simp
  then have "batcher_inv cap (js @ buffered) (spawn_batch (fold ?f buffered b))"
    by (intro batcher_inv_spawn) (auto simp: batcher_inv_def)
  then show ?thesis by (simp add: flush_batcher_def)
qed

fun received :: "'j batch_event \<Rightarrow> 'j list" where
  "received (Received j) = [j]"
| "received (CancelledWith js) = js"
| "received _ = []"

text \<open>Nothing is received after the channel is closed or the batcher is cancelled.\<close>

fun events_ok :: "'j batch_event list \<Rightarrow> bool" where
  "events_ok [] = True"
| "events_ok (ChannelClosed # evs) = (evs = [])"
| "events_ok (CancelledWith js # evs) = (evs = [])"
| "events_ok (ev # evs) = events_ok evs"

lemma batcher_inv_step:
  assumes "batcher_inv (batch_size cfg) js b" and "\<not> bt_done b"
  shows "batcher_inv (batch_size cfg) (js @ received ev) (batcher_step cfg ev b) \<and>
    (bt_done (batcher_step cfg ev b) \<longrightarrow> bt_pending (batcher_step cfg ev b) = []) \<and>
    (bt_done (batcher_step cfg ev b) \<longleftrightarrow> ev = ChannelClosed \<or> (\<exists>js. ev = CancelledWith js))"
proof (cases ev)
  case (Received j)
  from batcher_inv_push [OF assms(1), of j "bt_pending b = [] \<and> batch_timeout cfg = 0"] Received assms(2)
  show ?thesis by (simp add: batcher_step_def Let_def)
next
  case ChannelClosed
  have "batcher_inv (batch_size cfg) js (spawn_batch b)"
    using assms(1) by (intro batcher_inv_spawn) (auto simp: batcher_inv_def)
  with ChannelClosed assms(2) show ?thesis by (simp add: batcher_step_def batcher_inv_def)
next
  case TimeoutFired
  have "batcher_inv (batch_size cfg) js (spawn_batch b)"
    using assms(1) by (intro batcher_inv_spawn) (auto simp: batcher_inv_def)
  with TimeoutFired assms(2) show ?thesis by (simp add: batcher_step_def)
next
  case (CancelledWith js')
  from batcher_inv_flush [OF assms(1), of js'] CancelledWith assms(2) show ?thesis
    by (auto simp: batcher_step_def batcher_inv_def)
qed

lemma batcher_inv_run:
  assumes "batcher_inv (batch_size cfg) js b" and "\<not> bt_done b" and "events_ok evs"
  shows "batcher_inv (batch_size cfg) (js @ concat (map received evs)) (fold (batcher_step cfg) evs b) \<and>
    (bt_done (fold (batcher_step cfg) evs b) \<longrightarrow> bt_pending (fold (batcher_step cfg) evs b) = [])"
  using assms
proof (induction evs arbitrary: b js)
  case (Cons ev evs)
  note st = batcher_inv_step [OF Cons.prems(1,2), of ev]
  show ?case
  proof (cases "bt_done (batcher_step cfg ev b)")
    case True
    then have "evs = []" using st Cons.prems(3) by auto
    with st show ?thesis by simp
  next
    case False
    then have "events_ok evs" using st Cons.prems(3) by (cases ev) auto
    from Cons.IH [OF _ False this, of "js @ received ev"] st show ?thesis by simp
  qed
qed simp

section \<open>Lemmas on batches\<close>

lemma invalid_by_index:
  assumes "distinct (map fst invalid)" and "\<forall>(i, er)\<in>set invalid. i < n"
  shows "invalid_jobs_by_index invalid n = map_of invalid"
proof -
  have "fold (\<lambda>(i, er) m. if i < n \<and> m i = None then m(i \<mapsto> er) else m) invalid m0 = m0 ++ map_of invalid"
    if "distinct (map fst invalid)" "\<forall>(i, er)\<in>set invalid. i < n \<and> m0 i = None" for m0
    using that
  proof (induction invalid arbitrary: m0)
    case (Cons x invalid)
    obtain i er where x: "x = (i, er)" by (cases x)
    have "fold (\<lambda>(i, er) m. if i < n \<and> m i = None then m(i \<mapsto> er) else m) invalid (m0(i \<mapsto> er)) =
        m0(i \<mapsto> er) ++ map_of invalid"
      by (rule Cons.IH) (use Cons.prems x in force)+
    moreover have "map_of invalid i = None" using Cons.prems(1) x by (simp add: map_of_eq_None_iff)
    ultimately show ?case using Cons.prems x by (auto simp: fun_eq_iff map_add_def split: option.splits)
  qed simp
  from this [of Map.empty] assms show ?thesis by (simp add: invalid_jobs_by_index_def)
qed

text \<open>The errors of the generic batch factory, by position.\<close>

lemma split_values_invalid:
  assumes "split_values fv n vs = (js, invalid)"
  shows "map_of invalid = (\<lambda>i. if n \<le> i \<and> i < n + length vs then (case fv (vs ! (i - n)) of Inl er \<Rightarrow> Some er | Inr _ \<Rightarrow> None) else None) \<and>
    distinct (map fst invalid) \<and> (\<forall>(i, er)\<in>set invalid. n \<le> i \<and> i < n + length vs)"
  using assms
proof (induction vs arbitrary: n js invalid)
  case (Cons v vs)
  obtain js' inv' where r: "split_values fv (n + 1) vs = (js', inv')" by (metis surj_pair)
  note ih = Cons.IH [OF r]
  have tail: "(if n + 1 \<le> i \<and> i < n + 1 + length vs then (case fv (vs ! (i - (n + 1))) of Inl er \<Rightarrow> Some er | Inr _ \<Rightarrow> None) else None) =
      (if n < i \<and> i < n + length (v # vs) then (case fv ((v # vs) ! (i - n)) of Inl er \<Rightarrow> Some er | Inr _ \<Rightarrow> None) else None)" for i
    by (auto simp: nth_Cons')
  show ?case
  proof (cases "fv v")
    case (Inl er)
    then have i: "invalid = (n, er) # inv'" using Cons.prems r by simp
    have "map_of invalid i = (if n \<le> i \<and> i < n + length (v # vs) then (case fv ((v # vs) ! (i - n)) of Inl er \<Rightarrow> Some er | Inr _ \<Rightarrow> None) else None)" for i
      using ih tail [of i] Inl by (cases "i = n") (auto simp: i)
    moreover have "distinct (map fst invalid)" using ih by (force simp: i)
    ultimately show ?thesis using ih by (fastforce simp: i)
  next
    case (Inr j)
    then have i: "invalid = inv'" using Cons.prems r by simp
    have "map_of invalid i = (if n \<le> i \<and> i < n + length (v # vs) then (case fv ((v # vs) ! (i - n)) of Inl er \<Rightarrow> Some er | Inr _ \<Rightarrow> None) else None)" for i
      using ih tail [of i] Inr by (cases "i = n") (auto simp: i)
    then show ?thesis using ih by (fastforce simp: i)
  qed
qed (auto simp: fun_eq_iff)

lemma valid_by_index:
  assumes "\<And>i. i < length es \<Longrightarrow> errs (n + i) = (case fv (es ! i) of Inl er \<Rightarrow> Some er | Inr _ \<Rightarrow> None)"
  shows "List.map_filter (\<lambda>(i, e). if errs i = None then Some e else None) (List.enumerate n es) =
      filter (\<lambda>e. \<not> isl (fv e)) es"
    and "List.map_filter (\<lambda>(i, e). map_option (g e) (errs i)) (List.enumerate n es) =
      map (\<lambda>e. g e (projl (fv e))) (filter (\<lambda>e. isl (fv e)) es)"
  using assms
proof (induction es arbitrary: n)
  case (Cons e es)
  {
    case 1
    have "List.map_filter (\<lambda>(i, e). if errs i = None then Some e else None) (List.enumerate (Suc n) es) =
        filter (\<lambda>e. \<not> isl (fv e)) es"
      by (rule Cons.IH(1)) (use 1 [of "Suc _"] in auto)
    then show ?case using 1 [of 0] by (cases "fv e") (auto simp: List.map_filter_simps)
  next
    case 2
    have "List.map_filter (\<lambda>(i, e). map_option (g e) (errs i)) (List.enumerate (Suc n) es) =
        map (\<lambda>e. g e (projl (fv e))) (filter (\<lambda>e. isl (fv e)) es)"
      by (rule Cons.IH(2)) (use 2 [of "Suc _"] in auto)
    then show ?case using 2 [of 0] by (cases "fv e") (auto simp: List.map_filter_simps)
  }
qed (simp_all add: List.map_filter_simps)

section \<open>Lemmas on the watcher\<close>

definition watcher_inv :: "watcher \<Rightarrow> bool" where
  "watcher_inv wt \<longleftrightarrow> distinct (wt_dispatchers wt) \<and> set (wt_dispatchers wt) = set (wt_tracked wt) \<and>
     dom (wt_controls wt) = set (wt_tracked wt)"

lemma track_new_queues_inv:
  assumes "watcher_inv wt" and "distinct qs" and "set qs \<inter> set (wt_tracked wt) = {}"
    and "track_new_queues R C S qc qs wt d = (Inr wt', d')"
  shows "watcher_inv wt' \<and> set (wt_tracked wt') = set qs \<union> set (wt_tracked wt)"
  using assms
proof (induction qs arbitrary: wt d)
  case (Cons q qs)
  obtain rc d1 where "runtime_queue_config R C S q (key_or_prefix qc) (stored_runtime_default (qc_concurrency qc)) d = (Inr rc, d1)"
    using Cons.prems(4) by (auto simp: bind_eq_Inr)
  define eff where "eff = effective_runtime_config (qc_concurrency qc) rc"
  define gc where "gc = get_or_create q eff (wt_controls wt)"
  define wt1 where "wt1 = \<lparr>wt_tracked = q # wt_tracked wt, wt_controls = (snd gc)(q \<mapsto> apply_config eff (fst gc)),
     wt_dispatchers = wt_dispatchers wt @ [q]\<rparr>"
  have run: "track_new_queues R C S qc qs wt1 d1 = (Inr wt', d')"
    using Cons.prems(4) \<open>runtime_queue_config _ _ _ _ _ _ _ = _\<close>
    by (simp add: bind_def Let_def wt1_def gc_def eff_def case_prod_beta)
  have "dom (snd gc) \<union> {q} = insert q (dom (wt_controls wt))"
    by (auto simp: gc_def get_or_create_def split: option.splits if_splits)
  then have "watcher_inv wt1"
    using Cons.prems(1,3) by (auto simp: watcher_inv_def wt1_def)
  moreover have "distinct qs" "set qs \<inter> set (wt_tracked wt1) = {}" using Cons.prems(2,3) by (auto simp: wt1_def)
  ultimately show ?case using Cons.IH [OF _ _ _ run] by (auto simp: wt1_def)
qed simp

text \<open>The turns of the watcher, each at the server state it finds.\<close>

fun watch_turns ::
    "'d redis \<Rightarrow> codec \<Rightarrow> storage \<Rightarrow> queue_config \<Rightarrow> 32 word \<Rightarrow> 32 word \<Rightarrow> watcher \<Rightarrow> 'd list \<Rightarrow> oxana_error + watcher" where
  "watch_turns R C S qc tol c wt [] = Inr wt"
| "watch_turns R C S qc tol c wt (d # ds) = (case watch_turn R C S qc tol c wt d of
       (Inl e, _) \<Rightarrow> Inl e
     | (Inr wt', c') \<Rightarrow> watch_turns R C S qc tol c' wt' ds)"

lemma watch_turn_inv:
  assumes "watcher_inv wt" and "watch_turn R C S qc tol c wt d = (Inr wt', c')"
  shows "watcher_inv wt' \<and> set (wt_tracked wt) \<subseteq> set (wt_tracked wt')"
proof -
  obtain qs where ds: "discovered R S qc tol c d = (Inr qs, c')"
    and tr: "fst (track_new_queues R C S qc (filter (\<lambda>q. q \<notin> set (wt_tracked wt)) qs) wt d) = Inr wt'"
    using assms(2) by (auto simp: watch_turn_def split: prod.splits sum.splits)
  have "distinct qs"
    using ds by (auto simp: discovered_def split: queue_kind.splits prod.splits sum.splits option.splits)
  then have dq: "distinct (filter (\<lambda>q. q \<notin> set (wt_tracked wt)) qs)" by simp
  have new: "set (filter (\<lambda>q. q \<notin> set (wt_tracked wt)) qs) \<inter> set (wt_tracked wt) = {}" by auto
  have "track_new_queues R C S qc (filter (\<lambda>q. q \<notin> set (wt_tracked wt)) qs) wt d =
      (Inr wt', snd (track_new_queues R C S qc (filter (\<lambda>q. q \<notin> set (wt_tracked wt)) qs) wt d))"
    using tr by (simp add: prod_eq_iff)
  from track_new_queues_inv [OF assms(1) dq new this] show ?thesis by simp
qed

lemma watch_turns_inv:
  assumes "watcher_inv wt" and "watch_turns R C S qc tol c wt ds = Inr wt'"
  shows "watcher_inv wt'"
  using assms
  by (induction ds arbitrary: c wt) (auto split: prod.splits sum.splits dest: watch_turn_inv)

section \<open>Properties\<close>

text \<open>
  C18. Batching loses, duplicates and reorders nothing: for every order in which jobs
  arrive, timeouts fire, the channel closes or the runtime is cancelled, the batches spawned
  so far followed by the pending jobs are the received jobs in order, no batch is empty or
  larger than configured, and a batcher that has ended holds no job back.
\<close>

theorem batcher_partitions_jobs:
  assumes "0 < batch_size cfg" and "events_ok evs"
  shows "concat (bt_batches (run_batcher cfg evs)) @ bt_pending (run_batcher cfg evs) = concat (map received evs) \<and>
    (\<forall>b\<in>set (bt_batches (run_batcher cfg evs)). b \<noteq> [] \<and> length b \<le> batch_size cfg) \<and>
    length (bt_pending (run_batcher cfg evs)) < batch_size cfg \<and>
    (bt_done (run_batcher cfg evs) \<longrightarrow> bt_pending (run_batcher cfg evs) = [])"
proof -
  have "batcher_inv (batch_size cfg) [] (batcher_new :: 'a batcher)"
    using assms(1) by (simp add: batcher_inv_def batcher_new_def)
  from batcher_inv_run [OF this _ assms(2)] show ?thesis
    by (simp add: run_batcher_def batcher_inv_def batcher_new_def)
qed

text \<open>
  A batch of a registered worker is split exactly by its arguments: the jobs whose
  arguments do not parse are buried with their own error, the others run together in their
  order, and the worker built for them has as many jobs as it is given envelopes, so the
  length check of the executor never fails.
\<close>

theorem batch_split_by_arguments:
  assumes "es = first # rest" and "factories_for reg (job_data_name (env_job first)) = Some fs"
    and "batch_factory fs = job_batch_factory fv bound"
    and "\<And>ctx js. p_len (bound ctx js) = length js"
  shows "let name = job_data_name (env_job first);
             parse = (\<lambda>e. fv (job_data_args (env_job e)));
             bad = filter (\<lambda>e. isl (parse e)) es;
             good = filter (\<lambda>e. \<not> isl (parse e)) es;
             w = bound ctx (map (\<lambda>e. projr (parse e)) good)
         in p_len w = length good \<and>
            process_pending_batch R C S rx show_error reg ctx es =
              seq (kill_each R C S (rx_kill_io rx) 0
                     (map (\<lambda>e. (e, ''Invalid job: '' @ name @ '' - '' @ projl (parse e))) bad))
                (if good = [] then return (None, [])
                 else bind (run_batch R C S (rx_settings rx) (rx_run_io rx) w good) (\<lambda>(kind, fails).
                        return (process_result kind (rx_duration_ms rx) good, fails)))"
proof -
  let ?args = "\<lambda>e. job_data_args (env_job e)" and ?name = "job_data_name (env_job first)"
  let ?parse = "\<lambda>e. fv (?args e)"
  let ?good = "filter (\<lambda>e. \<not> isl (?parse e)) es" and ?bad = "filter (\<lambda>e. isl (?parse e)) es"
  obtain js invalid where sv: "split_values fv 0 (map ?args es) = (js, invalid)" by (metis surj_pair)
  have js: "js = map (\<lambda>e. projr (?parse e)) ?good"
    using sv split_values_spec [of fv 0 "map ?args es"] by (simp add: filter_map comp_def)
  have "invalid_jobs_by_index invalid (length es) = map_of invalid"
    using split_values_invalid [OF sv] by (intro invalid_by_index) auto
  then have errs: "invalid_jobs_by_index invalid (length es) (0 + i) =
      (case ?parse (es ! i) of Inl er \<Rightarrow> Some er | Inr _ \<Rightarrow> None)" if "i < length es" for i
    using split_values_invalid [OF sv] that by simp
  have split: "split_batch ?name (invalid_jobs_by_index invalid (length es)) es =
      (map (\<lambda>e. (e, ''Invalid job: '' @ ?name @ '' - '' @ projl (?parse e))) ?bad, ?good)"
    unfolding split_batch_def
    using valid_by_index(1) [of es "invalid_jobs_by_index invalid (length es)" 0 ?parse, OF errs]
      valid_by_index(2) [of es "invalid_jobs_by_index invalid (length es)" 0 ?parse
        "\<lambda>e er. (e, ''Invalid job: '' @ ?name @ '' - '' @ er)", OF errs]
    by simp
  have "build_batch show_error reg ?name (map ?args es) ctx =
      Inr \<lparr>bb_job = (if js = [] then None else Some (bound ctx js)), bb_invalid = invalid\<rparr>"
    by (simp add: build_batch_def assms(2,3) job_batch_factory_def sv)
  then show ?thesis
    using split js assms(4)
    by (simp add: process_pending_batch_def assms(1) Let_def)
qed

text \<open>
  C19. One dispatcher per queue: however often a watcher discovers queues, and whatever it
  finds, it has started exactly one dispatcher for every queue it tracks, and every tracked
  queue has a control.
\<close>

theorem one_dispatcher_per_queue:
  assumes "watch_turns R C S qc tol c watcher_new ds = Inr wt"
  shows "distinct (wt_dispatchers wt) \<and> set (wt_dispatchers wt) = set (wt_tracked wt) \<and>
    dom (wt_controls wt) = set (wt_tracked wt)"
  using watch_turns_inv [OF _ assms] by (simp add: watcher_inv_def watcher_new_def)

text \<open>
  Loading a claimed job never drops it: unless its payload is gone, cancellation, a
  failed read and an unreadable payload all leave the store as it is, so the claim stays in
  the processing list for recovery.
\<close>

theorem load_keeps_claim:
  assumes "r_hget R d (jobs_key (st_keys S)) i \<noteq> None"
    and "load_pending_job R C S cancelled read_error env i d = (r, d')"
  shows "d' = d \<and> (r = Inr NotLoaded \<longrightarrow> cancelled)"
  using assms
  by (auto simp: load_pending_job_def get_job_def with_connection_def get_job_w_conn_def bind_def seq_def hget_def reading_def
      parse_envelope_def split: if_splits option.splits sum.splits)

section \<open>Witnesses\<close>

theorem batcher_partitions_jobs_witness:
  "bt_batches (run_batcher \<lparr>batch_size = 2, batch_timeout = 5\<rparr>
      [Received ''a'', Received ''b'', Received ''c'', CancelledWith [''d'', ''e'']]) = [[''a'', ''b''], [''c'', ''d''], [''e'']] \<and>
   concat (bt_batches (run_batcher \<lparr>batch_size = 2, batch_timeout = 5\<rparr>
      [Received ''a'', Received ''b'', Received ''c'', CancelledWith [''d'', ''e'']])) = [''a'', ''b'', ''c'', ''d'', ''e'']"
proof -
  let ?b = "run_batcher \<lparr>batch_size = 2, batch_timeout = 5\<rparr>
      [Received ''a'', Received ''b'', Received ''c'', CancelledWith [''d'', ''e'']]"
  have "bt_done ?b"
    and "bt_batches ?b = [[''a'', ''b''], [''c'', ''d''], [''e'']]"
    by (simp_all add: run_batcher_def batcher_new_def batcher_step_def flush_batcher_def push_job_def spawn_batch_def Let_def)
  then show ?thesis
    using batcher_partitions_jobs [of "\<lparr>batch_size = 2, batch_timeout = 5\<rparr>"
        "[Received ''a'', Received ''b'', Received ''c'', CancelledWith [''d'', ''e'']]"] by simp
qed

text \<open>A worker type whose jobs are strings, in a registry of its own.\<close>

definition string_job :: "json \<Rightarrow> string + string" where
  "string_job j = (case as_str j of None \<Rightarrow> Inl ''expected a string'' | Some s \<Rightarrow> Inr s)"

definition quiet_batch :: "unit \<Rightarrow> string list \<Rightarrow> mem processable" where
  "quiet_batch ctx js = \<lparr>p_len = length js, p_max_retries = (\<lambda>_. 2), p_retry_delay = (\<lambda>_ _. 25),
     p_should_resume = True, p_process = (\<lambda>_ d. (ExecSuccess, d))\<rparr>"

definition string_registry :: "(unit, mem processable, unit) worker_registry" where
  "string_registry = registry_new\<lparr>jobs := [job_data_name (env_job sample_envelope) \<mapsto>
     \<lparr>factory = job_factory string_job (\<lambda>ctx j. quiet_batch ctx [j]), batch_factory = job_batch_factory string_job quiet_batch,
      factories_batch_config = None, cron_factory = None\<rparr>]\<rparr>"

theorem batch_split_by_arguments_witness:
  "p_len (quiet_batch () (map (\<lambda>e. projr (string_job (job_data_args (env_job e))))
      (filter (\<lambda>e. \<not> isl (string_job (job_data_args (env_job e)))) [sample_envelope]))) =
    length (filter (\<lambda>e. \<not> isl (string_job (job_data_args (env_job e)))) [sample_envelope])"
proof -
  have f: "factories_for string_registry (job_data_name (env_job sample_envelope)) =
      Some \<lparr>factory = job_factory string_job (\<lambda>ctx j. quiet_batch ctx [j]),
        batch_factory = job_batch_factory string_job quiet_batch, factories_batch_config = None, cron_factory = None\<rparr>"
    by (simp add: factories_for_def resolve_name_def string_registry_def)
  from batch_split_by_arguments [OF refl f, of string_job quiet_batch "[]" "()"]
  show ?thesis by (simp add: quiet_batch_def Let_def)
qed

theorem one_dispatcher_per_queue_witness:
  "\<exists>wt. watch_turns mem_redis netstring_codec sample_storage (as_static ''mail'') 30 0 watcher_new [[], []] = Inr wt \<and>
     wt_dispatchers wt = [''mail''] \<and> distinct (wt_dispatchers wt)"
proof -
  have "\<exists>wt. watch_turns mem_redis netstring_codec sample_storage (as_static ''mail'') 30 0 watcher_new [[], []] = Inr wt \<and>
     wt_dispatchers wt = [''mail'']"
    by (simp add: watch_turn_def discovered_def as_static_def watcher_new_def config_run key_or_prefix_def
        stored_runtime_default_def get_or_create_def)
  with one_dispatcher_per_queue [of mem_redis netstring_codec sample_storage "as_static ''mail''" 30 0 "[[], []]"]
  show ?thesis by blast
qed

theorem load_keeps_claim_witness:
  "snd (load_pending_job mem_redis netstring_codec sample_storage False (Some (DeadpoolRedisError IoError)) (\<lambda>d. d)
      ''Mail/7'' sample_claimed) = sample_claimed"
proof -
  have "r_hget mem_redis sample_claimed (jobs_key (st_keys sample_storage)) ''Mail/7'' \<noteq> None"
    by (simp add: sample_run)
  from load_keeps_claim [OF this, where cancelled = False and read_error = "Some (DeadpoolRedisError IoError)"
      and env = "\<lambda>d. d" and C = netstring_codec]
  show ?thesis by (metis prod.collapse)
qed

end
