(* ===== verification/Router.thy ===== *)
theory Router
  imports Coordinator "HOL-Library.Multiset"
begin

text \<open>
  The routing loop of the coordinator, \<^verbatim>\<open>coordinator.rs\<close> (\<^verbatim>\<open>run\<close>, \<^verbatim>\<open>route_job\<close>,
  \<^verbatim>\<open>send_to_batcher\<close>, \<^verbatim>\<open>spawn_batcher\<close>): a loaded job is spawned as a task of its own or sent
  over a bounded channel to the batcher of its worker and queue, which runs concurrently and
  may end at any moment. The interleavings of the loop with its batchers are the rules of a
  step relation over executable definitions.
\<close>

section \<open>State\<close>

record batch_key =
  bk_worker :: string
  bk_queue :: string

definition from_envelope :: "job_envelope \<Rightarrow> batch_key" where
  "from_envelope e = \<lparr>bk_worker = job_data_name (env_job e), bk_queue = env_queue e\<rparr>"

text \<open>A batcher task with its channel; the senders of a channel are its positions in the map.\<close>

record batch_task =
  tk_config :: worker_batch_config
  tk_channel :: "job_envelope list"
  tk_batcher :: "job_envelope batcher"

text \<open>\<open>rt_sending\<close> is the job that \<^verbatim>\<open>send_to_batcher\<close> has in hand between two attempts.\<close>

record router =
  rt_batchers :: "batch_key \<rightharpoonup> nat"
  rt_tasks :: "batch_task list"
  rt_singles :: "job_envelope list"
  rt_sending :: "(job_envelope \<times> worker_batch_config) option"

definition router_new :: router where
  "router_new = \<lparr>rt_batchers = Map.empty, rt_tasks = [], rt_singles = [], rt_sending = None\<rparr>"

section \<open>Operations\<close>

definition task_new :: "worker_batch_config \<Rightarrow> batch_task" where
  "task_new cfg = \<lparr>tk_config = cfg, tk_channel = [], tk_batcher = batcher_new\<rparr>"

definition spawn_batcher :: "worker_batch_config \<Rightarrow> router \<Rightarrow> nat \<times> router" where
  "spawn_batcher cfg rt = (length (rt_tasks rt), rt\<lparr>rt_tasks := rt_tasks rt @ [task_new cfg]\<rparr>)"

definition batcher_entry :: "batch_key \<Rightarrow> worker_batch_config \<Rightarrow> router \<Rightarrow> nat \<times> router" where
  "batcher_entry k cfg rt = (case rt_batchers rt k of
       Some i \<Rightarrow> (i, rt)
     | None \<Rightarrow> (case spawn_batcher cfg rt of (i, rt1) \<Rightarrow> (i, rt1\<lparr>rt_batchers := (rt_batchers rt1)(k \<mapsto> i)\<rparr>)))"

text \<open>
  One turn of the loop of \<^verbatim>\<open>send_to_batcher\<close>. A send to an ended batcher gives the job back
  and forgets the batcher; a send to a full channel waits.
\<close>

definition send_attempt :: "router \<Rightarrow> router" where
  "send_attempt rt = (case rt_sending rt of
       None \<Rightarrow> rt
     | Some (e, cfg) \<Rightarrow>
         (case batcher_entry (from_envelope e) cfg rt of (i, rt1) \<Rightarrow>
            let t = rt_tasks rt1 ! i in
            if bt_done (tk_batcher t) then rt1\<lparr>rt_batchers := (rt_batchers rt1)(from_envelope e := None)\<rparr>
            else if length (tk_channel t) < batch_size (tk_config t) * 2
            then rt1\<lparr>rt_tasks := (rt_tasks rt1)[i := t\<lparr>tk_channel := tk_channel t @ [e]\<rparr>], rt_sending := None\<rparr>
            else rt1))"

definition place_job :: "('c, 'w, 's) worker_registry \<Rightarrow> job_envelope \<Rightarrow> router \<Rightarrow> router" where
  "place_job reg e rt = (case batch_config reg (job_data_name (env_job e)) of
       Some cfg \<Rightarrow> rt\<lparr>rt_sending := Some (e, cfg)\<rparr>
     | None \<Rightarrow> rt\<lparr>rt_singles := rt_singles rt @ [e]\<rparr>)"

definition route_job ::
    "'d redis \<Rightarrow> codec \<Rightarrow> storage \<Rightarrow> bool \<Rightarrow> oxana_error option \<Rightarrow> ('d \<Rightarrow> 'd)
       \<Rightarrow> ('c, 'w, 's) worker_registry \<Rightarrow> job_id \<Rightarrow> router \<Rightarrow> ('d, router) op" where
  "route_job R C S cancelled read_error env reg i rt =
     bind (load_pending_job R C S cancelled read_error env i) (\<lambda>r. case r of
         NotLoaded \<Rightarrow> return rt
       | Loaded e \<Rightarrow> return (place_job reg e rt))"

datatype task_event = TaskRecv | TaskTimeout | TaskCancelled | TaskClosed

fun task_step :: "task_event \<Rightarrow> batch_task \<Rightarrow> batch_task" where
  "task_step TaskRecv t = (case tk_channel t of
       [] \<Rightarrow> t
     | e # es \<Rightarrow> t\<lparr>tk_channel := es, tk_batcher := batcher_step (tk_config t) (Received e) (tk_batcher t)\<rparr>)"
| "task_step TaskTimeout t = t\<lparr>tk_batcher := batcher_step (tk_config t) TimeoutFired (tk_batcher t)\<rparr>"
| "task_step TaskCancelled t =
     t\<lparr>tk_channel := [], tk_batcher := batcher_step (tk_config t) (CancelledWith (tk_channel t)) (tk_batcher t)\<rparr>"
| "task_step TaskClosed t = t\<lparr>tk_batcher := batcher_step (tk_config t) ChannelClosed (tk_batcher t)\<rparr>"

definition update_task :: "nat \<Rightarrow> (batch_task \<Rightarrow> batch_task) \<Rightarrow> router \<Rightarrow> router" where
  "update_task i f rt = rt\<lparr>rt_tasks := (rt_tasks rt)[i := f (rt_tasks rt ! i)]\<rparr>"

text \<open>
  The steps, labelled with the jobs that enter. \<^verbatim>\<open>recv\<close> reports a closed channel only once it
  is empty and no sender is left; \<open>drop\<close> is the end of the loop, where the map is dropped.
\<close>

inductive router_step :: "('c, 'w, 's) worker_registry \<Rightarrow> router \<Rightarrow> job_envelope list \<Rightarrow> router \<Rightarrow> bool"
  for reg where
  place: "rt_sending rt = None \<Longrightarrow> router_step reg rt [e] (place_job reg e rt)"
| send: "rt_sending rt \<noteq> None \<Longrightarrow> router_step reg rt [] (send_attempt rt)"
| task: "i < length (rt_tasks rt) \<Longrightarrow> \<not> bt_done (tk_batcher (rt_tasks rt ! i)) \<Longrightarrow>
    (ev = TaskClosed \<Longrightarrow> tk_channel (rt_tasks rt ! i) = [] \<and> i \<notin> ran (rt_batchers rt)) \<Longrightarrow>
    router_step reg rt [] (update_task i (task_step ev) rt)"
| drop: "rt_sending rt = None \<Longrightarrow> router_step reg rt [] (rt\<lparr>rt_batchers := Map.empty\<rparr>)"

inductive router_steps :: "('c, 'w, 's) worker_registry \<Rightarrow> router \<Rightarrow> job_envelope list \<Rightarrow> router \<Rightarrow> bool"
  for reg where
  refl: "router_steps reg rt [] rt"
| step: "router_steps reg rt js rt1 \<Longrightarrow> router_step reg rt1 js' rt2 \<Longrightarrow> router_steps reg rt (js @ js') rt2"

section \<open>Invariant\<close>

text \<open>The jobs of a task: in batches, collected, and still in the channel.\<close>

definition task_jobs :: "batch_task \<Rightarrow> job_envelope list" where
  "task_jobs t = concat (bt_batches (tk_batcher t)) @ bt_pending (tk_batcher t) @ tk_channel t"

definition task_ok :: "('c, 'w, 's) worker_registry \<Rightarrow> batch_key \<Rightarrow> batch_task \<Rightarrow> bool" where
  "task_ok reg k t \<longleftrightarrow> batch_config reg (bk_worker k) = Some (tk_config t) \<and>
     (\<forall>e\<in>set (task_jobs t). from_envelope e = k) \<and>
     batcher_inv (batch_size (tk_config t)) (concat (bt_batches (tk_batcher t)) @ bt_pending (tk_batcher t)) (tk_batcher t) \<and>
     (bt_done (tk_batcher t) \<longrightarrow> tk_channel t = [] \<and> bt_pending (tk_batcher t) = [])"

definition sending_jobs :: "router \<Rightarrow> job_envelope list" where
  "sending_jobs rt = (case rt_sending rt of None \<Rightarrow> [] | Some (e, _) \<Rightarrow> [e])"

definition router_jobs :: "router \<Rightarrow> job_envelope multiset" where
  "router_jobs rt = mset (rt_singles rt) + mset (sending_jobs rt) + mset (concat (map task_jobs (rt_tasks rt)))"

definition router_inv :: "('c, 'w, 's) worker_registry \<Rightarrow> router \<Rightarrow> bool" where
  "router_inv reg rt \<longleftrightarrow>
     (\<forall>t\<in>set (rt_tasks rt). \<exists>k. task_ok reg k t) \<and>
     (\<forall>k i. rt_batchers rt k = Some i \<longrightarrow> i < length (rt_tasks rt) \<and> task_ok reg k (rt_tasks rt ! i)) \<and>
     (\<forall>k k' i. rt_batchers rt k = Some i \<longrightarrow> rt_batchers rt k' = Some i \<longrightarrow> k = k') \<and>
     (\<forall>e cfg. rt_sending rt = Some (e, cfg) \<longrightarrow> batch_config reg (job_data_name (env_job e)) = Some cfg) \<and>
     (\<forall>e\<in>set (rt_singles rt). batch_config reg (job_data_name (env_job e)) = None)"

definition batch_sizes_positive :: "('c, 'w, 's) worker_registry \<Rightarrow> bool" where
  "batch_sizes_positive reg \<longleftrightarrow> (\<forall>name cfg. batch_config reg name = Some cfg \<longrightarrow> 0 < batch_size cfg)"

lemma task_step_ok:
  assumes "task_ok reg k t" and "\<not> bt_done (tk_batcher t)" and "ev = TaskClosed \<Longrightarrow> tk_channel t = []"
  shows "task_ok reg k (task_step ev t) \<and> task_jobs (task_step ev t) = task_jobs t"
proof -
  let ?hist = "concat (bt_batches (tk_batcher t)) @ bt_pending (tk_batcher t)"
  have bi: "batcher_inv (batch_size (tk_config t)) ?hist (tk_batcher t)"
    and jobs: "\<forall>e\<in>set (task_jobs t). from_envelope e = k"
    and cfg: "batch_config reg (bk_worker k) = Some (tk_config t)"
    using assms(1) by (auto simp: task_ok_def)
  note st = batcher_inv_step [OF bi assms(2)]
  have key: "task_ok reg k t' \<and> task_jobs t' = task_jobs t"
    if "t' = t\<lparr>tk_channel := ch, tk_batcher := batcher_step (tk_config t) bev (tk_batcher t)\<rparr>"
      and "received bev @ ch = tk_channel t"
      and "bev = ChannelClosed \<or> (\<exists>js. bev = CancelledWith js) \<Longrightarrow> ch = []" for t' bev ch
  proof -
    let ?b = "batcher_step (tk_config t) bev (tk_batcher t)"
    from st [of bev] have h: "concat (bt_batches ?b) @ bt_pending ?b = ?hist @ received bev"
      by (simp add: batcher_inv_def)
    then have "concat (bt_batches ?b) @ bt_pending ?b @ ch = ?hist @ tk_channel t"
      using that(2) by (metis append.assoc)
    then have "task_jobs t' = task_jobs t" by (simp add: task_jobs_def that(1))
    moreover from st [of bev] h that(3) jobs cfg calculation have "task_ok reg k t'"
      by (auto simp: task_ok_def that(1))
    ultimately show ?thesis by simp
  qed
  show ?thesis
  proof (cases ev)
    case TaskRecv
    show ?thesis
    proof (cases "tk_channel t")
      case Nil
      with TaskRecv assms(1) show ?thesis by simp
    next
      case (Cons e es)
      from key [where bev = "Received e" and ch = es] Cons TaskRecv show ?thesis by simp
    qed
  next
    case TaskTimeout
    from key [where bev = TimeoutFired and ch = "tk_channel t"] TaskTimeout show ?thesis by simp
  next
    case TaskCancelled
    from key [where bev = "CancelledWith (tk_channel t)" and ch = "[]"] TaskCancelled show ?thesis by simp
  next
    case TaskClosed
    then have "task_step ev t = t\<lparr>tk_channel := [], tk_batcher := batcher_step (tk_config t) ChannelClosed (tk_batcher t)\<rparr>"
      using assms(3) by (cases t) simp
    from key [OF this] TaskClosed assms(3) show ?thesis by simp
  qed
qed

lemma concat_map_update:
  "i < length xs \<Longrightarrow> mset (concat (map f (xs[i := y]))) + mset (f (xs ! i)) = mset (concat (map f xs)) + mset (f y)"
  by (induction xs arbitrary: i) (auto simp: nth_Cons split: nat.splits)

lemma router_inv_task:
  "router_inv reg rt \<Longrightarrow> i < length (rt_tasks rt) \<Longrightarrow> \<exists>k. task_ok reg k (rt_tasks rt ! i)"
  by (simp add: router_inv_def)

lemma router_inv_batchers:
  assumes "router_inv reg rt" and "rt_batchers rt k = Some i"
  shows "i < length (rt_tasks rt)" "task_ok reg k (rt_tasks rt ! i)" "rt_batchers rt k' = Some i \<Longrightarrow> k' = k"
  using assms unfolding router_inv_def by blast+

lemma update_task_inv:
  assumes "router_inv reg rt" and "i < length (rt_tasks rt)" and "task_ok reg k0 t'"
    and "\<And>k. rt_batchers rt k = Some i \<Longrightarrow> task_ok reg k t'"
  shows "router_inv reg (rt\<lparr>rt_tasks := (rt_tasks rt)[i := t']\<rparr>)"
proof -
  have "\<exists>k. task_ok reg k t" if "t \<in> set ((rt_tasks rt)[i := t'])" for t
    using that assms(1,3) set_update_subset_insert [of "rt_tasks rt" i t'] by (auto simp: router_inv_def)
  then show ?thesis
    using assms by (auto simp: router_inv_def nth_list_update)
qed

lemma router_task_inv:
  assumes "router_inv reg rt" and "i < length (rt_tasks rt)" and "\<not> bt_done (tk_batcher (rt_tasks rt ! i))"
    and "ev = TaskClosed \<Longrightarrow> tk_channel (rt_tasks rt ! i) = []"
  shows "router_inv reg (update_task i (task_step ev) rt) \<and> router_jobs (update_task i (task_step ev) rt) = router_jobs rt"
proof -
  from router_inv_task [OF assms(1,2)] obtain k where k: "task_ok reg k (rt_tasks rt ! i)" ..
  from task_step_ok [OF this assms(3,4)] have j: "task_jobs (task_step ev (rt_tasks rt ! i)) = task_jobs (rt_tasks rt ! i)"
    by simp
  from concat_map_update [OF assms(2), of task_jobs "task_step ev (rt_tasks rt ! i)"] j
  have "router_jobs (update_task i (task_step ev) rt) = router_jobs rt"
    by (simp add: router_jobs_def update_task_def sending_jobs_def)
  moreover have "router_inv reg (update_task i (task_step ev) rt)"
    unfolding update_task_def
    by (rule update_task_inv [OF assms(1,2)])
      (use task_step_ok [OF _ assms(3,4)] router_inv_batchers(2) [OF assms(1)] k in blast)+
  ultimately show ?thesis by simp
qed

lemma task_new_ok:
  "batch_config reg (bk_worker k) = Some cfg \<Longrightarrow> 0 < batch_size cfg \<Longrightarrow> task_ok reg k (task_new cfg)"
  by (simp add: task_ok_def task_new_def task_jobs_def batcher_new_def batcher_inv_def)

lemma batcher_entry_inv:
  assumes "router_inv reg rt" and "batch_sizes_positive reg" and "batch_config reg (bk_worker k) = Some cfg"
    and "batcher_entry k cfg rt = (i, rt1)"
  shows "router_inv reg rt1 \<and> router_jobs rt1 = router_jobs rt \<and> rt_sending rt1 = rt_sending rt \<and>
    rt_singles rt1 = rt_singles rt \<and> rt_batchers rt1 k = Some i"
proof (cases "rt_batchers rt k")
  case (Some j)
  with assms show ?thesis by (auto simp: batcher_entry_def router_inv_def)
next
  case None
  have ok: "task_ok reg k (task_new cfg)"
    using assms(2,3) by (intro task_new_ok) (auto simp: batch_sizes_positive_def)
  have eq: "i = length (rt_tasks rt)"
    "rt1 = rt\<lparr>rt_tasks := rt_tasks rt @ [task_new cfg], rt_batchers := (rt_batchers rt)(k \<mapsto> length (rt_tasks rt))\<rparr>"
    using assms(4) None by (auto simp: batcher_entry_def spawn_batcher_def)
  have "router_inv reg rt1"
    using assms(1) ok by (fastforce simp: router_inv_def eq nth_append)
  moreover have "router_jobs rt1 = router_jobs rt"
    by (simp add: router_jobs_def eq sending_jobs_def task_new_def task_jobs_def batcher_new_def)
  ultimately show ?thesis using ok by (simp add: eq)
qed

lemma send_attempt_inv:
  assumes "router_inv reg rt" and "batch_sizes_positive reg"
  shows "router_inv reg (send_attempt rt) \<and> router_jobs (send_attempt rt) = router_jobs rt"
proof (cases "rt_sending rt")
  case None
  with assms(1) show ?thesis by (simp add: send_attempt_def)
next
  case (Some a)
  obtain e cfg where a: "a = (e, cfg)" by fastforce
  let ?k = "from_envelope e"
  obtain i rt1 where be: "batcher_entry ?k cfg rt = (i, rt1)" by fastforce
  have "batch_config reg (bk_worker ?k) = Some cfg"
    using assms(1) Some a by (simp add: router_inv_def from_envelope_def)
  note e1 = batcher_entry_inv [OF assms this be]
  then have bk: "rt_batchers rt1 ?k = Some i" by simp
  let ?t = "rt_tasks rt1 ! i"
  let ?t' = "?t\<lparr>tk_channel := tk_channel ?t @ [e]\<rparr>"
  show ?thesis
  proof (cases "bt_done (tk_batcher ?t)")
    case True
    with e1 Some a be show ?thesis
      by (auto simp: send_attempt_def Let_def router_inv_def router_jobs_def sending_jobs_def)
  next
    case open_task: False
    show ?thesis
    proof (cases "length (tk_channel ?t) < batch_size (tk_config ?t) * 2")
      case False
      with open_task e1 Some a be show ?thesis by (simp add: send_attempt_def Let_def)
    next
      case True
      then have sa: "send_attempt rt = (rt1\<lparr>rt_tasks := (rt_tasks rt1)[i := ?t']\<rparr>)\<lparr>rt_sending := None\<rparr>"
        using open_task Some a be by (simp add: send_attempt_def Let_def)
      note in1 = router_inv_batchers [OF e1 [THEN conjunct1] bk]
      have ok': "task_ok reg ?k ?t'"
        using in1(2) open_task by (auto simp: task_ok_def task_jobs_def)
      have "router_inv reg (rt1\<lparr>rt_tasks := (rt_tasks rt1)[i := ?t']\<rparr>)"
        by (rule update_task_inv [OF _ in1(1) ok']) (use e1 in1(3) ok' in blast)+
      then have "router_inv reg (send_attempt rt)" unfolding sa by (simp add: router_inv_def)
      moreover have "router_jobs (send_attempt rt) = router_jobs rt1"
        using concat_map_update [OF in1(1), of task_jobs ?t'] e1 Some a
        by (simp add: sa router_jobs_def sending_jobs_def task_jobs_def)
      ultimately show ?thesis using e1 by simp
    qed
  qed
qed

lemma router_step_inv:
  assumes "router_step reg rt js rt'" and "router_inv reg rt" and "batch_sizes_positive reg"
  shows "router_inv reg rt' \<and> router_jobs rt' = router_jobs rt + mset js"
  using assms(1)
proof cases
  case (place e)
  with assms(2) show ?thesis
    by (cases "batch_config reg (job_data_name (env_job e))")
      (auto simp: place_job_def router_inv_def router_jobs_def sending_jobs_def)
next
  case send
  with send_attempt_inv [OF assms(2,3)] show ?thesis by simp
next
  case (task i ev)
  with router_task_inv [OF assms(2), of i ev] show ?thesis by simp
next
  case drop
  with assms(2) show ?thesis by (simp add: router_inv_def router_jobs_def sending_jobs_def)
qed

lemma router_steps_inv:
  assumes "router_steps reg rt js rt'" and "router_inv reg rt" and "batch_sizes_positive reg"
  shows "router_inv reg rt' \<and> router_jobs rt' = router_jobs rt + mset js"
  using assms(1,2)
proof induction
  case (step rt js rt1 js' rt2)
  with router_step_inv [OF step.hyps(2) _ assms(3)] show ?case by (simp add: add.assoc)
qed simp

lemma router_new_inv: "router_inv reg router_new \<and> router_jobs router_new = {#}"
  by (simp add: router_new_def router_inv_def router_jobs_def sending_jobs_def)

text \<open>
  An ended batcher costs one turn: the next attempt hands the job to a fresh one.
\<close>

lemma send_restarts_batcher:
  assumes "rt_sending rt = Some (e, cfg)" and "rt_batchers rt (from_envelope e) = Some i"
    and "bt_done (tk_batcher (rt_tasks rt ! i))" and "0 < batch_size cfg"
  shows "rt_sending (send_attempt (send_attempt rt)) = None \<and>
    rt_tasks (send_attempt (send_attempt rt)) = rt_tasks rt @ [(task_new cfg)\<lparr>tk_channel := [e]\<rparr>]"
proof -
  have "send_attempt rt = rt\<lparr>rt_batchers := (rt_batchers rt)(from_envelope e := None)\<rparr>"
    using assms by (simp add: send_attempt_def batcher_entry_def)
  then show ?thesis
    using assms by (simp add: send_attempt_def batcher_entry_def spawn_batcher_def task_new_def batcher_new_def)
qed

section \<open>Properties\<close>

text \<open>
  C20. Routing loses, duplicates and mixes nothing. However the routing loop interleaves with
  the batchers it spawned, with timeouts, cancellations and restarts of ended batchers, the
  routed jobs are exactly those running alone, in hand, in a channel, collected or in a batch;
  only jobs of workers without batching run alone; and all jobs of a batch have one worker and
  one queue, the batch is not empty and not larger than that worker's configuration allows.
\<close>

theorem routing_conserves_and_separates:
  assumes "router_steps reg router_new js rt" and "batch_sizes_positive reg"
  shows "mset js = mset (rt_singles rt) + mset (sending_jobs rt) + mset (concat (map task_jobs (rt_tasks rt))) \<and>
    (\<forall>e\<in>set (rt_singles rt). batch_config reg (job_data_name (env_job e)) = None) \<and>
    (\<forall>t\<in>set (rt_tasks rt). \<exists>k cfg. batch_config reg (bk_worker k) = Some cfg \<and>
       (\<forall>b\<in>set (bt_batches (tk_batcher t)). b \<noteq> [] \<and> length b \<le> batch_size cfg \<and> (\<forall>e\<in>set b. from_envelope e = k)) \<and>
       (bt_done (tk_batcher t) \<longrightarrow> task_jobs t = concat (bt_batches (tk_batcher t))))"
proof -
  from router_steps_inv [OF assms(1) _ assms(2)] router_new_inv [of reg]
  have "router_inv reg rt" and js: "router_jobs rt = mset js" by simp_all
  moreover have "\<exists>k cfg. batch_config reg (bk_worker k) = Some cfg \<and>
       (\<forall>b\<in>set (bt_batches (tk_batcher t)). b \<noteq> [] \<and> length b \<le> batch_size cfg \<and> (\<forall>e\<in>set b. from_envelope e = k)) \<and>
       (bt_done (tk_batcher t) \<longrightarrow> task_jobs t = concat (bt_batches (tk_batcher t)))"
    if "task_ok reg k t" for t k
    by (rule exI [of _ k]) (use that in \<open>auto simp: task_ok_def task_jobs_def batcher_inv_def\<close>)
  ultimately show ?thesis unfolding router_inv_def router_jobs_def by metis
qed

text \<open>
  A batching worker whose batcher is cancelled between two of its jobs; the second job goes to
  a fresh batcher.
\<close>

definition batch_registry :: "(unit, unit, unit) worker_registry" where
  "batch_registry = registry_new\<lparr>jobs := (\<lambda>_. Some \<lparr>factory = (\<lambda>_ _. Inr ()),
     batch_factory = (\<lambda>_ _. Inr \<lparr>bb_job = Some (), bb_invalid = []\<rparr>),
     factories_batch_config = Some \<lparr>batch_size = 2, batch_timeout = 5\<rparr>, cron_factory = None\<rparr>)\<rparr>"

definition sample_routed :: router where
  "sample_routed = send_attempt (send_attempt (place_job batch_registry sample_envelope
     (update_task 0 (task_step TaskCancelled) (send_attempt (place_job batch_registry sample_envelope router_new)))))"

lemma batch_registry_config [simp]: "batch_config batch_registry name = Some \<lparr>batch_size = 2, batch_timeout = 5\<rparr>"
  by (simp add: batch_config_def factories_for_def resolve_name_def batch_registry_def)

lemmas routed_sample_defs = place_job_def send_attempt_def batcher_entry_def spawn_batcher_def task_new_def batcher_new_def
  router_new_def update_task_def batcher_step_def flush_batcher_def spawn_batch_def push_job_def

lemma sample_routed_steps:
  "router_steps batch_registry router_new [sample_envelope, sample_envelope] sample_routed"
proof -
  let ?r1 = "place_job batch_registry sample_envelope router_new"
  let ?r2 = "send_attempt ?r1"
  let ?r3 = "update_task 0 (task_step TaskCancelled) ?r2"
  let ?r4 = "place_job batch_registry sample_envelope ?r3"
  have "router_steps batch_registry router_new ([] @ [sample_envelope]) ?r1"
    by (rule router_steps.step [OF router_steps.refl router_step.place]) (simp add: router_new_def)
  then have "router_steps batch_registry router_new (([] @ [sample_envelope]) @ []) ?r2"
    by (rule router_steps.step [OF _ router_step.send]) (simp add: place_job_def)
  then have "router_steps batch_registry router_new ((([] @ [sample_envelope]) @ []) @ []) ?r3"
    by (rule router_steps.step [OF _ router_step.task]) (simp_all add: routed_sample_defs)
  then have "router_steps batch_registry router_new (((([] @ [sample_envelope]) @ []) @ []) @ [sample_envelope]) ?r4"
    by (rule router_steps.step [OF _ router_step.place]) (simp add: routed_sample_defs)
  then have "router_steps batch_registry router_new
      ((((([] @ [sample_envelope]) @ []) @ []) @ [sample_envelope]) @ []) (send_attempt ?r4)"
    by (rule router_steps.step [OF _ router_step.send]) (simp add: place_job_def)
  then have "router_steps batch_registry router_new
      (((((([] @ [sample_envelope]) @ []) @ []) @ [sample_envelope]) @ []) @ []) (send_attempt (send_attempt ?r4))"
    by (rule router_steps.step [OF _ router_step.send]) (simp add: routed_sample_defs)
  then show ?thesis by (simp add: sample_routed_def)
qed

theorem routing_conserves_and_separates_witness:
  "router_steps batch_registry router_new [sample_envelope, sample_envelope] sample_routed \<and>
   map (bt_batches \<circ> tk_batcher) (rt_tasks sample_routed) = [[[sample_envelope]], []] \<and>
   map tk_channel (rt_tasks sample_routed) = [[], [sample_envelope]] \<and>
   mset [sample_envelope, sample_envelope] = mset (rt_singles sample_routed) + mset (sending_jobs sample_routed) +
     mset (concat (map task_jobs (rt_tasks sample_routed)))"
proof -
  have "batch_sizes_positive batch_registry" by (simp add: batch_sizes_positive_def)
  from routing_conserves_and_separates [OF sample_routed_steps this] sample_routed_steps show ?thesis
    by (simp add: sample_routed_def routed_sample_defs)
qed

end
