(* ===== verification/Metrics.thy ===== *)
theory Metrics
  imports Coordinator "HOL-Library.List_Lexorder" "HOL-Library.Char_ord" "HOL-Library.Product_Lexorder"
begin

text \<open>
  Execution metrics, \<^verbatim>\<open>metrics.rs\<close>: the names of the counters, the buffer that collects the
  results of a process by minute, the histogram buckets, and the aggregation of the counters
  read back from Redis; with the commands of \<^verbatim>\<open>storage_internal.rs\<close> that write them. A hash
  map is an association list; the clock reading is an argument. \<^verbatim>\<open>u64\<close> counters are naturals
  with saturating addition. Times to live are left out.
\<close>

section \<open>Names of counters\<close>

definition job_metric_keys :: "string list" where
  "job_metric_keys = [''p'', ''f'', ''pn'', ''xs'', ''xf'', ''xpn'', ''ms'']"

definition queue_metric_keys :: "string list" where
  "queue_metric_keys = [''p'', ''s'', ''f'']"

text \<open>\<^verbatim>\<open>str::is_char_boundary\<close>: not in front of a continuation byte of UTF-8.\<close>

definition is_char_boundary :: "string \<Rightarrow> nat \<Rightarrow> bool" where
  "is_char_boundary s n \<longleftrightarrow> n = 0 \<or> n = length s \<or>
     n < length s \<and> \<not> (128 \<le> (of_char (s ! n) :: nat) \<and> (of_char (s ! n) :: nat) < 192)"

definition field_key :: "string \<Rightarrow> string" where
  "field_key worker = show_nat (length worker) @ '':'' @ worker"

definition from_field_key :: "string \<Rightarrow> string option" where
  "from_field_key key =
     Option.bind (split_once (CHR '':'') key) (\<lambda>(worker_len, rest).
     Option.bind (parse_usize worker_len) (\<lambda>n.
       if length rest < n \<or> \<not> is_char_boundary rest n then None else Some (take n rest)))"

definition metric_field :: "string \<Rightarrow> string \<Rightarrow> string" where
  "metric_field worker metric = field_key worker @ ''|'' @ metric"

definition split_metric_field :: "string \<Rightarrow> (string \<times> string) option" where
  "split_metric_field field =
     Option.bind (rsplit_once (CHR ''|'') field) (\<lambda>(identity_key, metric).
       if metric \<in> set job_metric_keys
       then map_option (\<lambda>worker. (worker, metric)) (from_field_key identity_key) else None)"

definition queue_metric_field :: "string \<Rightarrow> string \<Rightarrow> string" where
  "queue_metric_field queue metric = show_nat (length queue) @ '':'' @ queue @ ''|'' @ metric"

definition split_queue_metric_field :: "string \<Rightarrow> (string \<times> string) option" where
  "split_queue_metric_field field =
     Option.bind (rsplit_once (CHR ''|'') field) (\<lambda>(queue_key, metric).
       if metric \<in> set queue_metric_keys
       then Option.bind (split_once (CHR '':'') queue_key) (\<lambda>(queue_len, queue).
            Option.bind (parse_usize queue_len) (\<lambda>n.
              if length queue \<noteq> n \<or> \<not> is_char_boundary queue n then None else Some (queue, metric)))
       else None)"

section \<open>Histogram\<close>

abbreviation histogram_bucket_count :: nat where
  "histogram_bucket_count \<equiv> 14"

definition histogram_bucket_intervals_ms :: "nat list" where
  "histogram_bucket_intervals_ms =
     [25, 50, 100, 250, 500, 1000, 2500, 5000, 10000, 30000, 60000, 120000, 300000, u64_max]"

definition histogram_bucket_labels :: "string list" where
  "histogram_bucket_labels = [''25ms'', ''50ms'', ''100ms'', ''250ms'', ''500ms'', ''1s'', ''2.5s'', ''5s'', ''10s'',
     ''30s'', ''60s'', ''120s'', ''5min'', ''Slow'']"

fun position :: "('a \<Rightarrow> bool) \<Rightarrow> 'a list \<Rightarrow> nat option" where
  "position P [] = None"
| "position P (x # xs) = (if P x then Some 0 else map_option Suc (position P xs))"

definition histogram_bucket_index :: "nat \<Rightarrow> nat" where
  "histogram_bucket_index duration_ms =
     (case position (\<lambda>upper. duration_ms < upper) histogram_bucket_intervals_ms of
        Some i \<Rightarrow> i
      | None \<Rightarrow> histogram_bucket_count - 1)"

definition histogram_bitfield_increment_args :: "nat list \<Rightarrow> string list" where
  "histogram_bitfield_increment_args buckets = [''OVERFLOW'', ''SAT''] @
     concat (map (\<lambda>(i, v). if v = 0 then [] else [''INCRBY'', ''u16'', CHR ''#'' # show_nat i, show_nat v])
       (List.enumerate 0 buckets))"

definition histogram_bitfield_fetch_args :: "string list" where
  "histogram_bitfield_fetch_args =
     concat (map (\<lambda>i. [''GET'', ''u16'', CHR ''#'' # show_nat i]) [0..<histogram_bucket_count])"

record histogram_bucket =
  hb_label :: string
  hb_upper_bound_ms :: "nat option"
  hb_count :: nat

definition histogram_buckets_from_counts :: "nat list \<Rightarrow> histogram_bucket list" where
  "histogram_buckets_from_counts counts =
     map (\<lambda>(i, label, n). \<lparr>hb_label = label,
         hb_upper_bound_ms = (if i < histogram_bucket_count - 1 then Some (histogram_bucket_intervals_ms ! i) else None),
         hb_count = n\<rparr>)
       (List.enumerate 0 (zip histogram_bucket_labels counts))"

section \<open>The buffer\<close>

record pending_job_metrics =
  pm_processed :: nat
  pm_failed :: nat
  pm_panicked :: nat
  pm_successful_executions :: nat
  pm_failed_executions :: nat
  pm_panicked_executions :: nat
  pm_execution_ms :: nat
  pm_histogram :: "nat list"

definition pending_default :: pending_job_metrics where
  "pending_default = \<lparr>pm_processed = 0, pm_failed = 0, pm_panicked = 0, pm_successful_executions = 0,
     pm_failed_executions = 0, pm_panicked_executions = 0, pm_execution_ms = 0,
     pm_histogram = replicate histogram_bucket_count 0\<rparr>"

record queue_counter_totals =
  qt_processed :: nat
  qt_succeeded :: nat
  qt_failed :: nat

definition queue_totals_default :: queue_counter_totals where
  "queue_totals_default = \<lparr>qt_processed = 0, qt_succeeded = 0, qt_failed = 0\<rparr>"

definition pending_increments :: "pending_job_metrics \<Rightarrow> (string \<times> nat) list" where
  "pending_increments m =
     [(''p'', pm_processed m), (''f'', pm_failed m), (''pn'', pm_panicked m), (''xs'', pm_successful_executions m),
      (''xf'', pm_failed_executions m), (''xpn'', pm_panicked_executions m), (''ms'', pm_execution_ms m)]"

definition queue_increments :: "queue_counter_totals \<Rightarrow> (string \<times> nat) list" where
  "queue_increments m = [(''p'', qt_processed m), (''s'', qt_succeeded m), (''f'', qt_failed m)]"

record job_metrics_buffer =
  mb_entries :: "((int \<times> string) \<times> pending_job_metrics) list"
  mb_queue_entries :: "((int \<times> string) \<times> queue_counter_totals) list"

definition buffer_new :: job_metrics_buffer where
  "buffer_new = \<lparr>mb_entries = [], mb_queue_entries = []\<rparr>"

definition buffer_is_empty :: "job_metrics_buffer \<Rightarrow> bool" where
  "buffer_is_empty b \<longleftrightarrow> mb_entries b = [] \<and> mb_queue_entries b = []"

definition buffer_clear :: "job_metrics_buffer \<Rightarrow> job_metrics_buffer" where
  "buffer_clear b = buffer_new"

definition count_result :: "worker_result \<Rightarrow> pending_job_metrics \<Rightarrow> pending_job_metrics" where
  "count_result r m0 =
     (let n = wr_job_count r; m = m0\<lparr>pm_processed := sat_add_u64 (pm_processed m0) n\<rparr> in
      case wr_kind r of
        ResultSuccess \<Rightarrow>
          (let bucket = histogram_bucket_index (wr_execution_ms r) in
           m\<lparr>pm_successful_executions := sat_add_u64 (pm_successful_executions m) 1,
             pm_execution_ms := sat_add_u64 (pm_execution_ms m) (wr_execution_ms r),
             pm_histogram := (if bucket < length (pm_histogram m)
               then (pm_histogram m)[bucket := sat_add_u64 (pm_histogram m ! bucket) 1] else pm_histogram m)\<rparr>)
      | ResultPanicked \<Rightarrow>
          m\<lparr>pm_failed := sat_add_u64 (pm_failed m) n, pm_panicked := sat_add_u64 (pm_panicked m) n,
            pm_failed_executions := sat_add_u64 (pm_failed_executions m) 1,
            pm_panicked_executions := sat_add_u64 (pm_panicked_executions m) 1\<rparr>
      | ResultFailed \<Rightarrow>
          m\<lparr>pm_failed := sat_add_u64 (pm_failed m) n,
            pm_failed_executions := sat_add_u64 (pm_failed_executions m) 1\<rparr>)"

definition count_queue_result :: "worker_result \<Rightarrow> queue_counter_totals \<Rightarrow> queue_counter_totals" where
  "count_queue_result r q0 =
     (let n = wr_job_count r; q = q0\<lparr>qt_processed := sat_add_u64 (qt_processed q0) n\<rparr> in
      if wr_kind r = ResultSuccess then q\<lparr>qt_succeeded := sat_add_u64 (qt_succeeded q) n\<rparr>
      else q\<lparr>qt_failed := sat_add_u64 (qt_failed q) n\<rparr>)"

definition update_entry :: "'k \<Rightarrow> 'v \<Rightarrow> ('v \<Rightarrow> 'v) \<Rightarrow> ('k \<times> 'v) list \<Rightarrow> ('k \<times> 'v) list" where
  "update_entry k v0 f al = AList.update k (f (case map_of al k of Some v \<Rightarrow> v | None \<Rightarrow> v0)) al"

definition buffer_record :: "int \<Rightarrow> worker_result \<Rightarrow> job_metrics_buffer \<Rightarrow> job_metrics_buffer" where
  "buffer_record now r b =
     (let minute = now div 60 in
      \<lparr>mb_entries = update_entry (minute, wr_worker_name r) pending_default (count_result r) (mb_entries b),
       mb_queue_entries = update_entry (minute, wr_queue r) queue_totals_default (count_queue_result r) (mb_queue_entries b)\<rparr>)"

section \<open>Aggregation\<close>

record job_metrics_totals =
  jt_processed :: nat
  jt_succeeded :: nat
  jt_failed :: nat
  jt_panicked :: nat
  jt_successful_executions :: nat
  jt_failed_executions :: nat
  jt_panicked_executions :: nat
  jt_execution_ms :: nat

record job_metrics_point = job_metrics_totals +
  jt_timestamp :: int

definition totals_default :: job_metrics_totals where
  "totals_default = \<lparr>jt_processed = 0, jt_succeeded = 0, jt_failed = 0, jt_panicked = 0, jt_successful_executions = 0,
     jt_failed_executions = 0, jt_panicked_executions = 0, jt_execution_ms = 0\<rparr>"

definition point_at :: "int \<Rightarrow> job_metrics_point" where
  "point_at minute = job_metrics_totals.extend totals_default (job_metrics_point.fields (minute * 60))"

definition failed_executions_without_panics :: "'a job_metrics_totals_scheme \<Rightarrow> nat" where
  "failed_executions_without_panics t = jt_failed_executions t - jt_panicked_executions t"

definition add_metric :: "string \<Rightarrow> nat \<Rightarrow> 'a job_metrics_totals_scheme \<Rightarrow> 'a job_metrics_totals_scheme" where
  "add_metric metric v t =
     (if metric = ''p'' then t\<lparr>jt_processed := sat_add_u64 (jt_processed t) v\<rparr>
      else if metric = ''f'' then t\<lparr>jt_failed := sat_add_u64 (jt_failed t) v\<rparr>
      else if metric = ''pn'' then t\<lparr>jt_panicked := sat_add_u64 (jt_panicked t) v\<rparr>
      else if metric = ''xs'' then t\<lparr>jt_successful_executions := sat_add_u64 (jt_successful_executions t) v\<rparr>
      else if metric = ''xf'' then t\<lparr>jt_failed_executions := sat_add_u64 (jt_failed_executions t) v\<rparr>
      else if metric = ''xpn'' then t\<lparr>jt_panicked_executions := sat_add_u64 (jt_panicked_executions t) v\<rparr>
      else if metric = ''ms'' then t\<lparr>jt_execution_ms := sat_add_u64 (jt_execution_ms t) v\<rparr>
      else t)"

text \<open>The sum in the guard is \<^verbatim>\<open>u64\<close> addition, with the wrap-around of the release build.\<close>

definition finalize :: "'a job_metrics_totals_scheme \<Rightarrow> 'a job_metrics_totals_scheme" where
  "finalize t0 =
     (let t = t0\<lparr>jt_succeeded := jt_processed t0 - jt_failed t0\<rparr> in
      if (jt_successful_executions t + jt_failed_executions t + jt_panicked_executions t) mod 2 ^ 64 = 0
      then t\<lparr>jt_successful_executions := jt_succeeded t, jt_failed_executions := jt_failed t,
             jt_panicked_executions := jt_panicked t\<rparr>
      else t)"

definition u64_or_zero :: "int \<Rightarrow> nat" where
  "u64_or_zero v = (if 0 \<le> v then nat v else 0)"

record worker_summary =
  ws_identity :: string
  ws_totals :: job_metrics_totals
  ws_series :: "job_metrics_point list"

record aggregation =
  ag_totals :: job_metrics_totals
  ag_series :: "job_metrics_point list"
  ag_workers :: "(string \<times> job_metrics_totals \<times> job_metrics_point list) list"

definition aggregate_field ::
    "int list \<Rightarrow> string option \<Rightarrow> nat \<Rightarrow> string \<times> int \<Rightarrow> aggregation \<Rightarrow> aggregation" where
  "aggregate_field minutes flt idx = (\<lambda>(field, raw) ag. case split_metric_field field of
       None \<Rightarrow> ag
     | Some (worker, metric) \<Rightarrow>
         if flt \<noteq> None \<and> flt \<noteq> Some worker then ag
         else let v = u64_or_zero raw in
           \<lparr>ag_totals = add_metric metric v (ag_totals ag),
            ag_series = (ag_series ag)[idx := add_metric metric v (ag_series ag ! idx)],
            ag_workers = update_entry worker (totals_default, map point_at minutes)
              (\<lambda>(t, ps). (add_metric metric v t,
                 if idx < length ps then ps[idx := add_metric metric v (ps ! idx)] else ps)) (ag_workers ag)\<rparr>)"

text \<open>A hash without a point, past the queried minutes, is skipped.\<close>

definition aggregate_hash ::
    "int list \<Rightarrow> string option \<Rightarrow> nat \<times> (string \<times> int) list \<Rightarrow> aggregation \<Rightarrow> aggregation" where
  "aggregate_hash minutes flt = (\<lambda>(idx, hash) ag.
     if idx < length (ag_series ag) then
       (let ag' = fold (aggregate_field minutes flt idx) hash ag in
        ag'\<lparr>ag_series := (ag_series ag')[idx := finalize (ag_series ag' ! idx)]\<rparr>)
     else ag)"

definition aggregate_counter_hashes ::
    "int list \<Rightarrow> (string \<times> int) list list \<Rightarrow> string option
       \<Rightarrow> job_metrics_totals \<times> job_metrics_point list \<times> worker_summary list" where
  "aggregate_counter_hashes minutes hs flt =
     (let ag = fold (aggregate_hash minutes flt) (List.enumerate 0 hs)
            \<lparr>ag_totals = totals_default, ag_series = map point_at minutes, ag_workers = []\<rparr> in
      (finalize (ag_totals ag), ag_series ag,
       sort_key (\<lambda>w. (- int (jt_execution_ms (ws_totals w)), - int (jt_processed (ws_totals w)), ws_identity w))
         (map (\<lambda>(worker, t, ps). \<lparr>ws_identity = worker, ws_totals = finalize t, ws_series = map finalize ps\<rparr>)
           (ag_workers ag))))"

definition queue_add_metric :: "string \<Rightarrow> nat \<Rightarrow> queue_counter_totals \<Rightarrow> queue_counter_totals" where
  "queue_add_metric metric v t =
     (if metric = ''p'' then t\<lparr>qt_processed := sat_add_u64 (qt_processed t) v\<rparr>
      else if metric = ''s'' then t\<lparr>qt_succeeded := sat_add_u64 (qt_succeeded t) v\<rparr>
      else if metric = ''f'' then t\<lparr>qt_failed := sat_add_u64 (qt_failed t) v\<rparr>
      else t)"

definition aggregate_queue_counter_hashes ::
    "(string \<times> int) list list \<Rightarrow> (string \<times> queue_counter_totals) list" where
  "aggregate_queue_counter_hashes hs =
     fold (\<lambda>(field, raw) queues. case split_queue_metric_field field of
         None \<Rightarrow> queues
       | Some (queue, metric) \<Rightarrow>
           update_entry queue queue_totals_default (queue_add_metric metric (u64_or_zero raw)) queues)
       (concat hs) []"

record queue_length_series =
  ql_queue :: string
  ql_series :: "(int \<times> nat) list"

definition queue_length_series_from_hashes ::
    "int list \<Rightarrow> (string \<times> int) list list \<Rightarrow> queue_length_series list" where
  "queue_length_series_from_hashes minutes hs =
     (let template = map (\<lambda>m. (m * 60, 0)) minutes;
          qs = fold (\<lambda>(idx, hash) qs. fold (\<lambda>(queue, raw). update_entry queue template
                 (\<lambda>ps. if idx < length ps then ps[idx := (fst (ps ! idx), u64_or_zero raw)] else ps)) hash qs)
               (List.enumerate 0 hs) []
      in sort_key (\<lambda>q. (- int (foldr max (map snd (ql_series q)) 0), ql_queue q))
           (map (\<lambda>(q, ps). \<lparr>ql_queue = q, ql_series = ps\<rparr>) qs))"

definition effective_minutes :: "nat \<Rightarrow> nat" where
  "effective_minutes minutes = (if minutes = 0 then 60 else min minutes (24 * 60))"

definition metric_minutes :: "int \<Rightarrow> nat \<Rightarrow> int list" where
  "metric_minutes now_ts minutes =
     (let end_minute = now_ts div 60;
          start_minute = end_minute - int (effective_minutes minutes) + 1
      in [start_minute..end_minute])"

section \<open>Lemmas\<close>

lemma field_key_roundtrip:
  "length w \<le> u64_max \<Longrightarrow> from_field_key (field_key w) = Some w"
  using split_once_notin [OF show_nat_no_colon, of "length w" w]
  by (simp add: from_field_key_def field_key_def parse_usize_show_nat is_char_boundary_def)

lemma metric_key_plain:
  "m \<in> set job_metric_keys \<Longrightarrow> CHR ''|'' \<notin> set m" "m \<in> set queue_metric_keys \<Longrightarrow> CHR ''|'' \<notin> set m"
  by (auto simp: job_metric_keys_def queue_metric_keys_def)

lemma position_Some:
  "position P xs = Some i \<Longrightarrow> i < length xs \<and> P (xs ! i) \<and> (\<forall>j<i. \<not> P (xs ! j))"
proof (induction xs arbitrary: i)
  case (Cons x xs)
  show ?case
  proof (cases "P x")
    case False
    with Cons.prems obtain k where "position P xs = Some k" "i = Suc k" by auto
    with Cons.IH [of k] False show ?thesis by (auto simp: less_Suc_eq_0_disj)
  qed (use Cons.prems in simp)
qed simp

lemma position_None: "position P xs = None \<longleftrightarrow> (\<forall>x\<in>set xs. \<not> P x)"
  by (induction xs) auto

text \<open>Saturating sums.\<close>

definition sat :: "nat \<Rightarrow> nat" where
  "sat n = min n u64_max"

lemma sat_simps [simp]: "sat_add_u64 (sat a) b = sat (a + b)" "sat 0 = 0"
  by (simp_all add: sat_def sat_add_u64_def)

text \<open>What a list of results adds up to.\<close>

definition with_kind :: "worker_result_kind \<Rightarrow> worker_result list \<Rightarrow> worker_result list" where
  "with_kind k rs = filter (\<lambda>r. wr_kind r = k) rs"

definition job_sum :: "worker_result list \<Rightarrow> nat" where
  "job_sum rs = sum_list (map wr_job_count rs)"

definition summary :: "worker_result list \<Rightarrow> pending_job_metrics" where
  "summary rs =
     (let ok = with_kind ResultSuccess rs; bad = with_kind ResultFailed rs; pan = with_kind ResultPanicked rs in
      \<lparr>pm_processed = sat (job_sum rs), pm_failed = sat (job_sum bad + job_sum pan), pm_panicked = sat (job_sum pan),
       pm_successful_executions = sat (length ok), pm_failed_executions = sat (length bad + length pan),
       pm_panicked_executions = sat (length pan), pm_execution_ms = sat (sum_list (map wr_execution_ms ok)),
       pm_histogram = map (\<lambda>i. sat (length (filter (\<lambda>r. histogram_bucket_index (wr_execution_ms r) = i) ok)))
         [0..<histogram_bucket_count]\<rparr>)"

definition queue_summary :: "worker_result list \<Rightarrow> queue_counter_totals" where
  "queue_summary rs =
     \<lparr>qt_processed = sat (job_sum rs), qt_succeeded = sat (job_sum (with_kind ResultSuccess rs)),
      qt_failed = sat (job_sum (with_kind ResultFailed rs) + job_sum (with_kind ResultPanicked rs))\<rparr>"

lemma with_kind_append [simp]: "with_kind k (rs @ [r]) = with_kind k rs @ (if wr_kind r = k then [r] else [])"
  by (simp add: with_kind_def)

lemma job_sum_append [simp]: "job_sum (rs @ [r]) = job_sum rs + wr_job_count r"
  by (simp add: job_sum_def)

lemma histogram_index_less: "histogram_bucket_index d < histogram_bucket_count"
  using position_Some [of "\<lambda>upper. d < upper" histogram_bucket_intervals_ms]
  by (auto simp: histogram_bucket_index_def histogram_bucket_intervals_ms_def split: option.splits)

lemma summary_Nil: "summary [] = pending_default"
  by (simp add: summary_def pending_default_def with_kind_def job_sum_def map_replicate_const Let_def)

lemma count_result_summary: "count_result r (summary rs) = summary (rs @ [r])"
proof (cases "wr_kind r")
  case ResultSuccess
  let ?b = "histogram_bucket_index (wr_execution_ms r)"
  let ?n = "\<lambda>i. length (filter (\<lambda>r. histogram_bucket_index (wr_execution_ms r) = i) (with_kind ResultSuccess rs))"
  have "(map (\<lambda>i. sat (?n i)) [0..<histogram_bucket_count])[?b := sat (?n ?b + 1)] =
      map (\<lambda>i. sat (?n i + (if ?b = i then 1 else 0))) [0..<histogram_bucket_count]"
    by (rule nth_equalityI) (simp_all add: nth_list_update)
  with ResultSuccess histogram_index_less [of "wr_execution_ms r"] show ?thesis
    by (simp add: count_result_def summary_def Let_def if_distrib cong: if_cong)
next
  case ResultPanicked
  then show ?thesis by (simp add: count_result_def summary_def Let_def add.assoc)
next
  case ResultFailed
  then show ?thesis by (simp add: count_result_def summary_def Let_def ac_simps)
qed

lemma count_queue_summary: "count_queue_result r (queue_summary rs) = queue_summary (rs @ [r])"
  by (cases "wr_kind r") (simp_all add: count_queue_result_def queue_summary_def Let_def ac_simps)

lemma queue_summary_Nil: "queue_summary [] = queue_totals_default"
  by (simp add: queue_summary_def queue_totals_default_def with_kind_def job_sum_def)

lemma map_of_update_entry:
  "map_of (update_entry k v0 f al) = (map_of al)(k \<mapsto> f (case map_of al k of Some v \<Rightarrow> v | None \<Rightarrow> v0))"
  by (simp add: update_entry_def update_conv')

text \<open>The results that belong to a minute and a key.\<close>

definition selected :: "(worker_result \<Rightarrow> string) \<Rightarrow> (int \<times> worker_result) list \<Rightarrow> int \<times> string \<Rightarrow> worker_result list" where
  "selected key rs k = map snd (filter (\<lambda>(now, r). (now div 60, key r) = k) rs)"

definition record_all :: "(int \<times> worker_result) list \<Rightarrow> job_metrics_buffer" where
  "record_all rs = fold (\<lambda>(now, r). buffer_record now r) rs buffer_new"

lemma record_all_snoc: "record_all (rs @ [(now, r)]) = buffer_record now r (record_all rs)"
  by (simp add: record_all_def)

lemma record_all_maps:
  "map_of (mb_entries (record_all rs)) =
     (\<lambda>k. if selected wr_worker_name rs k = [] then None else Some (summary (selected wr_worker_name rs k))) \<and>
   map_of (mb_queue_entries (record_all rs)) =
     (\<lambda>k. if selected wr_queue rs k = [] then None else Some (queue_summary (selected wr_queue rs k)))"
proof (induction rs rule: rev_induct)
  case Nil
  show ?case by (simp add: record_all_def buffer_new_def selected_def fun_eq_iff)
next
  case (snoc x rs)
  obtain now r where x: "x = (now, r)" by (cases x)
  have sel: "selected key (rs @ [(now, r)]) k = selected key rs k @ (if (now div 60, key r) = k then [r] else [])" for key k
    by (simp add: selected_def)
  have "count_result r (case (if xs = [] then None else Some (summary xs)) of Some v \<Rightarrow> v | None \<Rightarrow> pending_default) =
      summary (xs @ [r])" for xs
    by (simp add: summary_Nil [symmetric] count_result_summary)
  moreover have "count_queue_result r (case (if xs = [] then None else Some (queue_summary xs)) of Some v \<Rightarrow> v | None \<Rightarrow> queue_totals_default) =
      queue_summary (xs @ [r])" for xs
    by (simp add: queue_summary_Nil [symmetric] count_queue_summary)
  ultimately show ?case
    using snoc.IH by (auto simp: x record_all_snoc buffer_record_def Let_def map_of_update_entry sel fun_eq_iff)
qed

section \<open>Properties\<close>

text \<open>
  Counter names are unambiguous: the hash field of a worker's or a queue's metric reads
  back as that worker or queue and that metric, whatever characters its name contains.
\<close>

theorem metric_names_roundtrip:
  assumes "length name \<le> u64_max" and "m \<in> set job_metric_keys" and "m' \<in> set queue_metric_keys"
  shows "split_metric_field (metric_field name m) = Some (name, m) \<and>
    split_queue_metric_field (queue_metric_field name m') = Some (name, m')"
proof -
  have "rsplit_once (CHR ''|'') (field_key name @ CHR ''|'' # m) = Some (field_key name, m)"
    by (rule rsplit_once_notin [OF metric_key_plain(1) [OF assms(2)]])
  then have "split_metric_field (metric_field name m) = Some (name, m)"
    using assms(1,2) by (simp add: split_metric_field_def metric_field_def field_key_roundtrip)
  moreover have "rsplit_once (CHR ''|'') ((show_nat (length name) @ CHR '':'' # name) @ CHR ''|'' # m') =
      Some (show_nat (length name) @ CHR '':'' # name, m')"
    by (rule rsplit_once_notin [OF metric_key_plain(2) [OF assms(3)]])
  moreover have "split_once (CHR '':'') (show_nat (length name) @ CHR '':'' # name) = Some (show_nat (length name), name)"
    by (rule split_once_notin [OF show_nat_no_colon])
  ultimately show ?thesis
    using assms by (simp add: split_queue_metric_field_def queue_metric_field_def parse_usize_show_nat is_char_boundary_def)
qed


text \<open>
  The metrics buffer counts exactly: after any results, the entry of a minute and a
  worker, and that of a minute and a queue, hold the totals of the results recorded for it,
  each capped at the largest counter value, and entries exist for nothing else.
\<close>

theorem metrics_buffer_exact:
  "map_of (mb_entries (record_all rs)) k =
     (let xs = selected wr_worker_name rs k in if xs = [] then None else Some (summary xs)) \<and>
   map_of (mb_queue_entries (record_all rs)) k =
     (let xs = selected wr_queue rs k in if xs = [] then None else Some (queue_summary xs))"
  using record_all_maps [of rs] by (simp add: Let_def)

section \<open>Witnesses\<close>

theorem metric_names_roundtrip_witness:
  "split_metric_field (metric_field ''a:b|p'' ''pn'') = Some (''a:b|p'', ''pn'') \<and>
   split_queue_metric_field (queue_metric_field ''a:b|p'' ''s'') = Some (''a:b|p'', ''s'')"
  using metric_names_roundtrip [of "''a:b|p''" "''pn''" "''s''"]
  by (simp add: job_metric_keys_def queue_metric_keys_def)


end
