(* ===== verification/Counters.thy ===== *)
theory Counters
  imports Metrics
begin

text \<open>
  Counters in Redis: \<^verbatim>\<open>HINCRBY\<close>, and the operations of \<^verbatim>\<open>storage_internal.rs\<close> that write the
  statistics (\<^verbatim>\<open>flush_result_stats\<close>, \<^verbatim>\<open>refresh_queue_length_stats\<close>,
  \<^verbatim>\<open>write_queue_length_stats\<close>, \<^verbatim>\<open>flush_job_metrics\<close>). The statistics may live on a server of
  their own (\<^verbatim>\<open>stats_pool\<close>): \<open>R\<close> is the server of the jobs, \<open>st\<close> the optional server of the
  statistics, both over one state. \<^verbatim>\<open>BITFIELD\<close> is a parameter; times to live are left out.
\<close>

section \<open>Increments\<close>

text \<open>Redis accepts exactly the canonical decimal form of a 64-bit integer.\<close>

definition in_i64 :: "int \<Rightarrow> bool" where
  "in_i64 i \<longleftrightarrow> - i64_max - 1 \<le> i \<and> i \<le> i64_max"

definition string2ll :: "string \<Rightarrow> int option" where
  "string2ll s =
     (case (case s of c # r \<Rightarrow> if c = CHR ''-'' then map_option (\<lambda>n. - int n) (parse_digits 0 r)
                              else map_option int (parse_digits 0 s)
                    | [] \<Rightarrow> None) of
        None \<Rightarrow> None
      | Some i \<Rightarrow> if show_int i = s \<and> in_i64 i then Some i else None)"

text \<open>A missing field counts as zero; a value that is no integer, or an overflow, is an error.\<close>

definition counter_value :: "'d redis \<Rightarrow> 'd \<Rightarrow> string \<Rightarrow> string \<Rightarrow> int option" where
  "counter_value R d k f = (case r_hget R d k f of None \<Rightarrow> Some 0 | Some s \<Rightarrow> string2ll s)"

definition hincrby :: "'d redis \<Rightarrow> string \<Rightarrow> string \<Rightarrow> int \<Rightarrow> ('d, unit) op" where
  "hincrby R k f n = (\<lambda>d.
     if \<not> fits R d k THash then (Inl wrong_type, d)
     else case counter_value R d k f of
            None \<Rightarrow> (Inl (DeadpoolRedisError OtherRedisError), d)
          | Some v \<Rightarrow> if in_i64 (v + n) then (Inr (), r_hset R d k f (show_int (v + n)))
                      else (Inl (DeadpoolRedisError OtherRedisError), d))"

section \<open>Pending results of a queue\<close>

record queue_result_stats =
  qr_processed :: int
  qr_succeeded :: int
  qr_panicked :: int
  qr_failed :: int

definition queue_result_default :: queue_result_stats where
  "queue_result_default = \<lparr>qr_processed = 0, qr_succeeded = 0, qr_panicked = 0, qr_failed = 0\<rparr>"

definition i64_of_count :: "nat \<Rightarrow> int" where
  "i64_of_count n = (if int n \<le> i64_max then int n else i64_max)"

definition queue_result_record :: "worker_result \<Rightarrow> queue_result_stats \<Rightarrow> queue_result_stats" where
  "queue_result_record r s0 =
     (let n = i64_of_count (wr_job_count r); s = s0\<lparr>qr_processed := sat_add_i64 (qr_processed s0) n\<rparr> in
      case wr_kind r of
        ResultSuccess \<Rightarrow> s\<lparr>qr_succeeded := sat_add_i64 (qr_succeeded s) n\<rparr>
      | ResultPanicked \<Rightarrow> s\<lparr>qr_panicked := sat_add_i64 (qr_panicked s) n, qr_failed := sat_add_i64 (qr_failed s) n\<rparr>
      | ResultFailed \<Rightarrow> s\<lparr>qr_failed := sat_add_i64 (qr_failed s) n\<rparr>)"

section \<open>Writing statistics\<close>

definition stats_redis :: "'d redis \<Rightarrow> 'd redis option \<Rightarrow> 'd redis" where
  "stats_redis R st = (case st of Some Rs \<Rightarrow> Rs | None \<Rightarrow> R)"

definition stat_field :: "string \<Rightarrow> string \<Rightarrow> string" where
  "stat_field queue stat_name = queue @ '':'' @ stat_name"

definition stat_values :: "queue_result_stats \<Rightarrow> (string \<times> int) list" where
  "stat_values s = [(''processed'', qr_processed s), (''succeeded'', qr_succeeded s),
     (''panicked'', qr_panicked s), (''failed'', qr_failed s)]"

definition result_increments :: "(string \<times> queue_result_stats) list \<Rightarrow> (string \<times> int) list" where
  "result_increments stats = concat (map (\<lambda>(queue, s).
     map (\<lambda>(stat_name, v). (stat_field queue stat_name, v)) (filter (\<lambda>(_, v). 0 < v) (stat_values s))) stats)"

definition flush_result_stats ::
    "'d redis \<Rightarrow> 'd redis option \<Rightarrow> storage \<Rightarrow> (string \<times> queue_result_stats) list \<Rightarrow> ('d, unit) op" where
  "flush_result_stats R st S stats =
     (if stats = [] then return ()
      else with_connection (stats_redis R st)
        (if result_increments stats = [] then return ()
         else pipe (map (\<lambda>(f, v). hincrby (stats_redis R st) (stats_key (st_keys S)) f v) (result_increments stats))))"

definition write_queue_length_stats ::
    "'d redis \<Rightarrow> storage \<Rightarrow> (string \<times> nat) list \<Rightarrow> int \<Rightarrow> ('d, unit) op" where
  "write_queue_length_stats R S lengths refreshed_at =
     pipe (concat (map (\<lambda>(queue, n).
       [hset R (stats_key (st_keys S)) (stat_field queue ''enqueued'') (show_nat n),
        hset R (stats_key (st_keys S)) (stat_field queue ''enqueued_at'') (show_int refreshed_at),
        hset R (metrics_queue_length_key (st_keys S) (refreshed_at div 60)) queue (show_nat n)]) lengths))"

fun queue_lengths :: "'d redis \<Rightarrow> storage \<Rightarrow> string list \<Rightarrow> ('d, (string \<times> nat) list) op" where
  "queue_lengths R S [] = return []"
| "queue_lengths R S (q # qs) = bind (llen R (namespace_queue (st_keys S) q)) (\<lambda>n.
     bind (queue_lengths R S qs) (\<lambda>rest. return ((q, n) # rest)))"

text \<open>\<^verbatim>\<open>sort\<close> and \<^verbatim>\<open>dedup\<close> leave every queue once, in order.\<close>

definition refresh_queue_length_stats ::
    "'d redis \<Rightarrow> 'd redis option \<Rightarrow> storage \<Rightarrow> int \<Rightarrow> string list \<Rightarrow> ('d, (string \<times> nat) list) op" where
  "refresh_queue_length_stats R st S now qs =
     (if qs = [] then return []
      else with_connection R (bind (queue_lengths R S (remdups (sort qs))) (\<lambda>lengths.
        seq (case st of
               Some Rs \<Rightarrow> with_connection Rs (write_queue_length_stats Rs S lengths now)
             | None \<Rightarrow> write_queue_length_stats R S lengths now)
          (return lengths))))"

definition redis_metric_increment :: "nat \<Rightarrow> int" where
  "redis_metric_increment v = i64_of_count v"

definition job_metric_commands ::
    "'d redis \<Rightarrow> storage \<Rightarrow> (string \<Rightarrow> string list \<Rightarrow> ('d, unit) op) \<Rightarrow> job_metrics_buffer \<Rightarrow> ('d, unit) op list" where
  "job_metric_commands R S bitfield b =
     concat (map (\<lambda>((minute, worker), pm).
       map (\<lambda>(metric, v). hincrby R (metrics_counter_key (st_keys S) minute) (metric_field worker metric) (redis_metric_increment v))
         (filter (\<lambda>(_, v). 0 < v) (pending_increments pm)) @
       (let args = histogram_bitfield_increment_args (pm_histogram pm) in
        if 2 < length args then [bitfield (metrics_histogram_key (st_keys S) (field_key worker) minute) args] else []))
       (mb_entries b)) @
     concat (map (\<lambda>((minute, queue), qt).
       map (\<lambda>(metric, v). hincrby R (metrics_queue_counter_key (st_keys S) minute) (queue_metric_field queue metric)
            (redis_metric_increment v))
         (filter (\<lambda>(_, v). 0 < v) (queue_increments qt)))
       (mb_queue_entries b))"

definition flush_job_metrics ::
    "'d redis \<Rightarrow> 'd redis option \<Rightarrow> storage \<Rightarrow> (string \<Rightarrow> string list \<Rightarrow> ('d, unit) op) \<Rightarrow> job_metrics_buffer \<Rightarrow> ('d, unit) op" where
  "flush_job_metrics R st S bitfield b =
     (if buffer_is_empty b then return ()
      else with_connection (stats_redis R st) (pipe (job_metric_commands (stats_redis R st) S bitfield b)))"

section \<open>Lemmas\<close>

lemma parse_digits_minus: "parse_digits a (CHR ''-'' # r) = None"
  by (simp add: char_digit_def)

lemma string2ll_show_int: "in_i64 i \<Longrightarrow> string2ll (show_int i) = Some i"
proof (cases "i < 0")
  case True
  assume "in_i64 i"
  with True show ?thesis
    by (simp add: string2ll_def show_int_def parse_digits_show_nat)
next
  case False
  assume i: "in_i64 i"
  obtain c r where cr: "show_nat (nat i) = c # r" by (cases "show_nat (nat i)") auto
  have p: "parse_digits 0 (c # r) = Some (nat i)" using parse_digits_show_nat [of "nat i"] cr by simp
  then have "c \<noteq> CHR ''-''" using parse_digits_minus by (metis option.distinct(1))
  with False i p cr show ?thesis by (simp add: string2ll_def show_int_def)
qed

lemma string2ll_in_i64: "string2ll s = Some i \<Longrightarrow> in_i64 i"
  by (auto simp: string2ll_def split: option.splits if_splits list.splits)

lemma counter_value_in_i64: "counter_value R d k f = Some v \<Longrightarrow> in_i64 v"
  using string2ll_in_i64 [of _ v] by (auto simp: counter_value_def in_i64_def [of 0] split: option.splits)

lemma stat_field_inj:
  "CHR '':'' \<notin> set a \<Longrightarrow> CHR '':'' \<notin> set b \<Longrightarrow> stat_field q a = stat_field q' b \<longleftrightarrow> q = q' \<and> a = b"
  using rsplit_once_notin [of "CHR '':''" a q] rsplit_once_notin [of "CHR '':''" b q']
  unfolding stat_field_def by (metis append_Cons append_Nil option.inject prod.inject)

text \<open>What a pipeline of increments adds to a field.\<close>

definition added :: "(string \<times> int) list \<Rightarrow> string \<Rightarrow> int" where
  "added cmds f = sum_list (map snd (filter (\<lambda>c. fst c = f) cmds))"

lemma added_simps [simp]:
  "added [] f = 0" "added ((g, n) # cmds) f = (if g = f then n else 0) + added cmds f"
  "added (xs @ ys) f = added xs f + added ys f"
  by (simp_all add: added_def)

lemma added_nonneg: "(\<And>g n. (g, n) \<in> set cmds \<Longrightarrow> 0 \<le> n) \<Longrightarrow> 0 \<le> added cmds f"
  by (auto simp: added_def intro!: sum_list_nonneg)

context redis_server
begin

lemma hincrby_value:
  assumes "fits R d k THash" and "counter_value R d k f = Some v" and "in_i64 (v + n)"
  shows "\<exists>d'. hincrby R k f n d = (Inr (), d') \<and> fits R d' k THash \<and>
    (\<forall>g. counter_value R d' k g = (if g = f then Some (v + n) else counter_value R d k g))"
proof -
  let ?d = "r_hset R d k f (show_int (v + n))"
  have "hincrby R k f n d = (Inr (), ?d)" using assms by (simp add: hincrby_def)
  moreover have "fits R ?d k THash" by (simp add: fits_hset [OF assms(1)])
  moreover have "counter_value R ?d k g = (if g = f then Some (v + n) else counter_value R d k g)" for g
    using assms by (simp add: counter_value_def hset_h string2ll_show_int)
  ultimately show ?thesis by blast
qed

lemma hincrby_pipe:
  assumes "fits R d k THash"
    and "\<And>f n. (f, n) \<in> set cmds \<Longrightarrow> 0 \<le> n \<and> (\<exists>v. counter_value R d k f = Some v \<and> v + added cmds f \<le> i64_max)"
  shows "\<exists>d'. pipe (map (\<lambda>(f, n). hincrby R k f n) cmds) d = (Inr (), d') \<and> fits R d' k THash \<and>
    (\<forall>f v. counter_value R d k f = Some v \<longrightarrow> counter_value R d' k f = Some (v + added cmds f))"
  using assms
proof (induction cmds arbitrary: d)
  case (Cons c cmds)
  obtain f n where c: "c = (f, n)" by fastforce
  from Cons.prems(2) [of f n] obtain v where v: "0 \<le> n" "counter_value R d k f = Some v"
    "v + added (c # cmds) f \<le> i64_max" by (auto simp: c)
  have nn: "0 \<le> added cmds g" for g using Cons.prems(2) by (intro added_nonneg) auto
  have "v + (n + added cmds f) \<le> i64_max" using v(3) by (simp add: c)
  with nn [of f] have "v + n \<le> i64_max" by linarith
  moreover have "in_i64 v" by (rule counter_value_in_i64 [OF v(2)])
  ultimately have "in_i64 (v + n)" using v(1) by (simp add: in_i64_def)
  from hincrby_value [OF Cons.prems(1) v(2) this] obtain d1
    where d1: "hincrby R k f n d = (Inr (), d1)" "fits R d1 k THash"
      "\<And>g. counter_value R d1 k g = (if g = f then Some (v + n) else counter_value R d k g)" by blast
  have "0 \<le> m \<and> (\<exists>w. counter_value R d1 k g = Some w \<and> w + added cmds g \<le> i64_max)" if "(g, m) \<in> set cmds" for g m
    using Cons.prems(2) [of g m] that v by (auto simp: c d1(3) add.assoc)
  from Cons.IH [OF d1(2) this] obtain d2 where d2:
    "pipe (map (\<lambda>(f, n). hincrby R k f n) cmds) d1 = (Inr (), d2)" "fits R d2 k THash"
    "\<And>g w. counter_value R d1 k g = Some w \<Longrightarrow> counter_value R d2 k g = Some (w + added cmds g)" by blast
  have "counter_value R d2 k g = Some (w + added (c # cmds) g)" if "counter_value R d k g = Some w" for g w
    using d2(3) [of g] d1(3) [of g] that v(2) by (cases "g = f") (simp_all add: c)
  with d1(1) d2(1,2) show ?case by (simp add: c)
qed simp

end

text \<open>A step that leaves the given fields of a hash alone.\<close>

definition same_fields :: "'d redis \<Rightarrow> string \<Rightarrow> string set \<Rightarrow> 'd \<Rightarrow> 'd \<Rightarrow> bool" where
  "same_fields R k F d d' \<longleftrightarrow>
     (fits R d k THash \<longrightarrow> fits R d' k THash \<and> (\<forall>f\<in>F. r_hget R d' k f = r_hget R d k f))"

lemma same_fields_refl [simp]: "same_fields R k F d d"
  by (simp add: same_fields_def)

lemma same_fields_trans: "same_fields R k F d d1 \<Longrightarrow> same_fields R k F d1 d2 \<Longrightarrow> same_fields R k F d d2"
  by (auto simp: same_fields_def)

lemma same_fields_counter:
  "same_fields R k F d d' \<Longrightarrow> fits R d k THash \<Longrightarrow> f \<in> F \<Longrightarrow> counter_value R d' k f = counter_value R d k f"
  by (simp add: same_fields_def counter_value_def)

lemma same_fields_pipe:
  "(\<And>c d. c \<in> set cs \<Longrightarrow> same_fields R k F d (snd (c d))) \<Longrightarrow> same_fields R k F d (snd (pipe cs d))"
proof (induction cs arbitrary: d)
  case (Cons c cs)
  obtain r d1 where c: "c d = (r, d1)" by fastforce
  have "same_fields R k F d d1" using Cons.prems [of c d] c by simp
  moreover have "same_fields R k F d1 (snd (pipe cs d1))" using Cons by simp
  ultimately have "same_fields R k F d (snd (pipe cs d1))" by (rule same_fields_trans)
  then show ?case by (simp add: c split: sum.split)
qed simp

lemma same_fields_connection:
  "(\<And>d. same_fields R k F d (snd (m d))) \<Longrightarrow> same_fields R k F d (snd (with_connection R' m d))"
  by (simp add: with_connection_def split: option.split)

lemma same_fields_bind:
  assumes "\<And>d. same_fields R k F d (snd (m d))" and "\<And>x d. same_fields R k F d (snd (n x d))"
  shows "same_fields R k F d (snd (bind m n d))"
proof -
  obtain r d1 where m: "m d = (r, d1)" by fastforce
  then have "same_fields R k F d d1" using assms(1) [of d] by simp
  then show ?thesis
    using assms(2) by (auto simp: bind_def m split: sum.split intro: same_fields_trans)
qed

context redis_server
begin

lemma same_fields_hset: "k' \<noteq> k \<or> f \<notin> F \<Longrightarrow> same_fields R k F d (snd (hset R k' f v d))"
  by (auto simp: same_fields_def hset_def writing_def hset_h fits_hset)

lemma same_fields_hincrby: "k' \<noteq> k \<Longrightarrow> same_fields R k F d (snd (hincrby R k' f n d))"
  by (auto simp: same_fields_def hincrby_def hset_h fits_hset split: option.split)

end

lemma queue_lengths_pure: "snd (queue_lengths R S qs d) = d"
  by (induction qs) (auto simp: bind_def llen_def reading_def split: prod.splits sum.splits)

end
