(* ===== verification/Result_Collector.thy ===== *)
theory Result_Collector
  imports Counters
begin

text \<open>
  The result collector, \<^verbatim>\<open>result_collector.rs\<close>: it counts every result that workers report,
  in the statistics of the process, in counters per queue that are flushed to Redis every
  second, and in the metrics buffer that is flushed every five. A flush that fails is
  tolerated as long as the failures in a row stay below the limit, and keeps what it could not
  write. The branches of the \<^verbatim>\<open>select!\<close> loop are the events of a run.
\<close>

section \<open>State and events\<close>

record result_stats =
  rs_processed :: nat
  rs_succeeded :: nat
  rs_panicked :: nat
  rs_failed :: nat

record collector =
  cl_metrics :: job_metrics_buffer
  cl_pending :: "(string \<times> queue_result_stats) list"
  cl_active :: "string list"
  cl_stats :: result_stats
  cl_cancelled :: bool
  cl_failures :: "32 word"

definition collector_new :: collector where
  "collector_new = \<lparr>cl_metrics = buffer_new, cl_pending = [], cl_active = [],
     cl_stats = \<lparr>rs_processed = 0, rs_succeeded = 0, rs_panicked = 0, rs_failed = 0\<rparr>,
     cl_cancelled = False, cl_failures = 0\<rparr>"

record 'd collector_config =
  cc_jobs :: "'d redis"
  cc_stats :: "'d redis option"
  cc_storage :: storage
  cc_bitfield :: "string \<Rightarrow> string list \<Rightarrow> ('d, unit) op"
  cc_tolerance :: "32 word"
  cc_exit_when_processed :: "nat option"

section \<open>Operations\<close>

definition count_stats :: "worker_result \<Rightarrow> result_stats \<Rightarrow> result_stats" where
  "count_stats r s0 =
     (let n = wr_job_count r; s = s0\<lparr>rs_processed := sat_add_u64 (rs_processed s0) n\<rparr> in
      case wr_kind r of
        ResultSuccess \<Rightarrow> s\<lparr>rs_succeeded := sat_add_u64 (rs_succeeded s) n\<rparr>
      | ResultPanicked \<Rightarrow> s\<lparr>rs_panicked := sat_add_u64 (rs_panicked s) n, rs_failed := sat_add_u64 (rs_failed s) n\<rparr>
      | ResultFailed \<Rightarrow> s\<lparr>rs_failed := sat_add_u64 (rs_failed s) n\<rparr>)"

definition update_stats :: "nat option \<Rightarrow> worker_result \<Rightarrow> collector \<Rightarrow> collector" where
  "update_stats exit_when_processed r cl =
     (let stats = count_stats r (cl_stats cl) in
      cl\<lparr>cl_stats := stats,
         cl_pending := update_entry (wr_queue r) queue_result_default (queue_result_record r) (cl_pending cl),
         cl_active := List.insert (wr_queue r) (cl_active cl),
         cl_cancelled := (cl_cancelled cl \<or>
           (case exit_when_processed of Some n \<Rightarrow> n \<le> rs_processed stats | None \<Rightarrow> False))\<rparr>)"

text \<open>A call whose failure is tracked: a tolerated failure yields \<^const>\<open>None\<close>.\<close>

definition with_tracking :: "'d collector_config \<Rightarrow> ('d, 'a) op \<Rightarrow> (collector \<Rightarrow> 'a option \<Rightarrow> collector) \<Rightarrow> collector
       \<Rightarrow> ('d, collector) op" where
  "with_tracking cc m k cl = (\<lambda>d. case m d of (r, d') \<Rightarrow>
     (case track_redis_result (cl_failures cl) r (cc_tolerance cc) of
        (Inl e, c) \<Rightarrow> (Inl e, d')
      | (Inr v, c) \<Rightarrow> (Inr (k (cl\<lparr>cl_failures := c\<rparr>) v), d')))"

definition flush_metrics :: "'d collector_config \<Rightarrow> collector \<Rightarrow> ('d, collector) op" where
  "flush_metrics cc cl =
     (if buffer_is_empty (cl_metrics cl) then return cl
      else with_tracking cc (flush_job_metrics (cc_jobs cc) (cc_stats cc) (cc_storage cc) (cc_bitfield cc) (cl_metrics cl))
        (\<lambda>cl v. if v \<noteq> None then cl\<lparr>cl_metrics := buffer_clear (cl_metrics cl)\<rparr> else cl) cl)"

definition flush_pending_stats :: "'d collector_config \<Rightarrow> collector \<Rightarrow> ('d, collector) op" where
  "flush_pending_stats cc cl =
     (if cl_pending cl = [] then return cl
      else with_tracking cc (flush_result_stats (cc_jobs cc) (cc_stats cc) (cc_storage cc) (cl_pending cl))
        (\<lambda>cl v. if v \<noteq> None then cl\<lparr>cl_pending := []\<rparr> else cl) cl)"

definition prune_active_queues :: "(string \<times> nat) list option \<Rightarrow> string list \<Rightarrow> string list" where
  "prune_active_queues lengths active = (case lengths of
       None \<Rightarrow> active
     | Some ls \<Rightarrow> filter (\<lambda>q. case map_of ls q of Some n \<Rightarrow> 0 < n | None \<Rightarrow> False) active)"

definition refresh_active_queue_lengths :: "'d collector_config \<Rightarrow> int \<Rightarrow> collector \<Rightarrow> ('d, collector) op" where
  "refresh_active_queue_lengths cc now cl =
     (if cl_active cl = [] then return cl
      else with_tracking cc (refresh_queue_length_stats (cc_jobs cc) (cc_stats cc) (cc_storage cc) now (cl_active cl))
        (\<lambda>cl v. cl\<lparr>cl_active := prune_active_queues v (cl_active cl)\<rparr>) cl)"

definition flush_before_exit :: "'d collector_config \<Rightarrow> int \<Rightarrow> collector \<Rightarrow> ('d, collector) op" where
  "flush_before_exit cc now cl =
     bind (flush_metrics cc cl) (\<lambda>cl. bind (flush_pending_stats cc cl) (refresh_active_queue_lengths cc now))"

text \<open>
  \<open>Others\<close> is what other clients do to the state in between, including the loss and the
  return of the connection, and what the other loops of the process leave in the shared
  count of failures.
\<close>

datatype 'd collector_event =
    Result int worker_result
  | MetricsTick
  | StatsTick
  | LengthsTick int
  | Others "'d \<Rightarrow> 'd" "32 word"

fun collector_turn :: "'d collector_config \<Rightarrow> 'd collector_event \<Rightarrow> collector \<Rightarrow> ('d, collector) op" where
  "collector_turn cc (Result now r) cl =
     return (update_stats (cc_exit_when_processed cc) r (cl\<lparr>cl_metrics := buffer_record now r (cl_metrics cl)\<rparr>))"
| "collector_turn cc MetricsTick cl = flush_metrics cc cl"
| "collector_turn cc StatsTick cl = flush_pending_stats cc cl"
| "collector_turn cc (LengthsTick now) cl = refresh_active_queue_lengths cc now cl"
| "collector_turn cc (Others f c) cl = (\<lambda>d. (Inr (cl\<lparr>cl_failures := c\<rparr>), f d))"

fun collector_turns :: "'d collector_config \<Rightarrow> 'd collector_event list \<Rightarrow> collector \<Rightarrow> ('d, collector) op" where
  "collector_turns cc [] cl = return cl"
| "collector_turns cc (ev # evs) cl = bind (collector_turn cc ev cl) (collector_turns cc evs)"

text \<open>The whole run: the events until the channel closes at \<open>now\<close>.\<close>

definition collector_run :: "'d collector_config \<Rightarrow> 'd collector_event list \<Rightarrow> int \<Rightarrow> ('d, collector) op" where
  "collector_run cc evs now = bind (collector_turns cc evs collector_new) (flush_before_exit cc now)"

section \<open>Lemmas\<close>

definition stat_names :: "string list" where
  "stat_names = [''processed'', ''succeeded'', ''panicked'', ''failed'']"

definition stat_of :: "string \<Rightarrow> queue_result_stats \<Rightarrow> int" where
  "stat_of nm s = (case map_of (stat_values s) nm of Some v \<Rightarrow> v | None \<Rightarrow> 0)"

definition pending_stat :: "(string \<times> queue_result_stats) list \<Rightarrow> string \<Rightarrow> string \<Rightarrow> int" where
  "pending_stat P q nm = (case map_of P q of Some s \<Rightarrow> stat_of nm s | None \<Rightarrow> 0)"

definition counter_fields :: "string set" where
  "counter_fields = {stat_field q nm |q nm. nm \<in> set stat_names}"

text \<open>What a result adds to a counter.\<close>

definition contributes :: "string \<Rightarrow> worker_result_kind \<Rightarrow> bool" where
  "contributes nm kind \<longleftrightarrow> nm = ''processed'' \<or> nm = ''succeeded'' \<and> kind = ResultSuccess \<or>
     nm = ''panicked'' \<and> kind = ResultPanicked \<or> nm = ''failed'' \<and> kind \<noteq> ResultSuccess"

fun recorded :: "string \<Rightarrow> string \<Rightarrow> 'd collector_event \<Rightarrow> int" where
  "recorded q nm (Result _ r) = (if wr_queue r = q \<and> contributes nm (wr_kind r) then int (wr_job_count r) else 0)"
| "recorded q nm _ = 0"

definition recorded_all :: "'d collector_event list \<Rightarrow> string \<Rightarrow> string \<Rightarrow> int" where
  "recorded_all evs q nm = sum_list (map (recorded q nm) evs)"

lemma recorded_nonneg: "0 \<le> recorded q nm ev"
  by (cases ev) auto

lemma recorded_all_nonneg: "0 \<le> recorded_all evs q nm"
  by (auto simp: recorded_all_def recorded_nonneg intro!: sum_list_nonneg)

lemma recorded_all_Cons [simp]: "recorded_all (ev # evs) q nm = recorded q nm ev + recorded_all evs q nm"
  by (simp add: recorded_all_def)

lemma stat_names_plain: "nm \<in> set stat_names \<Longrightarrow> CHR '':'' \<notin> set nm"
  by (auto simp: stat_names_def)

lemma stat_of_record:
  assumes "nm \<in> set stat_names" and "0 \<le> stat_of nm s"
    and "stat_of nm s + (if contributes nm (wr_kind r) then int (wr_job_count r) else 0) \<le> i64_max"
  shows "stat_of nm (queue_result_record r s) = stat_of nm s + (if contributes nm (wr_kind r) then int (wr_job_count r) else 0)"
proof -
  have c: "i64_of_count (wr_job_count r) = int (wr_job_count r)" if "contributes nm (wr_kind r)"
    using assms(2,3) that by (simp add: i64_of_count_def)
  have "nm = ''processed'' \<or> nm = ''succeeded'' \<or> nm = ''panicked'' \<or> nm = ''failed''"
    using assms(1) by (auto simp: stat_names_def)
  then show ?thesis
    using assms(2,3) c
    by (elim disjE; cases "wr_kind r")
      (simp_all add: stat_of_def stat_values_def queue_result_record_def contributes_def Let_def sat_add_i64_exact)
qed

lemma stat_of_default: "stat_of nm queue_result_default = 0"
  by (simp add: stat_of_def stat_values_def queue_result_default_def)

lemma added_positive:
  assumes "CHR '':'' \<notin> set nm" and "distinct (map fst vs)" and "\<And>m v. (m, v) \<in> set vs \<Longrightarrow> CHR '':'' \<notin> set m"
  shows "added (map (\<lambda>(nm, v). (stat_field q' nm, v)) (filter (\<lambda>(_, v). 0 < v) vs)) (stat_field q nm) =
    (if q' = q then (case map_of vs nm of Some v \<Rightarrow> max 0 v | None \<Rightarrow> 0) else 0)"
  using assms(2,3)
proof (induction vs)
  case (Cons x vs)
  obtain m v where x: "x = (m, v)" by fastforce
  have "CHR '':'' \<notin> set m" using Cons.prems(2) [of m v] by (simp add: x)
  moreover have "map_of vs m = None" using Cons.prems(1) by (simp add: x map_of_eq_None_iff)
  moreover have "added (map (\<lambda>(nm, v). (stat_field q' nm, v)) (filter (\<lambda>(_, v). 0 < v) vs)) (stat_field q nm) =
      (if q' = q then (case map_of vs nm of Some v \<Rightarrow> max 0 v | None \<Rightarrow> 0) else 0)"
    using Cons.prems by (intro Cons.IH) auto
  moreover have "stat_field q' m = stat_field q nm \<longleftrightarrow> q' = q \<and> m = nm"
    using calculation(1) assms(1) by (rule stat_field_inj)
  ultimately show ?case by (cases "q' = q"; cases "m = nm") (simp_all add: x)
qed simp

lemma stat_values_names: "(nm, v) \<in> set (stat_values s) \<Longrightarrow> nm \<in> set stat_names"
  by (auto simp: stat_values_def stat_names_def)

lemma stat_values_keys: "map fst (stat_values s) = stat_names"
  by (simp add: stat_values_def stat_names_def)

lemma stat_names_distinct: "distinct stat_names"
  by (simp add: stat_names_def)

lemma added_stat_values:
  assumes "nm \<in> set stat_names" and "0 \<le> stat_of nm s"
  shows "added (map (\<lambda>(nm, v). (stat_field q' nm, v)) (filter (\<lambda>(_, v). 0 < v) (stat_values s))) (stat_field q nm) =
    (if q' = q then stat_of nm s else 0)"
proof -
  have "CHR '':'' \<notin> set m" if "(m, v) \<in> set (stat_values s)" for m v
    by (rule stat_names_plain [OF stat_values_names [OF that]])
  moreover have "distinct (map fst (stat_values s))" by (simp add: stat_values_keys stat_names_distinct)
  ultimately show ?thesis
    using added_positive [OF stat_names_plain [OF assms(1)], of "stat_values s" q' q] assms(2) unfolding stat_of_def
    by (cases "map_of (stat_values s) nm") simp_all
qed

lemma added_increments:
  assumes "nm \<in> set stat_names" and "distinct (map fst P)" and "\<And>q s. (q, s) \<in> set P \<Longrightarrow> 0 \<le> stat_of nm s"
  shows "added (result_increments P) (stat_field q nm) = pending_stat P q nm"
  using assms(2,3)
proof (induction P)
  case (Cons p P)
  obtain q' s where p: "p = (q', s)" by fastforce
  have "map_of P q' = None" using Cons.prems(1) by (simp add: p map_of_eq_None_iff)
  moreover have "result_increments (p # P) =
      map (\<lambda>(nm, v). (stat_field q' nm, v)) (filter (\<lambda>(_, v). 0 < v) (stat_values s)) @ result_increments P"
    by (simp add: result_increments_def p)
  moreover have "added (result_increments P) (stat_field q nm) = pending_stat P q nm"
    using Cons.prems by (intro Cons.IH) (auto simp: p)
  moreover have "0 \<le> stat_of nm s" using Cons.prems(2) [of q' s] by (simp add: p)
  ultimately show ?case
    using added_stat_values [OF assms(1), of s q' q] by (simp add: pending_stat_def p)
qed (simp add: result_increments_def pending_stat_def)

lemma result_increments_fields:
  "(f, v) \<in> set (result_increments P) \<Longrightarrow> 0 < v \<and> (\<exists>q. \<exists>nm\<in>set stat_names. f = stat_field q nm)"
  using stat_values_names by (fastforce simp: result_increments_def)

text \<open>
  The invariant: for every counter, what is stored and what is pending make up the total \<open>T\<close>.
\<close>

abbreviation cc_server :: "'d collector_config \<Rightarrow> 'd redis" where
  "cc_server cc \<equiv> stats_redis (cc_jobs cc) (cc_stats cc)"

abbreviation cc_key :: "'d collector_config \<Rightarrow> string" where
  "cc_key cc \<equiv> stats_key (st_keys (cc_storage cc))"

definition totals_are :: "'d collector_config \<Rightarrow> (string \<Rightarrow> string \<Rightarrow> int) \<Rightarrow> collector \<Rightarrow> 'd \<Rightarrow> bool" where
  "totals_are cc T cl d \<longleftrightarrow> distinct (map fst (cl_pending cl)) \<and> fits (cc_server cc) d (cc_key cc) THash \<and>
     (\<forall>q s nm. (q, s) \<in> set (cl_pending cl) \<longrightarrow> nm \<in> set stat_names \<longrightarrow> 0 \<le> stat_of nm s) \<and>
     (\<forall>q nm. nm \<in> set stat_names \<longrightarrow> pending_stat (cl_pending cl) q nm \<le> T q nm \<and>
        counter_value (cc_server cc) d (cc_key cc) (stat_field q nm) = Some (T q nm - pending_stat (cl_pending cl) q nm))"

lemma pending_stat_nonneg:
  "totals_are cc T cl d \<Longrightarrow> nm \<in> set stat_names \<Longrightarrow> 0 \<le> pending_stat (cl_pending cl) q nm"
  by (auto simp: totals_are_def pending_stat_def split: option.split dest: map_of_SomeD)

lemma totals_are_frame:
  assumes "totals_are cc T cl d" and "same_fields (cc_server cc) (cc_key cc) counter_fields d d'"
    and "cl_pending cl' = cl_pending cl"
  shows "totals_are cc T cl' d'"
proof -
  have "fits (cc_server cc) d (cc_key cc) THash" using assms(1) by (simp add: totals_are_def)
  moreover have "counter_value (cc_server cc) d' (cc_key cc) (stat_field q nm) =
      counter_value (cc_server cc) d (cc_key cc) (stat_field q nm)" if "nm \<in> set stat_names" for q nm
    by (rule same_fields_counter [OF assms(2) calculation]) (use that in \<open>auto simp: counter_fields_def\<close>)
  ultimately show ?thesis
    using assms by (simp add: totals_are_def same_fields_def)
qed

lemma tracked_Inr:
  "with_tracking cc m k cl d = (Inr cl', d') \<Longrightarrow>
     \<exists>r v c. m d = (r, d') \<and> cl' = k (cl\<lparr>cl_failures := c\<rparr>) v \<and> (v \<noteq> None \<longleftrightarrow> (\<exists>x. r = Inr x))"
  by (auto simp: with_tracking_def split: prod.splits sum.splits if_splits)
    (auto simp: track_redis_result_def split: sum.splits prod.splits if_splits)

text \<open>
  What the statements assume of the parameters: the keys are those of a namespace, and
  \<^verbatim>\<open>BITFIELD\<close> changes no key but its own.
\<close>

definition bitfield_local :: "'d redis \<Rightarrow> (string \<Rightarrow> string list \<Rightarrow> ('d, unit) op) \<Rightarrow> bool" where
  "bitfield_local R bf \<longleftrightarrow> (\<forall>k args d k'. k' \<noteq> k \<longrightarrow>
     r_hget R (snd (bf k args d)) k' = r_hget R d k' \<and> r_type R (snd (bf k args d)) k' = r_type R d k')"

definition config_ok :: "'d collector_config \<Rightarrow> bool" where
  "config_ok cc \<longleftrightarrow> redis_server (cc_server cc) \<and> (\<exists>n. st_keys (cc_storage cc) = storage_keys_new n) \<and>
     bitfield_local (cc_server cc) (cc_bitfield cc)"

definition others_ok :: "'d collector_config \<Rightarrow> 'd collector_event \<Rightarrow> bool" where
  "others_ok cc ev \<longleftrightarrow> (case ev of
      Others f c \<Rightarrow> (\<forall>d. same_fields (cc_server cc) (cc_key cc) counter_fields d (f d))
    | _ \<Rightarrow> True)"

lemma metrics_keys_apart:
  assumes "K = storage_keys_new n"
  shows "metrics_counter_key K m \<noteq> stats_key K" "metrics_queue_counter_key K m \<noteq> stats_key K"
    "metrics_queue_length_key K m \<noteq> stats_key K" "metrics_histogram_key K w m \<noteq> stats_key K"
  by (simp_all add: assms metrics_counter_key_def metrics_queue_counter_key_def metrics_queue_length_key_def
      metrics_histogram_key_def)

lemma bitfield_frame:
  "bitfield_local R bf \<Longrightarrow> k \<noteq> k' \<Longrightarrow> same_fields R k' F d (snd (bf k args d))"
  by (auto simp: bitfield_local_def same_fields_def fits_def)

lemma flush_job_metrics_frame:
  assumes "config_ok cc"
  shows "same_fields (cc_server cc) (cc_key cc) F d
    (snd (flush_job_metrics (cc_jobs cc) (cc_stats cc) (cc_storage cc) (cc_bitfield cc) b d))"
proof -
  from assms obtain n where K: "st_keys (cc_storage cc) = storage_keys_new n"
    and R: "redis_server (cc_server cc)" and bf: "bitfield_local (cc_server cc) (cc_bitfield cc)"
    by (auto simp: config_ok_def)
  note apart = metrics_keys_apart [OF K]
  have "same_fields (cc_server cc) (cc_key cc) F d (snd (c d))"
    if "c \<in> set (job_metric_commands (cc_server cc) (cc_storage cc) (cc_bitfield cc) b)" for c d
    using that unfolding job_metric_commands_def Let_def
    by (auto simp: apart intro!: redis_server.same_fields_hincrby [OF R] bitfield_frame [OF bf] split: if_splits)
  then show ?thesis
    by (auto simp: flush_job_metrics_def intro!: same_fields_connection same_fields_pipe)
qed

lemma enqueued_no_counter:
  "nm = ''enqueued'' \<or> nm = ''enqueued_at'' \<Longrightarrow> stat_field q nm \<notin> counter_fields"
proof
  assume nm: "nm = ''enqueued'' \<or> nm = ''enqueued_at''" and "stat_field q nm \<in> counter_fields"
  then obtain q' st where st: "st \<in> set stat_names" "stat_field q nm = stat_field q' st" by (auto simp: counter_fields_def)
  moreover have "CHR '':'' \<notin> set nm" using nm by auto
  ultimately have "nm \<in> set stat_names" using stat_names_plain [OF st(1)] stat_field_inj by metis
  with nm show False by (auto simp: stat_names_def)
qed

lemma write_queue_length_frame:
  assumes "config_ok cc"
  shows "same_fields (cc_server cc) (cc_key cc) counter_fields d
    (snd (write_queue_length_stats (cc_server cc) (cc_storage cc) ls now d))"
proof -
  from assms obtain n where K: "st_keys (cc_storage cc) = storage_keys_new n" and R: "redis_server (cc_server cc)"
    by (auto simp: config_ok_def)
  have "same_fields (cc_server cc) (cc_key cc) counter_fields d (snd (hset (cc_server cc) (cc_key cc) f v d))"
    if "f \<notin> counter_fields" for d f v
    using that by (intro redis_server.same_fields_hset [OF R]) simp
  moreover have "same_fields (cc_server cc) (cc_key cc) counter_fields d
      (snd (hset (cc_server cc) (metrics_queue_length_key (st_keys (cc_storage cc)) m) f v d))" for d f v m
    using metrics_keys_apart(3) [OF K] by (intro redis_server.same_fields_hset [OF R]) simp
  ultimately show ?thesis unfolding write_queue_length_stats_def
    by (intro same_fields_pipe) (auto simp: enqueued_no_counter)
qed

lemma refresh_frame:
  assumes "config_ok cc"
  shows "same_fields (cc_server cc) (cc_key cc) counter_fields d
    (snd (refresh_queue_length_stats (cc_jobs cc) (cc_stats cc) (cc_storage cc) now qs d))"
proof -
  let ?w = "\<lambda>ls. case cc_stats cc of
      Some Rs \<Rightarrow> with_connection Rs (write_queue_length_stats Rs (cc_storage cc) ls now)
    | None \<Rightarrow> write_queue_length_stats (cc_jobs cc) (cc_storage cc) ls now"
  have "same_fields (cc_server cc) (cc_key cc) counter_fields d (snd (?w ls d))" for ls d
    using write_queue_length_frame [OF assms, of _ ls now]
    by (cases "cc_stats cc") (auto simp: stats_redis_def intro!: same_fields_connection)
  then have "same_fields (cc_server cc) (cc_key cc) counter_fields d
      (snd (bind (queue_lengths (cc_jobs cc) (cc_storage cc) qs) (\<lambda>ls. seq (?w ls) (return ls)) d))" for d qs
    by (intro same_fields_bind) (auto simp: queue_lengths_pure seq_def intro!: same_fields_bind)
  then show ?thesis
    by (auto simp: refresh_queue_length_stats_def intro!: same_fields_connection)
qed

lemma flush_result_stats_totals:
  assumes "config_ok cc" and "totals_are cc T cl d" and "\<And>q nm. nm \<in> set stat_names \<Longrightarrow> T q nm \<le> i64_max"
    and "flush_result_stats (cc_jobs cc) (cc_stats cc) (cc_storage cc) (cl_pending cl) d = (r, d')"
  shows "if isl r then d' = d \<and> r_get (cc_server cc) d \<noteq> None else totals_are cc T (cl\<lparr>cl_pending := []\<rparr>) d'"
proof -
  let ?P = "cl_pending cl"
  let ?R = "cc_server cc"
  let ?I = "result_increments ?P"
  have R: "redis_server ?R" using assms(1) by (simp add: config_ok_def)
  have add: "added ?I (stat_field q nm) = pending_stat ?P q nm" if "nm \<in> set stat_names" for q nm
    using assms(2) that by (intro added_increments) (auto simp: totals_are_def)
  have fits: "fits ?R d (cc_key cc) THash" using assms(2) by (simp add: totals_are_def)
  have "0 \<le> v \<and> (\<exists>w. counter_value ?R d (cc_key cc) f = Some w \<and> w + added ?I f \<le> i64_max)" if "(f, v) \<in> set ?I" for f v
    using result_increments_fields [OF that] assms(2,3) by (auto simp: totals_are_def add)
  from redis_server.hincrby_pipe [OF R fits this] obtain d1 where d1:
    "pipe (map (\<lambda>(f, v). hincrby ?R (cc_key cc) f v) ?I) d = (Inr (), d1)" "fits ?R d1 (cc_key cc) THash"
    "\<And>f v. counter_value ?R d (cc_key cc) f = Some v \<Longrightarrow> counter_value ?R d1 (cc_key cc) f = Some (v + added ?I f)"
    by blast
  have inc0: "result_increments [] = []" by (simp add: result_increments_def)
  have "totals_are cc T (cl\<lparr>cl_pending := []\<rparr>) d1"
    unfolding totals_are_def
  proof (intro conjI allI impI)
    fix q nm assume nm: "nm \<in> set stat_names"
    then have le: "pending_stat ?P q nm \<le> T q nm"
      and c: "counter_value ?R d (cc_key cc) (stat_field q nm) = Some (T q nm - pending_stat ?P q nm)"
      using assms(2) by (simp_all add: totals_are_def)
    have "0 \<le> pending_stat ?P q nm" by (rule pending_stat_nonneg [OF assms(2) nm])
    with le show "pending_stat (cl_pending (cl\<lparr>cl_pending := []\<rparr>)) q nm \<le> T q nm" by (simp add: pending_stat_def [of "[]"])
    from d1(3) [OF c] add [OF nm]
    show "counter_value ?R d1 (cc_key cc) (stat_field q nm) = Some (T q nm - pending_stat (cl_pending (cl\<lparr>cl_pending := []\<rparr>)) q nm)"
      by (simp add: pending_stat_def [of "[]"])
  qed (simp_all add: d1(2))
  moreover have "(r, d') = (Inr (), d1) \<or> isl r \<and> d' = d \<and> r_get ?R d \<noteq> None"
    using assms(4) d1(1) by (cases "?P = []"; cases "?I = []")
      (auto simp: flush_result_stats_def with_connection_def inc0 split: option.splits)
  ultimately show ?thesis by auto
qed

lemma flush_pending_stats_totals:
  assumes "config_ok cc" and "totals_are cc T cl d" and "\<And>q nm. nm \<in> set stat_names \<Longrightarrow> T q nm \<le> i64_max"
    and "flush_pending_stats cc cl d = (Inr cl', d')"
  shows "totals_are cc T cl' d'"
proof (cases "cl_pending cl = []")
  case True
  with assms(2,4) show ?thesis by (simp add: flush_pending_stats_def)
next
  case False
  with tracked_Inr assms(4) obtain r v c where r:
    "flush_result_stats (cc_jobs cc) (cc_stats cc) (cc_storage cc) (cl_pending cl) d = (r, d')"
    "cl' = (if v \<noteq> None then cl\<lparr>cl_failures := c, cl_pending := []\<rparr> else cl\<lparr>cl_failures := c\<rparr>)"
    "v \<noteq> None \<longleftrightarrow> (\<exists>x. r = Inr x)"
    unfolding flush_pending_stats_def by fastforce
  from flush_result_stats_totals [OF assms(1,2,3) r(1)] r(2,3) assms(2) show ?thesis
    by (cases r) (simp_all add: totals_are_def)
qed

lemma flush_pending_stats_settles:
  assumes "config_ok cc" and "totals_are cc T cl d" and "\<And>q nm. nm \<in> set stat_names \<Longrightarrow> T q nm \<le> i64_max"
    and "flush_pending_stats cc cl d = (Inr cl', d')" and "r_get (cc_server cc) d = None"
  shows "cl_pending cl' = []"
proof (cases "cl_pending cl = []")
  case True
  with assms(4) show ?thesis by (simp add: flush_pending_stats_def)
next
  case False
  obtain r d1 where r: "flush_result_stats (cc_jobs cc) (cc_stats cc) (cc_storage cc) (cl_pending cl) d = (r, d1)"
    by fastforce
  from flush_result_stats_totals [OF assms(1,2,3) r] assms(5) have "\<not> isl r" by (auto split: if_splits)
  with False assms(4) r show ?thesis
    by (cases r) (auto simp: flush_pending_stats_def with_tracking_def)
qed

lemma flush_metrics_totals:
  assumes "config_ok cc" and "totals_are cc T cl d" and "flush_metrics cc cl d = (Inr cl', d')"
  shows "totals_are cc T cl' d' \<and> cl_pending cl' = cl_pending cl"
proof (cases "buffer_is_empty (cl_metrics cl)")
  case True
  with assms(2,3) show ?thesis by (simp add: flush_metrics_def)
next
  case False
  with tracked_Inr assms(3) obtain r v c where r:
    "flush_job_metrics (cc_jobs cc) (cc_stats cc) (cc_storage cc) (cc_bitfield cc) (cl_metrics cl) d = (r, d')"
    "cl' = (if v \<noteq> None then cl\<lparr>cl_failures := c, cl_metrics := buffer_clear (cl_metrics (cl\<lparr>cl_failures := c\<rparr>))\<rparr> else cl\<lparr>cl_failures := c\<rparr>)"
    unfolding flush_metrics_def by fastforce
  then have "cl_pending cl' = cl_pending cl" by simp
  moreover have "same_fields (cc_server cc) (cc_key cc) counter_fields d d'"
    using flush_job_metrics_frame [OF assms(1), where d = d and b = "cl_metrics cl"] r(1) by simp
  ultimately show ?thesis using totals_are_frame [OF assms(2)] by blast
qed

lemma refresh_totals:
  assumes "config_ok cc" and "totals_are cc T cl d" and "refresh_active_queue_lengths cc now cl d = (Inr cl', d')"
  shows "totals_are cc T cl' d' \<and> cl_pending cl' = cl_pending cl"
proof (cases "cl_active cl = []")
  case True
  with assms(2,3) show ?thesis by (simp add: refresh_active_queue_lengths_def)
next
  case False
  with tracked_Inr assms(3) obtain r v c where r:
    "refresh_queue_length_stats (cc_jobs cc) (cc_stats cc) (cc_storage cc) now (cl_active cl) d = (r, d')"
    "cl' = cl\<lparr>cl_failures := c, cl_active := prune_active_queues v (cl_active (cl\<lparr>cl_failures := c\<rparr>))\<rparr>"
    unfolding refresh_active_queue_lengths_def by fastforce
  then have "cl_pending cl' = cl_pending cl" by simp
  moreover have "same_fields (cc_server cc) (cc_key cc) counter_fields d d'"
    using refresh_frame [OF assms(1), of d now "cl_active cl"] r(1) by simp
  ultimately show ?thesis using totals_are_frame [OF assms(2)] by blast
qed

lemma pending_stat_update:
  assumes "totals_are cc T cl d" and "nm \<in> set stat_names"
    and "pending_stat (cl_pending cl) q nm + recorded q nm (Result now r :: 'e collector_event) \<le> i64_max"
  shows "pending_stat (update_entry (wr_queue r) queue_result_default (queue_result_record r) (cl_pending cl)) q nm =
    pending_stat (cl_pending cl) q nm + recorded q nm (Result now r :: 'e collector_event)"
proof (cases "wr_queue r = q")
  case True
  let ?s = "case map_of (cl_pending cl) q of Some v \<Rightarrow> v | None \<Rightarrow> queue_result_default"
  have s: "stat_of nm ?s = pending_stat (cl_pending cl) q nm"
    by (simp add: pending_stat_def stat_of_default split: option.split)
  have "0 \<le> stat_of nm ?s" unfolding s by (rule pending_stat_nonneg [OF assms(1,2)])
  from stat_of_record [OF assms(2) this, of r] assms(3) True s show ?thesis
    by (simp add: pending_stat_def [of "update_entry _ _ _ _"] map_of_update_entry split: if_splits)
next
  case False
  then show ?thesis by (simp add: pending_stat_def map_of_update_entry)
qed

lemma result_totals:
  assumes "totals_are cc T cl d" and "\<And>q nm. nm \<in> set stat_names \<Longrightarrow> T q nm + recorded q nm ev \<le> i64_max"
    and "ev = Result now r" and "collector_turn cc ev cl d = (Inr cl', d')"
  shows "totals_are cc (\<lambda>q nm. T q nm + recorded q nm ev) cl' d'"
proof -
  let ?P = "update_entry (wr_queue r) queue_result_default (queue_result_record r) (cl_pending cl)"
  have eq: "cl_pending cl' = ?P" "d' = d" using assms(3,4) by (auto simp: update_stats_def Let_def)
  have ps: "pending_stat ?P q nm = pending_stat (cl_pending cl) q nm + recorded q nm ev" if "nm \<in> set stat_names" for q nm
  proof -
    have "pending_stat (cl_pending cl) q nm \<le> T q nm" using assms(1) that by (simp add: totals_are_def)
    with assms(2) [OF that, of q] show ?thesis
      using pending_stat_update [OF assms(1) that, of q now r] unfolding assms(3) by fastforce
  qed
  have dist: "distinct (map fst ?P)"
    using assms(1) by (simp add: totals_are_def update_entry_def distinct_update)
  have "0 \<le> stat_of nm s" if "(q, s) \<in> set ?P" "nm \<in> set stat_names" for q s nm
  proof -
    have "pending_stat ?P q nm = stat_of nm s" using dist that(1) by (simp add: pending_stat_def)
    with ps [OF that(2), of q] pending_stat_nonneg [OF assms(1) that(2), of q] recorded_nonneg [of q nm ev]
    show ?thesis by simp
  qed
  with assms(1) dist ps show ?thesis by (simp add: totals_are_def eq)
qed

lemma turn_totals:
  assumes "config_ok cc" and "totals_are cc T cl d" and "others_ok cc ev"
    and "\<And>q nm. nm \<in> set stat_names \<Longrightarrow> T q nm + recorded q nm ev \<le> i64_max"
    and "collector_turn cc ev cl d = (Inr cl', d')"
  shows "totals_are cc (\<lambda>q nm. T q nm + recorded q nm ev) cl' d'"
proof (cases ev)
  case (Result now r)
  from result_totals [OF assms(2,4) this assms(5)] show ?thesis .
next
  case StatsTick
  with flush_pending_stats_totals [OF assms(1,2)] assms(4,5) show ?thesis by simp
next
  case (Others f c)
  with assms(3,5) have "same_fields (cc_server cc) (cc_key cc) counter_fields d d'" "cl_pending cl' = cl_pending cl"
    by (auto simp: others_ok_def)
  from totals_are_frame [OF assms(2) this] show ?thesis by (simp add: Others)
qed (use flush_metrics_totals [OF assms(1,2)] refresh_totals [OF assms(1,2)] assms(5) in auto)

lemma turns_totals:
  assumes "config_ok cc" and "totals_are cc T cl d" and "\<forall>ev\<in>set evs. others_ok cc ev"
    and "\<And>q nm. nm \<in> set stat_names \<Longrightarrow> T q nm + recorded_all evs q nm \<le> i64_max"
    and "collector_turns cc evs cl d = (Inr cl', d')"
  shows "totals_are cc (\<lambda>q nm. T q nm + recorded_all evs q nm) cl' d'"
  using assms(2-5)
proof (induction evs arbitrary: T cl d)
  case Nil
  then show ?case by (simp add: recorded_all_def)
next
  case (Cons ev evs)
  from Cons.prems(4) obtain cl1 d1 where
    t: "collector_turn cc ev cl d = (Inr cl1, d1)" "collector_turns cc evs cl1 d1 = (Inr cl', d')"
    by (auto simp: bind_eq_Inr)
  have "T q nm + recorded q nm ev \<le> i64_max" if "nm \<in> set stat_names" for q nm
    using Cons.prems(3) [OF that, of q] recorded_all_nonneg [of evs q nm] by simp
  from turn_totals [OF assms(1) Cons.prems(1) _ this t(1)] Cons.prems(2)
  have "totals_are cc (\<lambda>q nm. T q nm + recorded q nm ev) cl1 d1" by simp
  from Cons.IH [OF this _ _ t(2)] Cons.prems(2,3) show ?case by (simp add: add.assoc)
qed

text \<open>As long as the failures in a row stay below the limit, the collector survives them.\<close>

lemma tracked_survives:
  assumes "unat (cl_failures cl) + 1 < unat (cc_tolerance cc)" and "\<And>cl v. cl_failures (k cl v) = cl_failures cl"
  shows "\<exists>cl' d'. with_tracking cc m k cl d = (Inr cl', d') \<and> unat (cl_failures cl') \<le> unat (cl_failures cl) + 1"
proof -
  obtain r d' where m: "m d = (r, d')" by fastforce
  have "unat (cc_tolerance cc) < 2 ^ 32" using unsigned_less [of "cc_tolerance cc", where ?'a = nat] by simp
  then have u: "unat (cl_failures cl + 1) = unat (cl_failures cl) + 1"
    using assms(1) by (simp add: unat_word_ariths)
  then have "\<not> cc_tolerance cc \<le> cl_failures cl + 1" using assms(1) by (simp add: word_le_nat_alt)
  with u show ?thesis by (cases r) (simp_all add: with_tracking_def m assms(2))
qed

lemma guarded_survives:
  assumes "unat (cl_failures cl) + 1 < unat (cc_tolerance cc)" and "\<And>cl v. cl_failures (k cl v) = cl_failures cl"
  shows "\<exists>cl' d'. (if b then return cl else with_tracking cc m k cl) d = (Inr cl', d') \<and>
    unat (cl_failures cl') \<le> unat (cl_failures cl) + 1"
  using tracked_survives [OF assms] by (cases b) auto

lemma flush_survives:
  fixes cc :: "'d collector_config"
  assumes "unat (cl_failures cl) + 1 < unat (cc_tolerance cc)"
  shows "\<exists>cl' d'. flush_metrics cc cl d = (Inr cl', d') \<and> unat (cl_failures cl') \<le> unat (cl_failures cl) + 1"
    "\<exists>cl' d'. flush_pending_stats cc cl d = (Inr cl', d') \<and> unat (cl_failures cl') \<le> unat (cl_failures cl) + 1"
    "\<exists>cl' d'. refresh_active_queue_lengths cc now cl d = (Inr cl', d') \<and> unat (cl_failures cl') \<le> unat (cl_failures cl) + 1"
  unfolding flush_metrics_def flush_pending_stats_def refresh_active_queue_lengths_def
  by (rule guarded_survives [OF assms], simp)+

lemma turns_survive:
  assumes "unat (cl_failures cl) + length evs < unat (cc_tolerance cc)" and "\<forall>ev\<in>set evs. \<forall>f c. ev \<noteq> Others f c"
  shows "\<exists>cl' d'. collector_turns cc evs cl d = (Inr cl', d') \<and> unat (cl_failures cl') \<le> unat (cl_failures cl) + length evs"
  using assms
proof (induction evs arbitrary: cl d)
  case (Cons ev evs)
  have "\<exists>cl1 d1. collector_turn cc ev cl d = (Inr cl1, d1) \<and> unat (cl_failures cl1) \<le> unat (cl_failures cl) + 1"
    using Cons.prems flush_survives [of cl cc] by (cases ev) (auto simp: update_stats_def Let_def)
  then obtain cl1 d1 where t: "collector_turn cc ev cl d = (Inr cl1, d1)"
    "unat (cl_failures cl1) \<le> unat (cl_failures cl) + 1" by blast
  with Cons.IH [of cl1 d1] Cons.prems show ?case by (fastforce simp: bind_def)
qed simp

lemma run_survives:
  assumes "length evs + 3 < unat (cc_tolerance cc)" and "\<forall>ev\<in>set evs. \<forall>f c. ev \<noteq> Others f c"
  shows "\<exists>cl' d'. collector_run cc evs now d = (Inr cl', d')"
proof -
  from turns_survive [of collector_new evs cc d] assms obtain cl1 d1 where
    1: "collector_turns cc evs collector_new d = (Inr cl1, d1)" "unat (cl_failures cl1) \<le> length evs"
    by (auto simp: collector_new_def)
  with flush_survives(1) [of cl1 cc d1] assms(1) obtain cl2 d2 where
    2: "flush_metrics cc cl1 d1 = (Inr cl2, d2)" "unat (cl_failures cl2) \<le> length evs + 1" by fastforce
  with flush_survives(2) [of cl2 cc d2] assms(1) obtain cl3 d3 where
    3: "flush_pending_stats cc cl2 d2 = (Inr cl3, d3)" "unat (cl_failures cl3) \<le> length evs + 2" by fastforce
  with flush_survives(3) [where cl = cl3 and cc = cc and now = now and d = d3] assms(1) obtain cl4 d4 where
    4: "refresh_active_queue_lengths cc now cl3 d3 = (Inr cl4, d4)" by fastforce
  from 1(1) 2(1) 3(1) 4 show ?thesis by (simp add: collector_run_def flush_before_exit_def bind_def)
qed

section \<open>Properties\<close>


text \<open>Two results and a flush between them, on a server without statistics.\<close>

definition sample_result :: "worker_result_kind \<Rightarrow> nat \<Rightarrow> worker_result" where
  "sample_result kind n = \<lparr>wr_kind = kind, wr_worker_name = ''Mail'', wr_queue = ''mail'', wr_execution_ms = 30, wr_job_count = n\<rparr>"

definition sample_collector_config :: "mem collector_config" where
  "sample_collector_config = \<lparr>cc_jobs = mem_redis, cc_stats = None, cc_storage = sample_storage,
     cc_bitfield = (\<lambda>_ _. return ()), cc_tolerance = 100, cc_exit_when_processed = None\<rparr>"

definition sample_collector_events :: "mem collector_event list" where
  "sample_collector_events = [Result 0 (sample_result ResultSuccess 2), StatsTick, Result 1 (sample_result ResultPanicked 1)]"


text \<open>
  The flush is a plain pipeline and a failed flush is sent again in full, so one counter that
  Redis cannot increment makes every other counter of the flush grow with each attempt: a
  single result is counted twice here, and is still pending.
\<close>

definition broken_stats :: mem where
  "broken_stats = [(''app:stats'', VHash [(''mail:failed'', ''x'')])]"

definition one_failure :: collector where
  "one_failure = collector_new\<lparr>cl_pending := [(''mail'', \<lparr>qr_processed = 1, qr_succeeded = 0, qr_panicked = 0, qr_failed = 1\<rparr>)]\<rparr>"

lemma broken_flush:
  assumes "fits mem_redis d ''app:stats'' THash" and "counter_value mem_redis d ''app:stats'' ''mail:processed'' = Some v"
    and "in_i64 (v + 1)" and "counter_value mem_redis d ''app:stats'' ''mail:failed'' = None"
    and "cl_pending cl = cl_pending one_failure" and "unat (cl_failures cl) < 50"
  shows "\<exists>cl' d'. flush_pending_stats sample_collector_config cl d = (Inr cl', d') \<and> cl_pending cl' = cl_pending one_failure \<and>
    unat (cl_failures cl') = unat (cl_failures cl) + 1 \<and> fits mem_redis d' ''app:stats'' THash \<and>
    counter_value mem_redis d' ''app:stats'' ''mail:processed'' = Some (v + 1) \<and>
    counter_value mem_redis d' ''app:stats'' ''mail:failed'' = None"
proof -
  let ?cc = sample_collector_config
  from mem.hincrby_value [OF assms(1-3)] obtain d1 where d1:
    "hincrby mem_redis ''app:stats'' ''mail:processed'' 1 d = (Inr (), d1)" "fits mem_redis d1 ''app:stats'' THash"
    "\<And>g. counter_value mem_redis d1 ''app:stats'' g =
       (if g = ''mail:processed'' then Some (v + 1) else counter_value mem_redis d ''app:stats'' g)" by blast
  have "hincrby mem_redis ''app:stats'' ''mail:failed'' 1 d1 = (Inl (DeadpoolRedisError OtherRedisError), d1)"
    using d1(2,3) assms(4) by (simp add: hincrby_def)
  moreover have inc: "result_increments (cl_pending one_failure) = [(''mail:processed'', 1), (''mail:failed'', 1)]"
    by (simp add: one_failure_def result_increments_def stat_values_def stat_field_def)
  moreover have "cl_pending one_failure \<noteq> []" by (simp add: one_failure_def)
  moreover have "stats_key (st_keys sample_storage) = ''app:stats''" by (simp add: sample_storage_def storage_keys_new_def)
  ultimately have fl: "flush_result_stats mem_redis None sample_storage (cl_pending cl) d =
      (Inl (DeadpoolRedisError OtherRedisError), d1)" "cl_pending cl \<noteq> []"
    using d1(1) assms(5) by (simp_all add: flush_result_stats_def stats_redis_def with_connection_def)
  have c: "unat (cl_failures cl + 1) = unat (cl_failures cl) + 1"
    using assms(6) by (simp add: unat_word_ariths)
  then have "\<not> 100 \<le> cl_failures cl + 1" using assms(6) by (simp add: word_le_nat_alt)
  with fl have "flush_pending_stats ?cc cl d = (Inr (cl\<lparr>cl_failures := cl_failures cl + 1\<rparr>), d1)"
    by (simp add: flush_pending_stats_def with_tracking_def sample_collector_config_def)
  with c d1(2,3) assms(4,5) show ?thesis by simp
qed

theorem failed_flush_counts_again:
  "\<exists>cl1 d1 cl2 d2. flush_pending_stats sample_collector_config one_failure broken_stats = (Inr cl1, d1) \<and>
     flush_pending_stats sample_collector_config cl1 d1 = (Inr cl2, d2) \<and>
     counter_value mem_redis d2 ''app:stats'' ''mail:processed'' = Some 2 \<and> cl_pending cl2 = cl_pending one_failure"
proof -
  have x: "string2ll ''x'' = None" by code_simp
  have h: "mem_hash broken_stats ''app:stats'' = [(''mail:failed'', ''x'')]" by (simp add: broken_stats_def mem_hash_def)
  have "fits mem_redis broken_stats ''app:stats'' THash"
    by (simp add: fits_def broken_stats_def mem_type_def)
  from broken_flush [OF this, of 0 one_failure] x h obtain cl1 d1 where
    1: "flush_pending_stats sample_collector_config one_failure broken_stats = (Inr cl1, d1)"
      "cl_pending cl1 = cl_pending one_failure" "unat (cl_failures cl1) = 1" "fits mem_redis d1 ''app:stats'' THash"
      "counter_value mem_redis d1 ''app:stats'' ''mail:processed'' = Some 1"
      "counter_value mem_redis d1 ''app:stats'' ''mail:failed'' = None"
    by (auto simp: counter_value_def in_i64_def one_failure_def collector_new_def)
  from broken_flush [OF 1(4,5) _ 1(6,2)] 1(3) obtain cl2 d2 where
    "flush_pending_stats sample_collector_config cl1 d1 = (Inr cl2, d2)" "cl_pending cl2 = cl_pending one_failure"
    "counter_value mem_redis d2 ''app:stats'' ''mail:processed'' = Some 2"
    by (auto simp: in_i64_def)
  with 1(1) show ?thesis by blast
qed

end
