(* ===== verification/Cron.thy ===== *)
theory Cron
  imports Worker_Registry Connection Storage_Jobs
begin

text \<open>
  Scheduled jobs: \<^verbatim>\<open>cron_job_loop\<close> and \<^verbatim>\<open>unique_cron_action\<close> of \<^verbatim>\<open>storage_internal.rs\<close> and
  \<^verbatim>\<open>cron_envelope_factory\<close> of \<^verbatim>\<open>worker_registry.rs\<close>. The occurrences of a schedule come from
  the schedule library and are a list of times in microseconds. A loop that polls until
  something happens takes the list of its polls: whether the shutdown token was cancelled, what
  other clients had done by then, and the clock; the end of the list is a cancellation.
\<close>

section \<open>Envelopes of occurrences\<close>

text \<open>\<open>from_value\<close> is \<^verbatim>\<open>serde_json::from_value\<close> at the job type, \<open>name\<close> its name.\<close>

definition cron_envelope_factory ::
    "(json \<Rightarrow> string + job) \<Rightarrow> string \<Rightarrow> int \<Rightarrow> string \<Rightarrow> string \<Rightarrow> int \<Rightarrow> bool \<Rightarrow> oxana_error + (job_envelope \<times> bool)" where
  "cron_envelope_factory from_value name now queue occurrence_id at res =
     (case from_value (JObj []) of
        Inl er \<Rightarrow> Inl (JobFactoryError (''Failed to build job '' @ name @ '': '' @ er))
      | Inr j \<Rightarrow> envelope_new_cron now queue occurrence_id j at res)"

section \<open>Unique jobs\<close>

datatype unique_cron_action = CronEnqueue | CronWait | CronSkip

definition unique_cron_action :: "bool \<Rightarrow> bool \<Rightarrow> int \<Rightarrow> int \<Rightarrow> unique_cron_action" where
  "unique_cron_action existing_job previously_observed at now =
     (if at \<le> now \<and> (existing_job \<or> previously_observed) then CronSkip
      else if existing_job then CronWait
      else CronEnqueue)"

section \<open>The loop\<close>

record cron_settings =
  cron_lookahead :: int
  cron_tolerance :: "32 word"
  cron_max_utc :: int

text \<open>Waiting for the slot of an occurrence; the result is the clock reading that opened it.\<close>

fun cron_slot :: "cron_settings \<Rightarrow> int option \<Rightarrow> int \<Rightarrow> (bool \<times> int) list \<Rightarrow> int option" where
  "cron_slot cs prev nxt [] = None"
| "cron_slot cs prev nxt ((cancelled, now) # polls) =
     (if cancelled then None
      else if min (now + cron_lookahead cs) (cron_max_utc cs) < nxt then cron_slot cs prev nxt polls
      else if (case prev of Some p \<Rightarrow> now < p | None \<Rightarrow> False) then cron_slot cs prev nxt polls
      else Some now)"

text \<open>
  Whether the occurrence of a unique job is enqueued (\<^verbatim>\<open>should_enqueue\<close>); \<^const>\<open>None\<close> is a
  cancellation.
\<close>

fun cron_unique ::
    "'d redis \<Rightarrow> codec \<Rightarrow> storage \<Rightarrow> cron_settings \<Rightarrow> job_id \<Rightarrow> int \<Rightarrow> bool \<Rightarrow> (bool \<times> ('d \<Rightarrow> 'd) \<times> int) list \<Rightarrow> 32 word \<Rightarrow> 'd
       \<Rightarrow> (oxana_error + bool option) \<times> 32 word \<times> 'd" where
  "cron_unique R C S cs i at observed [] c d = (Inr None, c, d)"
| "cron_unique R C S cs i at observed ((cancelled, env, now) # polls) c d =
     (if cancelled then (Inr None, c, d)
      else case get_job R C S i (env d) of (r, d') \<Rightarrow>
        (case track_redis_result c r (cron_tolerance cs) of
           (Inl e, c') \<Rightarrow> (Inl e, c', d')
         | (Inr None, c') \<Rightarrow> cron_unique R C S cs i at observed polls c' d'
         | (Inr (Some existing), c') \<Rightarrow>
             (case unique_cron_action (existing \<noteq> None) observed at now of
                CronSkip \<Rightarrow> (Inr (Some False), c', d')
              | CronWait \<Rightarrow> cron_unique R C S cs i at (observed \<or> existing \<noteq> None) polls c' d'
              | CronEnqueue \<Rightarrow> (Inr (Some True), c', d'))))"

text \<open>Enqueueing with tolerated failures; a poll carries the interference and the clock of \<^const>\<open>enqueue_at\<close>.\<close>

fun cron_send ::
    "'d redis \<Rightarrow> codec \<Rightarrow> storage \<Rightarrow> cron_settings \<Rightarrow> job_envelope
       \<Rightarrow> (bool \<times> ('d \<Rightarrow> 'd) \<times> ('d \<Rightarrow> 'd) list \<times> int) list \<Rightarrow> 32 word \<Rightarrow> 'd \<Rightarrow> (oxana_error + bool) \<times> 32 word \<times> 'd" where
  "cron_send R C S cs e [] c d = (Inr False, c, d)"
| "cron_send R C S cs e ((cancelled, env, envs, now) # polls) c d =
     (if cancelled then (Inr False, c, d)
      else case enqueue_at R C S env envs now e d of
             (Inr None, d') \<Rightarrow> (Inr False, c, d')
           | (r, d') \<Rightarrow> (case track_redis_result c r (cron_tolerance cs) of
                (Inl er, c') \<Rightarrow> (Inl er, c', d')
              | (Inr (Some _), c') \<Rightarrow> (Inr True, c', d')
              | (Inr None, c') \<Rightarrow> cron_send R C S cs e polls c' d'))"

record 'd cron_polls =
  cp_slots :: "(bool \<times> int) list"
  cp_checks :: "(bool \<times> ('d \<Rightarrow> 'd) \<times> int) list"
  cp_sends :: "(bool \<times> ('d \<Rightarrow> 'd) \<times> ('d \<Rightarrow> 'd) list \<times> int) list"

text \<open>One occurrence: whether it was enqueued, and when its slot opened.\<close>

definition cron_occurrence ::
    "'d redis \<Rightarrow> codec \<Rightarrow> storage \<Rightarrow> cron_settings \<Rightarrow> (int \<Rightarrow> oxana_error + (job_envelope \<times> bool)) \<Rightarrow> int option \<Rightarrow> int
       \<Rightarrow> 'd cron_polls \<Rightarrow> 32 word \<Rightarrow> 'd \<Rightarrow> (oxana_error + (int \<times> bool) option) \<times> 32 word \<times> 'd" where
  "cron_occurrence R C S cs envelope_factory prev nxt ps c d =
     (case cron_slot cs prev nxt (cp_slots ps) of
        None \<Rightarrow> (Inr None, c, d)
      | Some now \<Rightarrow>
          (case envelope_factory nxt of
             Inl e \<Rightarrow> (Inl e, c, d)
           | Inr (e, declared_unique) \<Rightarrow>
               (case (if declared_unique then cron_unique R C S cs (env_id e) nxt False (cp_checks ps) c d
                      else (Inr (Some True), c, d)) of
                  (Inl er, c', d') \<Rightarrow> (Inl er, c', d')
                | (Inr None, c', d') \<Rightarrow> (Inr None, c', d')
                | (Inr (Some False), c', d') \<Rightarrow> (Inr (Some (now, False)), c', d')
                | (Inr (Some True), c', d') \<Rightarrow>
                    (case cron_send R C S cs e (cp_sends ps) c' d' of
                       (Inl er, c2, d2) \<Rightarrow> (Inl er, c2, d2)
                     | (Inr False, c2, d2) \<Rightarrow> (Inr None, c2, d2)
                     | (Inr True, c2, d2) \<Rightarrow> (Inr (Some (now, True)), c2, d2)))))"

text \<open>The loop, with the log of the occurrences it handled: time, opening of the slot, enqueued.\<close>

fun cron_job_loop ::
    "'d redis \<Rightarrow> codec \<Rightarrow> storage \<Rightarrow> cron_settings \<Rightarrow> (int \<Rightarrow> oxana_error + (job_envelope \<times> bool)) \<Rightarrow> int option
       \<Rightarrow> (int \<times> 'd cron_polls) list \<Rightarrow> 32 word \<Rightarrow> 'd \<Rightarrow> (oxana_error + (int \<times> int \<times> bool) list) \<times> 32 word \<times> 'd" where
  "cron_job_loop R C S cs envelope_factory prev [] c d = (Inr [], c, d)"
| "cron_job_loop R C S cs envelope_factory prev ((nxt, ps) # rest) c d =
     (case cron_occurrence R C S cs envelope_factory prev nxt ps c d of
        (Inl e, c', d') \<Rightarrow> (Inl e, c', d')
      | (Inr None, c', d') \<Rightarrow> (Inr [], c', d')
      | (Inr (Some (now, enqueued)), c', d') \<Rightarrow>
          (case cron_job_loop R C S cs envelope_factory (Some nxt) rest c' d' of
             (Inl e, c2, d2) \<Rightarrow> (Inl e, c2, d2)
           | (Inr log, c2, d2) \<Rightarrow> (Inr ((nxt, now, enqueued) # log), c2, d2)))"

section \<open>Lemmas\<close>

text \<open>What the successful polls of a unique job saw: whether it existed, and the time.\<close>

fun observations ::
    "'d redis \<Rightarrow> codec \<Rightarrow> storage \<Rightarrow> job_id \<Rightarrow> (bool \<times> ('d \<Rightarrow> 'd) \<times> int) list \<Rightarrow> 'd \<Rightarrow> (bool \<times> int) list" where
  "observations R C S i [] d = []"
| "observations R C S i ((_, env, now) # polls) d =
     (case fst (get_job R C S i (env d)) of
        Inl _ \<Rightarrow> observations R C S i polls (env d)
      | Inr existing \<Rightarrow> (existing \<noteq> None, now) # observations R C S i polls (env d))"

text \<open>
  The rule the polls implement: the first poll that finds the job gone, or the time come,
  decides; the occurrence is enqueued if the job is gone and was never seen, or is gone in time.
\<close>

definition cron_decision :: "int \<Rightarrow> bool \<Rightarrow> (bool \<times> int) list \<Rightarrow> bool option" where
  "cron_decision at seen obs = (case dropWhile (\<lambda>(existing, now). existing \<and> now < at) obs of
       [] \<Rightarrow> None
     | (existing, now) # _ \<Rightarrow>
         Some (\<not> existing \<and> (now < at \<or> \<not> seen \<and> takeWhile (\<lambda>(existing, now). existing \<and> now < at) obs = [])))"

lemma cron_decision_simps:
  "cron_decision at seen [] = None"
  "cron_decision at seen ((existing, now) # obs) =
     (case unique_cron_action existing seen at now of
        CronSkip \<Rightarrow> Some False
      | CronEnqueue \<Rightarrow> Some True
      | CronWait \<Rightarrow> cron_decision at True obs)"
  by (simp add: cron_decision_def)
    (cases "existing \<and> now < at"; cases "dropWhile (\<lambda>(existing, now). existing \<and> now < at) obs";
      auto simp: cron_decision_def unique_cron_action_def simp del: dropWhile_eq_Nil_conv)

lemma get_job_pure: "snd (get_job R C S i d) = d"
  by (auto simp: get_job_def with_connection_def get_job_w_conn_def bind_def redis_defs parse_envelope_def lift_result_def
      split: option.split sum.split prod.split)

lemma cron_unique_decides:
  assumes "\<forall>p\<in>set polls. \<not> fst p"
    and "cron_unique R C S cs i at seen polls c d = (Inr r, c', d')"
  shows "r = cron_decision at seen (observations R C S i polls d)"
  using assms
proof (induction polls arbitrary: seen c d)
  case Nil
  then show ?case by (simp add: cron_decision_simps)
next
  case (Cons p polls)
  obtain env now where p: "p = (False, env, now)" using Cons.prems(1) by (cases p) auto
  have rest: "\<forall>p\<in>set polls. \<not> fst p" using Cons.prems(1) by simp
  obtain res where g: "get_job R C S i (env d) = (res, env d)"
    using get_job_pure [of R C S i "env d"] by (metis prod.collapse)
  show ?case
  proof (cases res)
    case (Inl e)
    with Cons.prems(2) g have "cron_unique R C S cs i at seen polls (c + 1) (env d) = (Inr r, c', d')"
      by (simp add: p split: if_splits)
    from Cons.IH [OF rest this] Inl g show ?thesis by (simp add: p)
  next
    case (Inr existing)
    show ?thesis
    proof (cases "unique_cron_action (existing \<noteq> None) seen at now")
      case CronWait
      then have "existing \<noteq> None" by (auto simp: unique_cron_action_def split: if_splits)
      with CronWait Cons.prems(2) g Inr have "cron_unique R C S cs i at True polls 0 (env d) = (Inr r, c', d')"
        by (simp add: p)
      from Cons.IH [OF rest this] CronWait Inr g show ?thesis by (simp add: p cron_decision_simps)
    qed (use Cons.prems(2) g Inr in \<open>simp_all add: p cron_decision_simps\<close>)
  qed
qed

lemma cron_slot_Some:
  "cron_slot cs prev nxt polls = Some now \<Longrightarrow>
     nxt \<le> min (now + cron_lookahead cs) (cron_max_utc cs) \<and> (\<forall>p. prev = Some p \<longrightarrow> p \<le> now) \<and> (False, now) \<in> set polls"
  by (induction cs prev nxt polls rule: cron_slot.induct) (auto split: if_splits option.splits)

lemma cron_factory_envelope:
  assumes "cron_envelope_factory from_value name now queue occ at res = Inr (e, u)"
  shows "is_skip e" "\<exists>j. from_value (JObj []) = Inr j \<and> u = (unique_job_id j \<noteq> None) \<and>
    env_id e = (case unique_job_id j of Some i \<Rightarrow> i | None \<Rightarrow> occ)"
  using assms
  by (auto simp: cron_envelope_factory_def envelope_new_cron_def is_skip_def Let_def
      split: sum.splits if_splits option.splits)

context redis_server
begin

lemma admit_keeps_payload: "hashes (admit C K dest e s) (jobs_key K) (env_id e) \<noteq> None"
  by (auto simp: admit_def place_def Let_def input_of_def put_hash_def put_zset_def map_list_def split: option.splits)

lemma enqueue_at_skip:
  assumes "is_skip e" and "enqueue_at R C S env envs now e d = (Inr (Some i), d')"
  shows "i = env_id e \<and> (\<exists>d0 \<in> {env d, hd envs (env d)}. \<exists>dest. store_of R d' = admit C (st_keys S) dest e (store_of R d0))"
proof -
  from assms(2) obtain dest w where "enqueue_chunk R C (st_keys S) dest env envs [] [e] d = (Inr (Some w), d')"
    and "i = env_id e"
    by (auto simp: enqueue_at_def enqueue_def with_connection_def enqueue_w_conn_def bind_eq_Inr split: if_splits option.splits)
  with enqueue_chunk_skip_env [OF assms(1)] show ?thesis by blast
qed

end

section \<open>Properties\<close>

text \<open>
  C28. When an occurrence of a unique cron job is enqueued and when it is skipped. With any polling
  times, any changes by other clients and any tolerated failures, the loop enqueues the
  occurrence exactly if the first successful poll finds no job with its identifier, or a later
  poll before the scheduled time finds that the earlier job is gone; if the earlier job is still
  there, or only just gone, when the time has come, the occurrence is skipped.
\<close>

theorem cron_unique_decision:
  assumes "\<forall>p\<in>set polls. \<not> fst p" and "cron_unique R C S cs i at False polls c d = (Inr r, c', d')"
  shows "r = (case dropWhile (\<lambda>(existing, now). existing \<and> now < at) (observations R C S i polls d) of
       [] \<Rightarrow> None
     | (existing, now) # rest \<Rightarrow>
         Some (\<not> existing \<and> (now < at \<or> length rest + 1 = length (observations R C S i polls d))))"
proof -
  let ?obs = "observations R C S i polls d"
  let ?P = "\<lambda>(existing, now). existing \<and> now < at"
  have "takeWhile ?P ?obs = [] \<longleftrightarrow> length (dropWhile ?P ?obs) = length ?obs"
    by (metis append_eq_conv_conj append_self_conv2 length_append less_not_refl2 length_greater_0_conv add_cancel_left_left
        takeWhile_dropWhile_id)
  then show ?thesis
    using cron_unique_decides [OF assms]
    by (cases "dropWhile ?P ?obs") (auto simp: cron_decision_def simp del: dropWhile_eq_Nil_conv)
qed

text \<open>
  An occurrence is enqueued once however many processes run the schedule. Two processes
  that build the envelope of the same occurrence get the same identifier and may not replace
  each other: once the first has enqueued it and as long as the job is stored, the enqueue of
  the second succeeds with the same identifier and changes nothing.
\<close>

theorem cron_occurrence_once:
  assumes "redis_server R" and "st_keys S2 = st_keys S1"
    and "cron_envelope_factory from_value name now1 queue occ at res = Inr (e1, u1)"
    and "cron_envelope_factory from_value name now2 queue occ at res = Inr (e2, u2)"
    and "enqueue_at R C S1 env1 envs1 t1 e1 d = (Inr (Some i1), d1)"
    and "enqueue_at R C S2 env2 envs2 t2 e2 d2 = (Inr (Some i2), d3)"
    and "\<forall>d'\<in>{env2 d2, hd envs2 (env2 d2)}. r_hget R d' (jobs_key (st_keys S1)) i1 \<noteq> None"
  shows "r_hget R d1 (jobs_key (st_keys S1)) i1 \<noteq> None \<and> i2 = i1 \<and>
    (\<exists>d'\<in>{env2 d2, hd envs2 (env2 d2)}. store_of R d3 = store_of R d')"
proof -
  have ids: "env_id e2 = env_id e1" using cron_factory_envelope(2) [OF assms(3)] cron_factory_envelope(2) [OF assms(4)] by auto
  from redis_server.enqueue_at_skip [OF assms(1) cron_factory_envelope(1) [OF assms(3)] assms(5)]
  obtain d0 dest where 1: "i1 = env_id e1" "store_of R d1 = admit C (st_keys S1) dest e1 (store_of R d0)" by blast
  from redis_server.enqueue_at_skip [OF assms(1) cron_factory_envelope(1) [OF assms(4)] assms(6)]
  obtain d' dest' where 2: "i2 = env_id e2" "d' \<in> {env2 d2, hd envs2 (env2 d2)}"
    "store_of R d3 = admit C (st_keys S2) dest' e2 (store_of R d')" by blast
  have "hashes (store_of R d1) (jobs_key (st_keys S1)) i1 \<noteq> None"
    unfolding 1 by (rule redis_server.admit_keeps_payload [OF assms(1)])
  moreover have "admit C (st_keys S2) dest' e2 (store_of R d') = store_of R d'"
    using assms(2,7) 1(1) 2(2) ids cron_factory_envelope(1) [OF assms(4)]
    by (auto simp: admit_def store_of_def split: option.splits)
  ultimately show ?thesis using 1(1) 2 ids by (auto simp: store_of_def)
qed

text \<open>
  The loop handles the occurrences in order, each in its slot: not before the lookahead
  reaches it, and not before the previous one is due.
\<close>

theorem cron_loop_in_order:
  assumes "cron_job_loop R C S cs f prev occs c d = (Inr log, c', d')"
  shows "map fst log = take (length log) (map fst occs) \<and>
    (\<forall>k<length log. case log ! k of (nxt, now, _) \<Rightarrow> nxt \<le> now + cron_lookahead cs \<and>
       (0 < k \<longrightarrow> fst (log ! (k - 1)) \<le> now) \<and> (\<forall>p. k = 0 \<and> prev = Some p \<longrightarrow> p \<le> now))"
  using assms
proof (induction occs arbitrary: prev c d log)
  case (Cons o' occs)
  obtain nxt ps where o': "o' = (nxt, ps)" by fastforce
  show ?case
  proof (cases "cron_occurrence R C S cs f prev nxt ps c d")
    case (fields r c1 d1)
    show ?thesis
    proof (cases "\<exists>now enq. r = Inr (Some (now, enq))")
      case False
      with Cons.prems fields have "log = []" by (auto simp: o' split: sum.splits option.splits)
      then show ?thesis by simp
    next
      case True
      then obtain now enq where r: "r = Inr (Some (now, enq))" by blast
      from fields r have "cron_slot cs prev nxt (cp_slots ps) = Some now"
        by (auto simp: cron_occurrence_def split: option.splits sum.splits prod.splits bool.splits if_splits)
      note slot = cron_slot_Some [OF this]
      from Cons.prems fields r obtain log' where
        l: "cron_job_loop R C S cs f (Some nxt) occs c1 d1 = (Inr log', c', d')" "log = (nxt, now, enq) # log'"
        by (auto simp: o' split: sum.splits prod.splits)
      note ih = Cons.IH [OF l(1)]
      have "case log ! k of (nxt, now, _) \<Rightarrow> nxt \<le> now + cron_lookahead cs \<and>
          (0 < k \<longrightarrow> fst (log ! (k - 1)) \<le> now) \<and> (\<forall>p. k = 0 \<and> prev = Some p \<longrightarrow> p \<le> now)" if "k < length log" for k
      proof (cases k)
        case 0
        with slot show ?thesis by (simp add: l(2))
      next
        case (Suc j)
        with that have "j < length log'" by (simp add: l(2))
        with ih [THEN conjunct2] show ?thesis by (cases j) (fastforce simp: l(2) Suc split: prod.splits)+
      qed
      with ih show ?thesis by (simp add: l(2) o')
    qed
  qed
qed simp

section \<open>Witnesses\<close>

text \<open>The earlier job is seen at time 5 and gone at time 8, before the occurrence at time 10.\<close>

definition sample_cron_settings :: cron_settings where
  "sample_cron_settings = \<lparr>cron_lookahead = 60, cron_tolerance = 3, cron_max_utc = 1000000\<rparr>"

definition sample_cron_polls :: "(bool \<times> (mem \<Rightarrow> mem) \<times> int) list" where
  "sample_cron_polls = [(False, \<lambda>_. sample_queued, 5), (False, \<lambda>_. [], 8)]"

lemma sample_cron_runs:
  "cron_unique mem_redis netstring_codec sample_storage sample_cron_settings ''Mail/7'' 10 False sample_cron_polls 0 [] =
     (Inr (Some True), 0, [])"
  by (simp add: sample_cron_polls_def sample_cron_settings_def get_job_def get_job_w_conn_def parse_envelope_def
      lift_result_def unique_cron_action_def sample_run)

theorem cron_unique_decision_witness:
  "observations mem_redis netstring_codec sample_storage ''Mail/7'' sample_cron_polls [] = [(True, 5), (False, 8)] \<and>
   Some True = (case dropWhile (\<lambda>(existing, now). existing \<and> now < 10)
       (observations mem_redis netstring_codec sample_storage ''Mail/7'' sample_cron_polls []) of
       [] \<Rightarrow> None
     | (existing, now) # rest \<Rightarrow> Some (\<not> existing \<and> (now < 10 \<or>
         length rest + 1 = length (observations mem_redis netstring_codec sample_storage ''Mail/7'' sample_cron_polls []))))"
proof -
  have "observations mem_redis netstring_codec sample_storage ''Mail/7'' sample_cron_polls [] = [(True, 5), (False, 8)]"
    by (simp add: sample_cron_polls_def get_job_def get_job_w_conn_def parse_envelope_def lift_result_def sample_run)
  moreover have "\<forall>p\<in>set sample_cron_polls. \<not> fst p" by (simp add: sample_cron_polls_def)
  ultimately show ?thesis using cron_unique_decision [OF _ sample_cron_runs] by blast
qed

definition nightly :: "json \<Rightarrow> string + job" where
  "nightly _ = Inr \<lparr>job_name = ''N'', unique_id = None, job_on_conflict = Skip, should_resurrect = True,
     job_throttle_cost = None, job_args = Inr JNull\<rparr>"

definition nightly_envelope :: "int \<Rightarrow> job_envelope" where
  "nightly_envelope now = fst (projr (cron_envelope_factory nightly ''N'' now ''q'' ''N-100'' 100 True))"

definition nightly_enqueue :: "int \<Rightarrow> (mem, job_id option) op" where
  "nightly_enqueue now = enqueue_at mem_redis netstring_codec sample_storage (\<lambda>d. d) [\<lambda>d. d] now (nightly_envelope now)"

lemma nightly_runs:
  "fst (nightly_enqueue 1 []) = Inr (Some ''N-100'')"
  "fst (nightly_enqueue 2 (snd (nightly_enqueue 1 []))) = Inr (Some ''N-100'')"
  "r_hget mem_redis (snd (nightly_enqueue 1 [])) ''app:jobs'' ''N-100'' \<noteq> None"
  by code_simp+

theorem cron_occurrence_once_witness:
  "store_of mem_redis (snd (nightly_enqueue 2 (snd (nightly_enqueue 1 [])))) =
     store_of mem_redis (snd (nightly_enqueue 1 []))"
proof -
  have e: "cron_envelope_factory nightly ''N'' now ''q'' ''N-100'' 100 True = Inr (nightly_envelope now, False)" for now
    by (simp add: nightly_envelope_def cron_envelope_factory_def nightly_def envelope_new_cron_def unique_job_id_def Let_def)
  have 1: "nightly_enqueue 1 [] = (Inr (Some ''N-100''), snd (nightly_enqueue 1 []))"
    and 2: "nightly_enqueue 2 (snd (nightly_enqueue 1 [])) =
      (Inr (Some ''N-100''), snd (nightly_enqueue 2 (snd (nightly_enqueue 1 []))))"
    using nightly_runs by (simp_all add: prod_eq_iff)
  have k: "jobs_key (st_keys sample_storage) = ''app:jobs''" by code_simp
  show ?thesis
    using cron_occurrence_once [OF mem.redis_server_axioms refl e e 1 [unfolded nightly_enqueue_def [of 1]]
        2 [unfolded nightly_enqueue_def [of 2]]] nightly_runs(3)
    by (simp add: k nightly_enqueue_def [symmetric])
qed

end
