(* ===== verification/Drainer.thy ===== *)
theory Drainer
  imports Executor Worker_Registry Processes
begin

text \<open>
  Draining a queue without a runtime, \<^verbatim>\<open>drainer.rs\<close>: the jobs of a queue are claimed and run
  one after the other until the queue is empty. The loop need not end, because jobs may enqueue
  further jobs: it is a partial function, whose value \<^const>\<open>None\<close> is a drain that runs forever.
  A panic of the worker is not caught; it ends the drain.
\<close>

section \<open>Operations\<close>

datatype process_job_result = JobSucceeded | JobFailed | JobMissing

text \<open>How a drained job, and the drain itself, can end.\<close>

datatype 'a drain_outcome = Drained 'a | DrainError oxana_error | DrainPanicked

record drain_stats =
  dr_processed :: nat
  dr_succeeded :: nat
  dr_failed :: nat
  dr_missing :: nat

definition drain_stats_default :: drain_stats where
  "drain_stats_default = \<lparr>dr_processed = 0, dr_succeeded = 0, dr_failed = 0, dr_missing = 0\<rparr>"

definition outcome_of :: "'a \<Rightarrow> (oxana_error + unit) \<times> 'd \<Rightarrow> 'a drain_outcome \<times> 'd" where
  "outcome_of x = (\<lambda>(r, d). (case r of Inl e \<Rightarrow> DrainError e | Inr _ \<Rightarrow> Drained x, d))"

definition process_job ::
    "'d redis \<Rightarrow> codec \<Rightarrow> storage \<Rightarrow> execution_settings \<Rightarrow> oxana_error option \<Rightarrow> (oxana_error \<Rightarrow> string)
       \<Rightarrow> ('c, 'd processable, 's) worker_registry \<Rightarrow> 'c \<Rightarrow> job_id \<Rightarrow> 'd \<Rightarrow> process_job_result drain_outcome \<times> 'd" where
  "process_job R C S cfg acq show_error reg ctx i d =
     (case get_job R C S i d of
        (Inl e, d1) \<Rightarrow> (DrainError e, d1)
      | (Inr None, d1) \<Rightarrow> (Drained JobMissing, d1)
      | (Inr (Some e0), d1) \<Rightarrow>
          (case build show_error reg (job_data_name (env_job e0)) (job_data_args (env_job e0)) ctx of
             Inl er \<Rightarrow> (DrainError er, d1)
           | Inr w \<Rightarrow>
               (case (if p_should_resume w then (Inr e0, d1)
                      else bind (update_job R C S (clear_state e0)) (\<lambda>_. return (clear_state e0)) d1) of
                  (Inl er, d2) \<Rightarrow> (DrainError er, d2)
                | (Inr e, d2) \<Rightarrow>
                    (case p_process w [env_meta e] d2 of
                       (ExecSuccess, d3) \<Rightarrow> outcome_of JobSucceeded (finish_with_success R S acq e d3)
                     | (ExecFailed er, d3) \<Rightarrow> outcome_of JobFailed (kill R C S acq e (format_error cfg er) d3)
                     | (ExecPanicked _, d3) \<Rightarrow> (DrainPanicked, d3)))))"

definition count_job :: "process_job_result \<Rightarrow> drain_stats \<Rightarrow> drain_stats" where
  "count_job r st =
     (case r of
        JobSucceeded \<Rightarrow> st\<lparr>dr_succeeded := dr_succeeded st + 1\<rparr>
      | JobFailed \<Rightarrow> st\<lparr>dr_failed := dr_failed st + 1\<rparr>
      | JobMissing \<Rightarrow> st\<lparr>dr_missing := dr_missing st + 1\<rparr>)\<lparr>dr_processed := dr_processed st + 1\<rparr>"

text \<open>\<open>acq k\<close> is the outcome of the claimed checkout for the job number \<open>k\<close>.\<close>

partial_function (option) drain_queue ::
    "'d redis \<Rightarrow> codec \<Rightarrow> storage \<Rightarrow> execution_settings \<Rightarrow> (nat \<Rightarrow> oxana_error option) \<Rightarrow> (oxana_error \<Rightarrow> string)
       \<Rightarrow> ('c, 'd processable, 's) worker_registry \<Rightarrow> 'c \<Rightarrow> string \<Rightarrow> drain_stats \<Rightarrow> 'd
       \<Rightarrow> (drain_stats drain_outcome \<times> 'd) option" where
  "drain_queue R C S cfg acq show_error reg ctx q st d =
     (case dequeue R S q d of
        (Inl e, d1) \<Rightarrow> Some (DrainError e, d1)
      | (Inr None, d1) \<Rightarrow> Some (Drained st, d1)
      | (Inr (Some i), d1) \<Rightarrow>
          (case process_job R C S cfg (acq (dr_processed st)) show_error reg ctx i d1 of
             (DrainError e, d2) \<Rightarrow> Some (DrainError e, d2)
           | (DrainPanicked, d2) \<Rightarrow> Some (DrainPanicked, d2)
           | (Drained r, d2) \<Rightarrow> drain_queue R C S cfg acq show_error reg ctx q (count_job r st) d2))"

text \<open>
  \<^verbatim>\<open>drain\<close>: register as a process of its own, drain, deregister. \<open>S\<close> is the storage of the new
  process (\<^verbatim>\<open>for_new_process\<close>); the heartbeats of the meantime write only the process records.
\<close>

definition for_new_process :: "int \<Rightarrow> string \<Rightarrow> storage \<Rightarrow> storage" where
  "for_new_process now instance S = S\<lparr>st_keys := storage_keys_new (namespace (st_keys S)),
     st_started_at := now, st_instance_id := instance\<rparr>"

definition drain ::
    "'d redis \<Rightarrow> codec \<Rightarrow> storage \<Rightarrow> execution_settings \<Rightarrow> (nat \<Rightarrow> oxana_error option) \<Rightarrow> (oxana_error \<Rightarrow> string)
       \<Rightarrow> ('c, 'd processable, 's) worker_registry \<Rightarrow> 'c \<Rightarrow> int \<Rightarrow> string \<Rightarrow> 'd
       \<Rightarrow> (drain_stats drain_outcome \<times> 'd) option" where
  "drain R C S cfg acq show_error reg ctx now_ms q d =
     (case ping R C S now_ms d of
        (Inl e, d1) \<Rightarrow> Some (DrainError e, d1)
      | (Inr _, d1) \<Rightarrow>
          (case drain_queue R C S cfg acq show_error reg ctx q drain_stats_default d1 of
             None \<Rightarrow> None
           | Some (DrainPanicked, d2) \<Rightarrow> Some (DrainPanicked, d2)
           | Some (r, d2) \<Rightarrow>
               (case self_cleanup R S d2 of
                  (Inl e, d3) \<Rightarrow> Some (DrainError e, d3)
                | (Inr _, d3) \<Rightarrow> Some (r, d3))))"

section \<open>Lemmas\<close>

text \<open>
  A registry whose workers, when they run, leave the list \<open>k\<close> alone: they enqueue nothing there.
\<close>

definition workers_leave ::
    "'d redis \<Rightarrow> (oxana_error \<Rightarrow> string) \<Rightarrow> ('c, 'd processable, 's) worker_registry \<Rightarrow> 'c \<Rightarrow> string \<Rightarrow> bool" where
  "workers_leave R show_error reg ctx k \<longleftrightarrow> (\<forall>name args w metas d.
     build show_error reg name args ctx = Inr w \<longrightarrow> r_lrange R (snd (p_process w metas d)) k = r_lrange R d k)"

lemma get_job_same: "snd (get_job R C S i d) = d"
  by (auto simp: get_job_def with_connection_def get_job_w_conn_def bind_def redis_defs parse_envelope_def lift_result_def
      split: option.split sum.split prod.split)

lemma outcome_of_snd [simp]: "snd (outcome_of x p) = snd p"
  by (simp add: outcome_of_def split_beta)

lemma count_job_sum:
  "dr_processed (count_job r st) = dr_processed st + 1"
  "dr_succeeded (count_job r st) + dr_failed (count_job r st) + dr_missing (count_job r st) =
     dr_succeeded st + dr_failed st + dr_missing st + 1"
  by (cases r; simp add: count_job_def)+

context redis_server
begin

lemma update_job_lists: "r_lrange R (snd (update_job R C S e d)) = r_lrange R d"
  by (auto simp: update_job_def with_connection_def redis_defs hset_l split: option.split)

lemma settle_lists:
  assumes "keys_distinct (st_keys S)" and "k \<noteq> dead_key (st_keys S)" and "k \<noteq> current_processing_queue S"
  shows "r_lrange R (snd (finish_with_success R S acq e d)) k = r_lrange R d k"
    "r_lrange R (snd (kill R C S acq e msg d)) k = r_lrange R d k"
  using finish_success_atomic [OF assms(1), of d acq "[e]"] kill_atomic [OF assms(1), of d C acq e msg] assms(2,3)
  by (auto simp: finish_with_success_def atomically_def acknowledge_def bury_def store_of_def map_list_def put_hash_def
      split: prod.splits sum.splits)

lemma process_job_lists:
  assumes "keys_distinct (st_keys S)" and "k \<noteq> dead_key (st_keys S)" and "k \<noteq> current_processing_queue S"
    and "workers_leave R show_error reg ctx k"
  shows "r_lrange R (snd (process_job R C S cfg acq show_error reg ctx i d)) k = r_lrange R d k"
proof -
  obtain g where g: "get_job R C S i d = (g, d)" using get_job_same [of R C S i d] by (metis prod.collapse)
  show ?thesis
  proof (cases "\<exists>e w. g = Inr (Some e) \<and> build show_error reg (job_data_name (env_job e)) (job_data_args (env_job e)) ctx = Inr w")
    case False
    then show ?thesis by (auto simp: process_job_def g split: sum.split option.split)
  next
    case True
    then obtain e0 w where w: "g = Inr (Some e0)"
      "build show_error reg (job_data_name (env_job e0)) (job_data_args (env_job e0)) ctx = Inr w" by blast
    obtain r d2 where r: "(if p_should_resume w then (Inr e0, d)
        else bind (update_job R C S (clear_state e0)) (\<lambda>_. return (clear_state e0)) d) = (r, d2)" by fastforce
    have l2: "r_lrange R d2 = r_lrange R d"
      using r update_job_lists [of C S "clear_state e0" d] by (auto simp: bind_def split: if_splits prod.splits sum.splits)
    show ?thesis
    proof (cases r)
      case (Inl er)
      with w r l2 show ?thesis by (simp add: process_job_def g)
    next
      case (Inr e)
      obtain x d3 where p: "p_process w [env_meta e] d2 = (x, d3)" by fastforce
      have "r_lrange R d3 k = r_lrange R d2 k"
        using assms(4) w(2) p unfolding workers_leave_def by (metis snd_conv)
      with l2 have "r_lrange R d3 k = r_lrange R d k" by simp
      moreover note settle_lists [OF assms(1-3), where d = d3 and e = e]
      ultimately show ?thesis using w r Inr p
        by (cases x) (simp_all add: process_job_def g)
    qed
  qed
qed

lemma drain_queue_ends:
  assumes "keys_distinct (st_keys S)" and "namespace_queue (st_keys S) q \<noteq> dead_key (st_keys S)"
    and "namespace_queue (st_keys S) q \<noteq> current_processing_queue S"
    and "workers_leave R show_error reg ctx (namespace_queue (st_keys S) q)"
  shows "\<exists>out d'. drain_queue R C S cfg acq show_error reg ctx q st d = Some (out, d') \<and>
    (\<forall>st'. out = Drained st' \<longrightarrow> r_lrange R d' (namespace_queue (st_keys S) q) = [] \<and>
       dr_processed st' = dr_processed st + length (r_lrange R d (namespace_queue (st_keys S) q)) \<and>
       dr_succeeded st' + dr_failed st' + dr_missing st' =
         dr_succeeded st + dr_failed st + dr_missing st + length (r_lrange R d (namespace_queue (st_keys S) q)))"
proof (induction "length (r_lrange R d (namespace_queue (st_keys S) q))" arbitrary: st d rule: less_induct)
  case less
  let ?k = "namespace_queue (st_keys S) q"
  obtain r d1 where r: "dequeue R S q d = (r, d1)" by fastforce
  note deq = dequeue_refines [of d S q, unfolded r atomically_def]
  show ?case
  proof (cases r)
    case (Inl e)
    with r show ?thesis by (simp add: drain_queue.simps)
  next
    case (Inr oi)
    show ?thesis
    proof (cases oi)
      case None
      with deq Inr have "r_lrange R d ?k = []" "store_of R d1 = store_of R d"
        by (auto simp: store_of_def claim_def Let_def split: if_splits)
      with r Inr None show ?thesis by (simp add: drain_queue.simps [of R C S cfg acq show_error reg ctx q st d] store_of_def)
    next
      case (Some i)
      with deq Inr have ne: "r_lrange R d ?k \<noteq> []"
        and d1: "store_of R d1 = claim ?k (current_processing_queue S) (store_of R d)"
        by (auto simp: store_of_def Let_def split: if_splits)
      then have l1: "r_lrange R d1 ?k = butlast (r_lrange R d ?k)"
        using assms(3) by (auto simp: store_of_def claim_def map_list_def)
      obtain o2 d2 where o2: "process_job R C S cfg (acq (dr_processed st)) show_error reg ctx i d1 = (o2, d2)" by fastforce
      have l2: "length (r_lrange R d2 ?k) = length (r_lrange R d ?k) - 1"
        using process_job_lists [OF assms, of C cfg "acq (dr_processed st)" i d1] o2 l1 by simp
      show ?thesis
      proof (cases o2)
        case (Drained jr)
        have "length (r_lrange R d2 ?k) < length (r_lrange R d ?k)" using l2 ne by simp
        from less [OF this, of "count_job jr st"] obtain out d' where
          ih: "drain_queue R C S cfg acq show_error reg ctx q (count_job jr st) d2 = Some (out, d')"
            "\<And>st'. out = Drained st' \<Longrightarrow> r_lrange R d' ?k = [] \<and>
              dr_processed st' = dr_processed st + 1 + length (r_lrange R d2 ?k) \<and>
              dr_succeeded st' + dr_failed st' + dr_missing st' =
                dr_succeeded st + dr_failed st + dr_missing st + 1 + length (r_lrange R d2 ?k)"
          unfolding count_job_sum by blast
        have "1 + length (r_lrange R d2 ?k) = length (r_lrange R d ?k)" using l2 ne by (cases "r_lrange R d ?k") simp_all
        moreover have "drain_queue R C S cfg acq show_error reg ctx q st d = Some (out, d')"
          using ih(1) Drained o2 r Inr Some by (simp add: drain_queue.simps [of R C S cfg acq show_error reg ctx q st d])
        ultimately show ?thesis using ih(2) by (metis add.assoc)
      qed (use o2 r Inr Some in \<open>simp_all add: drain_queue.simps [of R C S cfg acq show_error reg ctx q st d]\<close>)
    qed
  qed
qed

end

section \<open>Properties\<close>

text \<open>
  C30. Draining ends: if the workers enqueue nothing into the drained queue, the drain returns,
  whatever else they do and whatever fails; and when it reports statistics the queue is empty,
  every job that was in it was processed, and each of them is counted as succeeded, failed or
  missing.
\<close>

theorem drain_queue_terminates:
  assumes "redis_server R" and "st_keys S = storage_keys_new n" and "\<not> prefix (namespace (storage_keys_new n)) q"
    and "workers_leave R show_error reg ctx (namespace_queue (st_keys S) q)"
  shows "\<exists>out d'. drain_queue R C S cfg acq show_error reg ctx q drain_stats_default d = Some (out, d') \<and>
    (\<forall>st. out = Drained st \<longrightarrow> r_lrange R d' (namespace_queue (st_keys S) q) = [] \<and>
       dr_processed st = length (r_lrange R d (namespace_queue (st_keys S) q)) \<and>
       dr_succeeded st + dr_failed st + dr_missing st = dr_processed st)"
proof -
  have k: "namespace_queue (st_keys S) q = namespace (storage_keys_new n) @ '':queue:'' @ q"
    using namespace_queue_plain [OF assms(3)] assms(2) by simp
  have "namespace_queue (st_keys S) q \<noteq> dead_key (st_keys S)"
    "namespace_queue (st_keys S) q \<noteq> current_processing_queue S"
    unfolding k by (simp_all add: assms(2) current_processing_queue_def processing_queue_def)
  from redis_server.drain_queue_ends [OF assms(1) _ this assms(4), of C cfg acq drain_stats_default d] keys_distinct_new
  show ?thesis by (fastforce simp: assms(2) drain_stats_default_def)
qed

text \<open>One queued job, and a registry whose every worker succeeds without touching the store.\<close>

definition idle_worker :: "mem processable" where
  "idle_worker = \<lparr>p_len = 1, p_max_retries = (\<lambda>_. 2), p_retry_delay = (\<lambda>_ _. 25), p_should_resume = True,
     p_process = (\<lambda>_ d. (ExecSuccess, d))\<rparr>"

definition idle_registry :: "(unit, mem processable, unit) worker_registry" where
  "idle_registry = registry_new\<lparr>jobs := (\<lambda>_. Some \<lparr>factory = (\<lambda>_ _. Inr idle_worker),
     batch_factory = (\<lambda>_ _. Inr \<lparr>bb_job = Some idle_worker, bb_invalid = []\<rparr>),
     factories_batch_config = None, cron_factory = None\<rparr>)\<rparr>"

definition plain_settings :: execution_settings where
  "plain_settings = \<lparr>retry_delay_override = None, error_formatter = None\<rparr>"

theorem drain_queue_terminates_witness:
  "\<exists>out d'. drain_queue mem_redis netstring_codec sample_storage plain_settings (\<lambda>_. None)
      (\<lambda>_. []) idle_registry () ''mail'' drain_stats_default sample_queued = Some (out, d') \<and>
    (\<forall>st. out = Drained st \<longrightarrow> dr_processed st = 1)"
proof -
  have k: "st_keys sample_storage = storage_keys_new ''app''" by (simp add: sample_storage_def)
  have "\<not> prefix (namespace (storage_keys_new ''app'')) ''mail''" by (simp add: storage_keys_new_def)
  moreover have "workers_leave mem_redis (\<lambda>_. []) idle_registry () key" for key
    by (auto simp: workers_leave_def build_def factories_for_def resolve_name_def idle_registry_def idle_worker_def)
  moreover have "length (r_lrange mem_redis sample_queued (namespace_queue (st_keys sample_storage) ''mail'')) = 1"
    by (simp add: sample_run)
  ultimately show ?thesis
    using drain_queue_terminates [OF mem.redis_server_axioms k, where q = "''mail''" and show_error = "\<lambda>_. []"
        and reg = idle_registry and ctx = "()" and C = netstring_codec and cfg = plain_settings and acq = "\<lambda>_. None"
        and d = sample_queued] by fastforce
qed

end
