(* ===== verification/Launcher.thy ===== *)
theory Launcher
  imports Worker_Registry Connection
begin

text \<open>
  The supervision of a worker process: \<^verbatim>\<open>launcher.rs\<close> with \<^verbatim>\<open>Runtime::fail\<close>,
  \<^verbatim>\<open>Runtime::take_shutdown_error\<close> and the registration cell of \<^verbatim>\<open>runtime.rs\<close>. The launcher owns
  three join sets (the coordinators, the background loops, the heartbeat) and a tracker of
  descendant futures; it waits for the first end, failure or signal, and then shuts down in a
  fixed order, by force once the deadline has passed. Tasks run on their own, so the process
  is a step relation in which the launcher's steps and the tasks' steps interleave. What the
  tasks do is in the theories of the components; here a task starts, registers the process,
  reports a failure, or ends with a result.
\<close>

section \<open>State\<close>

text \<open>
  The result of a joined task, \<^verbatim>\<open>Result<Result<(), OxanaError>, JoinError>\<close>: an abort and a panic
  are the two join errors.
\<close>

datatype task_result = TaskOk | TaskErr oxana_error | TaskPanicked | TaskAborted

fun result_of :: "task_result \<Rightarrow> oxana_error + unit" where
  "result_of TaskOk = Inr ()"
| "result_of (TaskErr e) = Inl e"
| "result_of TaskPanicked = Inl TokioJoinError"
| "result_of TaskAborted = Inl TokioJoinError"

text \<open>A \<^verbatim>\<open>JoinSet\<close>: how many of its tasks run, and the results not yet joined.\<close>

record joinset =
  js_running :: nat
  js_done :: "task_result list"

datatype stage = Coordinators | Loops | Executions | Heartbeat | Deregister

datatype phase = Supervising | Draining stage | Forcing stage | Finished

text \<open>
  The tracked futures are the descendants of the coordinators (\<open>la_executions\<close>: dispatchers,
  workers, batchers, the collector) and the cron loops, which the loops spawn.
\<close>

record launch =
  la_phase :: phase
  la_coordinators :: joinset
  la_loops :: joinset
  la_ping :: joinset
  la_executions :: nat
  la_cron :: nat
  la_registered :: "bool option"
  la_cancel :: bool
  la_ping_cancel :: bool
  la_force_cancel :: bool
  la_deadline :: bool
  la_error :: "oxana_error option"
  la_timed_out :: bool
  la_deregistered :: bool

definition spawned :: "nat \<Rightarrow> joinset" where
  "spawned n = \<lparr>js_running = n, js_done = []\<rparr>"

text \<open>
  The start of \<^verbatim>\<open>run\<close>: five loops, one heartbeat, a coordinator for every queue this process
  runs. The deadline is missing when no timeout is set or the addition overflows.
\<close>

definition launch_new :: "queue_filters \<Rightarrow> queue_config list \<Rightarrow> bool \<Rightarrow> launch" where
  "launch_new F qs deadline =
     \<lparr>la_phase = Supervising, la_coordinators = spawned (length (filter (runs_queue F) qs)),
      la_loops = spawned 5, la_ping = spawned 1, la_executions = 0, la_cron = 0, la_registered = None,
      la_cancel = False, la_ping_cancel = False, la_force_cancel = False, la_deadline = deadline,
      la_error = None, la_timed_out = False, la_deregistered = False\<rparr>"

section \<open>Operations\<close>

definition runtime_fail :: "oxana_error \<Rightarrow> launch \<Rightarrow> launch" where
  "runtime_fail e s = s\<lparr>la_error := (case la_error s of None \<Rightarrow> Some e | Some first \<Rightarrow> Some first), la_cancel := True\<rparr>"

definition record_task_result :: "task_result \<Rightarrow> launch \<Rightarrow> launch" where
  "record_task_result r s = (case result_of r of Inl e \<Rightarrow> runtime_fail e s | Inr _ \<Rightarrow> s)"

text \<open>One round of \<^verbatim>\<open>abort_and_join\<close>: an intended abort is not a failure.\<close>

definition record_aborted :: "task_result \<Rightarrow> launch \<Rightarrow> launch" where
  "record_aborted r s = (if r = TaskAborted then s else record_task_result r s)"

definition begin_shutdown :: "launch \<Rightarrow> launch" where
  "begin_shutdown s = s\<lparr>la_phase := Draining Coordinators, la_cancel := True\<rparr>"

text \<open>
  One step of the launcher's own sequence: join what has ended, or go to the next stage once
  nothing of this one is left; \<open>None\<close> while it has to wait.
\<close>

definition join_coordinators :: "(task_result \<Rightarrow> launch \<Rightarrow> launch) \<Rightarrow> phase \<Rightarrow> launch \<Rightarrow> launch option" where
  "join_coordinators rec nxt s = (case js_done (la_coordinators s) of
       r # rs \<Rightarrow> Some (rec r (s\<lparr>la_coordinators := (la_coordinators s)\<lparr>js_done := rs\<rparr>\<rparr>))
     | [] \<Rightarrow> if js_running (la_coordinators s) = 0 then Some (s\<lparr>la_phase := nxt\<rparr>) else None)"

definition join_loops :: "(task_result \<Rightarrow> launch \<Rightarrow> launch) \<Rightarrow> phase \<Rightarrow> launch \<Rightarrow> launch option" where
  "join_loops rec nxt s = (case js_done (la_loops s) of
       r # rs \<Rightarrow> Some (rec r (s\<lparr>la_loops := (la_loops s)\<lparr>js_done := rs\<rparr>\<rparr>))
     | [] \<Rightarrow> if js_running (la_loops s) = 0 then Some (s\<lparr>la_phase := nxt\<rparr>) else None)"

definition join_ping :: "(task_result \<Rightarrow> launch \<Rightarrow> launch) \<Rightarrow> phase \<Rightarrow> launch \<Rightarrow> launch option" where
  "join_ping rec nxt s = (case js_done (la_ping s) of
       r # rs \<Rightarrow> Some (rec r (s\<lparr>la_ping := (la_ping s)\<lparr>js_done := rs\<rparr>\<rparr>))
     | [] \<Rightarrow> if js_running (la_ping s) = 0 then Some (s\<lparr>la_phase := nxt\<rparr>) else None)"

definition wait_tasks :: "phase \<Rightarrow> launch \<Rightarrow> launch option" where
  "wait_tasks nxt s = (if la_executions s = 0 \<and> la_cron s = 0
     then Some (s\<lparr>la_ping_cancel := True, la_phase := nxt\<rparr>) else None)"

definition shutdown_turn :: "launch \<Rightarrow> launch option" where
  "shutdown_turn s = (case la_phase s of
       Draining Coordinators \<Rightarrow> join_coordinators record_task_result (Draining Loops) s
     | Draining Loops \<Rightarrow> join_loops record_task_result (Draining Executions) s
     | Draining Executions \<Rightarrow> wait_tasks (Draining Heartbeat) s
     | Draining Heartbeat \<Rightarrow> join_ping record_task_result (Draining Deregister) s
     | Forcing Coordinators \<Rightarrow> join_coordinators record_aborted (Forcing Loops) s
     | Forcing Loops \<Rightarrow> join_loops record_aborted (Forcing Executions) s
     | Forcing Executions \<Rightarrow> wait_tasks (Forcing Heartbeat) s
     | Forcing Heartbeat \<Rightarrow> join_ping record_aborted Finished s
     | _ \<Rightarrow> None)"

text \<open>The end of the drain: \<^verbatim>\<open>self_cleanup\<close> and its outcome.\<close>

definition deregister :: "oxana_error + unit \<Rightarrow> launch \<Rightarrow> launch" where
  "deregister r s = (case r of
       Inr _ \<Rightarrow> s\<lparr>la_deregistered := True, la_phase := Finished\<rparr>
     | Inl e \<Rightarrow> (runtime_fail e s)\<lparr>la_phase := Finished\<rparr>)"

definition force_shutdown :: "launch \<Rightarrow> launch" where
  "force_shutdown s = s\<lparr>la_phase := Forcing Coordinators, la_force_cancel := True, la_timed_out := True\<rparr>"

definition run_outcome :: "launch \<Rightarrow> oxana_error + unit" where
  "run_outcome s = (case la_error s of
       Some e \<Rightarrow> Inl e
     | None \<Rightarrow> if la_timed_out s then Inl ShutdownTimeout else Inr ())"

section \<open>Steps\<close>

definition task_ends :: "task_result \<Rightarrow> joinset \<Rightarrow> joinset" where
  "task_ends r js = \<lparr>js_running = js_running js - 1, js_done = js_done js @ [r]\<rparr>"

definition failures_of :: "task_result \<Rightarrow> oxana_error list" where
  "failures_of r = (case result_of r of Inl e \<Rightarrow> [e] | Inr _ \<Rightarrow> [])"

definition next_failures :: "launch \<Rightarrow> oxana_error list" where
  "next_failures s =
     (let join = (\<lambda>js. case js_done js of [] \<Rightarrow> [] | r # _ \<Rightarrow> failures_of r);
          aborting = (\<lambda>js. case js_done js of [] \<Rightarrow> [] | r # _ \<Rightarrow> if r = TaskAborted then [] else failures_of r)
      in case la_phase s of
           Draining Coordinators \<Rightarrow> join (la_coordinators s)
         | Draining Loops \<Rightarrow> join (la_loops s)
         | Draining Heartbeat \<Rightarrow> join (la_ping s)
         | Forcing Coordinators \<Rightarrow> aborting (la_coordinators s)
         | Forcing Loops \<Rightarrow> aborting (la_loops s)
         | Forcing Heartbeat \<Rightarrow> aborting (la_ping s)
         | _ \<Rightarrow> [])"

text \<open>
  \<open>launch_step s fs s'\<close>: a step, with the failures it reports. A task is aborted only by the
  stage that aborts its join set; the heartbeat ends well only when it is told to; a
  coordinator starts executions only after the registration has landed, and executions may
  start further ones; \<^verbatim>\<open>register\<close> gives up without an error only when cancelled. At the
  deadline a deregistration under way may or may not have reached the server.
\<close>

inductive launch_step :: "launch \<Rightarrow> oxana_error list \<Rightarrow> launch \<Rightarrow> bool" where
  coordinator_ends: "0 < js_running (la_coordinators s) \<Longrightarrow> r = TaskAborted \<longrightarrow> la_phase s = Forcing Coordinators \<Longrightarrow>
    launch_step s [] (s\<lparr>la_coordinators := task_ends r (la_coordinators s)\<rparr>)"
| loop_ends: "0 < js_running (la_loops s) \<Longrightarrow> r = TaskAborted \<longrightarrow> la_phase s = Forcing Loops \<Longrightarrow>
    launch_step s [] (s\<lparr>la_loops := task_ends r (la_loops s)\<rparr>)"
| ping_ends: "0 < js_running (la_ping s) \<Longrightarrow> r = TaskAborted \<longrightarrow> la_phase s = Forcing Heartbeat \<Longrightarrow>
    r = TaskOk \<longrightarrow> la_ping_cancel s \<Longrightarrow>
    launch_step s [] (s\<lparr>la_ping := task_ends r (la_ping s)\<rparr>)"
| registers: "la_registered s = None \<Longrightarrow> 0 < js_running (la_coordinators s) + js_running (la_loops s) \<Longrightarrow>
    b \<or> la_cancel s \<Longrightarrow> launch_step s [] (s\<lparr>la_registered := Some b\<rparr>)"
| starts: "la_registered s = Some True \<and> 0 < js_running (la_coordinators s) \<or> 0 < la_executions s \<Longrightarrow>
    launch_step s [] (s\<lparr>la_executions := la_executions s + 1\<rparr>)"
| execution_ends: "0 < la_executions s \<Longrightarrow> launch_step s [] (s\<lparr>la_executions := la_executions s - 1\<rparr>)"
| starts_cron: "0 < js_running (la_loops s) \<Longrightarrow> launch_step s [] (s\<lparr>la_cron := la_cron s + 1\<rparr>)"
| cron_ends: "0 < la_cron s \<Longrightarrow> launch_step s [] (s\<lparr>la_cron := la_cron s - 1\<rparr>)"
| reports: "0 < js_running (la_coordinators s) + la_executions s \<Longrightarrow> launch_step s [e] (runtime_fail e s)"
| coordinator_joined: "la_phase s = Supervising \<Longrightarrow> js_done (la_coordinators s) = r # rs \<Longrightarrow>
    launch_step s (failures_of r)
      (begin_shutdown (record_task_result r (s\<lparr>la_coordinators := (la_coordinators s)\<lparr>js_done := rs\<rparr>\<rparr>)))"
| loop_joined: "la_phase s = Supervising \<Longrightarrow> js_done (la_loops s) = r # rs \<Longrightarrow>
    launch_step s (failures_of r) (begin_shutdown (record_task_result r (s\<lparr>la_loops := (la_loops s)\<lparr>js_done := rs\<rparr>\<rparr>)))"
| ping_joined: "la_phase s = Supervising \<Longrightarrow> js_done (la_ping s) = r # rs \<Longrightarrow>
    launch_step s (failures_of r) (begin_shutdown (record_task_result r (s\<lparr>la_ping := (la_ping s)\<lparr>js_done := rs\<rparr>\<rparr>)))"
| cancelled: "la_phase s = Supervising \<Longrightarrow> la_cancel s \<Longrightarrow> launch_step s [] (begin_shutdown s)"
| signalled: "la_phase s = Supervising \<Longrightarrow> launch_step s [] (begin_shutdown s)"
| shuts_down: "shutdown_turn s = Some s' \<Longrightarrow> launch_step s (next_failures s) s'"
| deregisters: "la_phase s = Draining Deregister \<Longrightarrow>
    launch_step s (case r of Inl e \<Rightarrow> [e] | Inr _ \<Rightarrow> []) (deregister r s)"
| times_out: "la_phase s = Draining stg \<Longrightarrow> la_deadline s \<Longrightarrow> sent \<longrightarrow> stg = Deregister \<Longrightarrow>
    launch_step s [] (force_shutdown (s\<lparr>la_deregistered := la_deregistered s \<or> sent\<rparr>))"

inductive launch_steps :: "launch \<Rightarrow> oxana_error list \<Rightarrow> launch \<Rightarrow> bool" where
  launch_none: "launch_steps s [] s"
| launch_more: "launch_steps s fs s' \<Longrightarrow> launch_step s' gs s'' \<Longrightarrow> launch_steps s (fs @ gs) s''"

section \<open>Lemmas\<close>

lemmas shutdown_defs = join_coordinators_def join_loops_def join_ping_def wait_tasks_def

text \<open>The first failure is kept, whatever follows.\<close>

definition first_error :: "oxana_error option \<Rightarrow> oxana_error list \<Rightarrow> oxana_error option" where
  "first_error err fs = (case err of Some e \<Rightarrow> Some e | None \<Rightarrow> (case fs of [] \<Rightarrow> None | e # _ \<Rightarrow> Some e))"

lemma first_error_append: "first_error err (fs @ gs) = first_error (first_error err fs) gs"
  by (simp add: first_error_def split: option.split list.split)

lemma first_error_Nil [simp]: "first_error err [] = err"
  by (simp add: first_error_def split: option.split)

lemma first_error_None [simp]: "first_error err fs = None \<longleftrightarrow> err = None \<and> fs = []"
  by (simp add: first_error_def split: option.split list.split)

text \<open>Recording a failure touches nothing but the error and the cancellation.\<close>

lemma runtime_fail_sel [simp]:
  "la_phase (runtime_fail e s) = la_phase s" "la_coordinators (runtime_fail e s) = la_coordinators s"
  "la_loops (runtime_fail e s) = la_loops s" "la_ping (runtime_fail e s) = la_ping s"
  "la_executions (runtime_fail e s) = la_executions s" "la_cron (runtime_fail e s) = la_cron s"
  "la_registered (runtime_fail e s) = la_registered s" "la_ping_cancel (runtime_fail e s) = la_ping_cancel s"
  "la_deadline (runtime_fail e s) = la_deadline s" "la_timed_out (runtime_fail e s) = la_timed_out s"
  "la_deregistered (runtime_fail e s) = la_deregistered s" "la_cancel (runtime_fail e s)"
  "la_error (runtime_fail e s) = first_error (la_error s) [e]"
  by (simp_all add: runtime_fail_def first_error_def split: option.split)

lemma record_sel [simp]:
  "la_phase (record_task_result r s) = la_phase s" "la_coordinators (record_task_result r s) = la_coordinators s"
  "la_loops (record_task_result r s) = la_loops s" "la_ping (record_task_result r s) = la_ping s"
  "la_executions (record_task_result r s) = la_executions s" "la_cron (record_task_result r s) = la_cron s"
  "la_registered (record_task_result r s) = la_registered s" "la_ping_cancel (record_task_result r s) = la_ping_cancel s"
  "la_deadline (record_task_result r s) = la_deadline s" "la_timed_out (record_task_result r s) = la_timed_out s"
  "la_deregistered (record_task_result r s) = la_deregistered s"
  by (cases r; simp add: record_task_result_def)+

lemma record_aborted_sel [simp]:
  "la_phase (record_aborted r s) = la_phase s" "la_coordinators (record_aborted r s) = la_coordinators s"
  "la_loops (record_aborted r s) = la_loops s" "la_ping (record_aborted r s) = la_ping s"
  "la_executions (record_aborted r s) = la_executions s" "la_cron (record_aborted r s) = la_cron s"
  "la_registered (record_aborted r s) = la_registered s" "la_ping_cancel (record_aborted r s) = la_ping_cancel s"
  "la_deadline (record_aborted r s) = la_deadline s" "la_timed_out (record_aborted r s) = la_timed_out s"
  "la_deregistered (record_aborted r s) = la_deregistered s"
  by (simp_all add: record_aborted_def)

lemma record_error: "la_error (record_task_result r s) = first_error (la_error s) (failures_of r)"
  by (cases r) (simp_all add: record_task_result_def failures_of_def)

lemma record_aborted_error:
  "la_error (record_aborted r s) = first_error (la_error s) (if r = TaskAborted then [] else failures_of r)"
  by (simp add: record_aborted_def record_error)

lemma failures_of_Nil [simp]: "failures_of r = [] \<longleftrightarrow> r = TaskOk"
  by (cases r) (simp_all add: failures_of_def)

lemma shutdown_turn_error:
  assumes "shutdown_turn s = Some s'"
  shows "la_error s' = first_error (la_error s) (next_failures s) \<and> la_timed_out s' = la_timed_out s \<and>
    la_deadline s' = la_deadline s"
  using assms
  by (auto simp: shutdown_turn_def shutdown_defs next_failures_def Let_def record_error record_aborted_error
      split: phase.splits stage.splits list.splits if_splits)

lemma step_error:
  assumes "launch_step s fs s'"
  shows "la_error s' = first_error (la_error s) fs \<and> la_deadline s' = la_deadline s \<and>
    (la_timed_out s' \<longrightarrow> la_timed_out s \<or> la_deadline s)"
  using assms
proof cases
  case shuts_down
  then show ?thesis using shutdown_turn_error by blast
next
  case (deregisters r)
  then show ?thesis by (cases r) (auto simp: deregister_def)
qed (auto simp: begin_shutdown_def record_error force_shutdown_def)

lemma steps_error:
  "launch_steps s fs s' \<Longrightarrow> la_error s' = first_error (la_error s) fs \<and> la_deadline s' = la_deadline s \<and>
    (la_timed_out s' \<longrightarrow> la_timed_out s \<or> la_deadline s)"
proof (induction rule: launch_steps.induct)
  case (launch_none s)
  then show ?case by simp
next
  case (launch_more s fs s' gs s'')
  then show ?case using step_error [OF launch_more.hyps(2)] by (auto simp: first_error_append)
qed

text \<open>The order of the shutdown, as an invariant.\<close>

fun coordinators_over :: "phase \<Rightarrow> bool" where
  "coordinators_over Supervising = False"
| "coordinators_over (Draining stg) = (stg \<noteq> Coordinators)"
| "coordinators_over (Forcing stg) = (stg \<noteq> Coordinators)"
| "coordinators_over Finished = True"

fun loops_over :: "phase \<Rightarrow> bool" where
  "loops_over Supervising = False"
| "loops_over (Draining stg) = (stg \<notin> {Coordinators, Loops})"
| "loops_over (Forcing stg) = (stg \<notin> {Coordinators, Loops})"
| "loops_over Finished = True"

fun executions_over :: "phase \<Rightarrow> bool" where
  "executions_over Supervising = False"
| "executions_over (Draining stg) = (stg \<in> {Heartbeat, Deregister})"
| "executions_over (Forcing stg) = (stg \<in> {Heartbeat, Deregister})"
| "executions_over Finished = True"

fun heartbeat_over :: "phase \<Rightarrow> bool" where
  "heartbeat_over (Draining stg) = (stg = Deregister)"
| "heartbeat_over Finished = True"
| "heartbeat_over _ = False"

definition quiet :: "launch \<Rightarrow> bool" where
  "quiet s \<longleftrightarrow> js_running (la_coordinators s) = 0 \<and> js_running (la_loops s) = 0 \<and> la_executions s = 0 \<and> la_cron s = 0"

definition ping_failed :: "launch \<Rightarrow> bool" where
  "ping_failed s \<longleftrightarrow> la_error s \<noteq> None \<or> (\<exists>r\<in>set (js_done (la_ping s)). r \<noteq> TaskOk)"

definition launch_inv :: "launch \<Rightarrow> bool" where
  "launch_inv s \<longleftrightarrow>
     (0 < la_executions s \<longrightarrow> la_registered s = Some True) \<and>
     (coordinators_over (la_phase s) \<longrightarrow> js_running (la_coordinators s) = 0) \<and>
     (loops_over (la_phase s) \<longrightarrow> js_running (la_loops s) = 0) \<and>
     (executions_over (la_phase s) \<longrightarrow> la_ping_cancel s) \<and>
     (la_ping_cancel s \<longrightarrow> quiet s) \<and>
     (heartbeat_over (la_phase s) \<or> la_deregistered s \<longrightarrow> la_ping_cancel s \<and> js_running (la_ping s) = 0) \<and>
     (js_running (la_ping s) = 0 \<longrightarrow> la_ping_cancel s \<or> ping_failed s)"

lemma launch_new_inv: "launch_inv (launch_new F qs deadline)"
  by (simp add: launch_inv_def launch_new_def spawned_def)

lemma fail_inv: "launch_inv s \<Longrightarrow> launch_inv (runtime_fail e s)"
  by (simp add: launch_inv_def quiet_def ping_failed_def)

lemma record_inv: "launch_inv s \<Longrightarrow> launch_inv (record_task_result r s)"
  by (cases r) (simp_all add: record_task_result_def fail_inv)

lemma record_aborted_inv: "launch_inv s \<Longrightarrow> launch_inv (record_aborted r s)"
  by (simp add: record_aborted_def record_inv)

text \<open>Joining a result, and going on to the next stage, one join set at a time.\<close>

lemma joined_inv:
  assumes "launch_inv s"
  shows "launch_inv (s\<lparr>la_coordinators := (la_coordinators s)\<lparr>js_done := rs\<rparr>\<rparr>)"
    "launch_inv (s\<lparr>la_loops := (la_loops s)\<lparr>js_done := rs\<rparr>\<rparr>)"
  using assms by (simp_all add: launch_inv_def quiet_def ping_failed_def)

lemma ping_joined_inv:
  assumes "launch_inv s" and "js_done (la_ping s) = r # rs"
  shows "launch_inv (record_task_result r (s\<lparr>la_ping := (la_ping s)\<lparr>js_done := rs\<rparr>\<rparr>))"
    "la_ping_cancel s \<Longrightarrow> launch_inv (record_aborted r (s\<lparr>la_ping := (la_ping s)\<lparr>js_done := rs\<rparr>\<rparr>))"
  using assms by (auto simp: launch_inv_def quiet_def ping_failed_def record_error record_aborted_error)

lemma stage_inv:
  assumes "launch_inv s" and "coordinators_over p \<longrightarrow> js_running (la_coordinators s) = 0"
    and "loops_over p \<longrightarrow> js_running (la_loops s) = 0" and "executions_over p \<longrightarrow> la_ping_cancel s"
    and "heartbeat_over p \<longrightarrow> la_ping_cancel s \<and> js_running (la_ping s) = 0"
  shows "launch_inv (s\<lparr>la_phase := p\<rparr>)"
  using assms by (simp add: launch_inv_def quiet_def ping_failed_def)

lemma join_coordinators_inv:
  assumes "join_coordinators rec nxt s = Some s'" and "launch_inv s" and "\<And>r t. launch_inv t \<Longrightarrow> launch_inv (rec r t)"
    and "nxt = Draining Loops \<or> nxt = Forcing Loops"
  shows "launch_inv s'"
  using assms by (auto simp: join_coordinators_def joined_inv stage_inv split: list.splits if_splits)

lemma join_loops_inv:
  assumes "join_loops rec nxt s = Some s'" and "launch_inv s" and "\<And>r t. launch_inv t \<Longrightarrow> launch_inv (rec r t)"
    and "coordinators_over (la_phase s)" and "nxt = Draining Executions \<or> nxt = Forcing Executions"
  shows "launch_inv s'"
proof (cases "js_done (la_loops s)")
  case Nil
  have "js_running (la_coordinators s) = 0" using assms(2,4) by (simp add: launch_inv_def)
  with Nil assms show ?thesis by (auto simp: join_loops_def stage_inv split: if_splits)
qed (use assms(1-3) in \<open>auto simp: join_loops_def joined_inv\<close>)

lemma wait_tasks_inv:
  assumes "wait_tasks nxt s = Some s'" and "launch_inv s" and "loops_over (la_phase s)" "coordinators_over (la_phase s)"
    and "nxt = Draining Heartbeat \<or> nxt = Forcing Heartbeat"
  shows "launch_inv s'"
  using assms by (auto simp: wait_tasks_def launch_inv_def quiet_def ping_failed_def split: if_splits)

lemma over_mono: "heartbeat_over p \<Longrightarrow> executions_over p" "executions_over p \<Longrightarrow> loops_over p" "loops_over p \<Longrightarrow> coordinators_over p"
  by (cases p; auto)+

lemma join_ping_inv:
  assumes "launch_inv s" and "executions_over (la_phase s)" and "executions_over nxt"
    and "join_ping record_task_result nxt s = Some s' \<or> join_ping record_aborted nxt s = Some s'"
  shows "launch_inv s'"
proof (cases "js_done (la_ping s)")
  case Nil
  have "la_ping_cancel s" using assms(1,2) by (simp add: launch_inv_def)
  then have "quiet s" using assms(1) by (simp add: launch_inv_def)
  with Nil assms \<open>la_ping_cancel s\<close> show ?thesis by (auto simp: join_ping_def quiet_def stage_inv split: if_splits)
next
  case (Cons r rs)
  have "la_ping_cancel s" using assms(1,2) by (simp add: launch_inv_def)
  with Cons assms(1,4) show ?thesis by (auto simp: join_ping_def ping_joined_inv)
qed

lemma join_pings_inv:
  "join_ping record_task_result nxt s = Some s' \<Longrightarrow> launch_inv s \<Longrightarrow> executions_over (la_phase s) \<Longrightarrow> executions_over nxt \<Longrightarrow>
    launch_inv s'"
  "join_ping record_aborted nxt s = Some s' \<Longrightarrow> launch_inv s \<Longrightarrow> executions_over (la_phase s) \<Longrightarrow> executions_over nxt \<Longrightarrow>
    launch_inv s'"
  using join_ping_inv by blast+

lemma shutdown_turn_inv:
  assumes "launch_inv s" and "shutdown_turn s = Some s'"
  shows "launch_inv s'"
  using assms
  by (auto simp: shutdown_turn_def record_inv record_aborted_inv intro: join_coordinators_inv join_loops_inv wait_tasks_inv
      join_pings_inv split: phase.splits stage.splits)

lemma step_inv:
  assumes "launch_step s fs s'" and "launch_inv s"
  shows "launch_inv s'"
  using assms
proof cases
  case (ping_ends r)
  then show ?thesis using assms(2) by (auto simp: launch_inv_def quiet_def ping_failed_def task_ends_def)
next
  case (reports e)
  then show ?thesis using fail_inv [OF assms(2)] by simp
next
  case (coordinator_joined r rs)
  then show ?thesis using record_inv [OF joined_inv(1) [OF assms(2)], of r rs] by (simp add: begin_shutdown_def launch_inv_def quiet_def ping_failed_def)
next
  case (loop_joined r rs)
  then show ?thesis using record_inv [OF joined_inv(2) [OF assms(2)], of r rs] by (simp add: begin_shutdown_def launch_inv_def quiet_def ping_failed_def)
next
  case (ping_joined r rs)
  then show ?thesis using ping_joined_inv(1) [OF assms(2), of r rs] by (simp add: begin_shutdown_def launch_inv_def quiet_def ping_failed_def)
next
  case shuts_down
  then show ?thesis using shutdown_turn_inv [OF assms(2)] by blast
next
  case (deregisters r)
  then show ?thesis using assms(2) fail_inv [OF assms(2)]
    by (cases r) (auto simp: deregister_def launch_inv_def quiet_def ping_failed_def)
next
  case (times_out stg sent)
  then show ?thesis using assms(2) by (auto simp: force_shutdown_def launch_inv_def quiet_def ping_failed_def)
qed (use assms(2) in \<open>auto simp: launch_inv_def quiet_def ping_failed_def task_ends_def begin_shutdown_def\<close>)

lemma steps_inv: "launch_steps s fs s' \<Longrightarrow> launch_inv s \<Longrightarrow> launch_inv s'"
  by (induction rule: launch_steps.induct) (auto intro: step_inv)

text \<open>A measure of what is left to do: there is always a step that makes it smaller.\<close>

fun stage_rank :: "stage \<Rightarrow> nat" where
  "stage_rank Coordinators = 5"
| "stage_rank Loops = 4"
| "stage_rank Executions = 3"
| "stage_rank Heartbeat = 2"
| "stage_rank Deregister = 1"

fun phase_rank :: "phase \<Rightarrow> nat" where
  "phase_rank Supervising = 11"
| "phase_rank (Draining stg) = stage_rank stg + 5"
| "phase_rank (Forcing stg) = stage_rank stg"
| "phase_rank Finished = 0"

definition work_left :: "joinset \<Rightarrow> nat" where
  "work_left js = 2 * js_running js + length (js_done js)"

definition launch_left :: "launch \<Rightarrow> nat" where
  "launch_left s = phase_rank (la_phase s) + work_left (la_coordinators s) + work_left (la_loops s) +
     work_left (la_ping s) + la_executions s + la_cron s"

lemma work_left_ends: "0 < js_running js \<Longrightarrow> work_left (task_ends r js) < work_left js"
  by (simp add: work_left_def task_ends_def)

lemma shutdown_turn_left:
  assumes "shutdown_turn s = Some s'"
  shows "launch_left s' < launch_left s"
  using assms
  by (auto simp: shutdown_turn_def shutdown_defs launch_left_def work_left_def
      split: phase.splits stage.splits list.splits if_splits)

text \<open>A waiting launcher waits for a task that can end, or for the deregistration.\<close>

lemma waits_for:
  assumes "shutdown_turn s = None" and "la_phase s \<noteq> Finished" and "la_phase s \<noteq> Forcing Deregister"
  shows "la_phase s = Supervising \<or> 0 < js_running (la_coordinators s) \<or> 0 < js_running (la_loops s) \<or>
    0 < la_executions s \<or> 0 < la_cron s \<or> 0 < js_running (la_ping s) \<and> executions_over (la_phase s) \<or>
    la_phase s = Draining Deregister"
  using assms
  by (auto simp: shutdown_turn_def shutdown_defs split: phase.splits stage.splits list.splits if_splits)

lemma never_forcing_deregister:
  assumes "launch_step s fs s'" and "la_phase s \<noteq> Forcing Deregister"
  shows "la_phase s' \<noteq> Forcing Deregister"
  using assms
proof cases
  case shuts_down
  then show ?thesis using assms(2)
    by (auto simp: shutdown_turn_def shutdown_defs split: phase.splits stage.splits list.splits if_splits)
next
  case (deregisters r)
  then show ?thesis by (cases r) (simp_all add: deregister_def)
qed (auto simp: begin_shutdown_def force_shutdown_def)

lemma steps_never_forcing_deregister:
  "launch_steps s fs s' \<Longrightarrow> la_phase s \<noteq> Forcing Deregister \<Longrightarrow> la_phase s' \<noteq> Forcing Deregister"
  by (induction rule: launch_steps.induct) (auto dest: never_forcing_deregister)

lemma can_go_on:
  assumes "launch_inv s" and "la_phase s \<noteq> Finished" and "la_phase s \<noteq> Forcing Deregister"
  shows "\<exists>s'. launch_step s [] s' \<and> launch_left s' < launch_left s \<or>
    shutdown_turn s = Some s' \<and> launch_left s' < launch_left s"
proof (cases "shutdown_turn s")
  case (Some s')
  then show ?thesis using shutdown_turn_left by blast
next
  case None
  have "\<exists>s'. launch_step s [] s' \<and> launch_left s' < launch_left s"
    using waits_for [OF None assms(2,3)]
  proof (elim disjE conjE)
    assume "0 < js_running (la_coordinators s)"
    with coordinator_ends [of s TaskOk] work_left_ends show ?thesis by (auto simp: launch_left_def intro!: exI)
  next
    assume "0 < js_running (la_loops s)"
    with loop_ends [of s TaskOk] work_left_ends show ?thesis by (auto simp: launch_left_def intro!: exI)
  next
    assume "0 < js_running (la_ping s)" "executions_over (la_phase s)"
    moreover from this assms(1) have "la_ping_cancel s" by (simp add: launch_inv_def)
    ultimately show ?thesis using ping_ends [of s TaskOk] work_left_ends by (auto simp: launch_left_def intro!: exI)
  next
    assume "la_phase s = Draining Deregister"
    with deregisters [of s "Inr ()"] show ?thesis by (auto simp: launch_left_def deregister_def intro!: exI)
  next
    assume "la_phase s = Supervising"
    with signalled [of s] show ?thesis by (auto simp: launch_left_def begin_shutdown_def intro!: exI)
  qed (use execution_ends [of s] cron_ends [of s] in \<open>auto simp: launch_left_def intro!: exI\<close>)
  then show ?thesis by blast
qed

lemma steps_trans: "launch_steps s' gs s'' \<Longrightarrow> launch_steps s fs s' \<Longrightarrow> launch_steps s (fs @ gs) s''"
  by (induction rule: launch_steps.induct) (auto simp flip: append_assoc intro: launch_more)

lemma finish_from:
  assumes "launch_inv s" and "la_phase s \<noteq> Forcing Deregister"
  shows "\<exists>fs s'. launch_steps s fs s' \<and> la_phase s' = Finished"
  using assms
proof (induction "launch_left s" arbitrary: s rule: less_induct)
  case less
  show ?case
  proof (cases "la_phase s = Finished")
    case False
    from can_go_on [OF less.prems(1) False less.prems(2)] obtain gs s1 where
      1: "launch_step s gs s1" "launch_left s1 < launch_left s"
      using shuts_down by blast
    have "launch_inv s1" "la_phase s1 \<noteq> Forcing Deregister"
      using step_inv [OF 1(1) less.prems(1)] never_forcing_deregister [OF 1(1) less.prems(2)] by blast+
    from less.hyps [OF 1(2) this] obtain fs s' where "launch_steps s1 fs s'" "la_phase s' = Finished" by blast
    moreover from launch_more [OF launch_none 1(1)] have "launch_steps s gs s1" by simp
    ultimately show ?thesis using steps_trans by blast
  qed (use launch_none in blast)
qed

section \<open>Properties\<close>

text \<open>
  C24. The order of start and shutdown holds in every interleaving: nothing is executed before the
  process is registered; while anything is executed the heartbeat runs, unless it failed
  itself; the heartbeat is stopped and the registration removed only when no coordinator, loop
  or descendant is left, so no peer can take over a job that still runs; and a finished
  launcher leaves nothing behind.
\<close>

theorem shutdown_in_order:
  assumes "launch_steps (launch_new F qs deadline) fs s"
  shows "(0 < la_executions s \<longrightarrow> la_registered s = Some True \<and> (0 < js_running (la_ping s) \<or> ping_failed s)) \<and>
    (la_ping_cancel s \<or> la_deregistered s \<or> la_phase s = Finished \<longrightarrow>
       js_running (la_coordinators s) = 0 \<and> js_running (la_loops s) = 0 \<and> la_executions s = 0 \<and> la_cron s = 0) \<and>
    (la_deregistered s \<or> la_phase s = Finished \<longrightarrow> js_running (la_ping s) = 0)"
  using steps_inv [OF assms launch_new_inv] by (auto simp: launch_inv_def quiet_def)

text \<open>
  C25. The launcher reports the first failure of all its tasks, whatever fails afterwards and
  however the shutdown ends; without any failure it reports a timeout exactly if the shutdown
  was forced, which a deadline alone can cause, and success otherwise.
\<close>

theorem launcher_reports_first_failure:
  assumes "launch_steps (launch_new F qs deadline) fs s"
  shows "run_outcome s = (case fs of e # _ \<Rightarrow> Inl e | [] \<Rightarrow> if la_timed_out s then Inl ShutdownTimeout else Inr ()) \<and>
    (la_timed_out s \<longrightarrow> deadline)"
  using steps_error [OF assms]
  by (auto simp: run_outcome_def first_error_def launch_new_def split: list.splits)


text \<open>One queue, one running job, a failing loop: the shutdown waits for the job.\<close>

definition sample_filters :: queue_filters where
  "sample_filters = \<lparr>queue_allowlist = [], queue_denylist = []\<rparr>"

definition busy_launch :: launch where
  "busy_launch = (launch_new sample_filters [as_static ''mail''] True)\<lparr>la_registered := Some True, la_executions := 1\<rparr>"

definition failing_launch :: launch where
  "failing_launch = begin_shutdown (record_task_result (TaskErr StdIoError)
     (busy_launch\<lparr>la_loops := \<lparr>js_running = 4, js_done = []\<rparr>\<rparr>))"

lemma failing_reached: "launch_steps (launch_new sample_filters [as_static ''mail''] True) [StdIoError] failing_launch"
proof -
  let ?s0 = "launch_new sample_filters [as_static ''mail''] True"
  let ?s1 = "?s0\<lparr>la_registered := Some True\<rparr>"
  let ?s3 = "busy_launch\<lparr>la_loops := task_ends (TaskErr StdIoError) (la_loops busy_launch)\<rparr>"
  have 1: "launch_step ?s0 [] ?s1" by (rule registers) (simp_all add: launch_new_def spawned_def)
  have 2: "launch_step ?s1 [] busy_launch"
    using starts [of ?s1] unfolding busy_launch_def
    by (simp add: launch_new_def spawned_def sample_filters_def runs_queue_def contains_queue_def)
  have 3: "launch_step busy_launch [] ?s3"
    by (rule loop_ends) (simp_all add: busy_launch_def launch_new_def spawned_def)
  have 4: "launch_step ?s3 [StdIoError] failing_launch"
    using loop_joined [of ?s3 "TaskErr StdIoError" "[]"]
    by (simp add: failing_launch_def busy_launch_def launch_new_def spawned_def task_ends_def failures_of_def)
  from launch_more [OF launch_more [OF launch_more [OF launch_more [OF launch_none 1] 2] 3] 4] show ?thesis by simp
qed

theorem shutdown_in_order_witness:
  "la_executions failing_launch = 1 \<and> la_registered failing_launch = Some True \<and>
    (0 < js_running (la_ping failing_launch) \<or> ping_failed failing_launch)"
  using shutdown_in_order [OF failing_reached]
  by (simp add: failing_launch_def busy_launch_def begin_shutdown_def)

theorem launcher_reports_first_failure_witness: "run_outcome failing_launch = Inl StdIoError"
  using launcher_reports_first_failure [OF failing_reached] by simp


end
