(* ===== verification/Queue_Stats.thy ===== *)
theory Queue_Stats
  imports Counters Processes Queue_Config
begin

text \<open>
  The statistics a monitor reads: \<^verbatim>\<open>queue_stats.rs\<close>, which aggregates the counters and the
  cached lengths per queue, and \<^verbatim>\<open>build_queue_stats\<close>, \<^verbatim>\<open>queue_lengths_and_latencies\<close> and
  \<^verbatim>\<open>stats_with_rates\<close> of \<^verbatim>\<open>storage_internal.rs\<close>, which add live lengths, latencies, processes
  and running jobs. A \<^verbatim>\<open>HashMap\<close> is an association list in any order. Latencies are kept in
  microseconds, where the code divides them into floating-point seconds; the historical rates,
  which are floating-point throughout, are left out. An \<^verbatim>\<open>expect\<close> that fails is \<open>None\<close>.
\<close>

section \<open>Aggregation\<close>

abbreviation queue_length_snapshot_ttl_secs :: int where
  "queue_length_snapshot_ttl_secs \<equiv> 120"

text \<open>Addition of \<^verbatim>\<open>i64\<close> in a release build.\<close>

definition wrap_i64 :: "int \<Rightarrow> int" where
  "wrap_i64 x = (x + 2 ^ 63) mod 2 ^ 64 - 2 ^ 63"

definition add_i64 :: "int \<Rightarrow> int \<Rightarrow> int" where
  "add_i64 a b = wrap_i64 (a + b)"

record queue_length_snapshot =
  ls_enqueued :: "int option"
  ls_refreshed_at :: "int option"

definition snapshot_default :: queue_length_snapshot where
  "snapshot_default = \<lparr>ls_enqueued = None, ls_refreshed_at = None\<rparr>"

definition fresh_enqueued :: "int \<Rightarrow> queue_length_snapshot \<Rightarrow> nat option" where
  "fresh_enqueued now s = (case ls_refreshed_at s of
       None \<Rightarrow> None
     | Some r \<Rightarrow>
         if queue_length_snapshot_ttl_secs < sat_add_i64 now (- r) then None
         else (case ls_enqueued s of None \<Rightarrow> None | Some n \<Rightarrow> if n < 0 then None else Some (nat n)))"

definition queue_base :: "string \<Rightarrow> string" where
  "queue_base queue = takeWhile (\<lambda>c. c \<noteq> CHR ''#'') queue"

text \<open>\<^verbatim>\<open>split_once('#')\<close> and \<^verbatim>\<open>rsplit_once(':')\<close>.\<close>

definition split_hash :: "string \<Rightarrow> (string \<times> string) option" where
  "split_hash queue = (if CHR ''#'' \<in> set queue
     then Some (takeWhile (\<lambda>c. c \<noteq> CHR ''#'') queue, tl (dropWhile (\<lambda>c. c \<noteq> CHR ''#'') queue)) else None)"

definition rsplit_colon :: "string \<Rightarrow> (string \<times> string) option" where
  "rsplit_colon key = (if CHR '':'' \<in> set key
     then Some (rev (tl (dropWhile (\<lambda>c. c \<noteq> CHR '':'') (rev key))), rev (takeWhile (\<lambda>c. c \<noteq> CHR '':'') (rev key)))
     else None)"

definition add_stat :: "string \<Rightarrow> int \<Rightarrow> queue_result_stats \<Rightarrow> queue_result_stats" where
  "add_stat stat v c =
     (if stat = ''processed'' then c\<lparr>qr_processed := add_i64 (qr_processed c) v\<rparr>
      else if stat = ''succeeded'' then c\<lparr>qr_succeeded := add_i64 (qr_succeeded c) v\<rparr>
      else if stat = ''panicked'' then c\<lparr>qr_panicked := add_i64 (qr_panicked c) v\<rparr>
      else if stat = ''failed'' then c\<lparr>qr_failed := add_i64 (qr_failed c) v\<rparr>
      else c)"

type_synonym aggregate_state = "(string \<times> queue_result_stats) list \<times> (string \<times> queue_length_snapshot) list"

definition aggregate_entry :: "string list \<Rightarrow> bool \<Rightarrow> string \<times> int \<Rightarrow> aggregate_state \<Rightarrow> aggregate_state" where
  "aggregate_entry qs flt kv st = (case rsplit_colon (fst kv) of
       None \<Rightarrow> st
     | Some (queue, stat) \<Rightarrow>
         if flt \<and> \<not> list_ex (\<lambda>sel. queue_base sel = queue_base queue) qs then st
         else if stat = ''enqueued''
         then (fst st, update_entry queue snapshot_default (\<lambda>s. s\<lparr>ls_enqueued := Some (snd kv)\<rparr>) (snd st))
         else if stat = ''enqueued_at''
         then (fst st, update_entry queue snapshot_default (\<lambda>s. s\<lparr>ls_refreshed_at := Some (snd kv)\<rparr>) (snd st))
         else (update_entry queue queue_result_default (add_stat stat (snd kv)) (fst st), snd st))"

record dynamic_queue_stats =
  dq_suffix :: string
  dq_enqueued :: nat
  dq_counts :: queue_result_stats
  dq_latency :: int

record queue_stats =
  qs_key :: string
  qs_enqueued :: nat
  qs_counts :: queue_result_stats
  qs_latency :: int
  qs_queues :: "dynamic_queue_stats list"

definition queue_stats_new :: "string \<Rightarrow> queue_stats" where
  "queue_stats_new base = \<lparr>qs_key = base, qs_enqueued = 0, qs_counts = queue_result_default, qs_latency = 0, qs_queues = []\<rparr>"

definition add_counts :: "queue_result_stats \<Rightarrow> queue_result_stats \<Rightarrow> queue_result_stats" where
  "add_counts a b =
     \<lparr>qr_processed = add_i64 (qr_processed a) (qr_processed b), qr_succeeded = add_i64 (qr_succeeded a) (qr_succeeded b),
      qr_panicked = add_i64 (qr_panicked a) (qr_panicked b), qr_failed = add_i64 (qr_failed a) (qr_failed b)\<rparr>"

definition add_queue :: "string \<times> queue_result_stats \<Rightarrow> queue_stats \<Rightarrow> queue_stats" where
  "add_queue qc parent =
     parent\<lparr>qs_counts := add_counts (qs_counts parent) (snd qc),
       qs_queues := qs_queues parent @ (case split_hash (fst qc) of
           None \<Rightarrow> []
         | Some (_, sfx) \<Rightarrow> [\<lparr>dq_suffix = sfx, dq_enqueued = 0, dq_counts = snd qc, dq_latency = 0\<rparr>])\<rparr>"

definition group_queues :: "(string \<times> queue_result_stats) list \<Rightarrow> (string \<times> queue_stats) list" where
  "group_queues counters =
     fold (\<lambda>qc groups. update_entry (queue_base (fst qc)) (queue_stats_new (queue_base (fst qc))) (add_queue qc) groups)
       counters []"

definition fresh_snapshots :: "int \<Rightarrow> (string \<times> queue_length_snapshot) list \<Rightarrow> (string \<times> nat) list" where
  "fresh_snapshots now snapshots = List.map_filter (\<lambda>(queue, s). map_option (Pair queue) (fresh_enqueued now s)) snapshots"

definition aggregate_queue_stats ::
    "string list \<Rightarrow> (string \<times> int) list \<Rightarrow> bool \<Rightarrow> int \<Rightarrow> queue_stats list \<times> (string \<rightharpoonup> nat)" where
  "aggregate_queue_stats qs stats flt now =
     (let (counters, snapshots) = fold (aggregate_entry qs flt) stats
            (map (\<lambda>q. (q, queue_result_default)) (remdups qs), []);
          enqueued_snapshots = fresh_snapshots now snapshots;
          counters = fold (\<lambda>(queue, n) cs. if 0 < n then update_entry queue queue_result_default id cs else cs)
            enqueued_snapshots counters
      in (map snd (group_queues counters), map_of enqueued_snapshots))"

section \<open>Live lengths and latencies\<close>

text \<open>\<^verbatim>\<open>str::parse::<i64>\<close>, the conversion of a hash value.\<close>

definition parse_i64 :: "string \<Rightarrow> int option" where
  "parse_i64 s =
     (case (case s of
              [] \<Rightarrow> None
            | c # r \<Rightarrow> if c = CHR ''-'' then map_option (\<lambda>n. - int n) (parse_digits 0 r)
                       else if c = CHR ''+'' then map_option int (parse_digits 0 r)
                       else map_option int (parse_digits 0 s)) of
        None \<Rightarrow> None
      | Some i \<Rightarrow> if in_i64 i then Some i else None)"

fun parse_stats :: "(string \<times> string) list \<Rightarrow> oxana_error + (string \<times> int) list" where
  "parse_stats [] = Inr []"
| "parse_stats ((k, s) # rest) = (case parse_i64 s of
       None \<Rightarrow> Inl (DeadpoolRedisError OtherRedisError)
     | Some v \<Rightarrow> (case parse_stats rest of Inl e \<Rightarrow> Inl e | Inr kvs \<Rightarrow> Inr ((k, v) # kvs)))"

definition queue_stats_inputs :: "'d redis \<Rightarrow> 'd redis option \<Rightarrow> storage \<Rightarrow> ('d, (string \<times> int) list) op" where
  "queue_stats_inputs R st S =
     (let read = (\<lambda>Rr. bind (hgetall Rr (stats_key (st_keys S))) (\<lambda>kvs. lift_result (parse_stats kvs))) in
      case st of Some Rs \<Rightarrow> with_connection Rs (read Rs) | None \<Rightarrow> read R)"

definition lindex_last :: "'d redis \<Rightarrow> string \<Rightarrow> ('d, string option) op" where
  "lindex_last R k = reading R TList k (\<lambda>d. if r_lrange R d k = [] then None else Some (last (r_lrange R d k)))"

fun queue_heads :: "'d redis \<Rightarrow> storage \<Rightarrow> string list \<Rightarrow> ('d, string option list) op" where
  "queue_heads R S [] = return []"
| "queue_heads R S (q # qs) = bind (lindex_last R (namespace_queue (st_keys S) q)) (\<lambda>h.
     bind (queue_heads R S qs) (\<lambda>hs. return (h # hs)))"

text \<open>The results are taken up in the order of the keys; \<open>clock\<close> is the time at which a key is handled.\<close>

fun assemble ::
    "(string \<Rightarrow> int) \<Rightarrow> (string \<rightharpoonup> nat) \<Rightarrow> (string \<times> string option) list \<Rightarrow> nat list \<Rightarrow> job_envelope option list
       \<Rightarrow> (string \<times> nat \<times> int) list option" where
  "assemble clock snaps [] lengths envs = Some []"
| "assemble clock snaps ((key, h) # rest) lengths envs =
     (let (latency, envs') = (case h of
            None \<Rightarrow> (0, envs)
          | Some _ \<Rightarrow> (case envs of
              [] \<Rightarrow> (0, [])
            | e # es \<Rightarrow> (case e of None \<Rightarrow> 0 | Some e \<Rightarrow> clock key - effective_scheduled_at_micros (env_meta e), es)))
      in case snaps key of
           Some n \<Rightarrow> map_option ((#) (key, n, latency)) (assemble clock snaps rest lengths envs')
         | None \<Rightarrow> (case lengths of
               [] \<Rightarrow> None
             | n # ns \<Rightarrow> map_option ((#) (key, n, latency)) (assemble clock snaps rest ns envs')))"

definition live_chunk ::
    "'d redis \<Rightarrow> codec \<Rightarrow> storage \<Rightarrow> (string \<Rightarrow> int) \<Rightarrow> (string \<rightharpoonup> nat) \<Rightarrow> string list
       \<Rightarrow> ('d, (string \<times> nat \<times> int) list option) op" where
  "live_chunk R C S clock snaps keys =
     bind (queue_heads R S keys) (\<lambda>heads.
     bind (queue_lengths R S (filter (\<lambda>k. snaps k = None) keys)) (\<lambda>lengths.
     bind (jobs_w_conn R C S (List.map_filter id heads)) (\<lambda>envs.
       return (assemble clock snaps (zip keys heads) (map snd lengths) envs))))"

fun live_chunks ::
    "'d redis \<Rightarrow> codec \<Rightarrow> storage \<Rightarrow> (string \<Rightarrow> int) \<Rightarrow> (string \<rightharpoonup> nat) \<Rightarrow> string list list \<Rightarrow> (string \<rightharpoonup> nat \<times> int)
       \<Rightarrow> ('d, (string \<rightharpoonup> nat \<times> int) option) op" where
  "live_chunks R C S clock snaps [] live = return (Some live)"
| "live_chunks R C S clock snaps (keys # rest) live =
     bind (live_chunk R C S clock snaps keys) (\<lambda>r. case r of
         None \<Rightarrow> return None
       | Some kvs \<Rightarrow> live_chunks R C S clock snaps rest (fold (\<lambda>(k, v) m. m(k \<mapsto> v)) kvs live))"

definition queue_lengths_and_latencies ::
    "'d redis \<Rightarrow> codec \<Rightarrow> storage \<Rightarrow> (string \<Rightarrow> int) \<Rightarrow> string list \<Rightarrow> (string \<rightharpoonup> nat)
       \<Rightarrow> ('d, (string \<rightharpoonup> nat \<times> int) option) op" where
  "queue_lengths_and_latencies R C S clock keys snaps =
     live_chunks R C S clock snaps (chunks (stats_read_batch_size - 1) keys) Map.empty"

definition dynamic_key :: "string \<Rightarrow> string \<Rightarrow> string" where
  "dynamic_key key sfx = key @ ''#'' @ sfx"

fun fill_children ::
    "(string \<rightharpoonup> nat \<times> int) \<Rightarrow> string \<Rightarrow> dynamic_queue_stats list \<Rightarrow> nat \<times> int
       \<Rightarrow> (dynamic_queue_stats list \<times> nat \<times> int) option" where
  "fill_children live key [] acc = Some ([], acc)"
| "fill_children live key (q # qs) (n, l) = (case live (dynamic_key key (dq_suffix q)) of
       None \<Rightarrow> None
     | Some (enqueued, latency) \<Rightarrow>
         map_option (\<lambda>(qs', acc). (q\<lparr>dq_enqueued := enqueued, dq_latency := latency\<rparr> # qs', acc))
           (fill_children live key qs (n + enqueued, if l < latency then latency else l)))"

definition fill_row :: "(string \<rightharpoonup> nat \<times> int) \<Rightarrow> queue_stats \<Rightarrow> queue_stats option" where
  "fill_row live row =
     (if qs_queues row = []
      then map_option (\<lambda>(n, l). row\<lparr>qs_enqueued := n, qs_latency := l\<rparr>) (live (qs_key row))
      else map_option (\<lambda>(qs, n, l). row\<lparr>qs_queues := sort_key dq_suffix qs, qs_enqueued := n, qs_latency := l\<rparr>)
             (fill_children live (qs_key row) (qs_queues row) (qs_enqueued row, qs_latency row)))"

definition row_keys :: "queue_stats \<Rightarrow> string list" where
  "row_keys row = (if qs_queues row = [] then [qs_key row] else map (\<lambda>q. dynamic_key (qs_key row) (dq_suffix q)) (qs_queues row))"

fun fill_rows :: "(string \<rightharpoonup> nat \<times> int) \<Rightarrow> queue_stats list \<Rightarrow> queue_stats list option" where
  "fill_rows live [] = Some []"
| "fill_rows live (row # rows) = Option.bind (fill_row live row) (\<lambda>r. map_option ((#) r) (fill_rows live rows))"

definition build_queue_stats ::
    "'d redis \<Rightarrow> 'd redis option \<Rightarrow> codec \<Rightarrow> storage \<Rightarrow> (string \<Rightarrow> int) \<Rightarrow> int \<Rightarrow> string list \<Rightarrow> bool
       \<Rightarrow> ('d, queue_stats list option) op" where
  "build_queue_stats R st C S clock now qs flt =
     bind (queue_stats_inputs R st S) (\<lambda>stats.
       let (rows, snaps) = aggregate_queue_stats qs stats flt now in
       bind (queue_lengths_and_latencies R C S clock (concat (map row_keys rows)) snaps) (\<lambda>live.
         return (Option.bind live (\<lambda>live. map_option (sort_key qs_key) (fill_rows live rows)))))"

definition stats_queues ::
    "'d redis \<Rightarrow> 'd redis option \<Rightarrow> codec \<Rightarrow> storage \<Rightarrow> (string \<Rightarrow> int) \<Rightarrow> int \<Rightarrow> ('d, queue_stats list option) op" where
  "stats_queues R st C S clock now = with_connection R
     (bind (queues_w_conn R S []) (\<lambda>qs. build_queue_stats R st C S clock now qs False))"

section \<open>Overall statistics\<close>

record stats_processing =
  sp_process_id :: string
  sp_envelope :: job_envelope

record stats_global =
  sg_jobs :: nat
  sg_enqueued :: nat
  sg_processed :: int
  sg_failed :: int
  sg_dead :: nat
  sg_scheduled :: nat
  sg_retries :: nat
  sg_latency_max :: int

record stats =
  st_global :: stats_global
  st_processes :: "process list"
  st_processing :: "stats_processing list"
  st_queues :: "queue_stats list"

fun processing_lists :: "'d redis \<Rightarrow> storage \<Rightarrow> process list \<Rightarrow> ('d, string list list) op" where
  "processing_lists R S [] = return []"
| "processing_lists R S (p # ps) = bind (lrange_all R (processing_queue (st_keys S) (process_id p))) (\<lambda>ids.
     bind (processing_lists R S ps) (\<lambda>rest. return (ids # rest)))"

fun processing_jobs :: "'d redis \<Rightarrow> codec \<Rightarrow> storage \<Rightarrow> (string \<times> job_id) list list \<Rightarrow> ('d, stats_processing list) op" where
  "processing_jobs R C S [] = return []"
| "processing_jobs R C S (entries # rest) = bind (jobs_w_conn R C S (map snd entries)) (\<lambda>envs.
     bind (processing_jobs R C S rest) (\<lambda>more. return
       (List.map_filter (\<lambda>((p, _), e). map_option (\<lambda>e. \<lparr>sp_process_id = p, sp_envelope = e\<rparr>) e) (zip entries envs) @ more)))"

fun processing_of :: "'d redis \<Rightarrow> codec \<Rightarrow> storage \<Rightarrow> process list list \<Rightarrow> ('d, stats_processing list) op" where
  "processing_of R C S [] = return []"
| "processing_of R C S (ps # rest) = bind (processing_lists R S ps) (\<lambda>lists.
     bind (processing_jobs R C S (chunks (stats_read_batch_size - 1)
             (concat (map (\<lambda>(p, ids). map (Pair (process_id p)) ids) (zip ps lists))))) (\<lambda>jobs.
     bind (processing_of R C S rest) (\<lambda>more. return (jobs @ more))))"

definition latency_max :: "queue_stats list \<Rightarrow> int" where
  "latency_max rows = fold (\<lambda>row l. fold (\<lambda>q l. if l < dq_latency q then dq_latency q else l) (qs_queues row)
     (if l < qs_latency row then qs_latency row else l)) rows 0"

definition stats_with_rates ::
    "'d redis \<Rightarrow> 'd redis option \<Rightarrow> codec \<Rightarrow> storage \<Rightarrow> (string \<Rightarrow> int) \<Rightarrow> int \<Rightarrow> int \<Rightarrow> int \<Rightarrow> int \<Rightarrow> ('d, stats option) op" where
  "stats_with_rates R st C S clock now now1 now2 dead_process_threshold = with_connection R
     (bind (queues_w_conn R S []) (\<lambda>qs.
      bind (build_queue_stats R st C S clock now qs False) (\<lambda>r. case r of
        None \<Rightarrow> return None
      | Some rows \<Rightarrow>
          bind (processes_w_conn R C S now1 now2 dead_process_threshold) (\<lambda>ps.
          bind (processing_of R C S (chunks (stats_read_batch_size - 1) ps)) (\<lambda>processing.
          bind (hlen R (jobs_key (st_keys S))) (\<lambda>jobs.
          bind (llen R (dead_key (st_keys S))) (\<lambda>dead.
          bind (zcard R (schedule_key (st_keys S))) (\<lambda>scheduled.
          bind (zcard R (retry_key (st_keys S))) (\<lambda>retries.
            return (Some
              \<lparr>st_global =
                 \<lparr>sg_jobs = jobs, sg_enqueued = sum_list (map qs_enqueued rows),
                  sg_processed = fold (\<lambda>row n. add_i64 n (qr_processed (qs_counts row))) rows 0,
                  sg_failed = fold (\<lambda>row n. add_i64 n (qr_failed (qs_counts row))) rows 0,
                  sg_dead = dead, sg_scheduled = scheduled, sg_retries = retries, sg_latency_max = latency_max rows\<rparr>,
               st_processes = ps, st_processing = processing, st_queues = rows\<rparr>)))))))))) "

section \<open>What the aggregation computes\<close>

text \<open>A statistic counts for a selection when its queue shares its base with a selected queue.\<close>

definition passes :: "string list \<Rightarrow> bool \<Rightarrow> string \<Rightarrow> bool" where
  "passes qs flt q \<longleftrightarrow> flt \<longrightarrow> (\<exists>sel\<in>set qs. queue_base sel = queue_base q)"

definition stat_of :: "string list \<Rightarrow> bool \<Rightarrow> (string \<times> int) list \<Rightarrow> string \<Rightarrow> string \<Rightarrow> int option" where
  "stat_of qs flt stats q stat = (if passes qs flt q then map_of stats (stat_field q stat) else None)"

definition stat_value :: "string list \<Rightarrow> bool \<Rightarrow> (string \<times> int) list \<Rightarrow> string \<Rightarrow> string \<Rightarrow> int" where
  "stat_value qs flt stats stat q = (case stat_of qs flt stats q stat of Some v \<Rightarrow> v | None \<Rightarrow> 0)"

definition counted :: "string list \<Rightarrow> bool \<Rightarrow> (string \<times> int) list \<Rightarrow> string \<Rightarrow> bool" where
  "counted qs flt stats q \<longleftrightarrow> q \<in> set qs \<or>
     (\<exists>stat. CHR '':'' \<notin> set stat \<and> stat \<noteq> ''enqueued'' \<and> stat \<noteq> ''enqueued_at'' \<and> stat_of qs flt stats q stat \<noteq> None)"

text \<open>The cached length of a queue, when it is at most two minutes old.\<close>

definition cached_length :: "string list \<Rightarrow> bool \<Rightarrow> (string \<times> int) list \<Rightarrow> int \<Rightarrow> string \<Rightarrow> nat option" where
  "cached_length qs flt stats now q = fresh_enqueued now
     \<lparr>ls_enqueued = stat_of qs flt stats q ''enqueued'', ls_refreshed_at = stat_of qs flt stats q ''enqueued_at''\<rparr>"

text \<open>The queues that are shown: selected, with a counter, or with a positive cached length.\<close>

definition visible :: "string list \<Rightarrow> bool \<Rightarrow> (string \<times> int) list \<Rightarrow> int \<Rightarrow> string set" where
  "visible qs flt stats now = {q. counted qs flt stats q \<or> (\<exists>n. cached_length qs flt stats now q = Some n \<and> 0 < n)}"

definition total_counts :: "string list \<Rightarrow> bool \<Rightarrow> (string \<times> int) list \<Rightarrow> string set \<Rightarrow> queue_result_stats" where
  "total_counts qs flt stats Q =
     \<lparr>qr_processed = wrap_i64 (\<Sum>q\<in>Q. stat_value qs flt stats ''processed'' q),
      qr_succeeded = wrap_i64 (\<Sum>q\<in>Q. stat_value qs flt stats ''succeeded'' q),
      qr_panicked = wrap_i64 (\<Sum>q\<in>Q. stat_value qs flt stats ''panicked'' q),
      qr_failed = wrap_i64 (\<Sum>q\<in>Q. stat_value qs flt stats ''failed'' q)\<rparr>"

lemma wrap_add [simp]: "wrap_i64 (wrap_i64 a + b) = wrap_i64 (a + b)" "wrap_i64 (a + wrap_i64 b) = wrap_i64 (a + b)"
proof -
  have *: "wrap_i64 (wrap_i64 a + b) = wrap_i64 (a + b)" for a b :: int
  proof -
    have "wrap_i64 a + b + 2 ^ 63 = (a + 2 ^ 63) mod 2 ^ 64 + b" by (simp add: wrap_i64_def)
    moreover have "((a + 2 ^ 63) mod 2 ^ 64 + b) mod 2 ^ 64 = (a + 2 ^ 63 + b) mod 2 ^ 64" by (rule mod_add_left_eq)
    ultimately show ?thesis by (simp add: wrap_i64_def algebra_simps)
  qed
  show "wrap_i64 (wrap_i64 a + b) = wrap_i64 (a + b)" by (rule *)
  show "wrap_i64 (a + wrap_i64 b) = wrap_i64 (a + b)" using * [of b a] by (simp add: add.commute)
qed

lemma wrap_0 [simp]: "wrap_i64 0 = 0"
  by (simp add: wrap_i64_def)

lemma wrap_exact: "in_i64 x \<Longrightarrow> wrap_i64 x = x"
  by (simp add: wrap_i64_def in_i64_def)

lemma rsplit_colon_iff:
  "rsplit_colon key = Some (q, stat) \<longleftrightarrow> key = stat_field q stat \<and> CHR '':'' \<notin> set stat"
proof
  assume l: "rsplit_colon key = Some (q, stat)"
  let ?P = "\<lambda>c. c \<noteq> CHR '':''"
  have c: "CHR '':'' \<in> set (rev key)" and q: "q = rev (tl (dropWhile ?P (rev key)))" and st: "stat = rev (takeWhile ?P (rev key))"
    using l by (auto simp: rsplit_colon_def split: if_splits)
  have ne: "dropWhile ?P (rev key) \<noteq> []" using c by (simp add: dropWhile_eq_Nil_conv)
  then obtain x r where xr: "dropWhile ?P (rev key) = x # r" by (cases "dropWhile ?P (rev key)") auto
  have q': "q = rev r" using q by (simp add: xr)
  have "x = CHR '':''" using hd_dropWhile [OF ne] by (simp add: xr)
  then have "rev key = rev stat @ CHR '':'' # r"
    using takeWhile_dropWhile_id [of ?P "rev key"] by (simp add: st xr)
  then have "rev (rev key) = rev r @ CHR '':'' # stat" by simp
  then have "key = stat_field q stat" by (simp add: q' stat_field_def)
  moreover have "CHR '':'' \<notin> set stat" using st by (auto dest: set_takeWhileD)
  ultimately show "key = stat_field q stat \<and> CHR '':'' \<notin> set stat" by simp
next
  assume r: "key = stat_field q stat \<and> CHR '':'' \<notin> set stat"
  then have n: "x \<in> set (rev stat) \<Longrightarrow> x \<noteq> CHR '':''" for x by auto
  have "rev key = rev stat @ CHR '':'' # rev q" using r by (simp add: stat_field_def)
  moreover have "takeWhile (\<lambda>c. c \<noteq> CHR '':'') (rev stat @ CHR '':'' # rev q) = rev stat"
    "dropWhile (\<lambda>c. c \<noteq> CHR '':'') (rev stat @ CHR '':'' # rev q) = CHR '':'' # rev q"
    using n by (subst takeWhile_append2 dropWhile_append2; simp)+
  moreover have "CHR '':'' \<in> set key" using r by (simp add: stat_field_def)
  ultimately show "rsplit_colon key = Some (q, stat)" by (simp add: rsplit_colon_def)
qed

lemma rsplit_colon_None: "rsplit_colon key = None \<Longrightarrow> key \<noteq> stat_field q stat"
  by (auto simp: rsplit_colon_def stat_field_def split: if_splits)

lemma stat_of_snoc:
  assumes "k \<notin> fst ` set stats" and "CHR '':'' \<notin> set stat"
  shows "stat_of qs flt (stats @ [(k, v)]) q stat =
    (if passes qs flt q \<and> rsplit_colon k = Some (q, stat) then Some v else stat_of qs flt stats q stat)"
proof -
  have "k = stat_field q stat \<longleftrightarrow> rsplit_colon k = Some (q, stat)" using assms(2) by (simp add: rsplit_colon_iff)
  moreover have "map_of stats k = None" using assms(1) by (simp add: map_of_eq_None_iff)
  ultimately show ?thesis by (auto simp: stat_of_def map_add_def split: option.splits)
qed

definition counts_of :: "string list \<Rightarrow> bool \<Rightarrow> (string \<times> int) list \<Rightarrow> string \<Rightarrow> queue_result_stats" where
  "counts_of qs flt stats q = total_counts qs flt stats {q}"

definition snapshot_of :: "string list \<Rightarrow> bool \<Rightarrow> (string \<times> int) list \<Rightarrow> string \<Rightarrow> queue_length_snapshot" where
  "snapshot_of qs flt stats q =
     \<lparr>ls_enqueued = stat_of qs flt stats q ''enqueued'', ls_refreshed_at = stat_of qs flt stats q ''enqueued_at''\<rparr>"

text \<open>The state of the loop over the statistics, entry by entry.\<close>

definition folded :: "string list \<Rightarrow> bool \<Rightarrow> (string \<times> int) list \<Rightarrow> aggregate_state" where
  "folded qs flt stats = fold (aggregate_entry qs flt) stats (map (\<lambda>q. (q, queue_result_default)) (remdups qs), [])"

lemma folded_snoc: "folded qs flt (stats @ [kv]) = aggregate_entry qs flt kv (folded qs flt stats)"
  by (simp add: folded_def)

lemma passes_iff: "passes qs flt q \<longleftrightarrow> \<not> (flt \<and> \<not> list_ex (\<lambda>sel. queue_base sel = queue_base q) qs)"
  by (auto simp: passes_def list_ex_iff)

lemma no_colon [simp]:
  "CHR '':'' \<notin> set ''enqueued''" "CHR '':'' \<notin> set ''enqueued_at''" "CHR '':'' \<notin> set ''processed''"
  "CHR '':'' \<notin> set ''succeeded''" "CHR '':'' \<notin> set ''panicked''" "CHR '':'' \<notin> set ''failed''"
  by simp_all

lemma add_stat_length [simp]: "add_stat ''enqueued'' v c = c" "add_stat ''enqueued_at'' v c = c"
  by (simp_all add: add_stat_def)

lemma snapshot_snoc:
  assumes "k \<notin> fst ` set stats"
  shows "snapshot_of qs flt (stats @ [(k, v)]) q =
    (if passes qs flt q \<and> rsplit_colon k = Some (q, ''enqueued'') then (snapshot_of qs flt stats q)\<lparr>ls_enqueued := Some v\<rparr>
     else if passes qs flt q \<and> rsplit_colon k = Some (q, ''enqueued_at'') then (snapshot_of qs flt stats q)\<lparr>ls_refreshed_at := Some v\<rparr>
     else snapshot_of qs flt stats q)"
  using stat_of_snoc [OF assms no_colon(1)] stat_of_snoc [OF assms no_colon(2)] by (simp add: snapshot_of_def)

lemma counts_snoc:
  assumes "k \<notin> fst ` set stats"
  shows "counts_of qs flt (stats @ [(k, v)]) q =
    (case rsplit_colon k of
       Some (p, stat) \<Rightarrow> if p = q \<and> passes qs flt q then add_stat stat v (counts_of qs flt stats q) else counts_of qs flt stats q
     | None \<Rightarrow> counts_of qs flt stats q)"
proof -
  have sv: "stat_value qs flt (stats @ [(k, v)]) stat q =
      (if passes qs flt q \<and> rsplit_colon k = Some (q, stat) then v else stat_value qs flt stats stat q)"
    if "CHR '':'' \<notin> set stat" for stat
    using stat_of_snoc [OF assms that, of qs flt v q] by (simp add: stat_value_def)
  have new: "stat_value qs flt stats stat q = 0" if "rsplit_colon k = Some (q, stat)" for stat
    using that assms by (auto simp: rsplit_colon_iff stat_value_def stat_of_def map_of_eq_None_iff split: option.splits dest: map_of_SomeD)
      (metis fst_conv image_eqI map_of_SomeD)
  show ?thesis
  proof (cases "rsplit_colon k")
    case None
    then show ?thesis by (simp add: counts_of_def total_counts_def sv)
  next
    case (Some ps)
    then obtain p stat where k: "rsplit_colon k = Some (p, stat)" by (cases ps) auto
    show ?thesis
    proof (cases "p = q \<and> passes qs flt q")
      case True
      have old: "stat_value qs flt stats stat q = 0" using new k True by simp
      have val: "stat_value qs flt (stats @ [(k, v)]) s q = (if stat = s then v else stat_value qs flt stats s q)"
        if "CHR '':'' \<notin> set s" for s
        using sv [OF that] k True by auto
      consider "stat = ''processed''" | "stat = ''succeeded''" | "stat = ''panicked''" | "stat = ''failed''"
        | "stat \<notin> {''processed'', ''succeeded'', ''panicked'', ''failed''}" by blast
      then have "counts_of qs flt (stats @ [(k, v)]) q = add_stat stat v (counts_of qs flt stats q)"
        using old by cases (simp_all add: counts_of_def total_counts_def val add_stat_def add_i64_def)
      with k True show ?thesis by simp
    next
      case False
      with k show ?thesis by (auto simp: counts_of_def total_counts_def sv)
    qed
  qed
qed

lemma counted_snoc:
  assumes "k \<notin> fst ` set stats"
  shows "counted qs flt (stats @ [(k, v)]) q \<longleftrightarrow> counted qs flt stats q \<or>
    (passes qs flt q \<and> (\<exists>stat. rsplit_colon k = Some (q, stat) \<and> stat \<noteq> ''enqueued'' \<and> stat \<noteq> ''enqueued_at''))"
proof -
  have *: "stat_of qs flt (stats @ [(k, v)]) q stat \<noteq> None \<longleftrightarrow>
      stat_of qs flt stats q stat \<noteq> None \<or> passes qs flt q \<and> rsplit_colon k = Some (q, stat)" if "CHR '':'' \<notin> set stat" for stat
    using stat_of_snoc [OF assms that, of qs flt v q] by auto
  let ?A = "\<lambda>stat. CHR '':'' \<notin> set stat \<and> stat \<noteq> ''enqueued'' \<and> stat \<noteq> ''enqueued_at''"
  have "(?A stat \<and> stat_of qs flt (stats @ [(k, v)]) q stat \<noteq> None) \<longleftrightarrow>
      (?A stat \<and> stat_of qs flt stats q stat \<noteq> None) \<or> (?A stat \<and> passes qs flt q \<and> rsplit_colon k = Some (q, stat))" for stat
    using * by fast
  then have "counted qs flt (stats @ [(k, v)]) q \<longleftrightarrow> counted qs flt stats q \<or>
      (\<exists>stat. ?A stat \<and> passes qs flt q \<and> rsplit_colon k = Some (q, stat))"
    unfolding counted_def conj_assoc by (simp only: ex_disj_distrib disj_assoc)
  then show ?thesis by (auto simp: rsplit_colon_iff)
qed

lemma uncounted: "\<not> counted qs flt stats q \<Longrightarrow> counts_of qs flt stats q = queue_result_default"
proof -
  assume n: "\<not> counted qs flt stats q"
  have "stat_value qs flt stats stat q = 0" if "CHR '':'' \<notin> set stat" "stat \<noteq> ''enqueued''" "stat \<noteq> ''enqueued_at''" for stat
    using n that by (auto simp: counted_def stat_value_def split: option.splits)
  then show ?thesis by (simp add: counts_of_def total_counts_def queue_result_default_def)
qed

lemma counts_Nil: "counts_of qs flt [] q = queue_result_default"
  by (simp add: counts_of_def total_counts_def stat_value_def stat_of_def queue_result_default_def)

definition snapped :: "string list \<Rightarrow> bool \<Rightarrow> (string \<times> int) list \<Rightarrow> string \<Rightarrow> bool" where
  "snapped qs flt stats q \<longleftrightarrow> snapshot_of qs flt stats q \<noteq> snapshot_default"

lemma folded_spec:
  assumes "distinct (map fst stats)"
  shows "map_of (fst (folded qs flt stats)) = (\<lambda>q. if counted qs flt stats q then Some (counts_of qs flt stats q) else None)"
    "map_of (snd (folded qs flt stats)) = (\<lambda>q. if snapped qs flt stats q then Some (snapshot_of qs flt stats q) else None)"
    "distinct (map fst (fst (folded qs flt stats)))" "distinct (map fst (snd (folded qs flt stats)))"
  using assms
proof (induction stats rule: rev_induct)
  case Nil
  case 1
  have "map_of (map (\<lambda>q. (q, queue_result_default)) qs') q = (if q \<in> set qs' then Some queue_result_default else None)" for qs' and q :: string
    by (induction qs') auto
  then show ?case by (auto simp: folded_def counts_Nil counted_def stat_of_def fun_eq_iff)
  case 2 show ?case by (auto simp: folded_def snapped_def snapshot_of_def stat_of_def snapshot_default_def)
  case 3 show ?case by (simp add: folded_def comp_def)
  case 4 show ?case by (simp add: folded_def)
next
  case (snoc kv stats)
  obtain k v where kv: "kv = (k, v)" by (cases kv)
  have d: "distinct (map fst stats)" "k \<notin> fst ` set stats" if "distinct (map fst (stats @ [kv]))"
    using that by (auto simp: kv)
  note IH = snoc.IH(1) snoc.IH(2) snoc.IH(3) snoc.IH(4)
  have step: "folded qs flt (stats @ [(k, v)]) = aggregate_entry qs flt (k, v) (folded qs flt stats)"
    by (rule folded_snoc)
  have entry: "aggregate_entry qs flt (k, v) (cs, ss) = (case rsplit_colon k of
      None \<Rightarrow> (cs, ss)
    | Some (p, stat) \<Rightarrow>
        if \<not> passes qs flt p then (cs, ss)
        else if stat = ''enqueued'' then (cs, update_entry p snapshot_default (\<lambda>s. s\<lparr>ls_enqueued := Some v\<rparr>) ss)
        else if stat = ''enqueued_at'' then (cs, update_entry p snapshot_default (\<lambda>s. s\<lparr>ls_refreshed_at := Some v\<rparr>) ss)
        else (update_entry p queue_result_default (add_stat stat v) cs, ss))" for cs ss
    by (auto simp: aggregate_entry_def passes_iff split: option.split)
  obtain cs ss where f: "folded qs flt stats = (cs, ss)" by (cases "folded qs flt stats")
  {
    case 1
    note d = d [OF this]
    have m: "map_of cs = (\<lambda>q. if counted qs flt stats q then Some (counts_of qs flt stats q) else None)"
      using IH(1) [OF d(1)] f by simp
    show ?case
    proof (cases "rsplit_colon k")
      case None
      then show ?thesis unfolding kv by (auto simp: fun_eq_iff step f entry m counted_snoc [OF d(2)] counts_snoc [OF d(2)])
    next
      case (Some ps)
      then obtain p stat where k: "rsplit_colon k = Some (p, stat)" by (cases ps) auto
      then show ?thesis
        unfolding kv
        by (auto simp: fun_eq_iff step f entry m counted_snoc [OF d(2)] counts_snoc [OF d(2)] map_of_update_entry uncounted
            split: if_splits)
    qed
  next
    case 2
    note d = d [OF this]
    have m: "map_of ss = (\<lambda>q. if snapped qs flt stats q then Some (snapshot_of qs flt stats q) else None)"
      using IH(2) [OF d(1)] f by simp
    have n: "snapped qs flt stats q \<or> snapshot_of qs flt stats q = snapshot_default" for q by (auto simp: snapped_def)
    show ?case
    proof (cases "rsplit_colon k")
      case None
      then show ?thesis unfolding kv by (auto simp: fun_eq_iff step f entry m snapped_def snapshot_snoc [OF d(2)])
    next
      case (Some ps)
      then obtain p stat where k: "rsplit_colon k = Some (p, stat)" by (cases ps) auto
      then show ?thesis
        unfolding kv using n [of p]
        by (cases "snapshot_of qs flt stats p")
          (auto simp: fun_eq_iff step f entry m snapped_def snapshot_snoc [OF d(2)] map_of_update_entry snapshot_default_def)
    qed
  next
    case 3
    note d = d [OF this]
    show ?case using IH(3) [OF d(1)] f unfolding kv
      by (auto simp: step f entry update_entry_def distinct_update split: option.splits)
  next
    case 4
    note d = d [OF this]
    show ?case using IH(4) [OF d(1)] f unfolding kv
      by (auto simp: step f entry update_entry_def distinct_update split: option.splits)
  }
qed

lemma fresh_snapshots_map:
  "distinct (map fst ss) \<Longrightarrow> map_of (fresh_snapshots now ss) q = Option.bind (map_of ss q) (fresh_enqueued now)"
proof (induction ss)
  case (Cons a ss)
  show ?case
  proof (cases "fresh_enqueued now (snd a)")
    case None
    then show ?thesis
      using Cons map_of_eq_None_iff [of ss q] by (cases a) (auto simp: fresh_snapshots_def List.map_filter_simps)
  next
    case (Some n)
    then show ?thesis
      using Cons by (cases a) (auto simp: fresh_snapshots_def List.map_filter_simps)
  qed
qed (simp add: fresh_snapshots_def List.map_filter_simps)

lemma add_visible:
  "map_of (fold (\<lambda>(queue, n) cs. if 0 < n then update_entry queue queue_result_default id cs else cs) es cs) q =
     (case map_of cs q of Some c \<Rightarrow> Some c | None \<Rightarrow> if \<exists>n. (q, n) \<in> set es \<and> 0 < n then Some queue_result_default else None)"
  by (induction es arbitrary: cs) (auto simp: map_of_update_entry split: option.splits if_splits)

lemma add_visible_distinct:
  "distinct (map fst cs) \<Longrightarrow>
     distinct (map fst (fold (\<lambda>(queue, n) cs. if (0::nat) < n then update_entry queue queue_result_default id cs else cs) es cs))"
  by (induction es arbitrary: cs) (auto simp: update_entry_def distinct_update)

text \<open>The counters after the loop: one for each visible queue.\<close>

lemma aggregate_counters:
  assumes "distinct (map fst stats)"
  obtains cs where "fst (aggregate_queue_stats qs stats flt now) = map snd (group_queues cs)" "distinct (map fst cs)"
    "map_of cs = (\<lambda>q. if q \<in> visible qs flt stats now then Some (counts_of qs flt stats q) else None)"
    "snd (aggregate_queue_stats qs stats flt now) = cached_length qs flt stats now"
proof -
  note f = folded_spec [OF assms, of qs flt]
  let ?es = "fresh_snapshots now (snd (folded qs flt stats))"
  let ?cs = "fold (\<lambda>(queue, n) cs. if 0 < n then update_entry queue queue_result_default id cs else cs) ?es (fst (folded qs flt stats))"
  have cached: "map_of ?es q = cached_length qs flt stats now q" for q
  proof (cases "snapped qs flt stats q")
    case True
    then show ?thesis by (simp add: fresh_snapshots_map [OF f(4)] f(2) cached_length_def snapshot_of_def)
  next
    case False
    then have "snapshot_of qs flt stats q = snapshot_default" by (simp add: snapped_def)
    with False show ?thesis
      by (simp add: fresh_snapshots_map [OF f(4)] f(2) cached_length_def snapshot_of_def snapshot_default_def fresh_enqueued_def)
  qed
  have de: "distinct (map fst ?es)"
  proof -
    have "map fst (fresh_snapshots now ss) = map fst (filter (\<lambda>qs. fresh_enqueued now (snd qs) \<noteq> None) ss)" for ss
      by (induction ss) (auto simp: fresh_snapshots_def List.map_filter_simps split: option.splits)
    then show ?thesis using f(4) by (simp add: distinct_map_filter)
  qed
  have "(q, n) \<in> set ?es \<longleftrightarrow> cached_length qs flt stats now q = Some n" for q n
    using map_of_eq_Some_iff [OF de] cached by metis
  then have "map_of ?cs = (\<lambda>q. if q \<in> visible qs flt stats now then Some (counts_of qs flt stats q) else None)"
    by (auto simp: fun_eq_iff add_visible f(1) visible_def uncounted)
  moreover have "fst (aggregate_queue_stats qs stats flt now) = map snd (group_queues ?cs)"
    "snd (aggregate_queue_stats qs stats flt now) = cached_length qs flt stats now"
    using cached by (auto simp: aggregate_queue_stats_def folded_def Let_def fun_eq_iff split: prod.split)
  ultimately show thesis using that add_visible_distinct [OF f(3)] by blast
qed

lemma visible_finite: "distinct (map fst stats) \<Longrightarrow> finite (visible qs flt stats now)"
proof (rule aggregate_counters)
  fix cs :: "(string \<times> queue_result_stats) list"
  assume "map_of cs = (\<lambda>q. if q \<in> visible qs flt stats now then Some (counts_of qs flt stats q) else None)"
  then have "dom (map_of cs) = visible qs flt stats now" by (auto split: if_splits)
  then show ?thesis by (metis finite_dom_map_of)
qed

text \<open>One group for each base, with the sum of the counters and one row for each sub-queue.\<close>

definition child_row :: "string \<times> queue_result_stats \<Rightarrow> dynamic_queue_stats list" where
  "child_row qc = (case split_hash (fst qc) of
       None \<Rightarrow> []
     | Some (_, sfx) \<Rightarrow> [\<lparr>dq_suffix = sfx, dq_enqueued = 0, dq_counts = snd qc, dq_latency = 0\<rparr>])"

definition group_of :: "(string \<times> queue_result_stats) list \<Rightarrow> string \<Rightarrow> queue_stats" where
  "group_of cs b = (let mine = filter (\<lambda>qc. queue_base (fst qc) = b) cs in
     \<lparr>qs_key = b, qs_enqueued = 0,
      qs_counts = \<lparr>qr_processed = wrap_i64 (\<Sum>qc\<leftarrow>mine. qr_processed (snd qc)), qr_succeeded = wrap_i64 (\<Sum>qc\<leftarrow>mine. qr_succeeded (snd qc)),
        qr_panicked = wrap_i64 (\<Sum>qc\<leftarrow>mine. qr_panicked (snd qc)), qr_failed = wrap_i64 (\<Sum>qc\<leftarrow>mine. qr_failed (snd qc))\<rparr>,
      qs_latency = 0, qs_queues = concat (map child_row mine)\<rparr>)"

lemma group_queues_spec:
  "map_of (group_queues cs) = (\<lambda>b. if b \<in> queue_base ` fst ` set cs then Some (group_of cs b) else None) \<and>
   distinct (map fst (group_queues cs))"
proof (induction cs rule: rev_induct)
  case Nil
  then show ?case by (simp add: group_queues_def)
next
  case (snoc qc cs)
  let ?b = "queue_base (fst qc)"
  have snoc_eq: "group_queues (cs @ [qc]) = update_entry ?b (queue_stats_new ?b) (add_queue qc) (group_queues cs)"
    by (simp add: group_queues_def)
  have new: "b \<notin> queue_base ` fst ` set cs \<Longrightarrow> group_of cs b = queue_stats_new b" for b
    by (auto simp: group_of_def queue_stats_new_def queue_result_default_def filter_empty_conv Let_def
        filter_id_conv image_iff intro!: arg_cong [where f = "\<lambda>xs. concat (map child_row xs)"])
      (metis (mono_tags, lifting) filter_False sum_list.Nil list.simps(8) wrap_0)+
  have step: "add_queue qc (group_of cs ?b) = group_of (cs @ [qc]) ?b"
    by (cases "split_hash (fst qc)")
      (auto simp: group_of_def add_queue_def add_counts_def add_i64_def child_row_def Let_def)
  have other: "b \<noteq> ?b \<Longrightarrow> group_of (cs @ [qc]) b = group_of cs b" for b
    by (simp add: group_of_def Let_def)
  have m: "map_of (group_queues cs) = (\<lambda>b. if b \<in> queue_base ` fst ` set cs then Some (group_of cs b) else None)"
    using snoc.IH by blast
  have "(case map_of (group_queues cs) ?b of Some g \<Rightarrow> g | None \<Rightarrow> queue_stats_new ?b) = group_of cs ?b"
    using new by (simp add: m)
  then have "map_of (group_queues (cs @ [qc])) = (map_of (group_queues cs))(?b \<mapsto> group_of (cs @ [qc]) ?b)"
    by (simp add: snoc_eq map_of_update_entry step)
  also have "\<dots> = (\<lambda>b. if b \<in> queue_base ` fst ` set (cs @ [qc]) then Some (group_of (cs @ [qc]) b) else None)"
    using other by (auto simp: m fun_eq_iff)
  finally show ?case using snoc.IH by (simp add: snoc_eq update_entry_def distinct_update)
qed

section \<open>What the reads return\<close>

definition payload_of :: "'d redis \<Rightarrow> codec \<Rightarrow> storage \<Rightarrow> 'd \<Rightarrow> job_id \<Rightarrow> job_envelope option" where
  "payload_of R C S d i = Option.bind (r_hget R d (jobs_key (st_keys S)) i) (of_payload C)"

lemma parse_records_Inr: "parse_records C rs = Inr xs \<Longrightarrow> xs = map (\<lambda>r. Option.bind r (of_payload C)) rs"
  by (induction C rs arbitrary: xs rule: parse_records.induct)
    (auto simp: parse_envelope_def split: sum.splits option.splits)

lemma jobs_w_conn_Inr:
  assumes "jobs_w_conn R C S ids d = (Inr envs, d')"
  shows "d' = d \<and> envs = map (payload_of R C S d) ids"
  using assms
  by (auto simp: jobs_w_conn_def bind_eq_Inr hmget_def reading_def lift_result_def payload_of_def dest!: parse_records_Inr
      split: if_splits)

lemma queue_heads_Inr:
  "queue_heads R S qs d = (Inr hs, d') \<Longrightarrow> d' = d \<and>
     hs = map (\<lambda>q. let l = r_lrange R d (namespace_queue (st_keys S) q) in if l = [] then None else Some (last l)) qs"
  by (induction R S qs arbitrary: hs rule: queue_heads.induct)
    (auto simp: bind_eq_Inr lindex_last_def reading_def Let_def split: if_splits)

lemma queue_lengths_Inr:
  "queue_lengths R S qs d = (Inr ls, d') \<Longrightarrow> d' = d \<and> ls = map (\<lambda>q. (q, length (r_lrange R d (namespace_queue (st_keys S) q)))) qs"
  by (induction R S qs arbitrary: ls rule: queue_lengths.induct)
    (auto simp: bind_eq_Inr llen_def reading_def split: if_splits)

text \<open>The length and the latency of a queue.\<close>

definition length_of :: "'d redis \<Rightarrow> storage \<Rightarrow> (string \<rightharpoonup> nat) \<Rightarrow> 'd \<Rightarrow> string \<Rightarrow> nat" where
  "length_of R S snaps d q = (case snaps q of Some n \<Rightarrow> n | None \<Rightarrow> length (r_lrange R d (namespace_queue (st_keys S) q)))"

definition latency_of :: "'d redis \<Rightarrow> codec \<Rightarrow> storage \<Rightarrow> (string \<Rightarrow> int) \<Rightarrow> 'd \<Rightarrow> string \<Rightarrow> int" where
  "latency_of R C S clock d q = (let ids = r_lrange R d (namespace_queue (st_keys S) q) in
     if ids = [] then 0
     else case payload_of R C S d (last ids) of
            None \<Rightarrow> 0 | Some e \<Rightarrow> clock q - effective_scheduled_at_micros (env_meta e))"

lemma assemble_spec:
  assumes "\<And>q. head q = (let l = r_lrange R d (namespace_queue (st_keys S) q) in if l = [] then None else Some (last l))"
  shows "assemble clock snaps (zip qs (map head qs))
      (map (\<lambda>q. length (r_lrange R d (namespace_queue (st_keys S) q))) (filter (\<lambda>q. snaps q = None) qs))
      (map (payload_of R C S d) (List.map_filter id (map head qs))) =
    Some (map (\<lambda>q. (q, length_of R S snaps d q, latency_of R C S clock d q)) qs)"
proof (induction qs)
  case (Cons q qs)
  then show ?case
    by (cases "r_lrange R d (namespace_queue (st_keys S) q) = []"; cases "snaps q")
      (simp_all add: assms Let_def List.map_filter_simps length_of_def latency_of_def split: option.splits)
qed (simp add: List.map_filter_simps)

lemma live_chunk_Inr:
  assumes "live_chunk R C S clock snaps qs d = (Inr r, d')"
  shows "d' = d \<and> r = Some (map (\<lambda>q. (q, length_of R S snaps d q, latency_of R C S clock d q)) qs)"
proof -
  let ?head = "\<lambda>q. let l = r_lrange R d (namespace_queue (st_keys S) q) in if l = [] then None else Some (last l)"
  obtain hs d1 ls d2 envs d3 where h: "queue_heads R S qs d = (Inr hs, d1)"
    and l: "queue_lengths R S (filter (\<lambda>k. snaps k = None) qs) d1 = (Inr ls, d2)"
    and e: "jobs_w_conn R C S (List.map_filter id hs) d2 = (Inr envs, d3)"
    and r: "r = assemble clock snaps (zip qs hs) (map snd ls) envs" "d' = d3"
    using assms by (auto simp: live_chunk_def bind_eq_Inr)
  have hs: "d1 = d" "hs = map ?head qs" using queue_heads_Inr [OF h] by simp_all
  have ls: "d2 = d" "map snd ls = map (\<lambda>q. length (r_lrange R d (namespace_queue (st_keys S) q))) (filter (\<lambda>q. snaps q = None) qs)"
    using queue_lengths_Inr [OF l] hs(1) by (simp_all add: comp_def)
  have en: "d3 = d" "envs = map (payload_of R C S d) (List.map_filter id hs)" using jobs_w_conn_Inr [OF e] ls(1) by simp_all
  show ?thesis using assemble_spec [of ?head R d S clock snaps qs C] r hs(2) ls(2) en by simp
qed

lemma fold_updates: "fold (\<lambda>(k, v) m. m(k \<mapsto> v)) (map (\<lambda>q. (q, f q)) qs) m = (\<lambda>q. if q \<in> set qs then Some (f q) else m q)"
  by (induction qs arbitrary: m) auto

lemma live_chunks_Inr:
  "live_chunks R C S clock snaps cs live d = (Inr r, d') \<Longrightarrow> d' = d \<and>
     r = Some (\<lambda>q. if q \<in> set (concat cs) then Some (length_of R S snaps d q, latency_of R C S clock d q) else live q)"
proof (induction cs arbitrary: live)
  case (Cons qs cs)
  then obtain r1 d1 where c: "live_chunk R C S clock snaps qs d = (Inr r1, d1)"
    and rest: "(case r1 of None \<Rightarrow> return None
       | Some kvs \<Rightarrow> live_chunks R C S clock snaps cs (fold (\<lambda>(k, v) m. m(k \<mapsto> v)) kvs live)) d1 = (Inr r, d')"
    by (auto simp: bind_eq_Inr)
  from live_chunk_Inr [OF c] rest
  have "live_chunks R C S clock snaps cs (\<lambda>q. if q \<in> set qs then Some (length_of R S snaps d q, latency_of R C S clock d q) else live q) d = (Inr r, d')"
    by (simp add: fold_updates)
  from Cons.IH [OF this] show ?case by (auto simp: fun_eq_iff)
qed simp

lemma fill_children_spec:
  assumes "\<And>q. q \<in> set qs \<Longrightarrow> live (dynamic_key key (dq_suffix q)) = Some (len (dq_suffix q), lat (dq_suffix q))"
  shows "fill_children live key qs (n, l) =
    Some (map (\<lambda>q. q\<lparr>dq_enqueued := len (dq_suffix q), dq_latency := lat (dq_suffix q)\<rparr>) qs,
      n + (\<Sum>q\<leftarrow>qs. len (dq_suffix q)), Max (insert l (lat ` dq_suffix ` set qs)))"
  using assms
proof (induction qs arbitrary: n l)
  case (Cons q qs)
  have "Max (insert (if l < lat (dq_suffix q) then lat (dq_suffix q) else l) (lat ` dq_suffix ` set qs)) =
      Max (insert l (lat ` dq_suffix ` set (q # qs)))"
  proof -
    have "Max (insert (max l x) A) = Max (insert l (insert x A))" if "finite A" for A :: "int set" and x
      using that by (cases "A = {}") (simp_all add: max.assoc)
    then have "Max (insert (max l (lat (dq_suffix q))) (lat ` dq_suffix ` set qs)) = Max (insert l (lat ` dq_suffix ` set (q # qs)))"
      by simp
    moreover have "(if l < x then x else l) = max l x" for x by simp
    ultimately show ?thesis by (simp only:)
  qed
  with Cons show ?case by simp
qed simp

section \<open>Rows\<close>

lemma wrap_sum_wrap: "finite A \<Longrightarrow> wrap_i64 (\<Sum>q\<in>A. wrap_i64 (f q)) = wrap_i64 (\<Sum>q\<in>A. f q)"
proof (induction A rule: finite_induct)
  case (insert x A)
  have "wrap_i64 (wrap_i64 (f x) + (\<Sum>q\<in>A. wrap_i64 (f q))) = wrap_i64 (f x + wrap_i64 (\<Sum>q\<in>A. wrap_i64 (f q)))" by simp
  also have "\<dots> = wrap_i64 (f x + (\<Sum>q\<in>A. f q))" by (simp only: insert.IH wrap_add)
  finally show ?case using insert by simp
qed simp

lemma sum_of_entries:
  assumes "distinct (map fst cs)"
  shows "(\<Sum>qc\<leftarrow>filter (P \<circ> fst) cs. f (snd qc)) = (\<Sum>q\<in>{q \<in> fst ` set cs. P q}. f (the (map_of cs q)))"
proof -
  have d: "distinct (filter (P \<circ> fst) cs)" using assms by (simp add: distinct_map)
  have "(\<Sum>qc\<leftarrow>filter (P \<circ> fst) cs. f (snd qc)) = (\<Sum>qc\<in>set (filter (P \<circ> fst) cs). f (snd qc))"
    by (rule sum_list_distinct_conv_sum_set [OF d])
  also have "\<dots> = (\<Sum>q\<in>{q \<in> fst ` set cs. P q}. f (the (map_of cs q)))"
  proof (rule sum.reindex_cong [symmetric, of fst])
    show "inj_on fst (set (filter (P \<circ> fst) cs))" using assms by (auto simp: distinct_map inj_on_def)
    show "{q \<in> fst ` set cs. P q} = fst ` set (filter (P \<circ> fst) cs)" by auto
  qed (use assms in auto)
  finally show ?thesis .
qed

lemma split_hash_eq:
  assumes "queue_base q = b"
  shows "split_hash q = (if CHR ''#'' \<in> set q then Some (b, drop (Suc (length b)) q) else None)"
    "CHR ''#'' \<in> set q \<Longrightarrow> dynamic_key b (drop (Suc (length b)) q) = q"
proof -
  let ?P = "\<lambda>c. c \<noteq> CHR ''#''"
  have b: "b = takeWhile ?P q" using assms by (simp add: queue_base_def)
  show "split_hash q = (if CHR ''#'' \<in> set q then Some (b, drop (Suc (length b)) q) else None)"
    by (simp add: split_hash_def b dropWhile_eq_drop tl_drop drop_Suc)
  assume "CHR ''#'' \<in> set q"
  then have ne: "dropWhile ?P q \<noteq> []" by (auto simp: dropWhile_eq_Nil_conv)
  then obtain x r where xr: "dropWhile ?P q = x # r" by (cases "dropWhile ?P q") auto
  have "x = CHR ''#''" using hd_dropWhile [OF ne] by (simp add: xr)
  with xr have r: "dropWhile ?P q = CHR ''#'' # r" by simp
  have "drop (Suc (length b)) q = r" using r by (simp add: b dropWhile_eq_drop drop_Suc tl_drop [symmetric])
  then show "dynamic_key b (drop (Suc (length b)) q) = q"
    using takeWhile_dropWhile_id [of ?P q] by (simp add: dynamic_key_def b r)
qed

lemma child_keys:
  assumes "\<And>qc. qc \<in> set mine \<Longrightarrow> queue_base (fst qc) = b"
  shows "map (\<lambda>c. dynamic_key b (dq_suffix c)) (concat (map child_row mine)) = map fst (filter (\<lambda>qc. CHR ''#'' \<in> set (fst qc)) mine)"
  using assms
proof (induction mine)
  case (Cons qc mine)
  then show ?case
    using split_hash_eq [of "fst qc" b] by (auto simp: child_row_def)
qed simp

text \<open>A row of the result, for a base and the state it was read in.\<close>

lemma row_spec:
  assumes "distinct (map fst cs)" and "b \<in> queue_base ` fst ` set cs"
    and "\<And>q. q \<in> set (row_keys (group_of cs b)) \<Longrightarrow> live q = Some (len q, lat q)"
  defines "subs \<equiv> {q \<in> fst ` set cs. queue_base q = b \<and> CHR ''#'' \<in> set q}"
  obtains row where "fill_row live (group_of cs b) = Some row" "qs_key row = b" "qs_counts row = qs_counts (group_of cs b)"
    "qs_enqueued row = (if subs = {} then len b else sum len subs)"
    "qs_latency row = (if subs = {} then lat b else Max (insert 0 (lat ` subs)))"
    "(\<lambda>c. dynamic_key b (dq_suffix c)) ` set (qs_queues row) = subs" "sorted (map dq_suffix (qs_queues row))"
    "\<And>c. c \<in> set (qs_queues row) \<Longrightarrow> dq_enqueued c = len (dynamic_key b (dq_suffix c)) \<and> dq_latency c = lat (dynamic_key b (dq_suffix c))"
proof -
  let ?mine = "filter (\<lambda>qc. queue_base (fst qc) = b) cs"
  let ?kids = "qs_queues (group_of cs b)"
  have kids: "?kids = concat (map child_row ?mine)" by (simp add: group_of_def Let_def)
  have keys: "map (\<lambda>c. dynamic_key b (dq_suffix c)) ?kids = map fst (filter (\<lambda>qc. CHR ''#'' \<in> set (fst qc)) ?mine)"
    unfolding kids by (rule child_keys) simp
  have set_keys: "(\<lambda>c. dynamic_key b (dq_suffix c)) ` set ?kids = subs"
    using arg_cong [OF keys, of set] by (auto simp: subs_def)
  have dist: "distinct (map (\<lambda>c. dynamic_key b (dq_suffix c)) ?kids)"
    unfolding keys using assms(1) by (simp add: distinct_map_filter)
  have gb [simp]: "qs_key (group_of cs b) = b" "qs_enqueued (group_of cs b) = 0" "qs_latency (group_of cs b) = 0"
    by (simp_all add: group_of_def Let_def)
  show thesis
  proof (cases "?kids = []")
    case True
    then have "subs = {}" using set_keys by simp
    moreover have "live b = Some (len b, lat b)" using assms(3) True by (simp add: row_keys_def)
    ultimately show thesis using True
      by (intro that [of "(group_of cs b)\<lparr>qs_enqueued := len b, qs_latency := lat b\<rparr>"]) (simp_all add: fill_row_def)
  next
    case False
    then have ne: "subs \<noteq> {}" using set_keys by auto
    let ?len = "\<lambda>sfx. len (dynamic_key b sfx)" and ?lat = "\<lambda>sfx. lat (dynamic_key b sfx)"
    have live: "live (dynamic_key b (dq_suffix c)) = Some (?len (dq_suffix c), ?lat (dq_suffix c))" if "c \<in> set ?kids" for c
      using assms(3) False that by (simp add: row_keys_def)
    have "(\<Sum>c\<leftarrow>?kids. ?len (dq_suffix c)) = sum_list (map len (map (\<lambda>c. dynamic_key b (dq_suffix c)) ?kids))"
      by (simp add: comp_def)
    also have "\<dots> = sum len subs" using sum_list_distinct_conv_sum_set [OF dist] set_keys by simp
    finally have sum: "(\<Sum>c\<leftarrow>?kids. ?len (dq_suffix c)) = sum len subs" .
    have lat: "?lat ` dq_suffix ` set ?kids = lat ` subs" using set_keys by (auto simp: image_iff)
    let ?up = "\<lambda>q. q\<lparr>dq_enqueued := ?len (dq_suffix q), dq_latency := ?lat (dq_suffix q)\<rparr>"
    have "fill_row live (group_of cs b) = Some ((group_of cs b)\<lparr>qs_queues := sort_key dq_suffix (map ?up ?kids),
        qs_enqueued := sum len subs, qs_latency := Max (insert 0 (lat ` subs))\<rparr>)"
      using fill_children_spec [of ?kids live b ?len ?lat 0 0, OF live] False by (simp add: fill_row_def sum lat)
    then show thesis by (rule that) (use ne set_keys in \<open>auto simp: image_image\<close>)
  qed
qed

lemma row_ex:
  assumes "distinct (map fst cs)" and "b \<in> queue_base ` fst ` set cs" and "fst ` set cs = V"
    and "\<And>q. q \<in> set (row_keys (group_of cs b)) \<Longrightarrow> live q = Some (len q, lat q)"
  shows "\<exists>row. fill_row live (group_of cs b) = Some row \<and> qs_key row = b \<and> qs_counts row = qs_counts (group_of cs b) \<and>
    (let subs = {q \<in> {q \<in> V. queue_base q = b}. CHR ''#'' \<in> set q} in
     (\<lambda>c. dynamic_key b (dq_suffix c)) ` set (qs_queues row) = subs \<and> sorted (map dq_suffix (qs_queues row)) \<and>
     qs_enqueued row = (if subs = {} then len b else sum len subs) \<and>
     qs_latency row = (if subs = {} then lat b else Max (insert 0 (lat ` subs))))"
proof -
  have V: "{q \<in> {q \<in> V. queue_base q = b}. CHR ''#'' \<in> set q} = {q \<in> fst ` set cs. queue_base q = b \<and> CHR ''#'' \<in> set q}"
    using assms(3) by auto
  show ?thesis unfolding Let_def V by (rule row_spec [OF assms(1,2), of live len lat, OF assms(4)]) (assumption | (intro exI conjI; assumption))+
qed

lemma fill_rows_spec:
  assumes "\<And>g. g \<in> set gs \<Longrightarrow> \<exists>row. fill_row live g = Some row \<and> P g row"
  shows "\<exists>rows. fill_rows live gs = Some rows \<and> list_all2 P gs rows"
  using assms
proof (induction gs)
  case (Cons g gs)
  then obtain row rows where "fill_row live g = Some row" "P g row" "fill_rows live gs = Some rows" "list_all2 P gs rows"
    by (metis list.set_intros)
  then show ?case by simp
qed simp

lemma parse_stats_keys: "parse_stats kvs = Inr stats \<Longrightarrow> map fst stats = map fst kvs"
  by (induction kvs arbitrary: stats rule: parse_stats.induct) (auto split: option.splits sum.splits)

lemma inputs_distinct:
  assumes "redis_server (stats_redis R st)" and "queue_stats_inputs R st S d = (Inr stats, d')"
  shows "d' = d \<and> distinct (map fst stats)"
proof -
  have "d' = d" "parse_stats (r_hgetall (stats_redis R st) d (stats_key (st_keys S))) = Inr stats"
    using assms(2) by (auto simp: queue_stats_inputs_def stats_redis_def Let_def with_connection_Inr bind_eq_Inr hgetall_def
        reading_def lift_result_def split: option.splits if_splits)
  then show ?thesis using parse_stats_keys redis_server.hgetall_distinct [OF assms(1)] by metis
qed

lemma dom_entries: "map_of cs = (\<lambda>q. if q \<in> V then Some (f q) else None) \<Longrightarrow> fst ` set cs = V"
proof -
  assume m: "map_of cs = (\<lambda>q. if q \<in> V then Some (f q) else None)"
  have "dom (\<lambda>q. if q \<in> V then Some (f q) else None) = V" by (auto split: if_splits)
  with m show ?thesis by (metis dom_map_of_conv_image_fst)
qed

lemma counts_of_group:
  assumes "distinct (map fst cs)" and "finite V"
    and "map_of cs = (\<lambda>q. if q \<in> V then Some (counts_of qs flt stats q) else None)"
  shows "qs_counts (group_of cs b) = total_counts qs flt stats {q \<in> V. queue_base q = b}"
proof -
  have dom: "fst ` set cs = V" by (rule dom_entries [OF assms(3)])
  have "(\<Sum>qc\<leftarrow>filter (\<lambda>qc. queue_base (fst qc) = b) cs. f (snd qc)) = (\<Sum>q\<in>{q \<in> V. queue_base q = b}. f (counts_of qs flt stats q))"
    for f :: "queue_result_stats \<Rightarrow> int"
    using sum_of_entries [OF assms(1), where P = "\<lambda>q. queue_base q = b" and f = f]
    by (simp add: comp_def dom assms(3))
  moreover have "wrap_i64 (\<Sum>q\<in>{q \<in> V. queue_base q = b}. wrap_i64 (f q)) = wrap_i64 (\<Sum>q\<in>{q \<in> V. queue_base q = b}. f q)" for f
    by (rule wrap_sum_wrap) (use assms(2) in simp)
  ultimately show ?thesis by (simp add: group_of_def total_counts_def counts_of_def Let_def)
qed

section \<open>Properties\<close>

text \<open>What a row of the statistics says about the visible queues \<open>V\<close> of its base.\<close>

definition row_exact :: "(string set \<Rightarrow> queue_result_stats) \<Rightarrow> (string \<Rightarrow> nat) \<Rightarrow> (string \<Rightarrow> int) \<Rightarrow> string set \<Rightarrow> queue_stats \<Rightarrow> bool" where
  "row_exact tot len lat V row \<longleftrightarrow>
     (let b = qs_key row; mine = {q \<in> V. queue_base q = b}; subs = {q \<in> mine. CHR ''#'' \<in> set q} in
        qs_counts row = tot mine \<and>
        (\<lambda>c. dynamic_key b (dq_suffix c)) ` set (qs_queues row) = subs \<and> sorted (map dq_suffix (qs_queues row)) \<and>
        qs_enqueued row = (if subs = {} then len b else sum len subs) \<and>
        qs_latency row = (if subs = {} then lat b else Max (insert 0 (lat ` subs))))"

lemma filled_rows:
  assumes dist: "distinct (map fst stats)" and dc: "distinct (map fst cs)" and dom: "fst ` set cs = visible qs flt stats now"
    and cs: "map_of cs = (\<lambda>q. if q \<in> visible qs flt stats now then Some (counts_of qs flt stats q) else None)"
    and gs: "\<And>g. g \<in> set gs \<Longrightarrow> \<exists>b \<in> queue_base ` visible qs flt stats now. g = group_of cs b"
    and lv: "\<And>g q. g \<in> set gs \<Longrightarrow> q \<in> set (row_keys g) \<Longrightarrow> liv q = Some (len q, lat q)"
  shows "\<exists>rows. fill_rows liv gs = Some rows \<and> map qs_key rows = map qs_key gs \<and>
    (\<forall>row\<in>set rows. row_exact (total_counts qs flt stats) len lat (visible qs flt stats now) row)"
proof -
  let ?V = "visible qs flt stats now"
  let ?P = "\<lambda>(g :: queue_stats) row. qs_key row = qs_key g \<and> row_exact (total_counts qs flt stats) len lat ?V row"
  have "\<exists>row. fill_row liv g = Some row \<and> ?P g row" if g: "g \<in> set gs" for g
  proof -
    obtain b where b: "b \<in> queue_base ` ?V" "g = group_of cs b" using gs [OF g] by blast
    have bc: "b \<in> queue_base ` fst ` set cs" using b dom by simp
    obtain row where row: "fill_row liv (group_of cs b) = Some row" "qs_key row = b" "qs_counts row = qs_counts (group_of cs b)"
      and rest: "let subs = {q \<in> {q \<in> ?V. queue_base q = b}. CHR ''#'' \<in> set q} in
       (\<lambda>c. dynamic_key b (dq_suffix c)) ` set (qs_queues row) = subs \<and> sorted (map dq_suffix (qs_queues row)) \<and>
       qs_enqueued row = (if subs = {} then len b else sum len subs) \<and>
       qs_latency row = (if subs = {} then lat b else Max (insert 0 (lat ` subs)))"
      using row_ex [OF dc bc dom, of liv len lat, OF lv [OF g, unfolded b(2)]] by blast
    have "row_exact (total_counts qs flt stats) len lat ?V row"
      unfolding row_exact_def Let_def row(2,3) counts_of_group [OF dc visible_finite [OF dist] cs, of b]
      using rest unfolding Let_def by blast
    moreover have "qs_key g = b" using b(2) by (simp add: group_of_def Let_def)
    ultimately show ?thesis using row b(2) by auto
  qed
  from fill_rows_spec [of gs liv ?P, OF this] obtain rows where rows: "fill_rows liv gs = Some rows" "list_all2 ?P gs rows" by blast
  have "list_all2 ?P gs rows \<Longrightarrow> map qs_key rows = map qs_key gs \<and>
      (\<forall>row\<in>set rows. row_exact (total_counts qs flt stats) len lat ?V row)" for gs
    by (induction rule: list_all2_induct) auto
  from this [OF rows(2)] rows(1) show ?thesis by blast
qed


lemma processing_lists_Inr:
  "processing_lists R S ps d = (Inr ls, d') \<Longrightarrow> d' = d \<and> ls = map (\<lambda>p. r_lrange R d (processing_queue (st_keys S) (process_id p))) ps"
  by (induction R S ps arbitrary: ls rule: processing_lists.induct)
    (auto simp: bind_eq_Inr lrange_all_def reading_def split: if_splits)

definition running_job :: "'d redis \<Rightarrow> codec \<Rightarrow> storage \<Rightarrow> 'd \<Rightarrow> string \<times> job_id \<Rightarrow> stats_processing option" where
  "running_job R C S d pi = map_option (\<lambda>e. \<lparr>sp_process_id = fst pi, sp_envelope = e\<rparr>) (payload_of R C S d (snd pi))"

lemma processing_jobs_Inr:
  "processing_jobs R C S es d = (Inr js, d') \<Longrightarrow> d' = d \<and> js = List.map_filter (running_job R C S d) (concat es)"
proof (induction es arbitrary: js)
  case (Cons e es)
  then obtain envs d1 more where j: "jobs_w_conn R C S (map snd e) d = (Inr envs, d1)"
    and m: "processing_jobs R C S es d1 = (Inr more, d')"
    and js: "js = List.map_filter (\<lambda>((p, _), e). map_option (\<lambda>e. \<lparr>sp_process_id = p, sp_envelope = e\<rparr>) e) (zip e envs) @ more"
    by (auto simp: bind_eq_Inr)
  have envs: "d1 = d" "envs = map (payload_of R C S d) (map snd e)" using jobs_w_conn_Inr [OF j] by simp_all
  have "List.map_filter (\<lambda>((p, _), e). map_option (\<lambda>e. \<lparr>sp_process_id = p, sp_envelope = e\<rparr>) e) (zip e (map (payload_of R C S d) (map snd e)))
      = List.map_filter (running_job R C S d) e"
    by (induction e) (auto simp: List.map_filter_simps running_job_def split: option.splits)
  moreover have "List.map_filter (running_job R C S d) (e @ concat es) =
      List.map_filter (running_job R C S d) e @ List.map_filter (running_job R C S d) (concat es)"
    by (simp add: List.map_filter_def)
  ultimately show ?case using Cons.IH [OF m [unfolded envs(1)]] js envs by simp
qed (simp add: List.map_filter_simps)

text \<open>
  The running jobs: whatever the batches it reads in, the list is exactly the readable payloads
  of the identifiers in the processing lists of the live processes, in order, each with its
  process.
\<close>

theorem processing_exact:
  assumes "processing_of R C S (chunks n ps) d = (Inr js, d')"
  shows "d' = d \<and> js = List.map_filter (running_job R C S d)
    (concat (map (\<lambda>p. map (Pair (process_id p)) (r_lrange R d (processing_queue (st_keys S) (process_id p)))) ps))"
proof -
  have "d' = d \<and> js = List.map_filter (running_job R C S d)
      (concat (map (\<lambda>p. map (Pair (process_id p)) (r_lrange R d (processing_queue (st_keys S) (process_id p)))) (concat cs)))"
    if "processing_of R C S cs d = (Inr js, d')" for cs
    using that
  proof (induction cs arbitrary: js)
    case (Cons ps cs)
    then obtain ls d1 jobs d2 more where l: "processing_lists R S ps d = (Inr ls, d1)"
      and j: "processing_jobs R C S (chunks (stats_read_batch_size - 1)
          (concat (map (\<lambda>(p, ids). map (Pair (process_id p)) ids) (zip ps ls)))) d1 = (Inr jobs, d2)"
      and m: "processing_of R C S cs d2 = (Inr more, d')" and js: "js = jobs @ more"
      by (auto simp: bind_eq_Inr)
    have ls: "d1 = d" "ls = map (\<lambda>p. r_lrange R d (processing_queue (st_keys S) (process_id p))) ps"
      using processing_lists_Inr [OF l] by simp_all
    have z: "map (\<lambda>(p, ids). map (Pair (process_id p)) ids) (zip ps ls) =
        map (\<lambda>p. map (Pair (process_id p)) (r_lrange R d (processing_queue (st_keys S) (process_id p)))) ps"
      unfolding ls(2) by (induction ps) simp_all
    have jobs: "d2 = d" "jobs = List.map_filter (running_job R C S d)
        (concat (map (\<lambda>p. map (Pair (process_id p)) (r_lrange R d (processing_queue (st_keys S) (process_id p)))) ps))"
      using processing_jobs_Inr [OF j] ls(1) z by simp_all
    show ?case using Cons.IH [OF m [unfolded jobs(1)]] js jobs(2) by (simp add: List.map_filter_def)
  qed (simp add: List.map_filter_simps)
  from this [OF assms] show ?thesis by simp
qed

section \<open>Witnesses\<close>

definition stats_server :: mem where
  "stats_server = [(''app:stats'', VHash [(''mail#a:processed'', ''2''), (''mail#b:processed'', ''3'')])]"

lemma stats_server_inputs:
  "queue_stats_inputs mem_redis None sample_storage stats_server =
     (Inr [(''mail#a:processed'', 2), (''mail#b:processed'', 3)], stats_server)"
  by (simp add: queue_stats_inputs_def stats_server_def sample_run sample_storage_def storage_keys_new_def lift_result_def
      parse_i64_def in_i64_def char_digit_def)

definition mail_rows :: "queue_stats list" where
  "mail_rows = fst (aggregate_queue_stats [] [(''mail#a:processed'', 2), (''mail#b:processed'', 3)] False 0)"

lemma mail_row_keys: "concat (map row_keys mail_rows) = [''mail#a'', ''mail#b'']"
  by (simp add: mail_rows_def aggregate_queue_stats_def aggregate_entry_def rsplit_colon_def fresh_snapshots_def
      List.map_filter_simps update_entry_def group_queues_def add_queue_def split_hash_def queue_base_def queue_stats_new_def
      row_keys_def dynamic_key_def Let_def)

lemma mail_snapshots: "snd (aggregate_queue_stats [] [(''mail#a:processed'', 2), (''mail#b:processed'', 3)] False 0) = Map.empty"
  by (simp add: aggregate_queue_stats_def aggregate_entry_def rsplit_colon_def fresh_snapshots_def List.map_filter_simps)

lemma stats_server_rows:
  "\<exists>r. build_queue_stats mem_redis None netstring_codec sample_storage (\<lambda>_. 0) 0 [] False stats_server = (Inr r, stats_server)"
proof -
  have "\<exists>l. queue_lengths_and_latencies mem_redis netstring_codec sample_storage (\<lambda>_. 0) [''mail#a'', ''mail#b''] Map.empty stats_server
      = (Inr l, stats_server)"
    by (simp add: queue_lengths_and_latencies_def live_chunk_def lindex_last_def jobs_w_conn_def List.map_filter_simps
        sample_run sample_storage_def storage_keys_new_def stats_server_def namespace_queue_def)
  then show ?thesis
    by (auto simp: build_queue_stats_def bind_Inr [of "queue_stats_inputs mem_redis None sample_storage", OF stats_server_inputs]
        case_prod_beta mail_rows_def [symmetric] mail_row_keys mail_snapshots bind_Inr)
qed


end
