(* ===== verification/Metrics_Query.thy ===== *)
theory Metrics_Query
  imports Queue_Stats "HOL-Library.Multiset"
begin

text \<open>
  Reading the execution metrics back: \<^verbatim>\<open>job_metrics\<close>, \<^verbatim>\<open>job_metrics_for\<close>,
  \<^verbatim>\<open>queue_length_metrics\<close> and the hash readers they use, of \<^verbatim>\<open>storage_internal.rs\<close>, over the
  aggregation functions of \<open>Metrics\<close>. The bit fields of the histograms are read by the parameter
  \<open>bitfield_get\<close>, which answers one reply per requested field. The main result compares the two
  ways of reading the metrics of a worker: the overview reads whole hashes, the detail page seven
  fields of each.
\<close>

section \<open>Reading\<close>

fun hash_values :: "'d redis \<Rightarrow> string list \<Rightarrow> ('d, (string \<times> int) list list) op" where
  "hash_values R [] = return []"
| "hash_values R (k # ks) = bind (hgetall R k) (\<lambda>kvs. bind (hash_values R ks) (\<lambda>hs.
     lift_result (case parse_stats kvs of Inl e \<Rightarrow> Inl e | Inr h \<Rightarrow> Inr (h # hs))))"

definition metrics_counter_hashes :: "'d redis \<Rightarrow> storage \<Rightarrow> int list \<Rightarrow> ('d, (string \<times> int) list list) op" where
  "metrics_counter_hashes R S minutes =
     (if minutes = [] then return [] else hash_values R (map (metrics_counter_key (st_keys S)) minutes))"

definition queue_length_metric_hashes :: "'d redis \<Rightarrow> storage \<Rightarrow> int list \<Rightarrow> ('d, (string \<times> int) list list) op" where
  "queue_length_metric_hashes R S minutes =
     (if minutes = [] then return [] else hash_values R (map (metrics_queue_length_key (st_keys S)) minutes))"

definition queue_counter_metric_hashes :: "'d redis \<Rightarrow> storage \<Rightarrow> int list \<Rightarrow> ('d, (string \<times> int) list list) op" where
  "queue_counter_metric_hashes R S minutes =
     (if minutes = [] then return [] else hash_values R (map (metrics_queue_counter_key (st_keys S)) minutes))"

text \<open>The seven fields of a worker in one hash: the fields that are there, with their values.\<close>

fun parse_fields :: "(string \<times> string option) list \<Rightarrow> oxana_error + (string \<times> int) list" where
  "parse_fields [] = Inr []"
| "parse_fields ((f, None) # rest) = parse_fields rest"
| "parse_fields ((f, Some s) # rest) = (case parse_i64 s of
       None \<Rightarrow> Inl (DeadpoolRedisError OtherRedisError)
     | Some v \<Rightarrow> (case parse_fields rest of Inl e \<Rightarrow> Inl e | Inr kvs \<Rightarrow> Inr ((f, v) # kvs)))"

fun field_values :: "'d redis \<Rightarrow> string list \<Rightarrow> string list \<Rightarrow> ('d, (string \<times> int) list list) op" where
  "field_values R fs [] = return []"
| "field_values R fs (k # ks) = bind (hmget R k fs) (\<lambda>vs. bind (field_values R fs ks) (\<lambda>hs.
     lift_result (case parse_fields (zip fs vs) of Inl e \<Rightarrow> Inl e | Inr h \<Rightarrow> Inr (h # hs))))"

definition metrics_counter_hashes_for ::
    "'d redis \<Rightarrow> storage \<Rightarrow> int list \<Rightarrow> string \<Rightarrow> ('d, (string \<times> int) list list) op" where
  "metrics_counter_hashes_for R S minutes worker =
     (if minutes = [] then return []
      else field_values R (map (metric_field worker) job_metric_keys) (map (metrics_counter_key (st_keys S)) minutes))"

definition add_bucket_values :: "nat option list \<Rightarrow> nat list \<Rightarrow> nat list" where
  "add_bucket_values values totals =
     fold (\<lambda>(idx, v) ts. if idx < length ts then ts[idx := sat_add_u64 (ts ! idx) (case v of Some n \<Rightarrow> n | None \<Rightarrow> 0)] else ts)
       (List.enumerate 0 values) totals"

fun bitfield_values :: "(string \<Rightarrow> string list \<Rightarrow> ('d, nat option list) op) \<Rightarrow> string list \<Rightarrow> ('d, nat option list list) op" where
  "bitfield_values bitfield_get [] = return []"
| "bitfield_values bitfield_get (k # ks) = bind (bitfield_get k histogram_bitfield_fetch_args) (\<lambda>v.
     bind (bitfield_values bitfield_get ks) (\<lambda>vs. return (v # vs)))"

definition metrics_histogram_counts_for ::
    "(string \<Rightarrow> string list \<Rightarrow> ('d, nat option list) op) \<Rightarrow> storage \<Rightarrow> int list \<Rightarrow> string \<Rightarrow> ('d, nat list) op" where
  "metrics_histogram_counts_for bitfield_get S minutes worker =
     (if minutes = [] then return (replicate histogram_bucket_count 0)
      else bind (bitfield_values bitfield_get (map (metrics_histogram_key (st_keys S) (field_key worker)) minutes)) (\<lambda>values.
        return (fold add_bucket_values values (replicate histogram_bucket_count 0))))"

section \<open>Queries\<close>

text \<open>\<open>now\<close> is the clock, \<open>n\<close> the number of minutes asked for.\<close>

record job_metrics_snapshot =
  js_starts_at :: int
  js_ends_at :: int
  js_minutes :: nat
  js_totals :: job_metrics_totals
  js_series :: "job_metrics_point list"
  js_workers :: "worker_summary list"

record job_metrics_detail =
  jd_identity :: string
  jd_starts_at :: int
  jd_ends_at :: int
  jd_minutes :: nat
  jd_totals :: job_metrics_totals
  jd_series :: "job_metrics_point list"
  jd_histogram :: "histogram_bucket list"

record queue_length_metrics_snapshot =
  lm_starts_at :: int
  lm_ends_at :: int
  lm_minutes :: nat
  lm_queues :: "queue_length_series list"

definition window_start :: "int list \<Rightarrow> int" where
  "window_start minutes = (if minutes = [] then 0 else hd minutes) * 60"

definition window_end :: "int list \<Rightarrow> int" where
  "window_end minutes = (if minutes = [] then 0 else last minutes) * 60"

definition job_metrics :: "'d redis \<Rightarrow> 'd redis option \<Rightarrow> storage \<Rightarrow> int \<Rightarrow> nat \<Rightarrow> ('d, job_metrics_snapshot) op" where
  "job_metrics R st S now n =
     (let minutes = metric_minutes now n in
      with_connection (stats_redis R st) (bind (metrics_counter_hashes (stats_redis R st) S minutes) (\<lambda>hs.
        let (totals, series, workers) = aggregate_counter_hashes minutes hs None in
        return \<lparr>js_starts_at = window_start minutes, js_ends_at = window_end minutes, js_minutes = length minutes,
          js_totals = totals, js_series = series, js_workers = workers\<rparr>)))"

definition job_metrics_for ::
    "'d redis \<Rightarrow> 'd redis option \<Rightarrow> storage \<Rightarrow> (string \<Rightarrow> string list \<Rightarrow> ('d, nat option list) op) \<Rightarrow> string \<Rightarrow> int \<Rightarrow> nat
       \<Rightarrow> ('d, job_metrics_detail) op" where
  "job_metrics_for R st S bitfield_get worker now n =
     (let minutes = metric_minutes now n in
      with_connection (stats_redis R st) (bind (metrics_counter_hashes_for (stats_redis R st) S minutes worker) (\<lambda>hs.
        let (totals, series, _) = aggregate_counter_hashes minutes hs (Some worker) in
        bind (metrics_histogram_counts_for bitfield_get S minutes worker) (\<lambda>counts.
        return \<lparr>jd_identity = worker, jd_starts_at = window_start minutes, jd_ends_at = window_end minutes,
          jd_minutes = length minutes, jd_totals = totals, jd_series = series,
          jd_histogram = histogram_buckets_from_counts counts\<rparr>))))"

definition queue_length_metrics ::
    "'d redis \<Rightarrow> 'd redis option \<Rightarrow> storage \<Rightarrow> int \<Rightarrow> nat \<Rightarrow> ('d, queue_length_metrics_snapshot) op" where
  "queue_length_metrics R st S now n =
     (let minutes = metric_minutes now n in
      with_connection (stats_redis R st) (bind (queue_length_metric_hashes (stats_redis R st) S minutes) (\<lambda>hs.
        return \<lparr>lm_starts_at = window_start minutes, lm_ends_at = window_end minutes, lm_minutes = length minutes,
          lm_queues = queue_length_series_from_hashes minutes hs\<rparr>)))"

section \<open>What the aggregation computes\<close>

definition count_metrics :: "(string \<times> nat) list \<Rightarrow> 'a job_metrics_totals_scheme \<Rightarrow> 'a job_metrics_totals_scheme" where
  "count_metrics kvs t = fold (\<lambda>(m, v). add_metric m v) kvs t"

text \<open>The metrics of a worker in a hash.\<close>

definition worker_values :: "string \<Rightarrow> (string \<times> int) list \<Rightarrow> (string \<times> nat) list" where
  "worker_values w h = List.map_filter (\<lambda>(f, raw). case split_metric_field f of
     None \<Rightarrow> None | Some (w', m) \<Rightarrow> if w' = w then Some (m, u64_or_zero raw) else None) h"

lemma count_metrics_simps [simp]:
  "count_metrics [] t = t" "count_metrics (kv # kvs) t = count_metrics kvs (add_metric (fst kv) (snd kv) t)"
  "count_metrics (kvs @ kvs') t = count_metrics kvs' (count_metrics kvs t)"
  by (simp_all add: count_metrics_def case_prod_beta)

lemma sat_add_commute: "sat_add_u64 (sat_add_u64 a b) c = sat_add_u64 (sat_add_u64 a c) b"
  by (simp add: sat_add_u64_def)

lemma add_metric_commute: "add_metric m v (add_metric m' v' t) = add_metric m' v' (add_metric m v t)"
  by (cases "m = m'") (simp_all add: add_metric_def sat_add_commute)

lemma count_metrics_perm: "mset kvs = mset kvs' \<Longrightarrow> count_metrics kvs t = count_metrics kvs' t"
  unfolding count_metrics_def
  by (rule fold_multiset_equiv [THEN fun_cong]) (auto simp: fun_eq_iff add_metric_commute)

lemma worker_values_Nil [simp]: "worker_values w [] = []"
  by (simp add: worker_values_def List.map_filter_simps)

lemma worker_values_one: "worker_values w [fv] = (case split_metric_field (fst fv) of
     None \<Rightarrow> [] | Some (w', m) \<Rightarrow> if w' = w then [(m, u64_or_zero (snd fv))] else [])"
  by (auto simp: worker_values_def List.map_filter_simps case_prod_beta split: option.splits)

lemma worker_values_Cons: "worker_values w (fv # h) = worker_values w [fv] @ worker_values w h"
  by (simp add: worker_values_def List.map_filter_simps split: option.split)

text \<open>The progress of one worker through a hash.\<close>

definition worker_entry :: "int list \<Rightarrow> aggregation \<Rightarrow> string \<Rightarrow> job_metrics_totals \<times> job_metrics_point list" where
  "worker_entry minutes ag w = (case map_of (ag_workers ag) w of Some e \<Rightarrow> e | None \<Rightarrow> (totals_default, map point_at minutes))"

definition count_entry ::
    "nat \<Rightarrow> (string \<times> nat) list \<Rightarrow> job_metrics_totals \<times> job_metrics_point list \<Rightarrow> job_metrics_totals \<times> job_metrics_point list" where
  "count_entry idx kvs e = (count_metrics kvs (fst e),
     if idx < length (snd e) then (snd e)[idx := count_metrics kvs (snd e ! idx)] else snd e)"

lemma count_entry_append: "count_entry idx (kvs @ kvs') e = count_entry idx kvs' (count_entry idx kvs e)"
  by (simp add: count_entry_def)

lemma count_entry_Nil [simp]: "count_entry idx [] e = e"
  by (simp add: count_entry_def)

lemma update_entry_keys: "fst ` set (update_entry k v f al) = insert k (fst ` set al)"
  by (simp add: update_entry_def update_conv' flip: dom_map_of_conv_image_fst)

lemma update_entry_distinct: "distinct (map fst al) \<Longrightarrow> distinct (map fst (update_entry k v f al))"
  by (simp add: update_entry_def distinct_update)

lemma series_length [simp]:
  "length (ag_series (aggregate_field minutes flt idx fv ag)) = length (ag_series ag)"
  "length (ag_series (fold (aggregate_field minutes flt idx) h ag)) = length (ag_series ag)"
  "length (ag_series (aggregate_hash minutes flt ih ag)) = length (ag_series ag)"
proof -
  show one: "length (ag_series (aggregate_field minutes flt idx fv ag)) = length (ag_series ag)" for fv ag
    by (auto simp: aggregate_field_def Let_def split: prod.splits option.splits)
  show two: "length (ag_series (fold (aggregate_field minutes flt idx) h ag)) = length (ag_series ag)" for h idx ag
    by (induction h arbitrary: ag) (auto simp: aggregate_field_def Let_def split: prod.splits option.splits)
  show "length (ag_series (aggregate_hash minutes flt ih ag)) = length (ag_series ag)"
    using two by (simp add: aggregate_hash_def Let_def split: prod.split)
qed

subsection \<open>All workers\<close>

lemma aggregate_field_entry:
  "worker_entry minutes (aggregate_field minutes None idx fv ag) w =
     count_entry idx (worker_values w [fv]) (worker_entry minutes ag w)"
  by (cases "split_metric_field (fst fv)"; cases fv)
    (auto simp: aggregate_field_def worker_entry_def count_entry_def worker_values_one Let_def map_of_update_entry split: prod.split option.split)

lemma aggregate_fields_entry:
  "worker_entry minutes (fold (aggregate_field minutes None idx) h ag) w =
     count_entry idx (worker_values w h) (worker_entry minutes ag w)"
proof (induction h arbitrary: ag)
  case (Cons fv h)
  then show ?case
    by (simp only: fold_simps aggregate_field_entry worker_values_Cons [of w fv h] count_entry_append)
qed simp

lemma aggregate_fields_workers:
  "fst ` set (ag_workers (fold (aggregate_field minutes None idx) h ag)) =
     fst ` set (ag_workers ag) \<union> {w. worker_values w h \<noteq> []}"
proof (induction h arbitrary: ag)
  case (Cons fv h)
  have "fst ` set (ag_workers (aggregate_field minutes None idx fv ag)) =
      fst ` set (ag_workers ag) \<union> {w. worker_values w [fv] \<noteq> []}"
    by (cases "split_metric_field (fst fv)"; cases fv)
      (simp_all add: aggregate_field_def Let_def update_entry_keys worker_values_one case_prod_beta)
  with Cons [of "aggregate_field minutes None idx fv ag"] show ?case by (auto simp: worker_values_Cons [of _ fv h])
qed simp

lemma aggregate_fields_distinct:
  "distinct (map fst (ag_workers ag)) \<Longrightarrow> distinct (map fst (ag_workers (fold (aggregate_field minutes flt idx) h ag)))"
proof (induction h arbitrary: ag)
  case (Cons fv h)
  have "distinct (map fst (ag_workers (aggregate_field minutes flt idx fv ag)))"
    using Cons.prems by (cases fv) (auto simp: aggregate_field_def update_entry_distinct Let_def split: prod.split option.split)
  with Cons.IH show ?case by simp
qed simp

lemma worker_entry_series [simp]: "worker_entry minutes (ag\<lparr>ag_series := x\<rparr>) w = worker_entry minutes ag w"
  by (simp add: worker_entry_def)

lemma aggregate_all:
  assumes "n + length hs \<le> length (ag_series ag)" and "distinct (map fst (ag_workers ag))"
  shows "let ag' = fold (aggregate_hash minutes None) (List.enumerate n hs) ag in
    distinct (map fst (ag_workers ag')) \<and>
    fst ` set (ag_workers ag') = fst ` set (ag_workers ag) \<union> {w. \<exists>h \<in> set hs. worker_values w h \<noteq> []} \<and>
    worker_entry minutes ag' w = fold (\<lambda>(idx, h). count_entry idx (worker_values w h)) (List.enumerate n hs) (worker_entry minutes ag w)"
  using assms
proof (induction hs arbitrary: n ag)
  case (Cons h hs)
  let ?ag = "aggregate_hash minutes None (n, h) ag"
  from Cons.prems have n: "n < length (ag_series ag)" by simp
  then have "distinct (map fst (ag_workers ?ag))"
    "fst ` set (ag_workers ?ag) = fst ` set (ag_workers ag) \<union> {w. worker_values w h \<noteq> []}"
    "worker_entry minutes ?ag w = count_entry n (worker_values w h) (worker_entry minutes ag w)"
    using Cons.prems(2) by (simp_all add: aggregate_hash_def Let_def aggregate_fields_distinct aggregate_fields_workers aggregate_fields_entry)
  with Cons.IH [of "Suc n" ?ag] Cons.prems(1) show ?case by (auto simp: Let_def)
qed simp

lemma count_entries:
  assumes "n + length hs = length (snd e)"
  shows "let e' = fold (\<lambda>(idx, h). count_entry idx (worker_values w h)) (List.enumerate n hs) e in
    fst e' = count_metrics (concat (map (worker_values w) hs)) (fst e) \<and>
    snd e' = take n (snd e) @ map2 (\<lambda>h p. count_metrics (worker_values w h) p) hs (drop n (snd e))"
  using assms
proof (induction hs arbitrary: n e)
  case (Cons h hs)
  let ?e = "count_entry n (worker_values w h) e"
  from Cons.prems have n: "n < length (snd e)" by simp
  have "snd ?e = (snd e)[n := count_metrics (worker_values w h) (snd e ! n)]" using n by (simp add: count_entry_def)
  moreover have "drop n (snd e) = snd e ! n # drop (Suc n) (snd e)" using n by (rule Cons_nth_drop_Suc [symmetric])
  moreover have "take (Suc n) ((snd e)[n := x]) = take n (snd e) @ [x]" for x using n by (simp add: take_Suc_conv_app_nth)
  ultimately show ?case
    using Cons.IH [of "Suc n" ?e] Cons.prems n by (simp add: Let_def) (simp add: count_entry_def)
qed simp

subsection \<open>One worker\<close>

lemma aggregate_fields_for:
  assumes "idx < length (ag_series ag)"
  shows "ag_totals (fold (aggregate_field minutes (Some w) idx) h ag) = count_metrics (worker_values w h) (ag_totals ag) \<and>
    ag_series (fold (aggregate_field minutes (Some w) idx) h ag) =
      (ag_series ag)[idx := count_metrics (worker_values w h) (ag_series ag ! idx)]"
  using assms
proof (induction h arbitrary: ag)
  case (Cons fv h)
  have "ag_totals (aggregate_field minutes (Some w) idx fv ag) = count_metrics (worker_values w [fv]) (ag_totals ag)"
    "ag_series (aggregate_field minutes (Some w) idx fv ag) = (ag_series ag)[idx := count_metrics (worker_values w [fv]) (ag_series ag ! idx)]"
    by (cases fv; auto simp: aggregate_field_def Let_def worker_values_one split: prod.split option.split)+
  with Cons show ?case by (simp add: worker_values_Cons [of w fv h])
qed simp

lemma aggregate_for:
  assumes "n + length hs = length (ag_series ag)"
  shows "let ag' = fold (aggregate_hash minutes (Some w)) (List.enumerate n hs) ag in
    ag_totals ag' = count_metrics (concat (map (worker_values w) hs)) (ag_totals ag) \<and>
    ag_series ag' = take n (ag_series ag) @ map2 (\<lambda>h p. finalize (count_metrics (worker_values w h) p)) hs (drop n (ag_series ag))"
  using assms
proof (induction hs arbitrary: n ag)
  case (Cons h hs)
  let ?ag = "aggregate_hash minutes (Some w) (n, h) ag"
  from Cons.prems have n: "n < length (ag_series ag)" by simp
  have "ag_totals ?ag = count_metrics (worker_values w h) (ag_totals ag)"
    "ag_series ?ag = (ag_series ag)[n := finalize (count_metrics (worker_values w h) (ag_series ag ! n))]"
    using n aggregate_fields_for [OF n, of minutes w h] by (simp_all add: aggregate_hash_def Let_def)
  moreover have "drop n (ag_series ag) = ag_series ag ! n # drop (Suc n) (ag_series ag)"
    using n by (rule Cons_nth_drop_Suc [symmetric])
  moreover have "take (Suc n) ((ag_series ag)[n := x]) = take n (ag_series ag) @ [x]" for x
    using n by (simp add: take_Suc_conv_app_nth)
  ultimately show ?case using Cons.IH [of "Suc n" ?ag] Cons.prems n by (simp add: Let_def)
qed simp

section \<open>Whole hashes and single fields\<close>

lemma hash_values_Inr:
  "hash_values R ks d = (Inr hs, d') \<Longrightarrow> d' = d \<and> list_all2 (\<lambda>k h. parse_stats (r_hgetall R d k) = Inr h) ks hs"
proof (induction ks arbitrary: hs d')
  case (Cons k ks)
  then obtain hs' h d1 where "hash_values R ks d = (Inr hs', d1)" "parse_stats (r_hgetall R d k) = Inr h" "hs = h # hs'" "d' = d1"
    by (cases "parse_stats (r_hgetall R d k)") (auto simp: bind_eq_Inr redis_defs lift_result_def split: if_splits)
  with Cons.IH [of hs' d1] show ?case by simp
qed (simp add: return_def)

lemma field_values_Inr:
  "field_values R fs ks d = (Inr hs, d') \<Longrightarrow>
     d' = d \<and> list_all2 (\<lambda>k h. parse_fields (zip fs (map (r_hget R d k) fs)) = Inr h) ks hs"
proof (induction ks arbitrary: hs d')
  case (Cons k ks)
  then obtain hs' h d1 where "field_values R fs ks d = (Inr hs', d1)"
      "parse_fields (zip fs (map (r_hget R d k) fs)) = Inr h" "hs = h # hs'" "d' = d1"
    by (cases "parse_fields (zip fs (map (r_hget R d k) fs))")
      (auto simp: bind_eq_Inr redis_defs lift_result_def split: if_splits)
  with Cons.IH [of hs' d1] show ?case by simp
qed (simp add: return_def)

lemma parse_stats_values:
  "parse_stats kvs = Inr h \<Longrightarrow> map_of h f = Option.bind (map_of kvs f) parse_i64"
  by (induction kvs arbitrary: h rule: parse_stats.induct) (auto split: option.splits sum.splits)

lemma parse_fields_values:
  "parse_fields (zip fs (map g fs)) = Inr h \<Longrightarrow> (f, v) \<in> set h \<longleftrightarrow> f \<in> set fs \<and> Option.bind (g f) parse_i64 = Some v"
proof (induction fs arbitrary: h)
  case (Cons f' fs)
  then show ?case by (cases "g f'") (auto split: option.splits sum.splits)
qed simp

lemma parse_fields_distinct:
  "parse_fields (zip fs (map g fs)) = Inr h \<Longrightarrow> distinct fs \<Longrightarrow> distinct (map fst h)"
proof (induction fs arbitrary: h)
  case (Cons f fs)
  have "f \<notin> fst ` set h'" if "parse_fields (zip fs (map g fs)) = Inr h'" for h'
    using parse_fields_values [OF that] Cons.prems(2) by force
  with Cons show ?case by (cases "g f") (auto split: option.splits sum.splits)
qed simp

text \<open>A field that belongs to the worker is the one the code writes.\<close>

definition canonical :: "string \<Rightarrow> string \<Rightarrow> bool" where
  "canonical w f \<longleftrightarrow> (\<forall>m. split_metric_field f = Some (w, m) \<longrightarrow> f = metric_field w m)"

lemma split_metric_key: "split_metric_field f = Some (w, m) \<Longrightarrow> m \<in> set job_metric_keys"
  by (auto simp: split_metric_field_def bind_eq_Some_conv split: if_splits)

lemma worker_values_mem:
  "(m, x) \<in> set (worker_values w h) \<longleftrightarrow> (\<exists>f v. (f, v) \<in> set h \<and> split_metric_field f = Some (w, m) \<and> x = u64_or_zero v)"
proof (induction h)
  case (Cons fv h)
  have "(m, x) \<in> set (worker_values w [fv]) \<longleftrightarrow> split_metric_field (fst fv) = Some (w, m) \<and> x = u64_or_zero (snd fv)"
    by (auto simp: worker_values_one split: option.split prod.split)
  with Cons show ?case unfolding worker_values_Cons [of w fv h] by (cases fv) auto
qed simp

lemma worker_values_distinct:
  "distinct (map fst h) \<Longrightarrow> (\<And>f v. (f, v) \<in> set h \<Longrightarrow> canonical w f) \<Longrightarrow> distinct (map fst (worker_values w h))"
proof (induction h)
  case (Cons fv h)
  obtain f v where fv: "fv = (f, v)" by (cases fv)
  have "m \<notin> fst ` set (worker_values w h)" if "split_metric_field f = Some (w, m)" for m
  proof
    assume "m \<in> fst ` set (worker_values w h)"
    then obtain f' v' where "(f', v') \<in> set h" "split_metric_field f' = Some (w, m)"
      by (auto simp: worker_values_mem)
    moreover from this have "canonical w f" "canonical w f'" using Cons.prems(2) fv by auto
    ultimately have "f = f'" using that by (simp add: canonical_def)
    with \<open>(f', v') \<in> set h\<close> Cons.prems(1) fv show False by (simp add: rev_image_eqI)
  qed
  with Cons fv show ?case
    by (auto simp: worker_values_Cons [of w "(f, v)" h] worker_values_one split: option.split prod.split)
qed simp

lemma worker_values_agree:
  assumes "redis_server R" and "length w \<le> u64_max"
    and "parse_stats (r_hgetall R d k) = Inr h"
    and "parse_fields (zip (map (metric_field w) job_metric_keys) (map (r_hget R d k) (map (metric_field w) job_metric_keys))) = Inr h'"
    and "\<And>f. r_hget R d k f \<noteq> None \<Longrightarrow> canonical w f"
  shows "mset (worker_values w h') = mset (worker_values w h)"
proof -
  have keys: "map fst h = map fst (r_hgetall R d k)" by (rule parse_stats_keys [OF assms(3)])
  have dh: "distinct (map fst h)" unfolding keys by (rule redis_server.hgetall_distinct [OF assms(1)])
  have val: "map_of h f = Option.bind (r_hget R d k f) parse_i64" for f
    using parse_stats_values [OF assms(3)] redis_server.hgetall_map [OF assms(1)] by simp
  have mem: "(f, v) \<in> set h \<longleftrightarrow> Option.bind (r_hget R d k f) parse_i64 = Some v" for f v
    using val map_of_eq_Some_iff [OF dh, of f v] by auto
  have mem': "(f, v) \<in> set h' \<longleftrightarrow> f \<in> metric_field w ` set job_metric_keys \<and> Option.bind (r_hget R d k f) parse_i64 = Some v" for f v
    using parse_fields_values [OF assms(4)] by simp
  have "distinct (map (metric_field w) job_metric_keys)" by (simp add: job_metric_keys_def metric_field_def)
  from parse_fields_distinct [OF assms(4) this] have dh': "distinct (map fst h')" .
  have canon: "canonical w f" if "(f, v) \<in> set h" for f v
    using that assms(5) [of f] mem by (cases "r_hget R d k f") auto
  have split: "split_metric_field (metric_field w m) = Some (w, m)" if "m \<in> set job_metric_keys" for m
    using metric_names_roundtrip [OF assms(2) that, of "''p''"] by (simp add: queue_metric_keys_def)
  have canon': "canonical w f" if "(f, v) \<in> set h'" for f v
    using that mem' split by (auto simp: canonical_def)
  have "set (worker_values w h') = set (worker_values w h)"
  proof (intro set_eqI iffI)
    fix y assume y: "y \<in> set (worker_values w h')"
    obtain m x where "y = (m, x)" by (cases y)
    with y show "y \<in> set (worker_values w h)" by (auto simp: worker_values_mem mem mem')
  next
    fix y assume y: "y \<in> set (worker_values w h)"
    obtain m x where yx: "y = (m, x)" by (cases y)
    with y obtain f v where f: "(f, v) \<in> set h" "split_metric_field f = Some (w, m)" "x = u64_or_zero v"
      by (auto simp: worker_values_mem)
    then have "f = metric_field w m" "m \<in> set job_metric_keys"
      using canon [OF f(1)] split_metric_key [OF f(2)] by (auto simp: canonical_def)
    with f yx show "y \<in> set (worker_values w h')" by (auto simp: worker_values_mem mem mem')
  qed
  moreover have "distinct (worker_values w h)" "distinct (worker_values w h')"
    using worker_values_distinct [OF dh canon] worker_values_distinct [OF dh' canon'] by (simp_all add: distinct_map)
  ultimately show ?thesis by (simp add: set_eq_iff_mset_eq_distinct)
qed

section \<open>Properties\<close>

lemma finalize_zero [simp]: "finalize totals_default = totals_default" "finalize (point_at m) = point_at m"
  by (simp_all add: finalize_def totals_default_def point_at_def job_metrics_totals.defs job_metrics_point.defs Let_def)

text \<open>What the overview and the detail query return, in terms of the hashes they read.\<close>

lemma job_metrics_workers:
  assumes "length hs = length minutes" and "aggregate_counter_hashes minutes hs None = (totals, series, workers)"
  shows "ws \<in> set workers \<Longrightarrow>
      ws_totals ws = finalize (count_metrics (concat (map (worker_values (ws_identity ws)) hs)) totals_default) \<and>
      ws_series ws = map2 (\<lambda>h p. finalize (count_metrics (worker_values (ws_identity ws) h) p)) hs (map point_at minutes)"
    and "w \<in> ws_identity ` set workers \<longleftrightarrow> (\<exists>h \<in> set hs. worker_values w h \<noteq> [])"
proof -
  let ?start = "\<lparr>ag_totals = totals_default, ag_series = map point_at minutes, ag_workers = []\<rparr>"
  let ?ag = "fold (aggregate_hash minutes None) (List.enumerate 0 hs) ?start"
  have all: "distinct (map fst (ag_workers ?ag))"
    "fst ` set (ag_workers ?ag) = {w. \<exists>h \<in> set hs. worker_values w h \<noteq> []}"
    "worker_entry minutes ?ag w = fold (\<lambda>(idx, h). count_entry idx (worker_values w h)) (List.enumerate 0 hs)
       (totals_default, map point_at minutes)" for w
    using aggregate_all [of 0 hs ?start minutes w] assms(1) by (simp_all add: Let_def worker_entry_def)
  have entry: "worker_entry minutes ?ag w = (count_metrics (concat (map (worker_values w) hs)) totals_default,
      map2 (\<lambda>h p. count_metrics (worker_values w h) p) hs (map point_at minutes))" for w
    using count_entries [of 0 hs "(totals_default, map point_at minutes)" w] assms(1) all(3) [of w]
    by (simp add: Let_def prod_eq_iff)
  have "workers = snd (snd (aggregate_counter_hashes minutes hs None))" using assms(2) by simp
  then have workers: "set workers = (\<lambda>(w, t, ps). \<lparr>ws_identity = w, ws_totals = finalize t, ws_series = map finalize ps\<rparr>) ` set (ag_workers ?ag)"
    by (simp only: aggregate_counter_hashes_def Let_def snd_conv set_sort set_map)
  show "ws_totals ws = finalize (count_metrics (concat (map (worker_values (ws_identity ws)) hs)) totals_default) \<and>
      ws_series ws = map2 (\<lambda>h p. finalize (count_metrics (worker_values (ws_identity ws) h) p)) hs (map point_at minutes)"
    if "ws \<in> set workers"
  proof -
    from that workers obtain w t ps where w: "(w, t, ps) \<in> set (ag_workers ?ag)"
        "ws = \<lparr>ws_identity = w, ws_totals = finalize t, ws_series = map finalize ps\<rparr>" by auto
    with all(1) have "worker_entry minutes ?ag w = (t, ps)" by (simp add: worker_entry_def map_of_is_SomeI)
    with entry [of w] w(2) show ?thesis by (auto simp: case_prod_beta)
  qed
  show "w \<in> ws_identity ` set workers \<longleftrightarrow> (\<exists>h \<in> set hs. worker_values w h \<noteq> [])"
    using all(2) unfolding workers by (force simp: image_image case_prod_beta)
qed

lemma job_metrics_single:
  assumes "length hs = length minutes" and "aggregate_counter_hashes minutes hs (Some w) = (totals, series, workers)"
  shows "totals = finalize (count_metrics (concat (map (worker_values w) hs)) totals_default) \<and>
    series = map2 (\<lambda>h p. finalize (count_metrics (worker_values w h) p)) hs (map point_at minutes)"
  using assms aggregate_for [of 0 hs "\<lparr>ag_totals = totals_default, ag_series = map point_at minutes, ag_workers = []\<rparr>" minutes w]
  by (auto simp: aggregate_counter_hashes_def Let_def)

lemma counter_hashes_Inr:
  "metrics_counter_hashes R S minutes d = (Inr hs, d') \<Longrightarrow> length hs = length minutes \<and> d' = d \<and>
     list_all2 (\<lambda>m h. parse_stats (r_hgetall R d (metrics_counter_key (st_keys S) m)) = Inr h) minutes hs"
  by (auto simp: metrics_counter_hashes_def return_def list_all2_map1 split: if_splits
      dest!: hash_values_Inr dest: list_all2_lengthD)

lemma counter_hashes_for_Inr:
  "metrics_counter_hashes_for R S minutes w d = (Inr hs, d') \<Longrightarrow> length hs = length minutes \<and> d' = d \<and>
     list_all2 (\<lambda>m h. parse_fields (zip (map (metric_field w) job_metric_keys)
       (map (r_hget R d (metrics_counter_key (st_keys S) m)) (map (metric_field w) job_metric_keys))) = Inr h) minutes hs"
  by (auto simp: metrics_counter_hashes_for_def return_def list_all2_map1 simp del: map_map split: if_splits
      dest!: field_values_Inr dest: list_all2_lengthD)

lemma job_metrics_Inr:
  assumes "job_metrics R st S now n d = (Inr snap, d')"
  obtains hs where "metrics_counter_hashes (stats_redis R st) S (metric_minutes now n) d = (Inr hs, d)"
    "aggregate_counter_hashes (metric_minutes now n) hs None = (js_totals snap, js_series snap, js_workers snap)"
    "js_starts_at snap = window_start (metric_minutes now n)" "js_ends_at snap = window_end (metric_minutes now n)"
proof -
  let ?minutes = "metric_minutes now n"
  from assms obtain hs d0 where h: "metrics_counter_hashes (stats_redis R st) S ?minutes d = (Inr hs, d0)"
    and r: "(case aggregate_counter_hashes ?minutes hs None of (totals, series, workers) \<Rightarrow>
        return \<lparr>js_starts_at = window_start ?minutes, js_ends_at = window_end ?minutes, js_minutes = length ?minutes,
          js_totals = totals, js_series = series, js_workers = workers\<rparr>) d0 = (Inr snap, d')"
    unfolding job_metrics_def Let_def with_connection_Inr bind_eq_Inr by blast
  obtain totals series workers where a: "aggregate_counter_hashes ?minutes hs None = (totals, series, workers)" by (rule prod_cases3)
  from r a show thesis using h counter_hashes_Inr [OF h] by (intro that [of hs]) (auto simp: return_def)
qed

lemma job_metrics_for_Inr:
  assumes "job_metrics_for R st S bitfield_get w now n d = (Inr det, d')"
  obtains hs ws where "metrics_counter_hashes_for (stats_redis R st) S (metric_minutes now n) w d = (Inr hs, d)"
    "aggregate_counter_hashes (metric_minutes now n) hs (Some w) = (jd_totals det, jd_series det, ws)"
    "jd_starts_at det = window_start (metric_minutes now n)" "jd_ends_at det = window_end (metric_minutes now n)"
proof -
  let ?minutes = "metric_minutes now n"
  from assms obtain hs d0 where h: "metrics_counter_hashes_for (stats_redis R st) S ?minutes w d = (Inr hs, d0)"
    and r: "(case aggregate_counter_hashes ?minutes hs (Some w) of (totals, series, _) \<Rightarrow>
        bind (metrics_histogram_counts_for bitfield_get S ?minutes w) (\<lambda>counts.
        return \<lparr>jd_identity = w, jd_starts_at = window_start ?minutes, jd_ends_at = window_end ?minutes,
          jd_minutes = length ?minutes, jd_totals = totals, jd_series = series,
          jd_histogram = histogram_buckets_from_counts counts\<rparr>)) d0 = (Inr det, d')"
    unfolding job_metrics_for_def Let_def with_connection_Inr bind_eq_Inr by blast
  obtain totals series ws where a: "aggregate_counter_hashes ?minutes hs (Some w) = (totals, series, ws)" by (rule prod_cases3)
  from r a show thesis using h counter_hashes_for_Inr [OF h] by (intro that [of hs ws]) (auto simp: return_def bind_eq_Inr)
qed

text \<open>The two queries read the same values of a worker, minute by minute.\<close>

lemma counter_hashes_agree:
  assumes "redis_server R" and "length w \<le> u64_max"
    and "metrics_counter_hashes R S minutes d = (Inr hs, d)" and "metrics_counter_hashes_for R S minutes w d = (Inr hs', d)"
    and "\<And>minute f. minute \<in> set minutes \<Longrightarrow> r_hget R d (metrics_counter_key (st_keys S) minute) f \<noteq> None \<Longrightarrow> canonical w f"
  shows "length hs = length minutes" and "length hs' = length minutes"
    and "i < length minutes \<Longrightarrow> mset (worker_values w (hs' ! i)) = mset (worker_values w (hs ! i))"
proof -
  note all = counter_hashes_Inr [OF assms(3)] and one = counter_hashes_for_Inr [OF assms(4)]
  show "length hs = length minutes" "length hs' = length minutes" using all one by simp_all
  show "mset (worker_values w (hs' ! i)) = mset (worker_values w (hs ! i))" if "i < length minutes"
  proof (rule worker_values_agree [OF assms(1,2) _ _ assms(5) [OF nth_mem [OF that]]])
    show "parse_stats (r_hgetall R d (metrics_counter_key (st_keys S) (minutes ! i))) = Inr (hs ! i)"
      using all that unfolding list_all2_conv_all_nth by blast
    show "parse_fields (zip (map (metric_field w) job_metric_keys) (map (r_hget R d (metrics_counter_key (st_keys S) (minutes ! i)))
        (map (metric_field w) job_metric_keys))) = Inr (hs' ! i)"
      using one that unfolding list_all2_conv_all_nth by blast
  qed
qed

text \<open>
  C37. The overview and the detail page tell the same story. When the counters of a worker are stored
  under the fields the code writes, the totals and the points of the detail query are those the
  overview lists for the worker, over the same window; and a worker that the overview does not list
  has nothing but zeros.
\<close>

theorem metrics_views_agree:
  assumes "redis_server (stats_redis R st)" and "length w \<le> u64_max"
    and "job_metrics R st S now n d = (Inr snap, d1)"
    and "job_metrics_for R st S bitfield_get w now n d = (Inr det, d2)"
    and "\<And>minute f. minute \<in> set (metric_minutes now n) \<Longrightarrow>
      r_hget (stats_redis R st) d (metrics_counter_key (st_keys S) minute) f \<noteq> None \<Longrightarrow> canonical w f"
  shows "(\<forall>ws \<in> set (js_workers snap). ws_identity ws = w \<longrightarrow> ws_totals ws = jd_totals det \<and> ws_series ws = jd_series det) \<and>
    (w \<notin> ws_identity ` set (js_workers snap) \<longrightarrow>
      jd_totals det = totals_default \<and> jd_series det = map point_at (metric_minutes now n)) \<and>
    (jd_starts_at det, jd_ends_at det) = (js_starts_at snap, js_ends_at snap)"
proof -
  let ?R = "stats_redis R st" and ?minutes = "metric_minutes now n"
  obtain hs where hs: "metrics_counter_hashes ?R S ?minutes d = (Inr hs, d)"
      "aggregate_counter_hashes ?minutes hs None = (js_totals snap, js_series snap, js_workers snap)"
    and ends: "js_starts_at snap = window_start ?minutes" "js_ends_at snap = window_end ?minutes"
    by (rule job_metrics_Inr [OF assms(3)])
  obtain hs' ws' where hs': "metrics_counter_hashes_for ?R S ?minutes w d = (Inr hs', d)"
      "aggregate_counter_hashes ?minutes hs' (Some w) = (jd_totals det, jd_series det, ws')"
    and ends': "jd_starts_at det = window_start ?minutes" "jd_ends_at det = window_end ?minutes"
    by (rule job_metrics_for_Inr [OF assms(4)])
  note agree = counter_hashes_agree [OF assms(1,2) hs(1) hs'(1) assms(5)]
  have len: "length hs = length ?minutes" "length hs' = length ?minutes" by (rule agree; assumption)+
  have same: "mset (worker_values w (hs' ! i)) = mset (worker_values w (hs ! i))" if "i < length ?minutes" for i
    by (rule agree(3)) (assumption | fact that)+
  have count: "count_metrics (worker_values w (hs' ! i)) t = count_metrics (worker_values w (hs ! i)) t"
    if "i < length ?minutes" for i and t :: job_metrics_point
    by (rule count_metrics_perm [OF same [OF that]])
  have series: "map2 (\<lambda>h p. finalize (count_metrics (worker_values w h) p)) hs' (map point_at ?minutes) =
      map2 (\<lambda>h p. finalize (count_metrics (worker_values w h) p)) hs (map point_at ?minutes)"
    by (rule nth_equalityI) (simp_all add: len count)
  have "map (\<lambda>h. mset (worker_values w h)) hs' = map (\<lambda>h. mset (worker_values w h)) hs"
    by (rule nth_equalityI) (simp_all add: len same)
  then have "mset (concat (map (worker_values w) hs')) = mset (concat (map (worker_values w) hs))"
    by (simp add: mset_concat comp_def)
  then have totals: "count_metrics (concat (map (worker_values w) hs')) totals_default =
      count_metrics (concat (map (worker_values w) hs)) totals_default" by (rule count_metrics_perm)
  note det = job_metrics_single [OF len(2) hs'(2), unfolded series totals]
  have "jd_totals det = totals_default \<and> jd_series det = map point_at ?minutes"
    if "w \<notin> ws_identity ` set (js_workers snap)"
  proof -
    from that job_metrics_workers(2) [OF len(1) hs(2)] have none: "worker_values w h = []" if "h \<in> set hs" for h using that by blast
    then have empty: "concat (map (worker_values w) hs) = []" by simp
    have "map2 (\<lambda>h p. finalize (count_metrics (worker_values w h) p)) hs (map point_at ?minutes) = map point_at ?minutes"
      by (rule nth_equalityI) (simp_all add: len none)
    with det show ?thesis unfolding empty by simp
  qed
  moreover have "ws_totals ws = jd_totals det \<and> ws_series ws = jd_series det"
    if "ws \<in> set (js_workers snap)" "ws_identity ws = w" for ws
    using job_metrics_workers(1) [OF len(1) hs(2) that(1)] det that(2) by simp
  moreover have "(jd_starts_at det, jd_ends_at det) = (js_starts_at snap, js_ends_at snap)"
    by (simp only: ends ends')
  ultimately show ?thesis by blast
qed

section \<open>Sums\<close>

lemma finalize_sel:
  "jt_processed (finalize t) = jt_processed t" "jt_failed (finalize t) = jt_failed t"
  "jt_panicked (finalize t) = jt_panicked t" "jt_execution_ms (finalize t) = jt_execution_ms t"
  "jt_succeeded (finalize t) = jt_processed t - jt_failed t"
  by (simp_all add: finalize_def Let_def)

definition value_sum :: "string \<Rightarrow> (string \<times> nat) list \<Rightarrow> nat" where
  "value_sum m kvs = sum_list (map snd (filter (\<lambda>kv. fst kv = m) kvs))"

lemma value_sum_simps [simp]:
  "value_sum m [] = 0" "value_sum m (kv # kvs) = (if fst kv = m then snd kv else 0) + value_sum m kvs"
  "value_sum m (kvs @ kvs') = value_sum m kvs + value_sum m kvs'"
  by (simp_all add: value_sum_def)

lemma count_metrics_sums:
  assumes "jt_processed t = sat a" and "jt_failed t = sat b" and "jt_panicked t = sat c" and "jt_execution_ms t = sat e"
  shows "jt_processed (count_metrics kvs t) = sat (a + value_sum ''p'' kvs)"
    "jt_failed (count_metrics kvs t) = sat (b + value_sum ''f'' kvs)"
    "jt_panicked (count_metrics kvs t) = sat (c + value_sum ''pn'' kvs)"
    "jt_execution_ms (count_metrics kvs t) = sat (e + value_sum ''ms'' kvs)"
  using assms by (induction kvs arbitrary: t a b c e) (auto simp: add_metric_def add.assoc)

text \<open>The value of a counter of the worker in one minute, zero when it is missing or negative.\<close>

definition stored_metric :: "'d redis \<Rightarrow> 'd \<Rightarrow> string \<Rightarrow> string \<Rightarrow> string \<Rightarrow> nat" where
  "stored_metric R d k w m = (case Option.bind (r_hget R d k (metric_field w m)) parse_i64 of Some v \<Rightarrow> u64_or_zero v | None \<Rightarrow> 0)"

lemma value_sum_distinct:
  "distinct (map fst kvs) \<Longrightarrow> value_sum m kvs = (case map_of kvs m of Some v \<Rightarrow> v | None \<Rightarrow> 0)"
proof (induction kvs)
  case (Cons kv kvs)
  obtain k v where kv: "kv = (k, v)" by (cases kv)
  from Cons have IH: "value_sum m kvs = (case map_of kvs m of Some v \<Rightarrow> v | None \<Rightarrow> 0)" by simp
  show ?case
  proof (cases "k = m")
    case True
    with Cons.prems kv have "map_of kvs m = None" by (simp add: map_of_eq_None_iff)
    with IH True kv show ?thesis by simp
  qed (use IH kv in simp)
qed simp

lemma stored_value_sum:
  assumes "length w \<le> u64_max" and "m \<in> set job_metric_keys"
    and "parse_fields (zip (map (metric_field w) job_metric_keys) (map (r_hget R d k) (map (metric_field w) job_metric_keys))) = Inr h"
  shows "value_sum m (worker_values w h) = stored_metric R d k w m"
proof -
  have mem: "(f, v) \<in> set h \<longleftrightarrow> f \<in> metric_field w ` set job_metric_keys \<and> Option.bind (r_hget R d k f) parse_i64 = Some v" for f v
    using parse_fields_values [OF assms(3)] by simp
  have split: "split_metric_field (metric_field w m) = Some (w, m)" if "m \<in> set job_metric_keys" for m
    using metric_names_roundtrip [OF assms(1) that, of "''p''"] by (simp add: queue_metric_keys_def)
  have "distinct (map (metric_field w) job_metric_keys)" by (simp add: job_metric_keys_def metric_field_def)
  from parse_fields_distinct [OF assms(3) this] have "distinct (map fst h)" .
  then have dist: "distinct (map fst (worker_values w h))"
    by (rule worker_values_distinct) (use mem split in \<open>auto simp: canonical_def\<close>)
  have "map_of (worker_values w h) m = Some x \<longleftrightarrow>
      (\<exists>v. Option.bind (r_hget R d k (metric_field w m)) parse_i64 = Some v \<and> x = u64_or_zero v)" for x
    using map_of_eq_Some_iff [OF dist, of m x] mem split assms(2) by (auto simp: worker_values_mem)
  then have "map_of (worker_values w h) m = map_option u64_or_zero (Option.bind (r_hget R d k (metric_field w m)) parse_i64)"
    by (cases "map_of (worker_values w h) m"; cases "Option.bind (r_hget R d k (metric_field w m)) parse_i64") auto
  then show ?thesis
    by (cases "Option.bind (r_hget R d k (metric_field w m)) parse_i64") (simp_all add: value_sum_distinct [OF dist] stored_metric_def)
qed

text \<open>
  The numbers of the detail page are the saturated sums of the stored counters of the window:
  jobs processed, failed and panicked and the execution time, and the succeeded jobs are the
  processed ones that did not fail.
\<close>

theorem metrics_detail_exact:
  assumes "length w \<le> u64_max" and "job_metrics_for R st S bitfield_get w now n d = (Inr det, d')"
  shows "let total = (\<lambda>m. min (\<Sum>minute\<leftarrow>metric_minutes now n.
        stored_metric (stats_redis R st) d (metrics_counter_key (st_keys S) minute) w m) u64_max) in
    jt_processed (jd_totals det) = total ''p'' \<and> jt_failed (jd_totals det) = total ''f'' \<and>
    jt_panicked (jd_totals det) = total ''pn'' \<and> jt_execution_ms (jd_totals det) = total ''ms'' \<and>
    jt_succeeded (jd_totals det) = total ''p'' - total ''f''"
proof -
  let ?R = "stats_redis R st" and ?minutes = "metric_minutes now n"
  obtain hs ws where hs: "metrics_counter_hashes_for ?R S ?minutes w d = (Inr hs, d)"
      "aggregate_counter_hashes ?minutes hs (Some w) = (jd_totals det, jd_series det, ws)"
    by (rule job_metrics_for_Inr [OF assms(2)])
  note one = counter_hashes_for_Inr [OF hs(1)]
  have vals: "map (\<lambda>h. value_sum m (worker_values w h)) hs =
      map (\<lambda>minute. stored_metric ?R d (metrics_counter_key (st_keys S) minute) w m) ?minutes" if "m \<in> set job_metric_keys" for m
  proof (rule nth_equalityI)
    fix i assume "i < length (map (\<lambda>h. value_sum m (worker_values w h)) hs)"
    then have i: "i < length ?minutes" "i < length hs" using one by simp_all
    then have "parse_fields (zip (map (metric_field w) job_metric_keys) (map (r_hget ?R d (metrics_counter_key (st_keys S) (?minutes ! i)))
        (map (metric_field w) job_metric_keys))) = Inr (hs ! i)"
      using one unfolding list_all2_conv_all_nth by blast
    from stored_value_sum [OF assms(1) that this] i
    show "map (\<lambda>h. value_sum m (worker_values w h)) hs ! i =
        map (\<lambda>minute. stored_metric ?R d (metrics_counter_key (st_keys S) minute) w m) ?minutes ! i"
      by (simp only: nth_map)
  qed (use one in simp)
  have "value_sum m (concat (map (worker_values w) hs)) = sum_list (map (\<lambda>h. value_sum m (worker_values w h)) hs)" for m
    by (induction hs) simp_all
  with vals have total: "value_sum m (concat (map (worker_values w) hs)) =
      (\<Sum>minute\<leftarrow>?minutes. stored_metric ?R d (metrics_counter_key (st_keys S) minute) w m)" if "m \<in> set job_metric_keys" for m
    using that by simp
  have zero: "jt_processed totals_default = sat 0" "jt_failed totals_default = sat 0" "jt_panicked totals_default = sat 0"
    "jt_execution_ms totals_default = sat 0" by (simp_all add: totals_default_def)
  have keys: "''p'' \<in> set job_metric_keys" "''f'' \<in> set job_metric_keys" "''pn'' \<in> set job_metric_keys" "''ms'' \<in> set job_metric_keys"
    by (simp_all add: job_metric_keys_def)
  from job_metrics_single [OF _ hs(2)] one
  have "jd_totals det = finalize (count_metrics (concat (map (worker_values w) hs)) totals_default)" by simp
  note sel = finalize_sel [of "count_metrics (concat (map (worker_values w) hs)) totals_default", folded this]
  note sums = count_metrics_sums [OF zero, of "concat (map (worker_values w) hs)", unfolded add_0 sat_def keys [THEN total]]
  show ?thesis
    unfolding Let_def sel sums by (intro conjI refl)
qed

section \<open>Witnesses\<close>

text \<open>One minute of counters of two workers.\<close>

definition metrics_server :: mem where
  "metrics_server = [(''app:metrics:j:1'', VHash [(''1:w|p'', ''3''), (''1:v|p'', ''2''), (''1:w|f'', ''1'')])]"

definition no_bits :: "string \<Rightarrow> string list \<Rightarrow> (mem, nat option list) op" where
  "no_bits k args = return (replicate 14 (Some 0))"

lemma sample_digits:
  "digit_char (Suc 0) = CHR ''1''" "char_digit CHR ''1'' = Some 1" "char_digit CHR ''2'' = Some 2" "char_digit CHR ''3'' = Some 3"
  by code_simp+

lemma metrics_key: "metrics_counter_key (st_keys sample_storage) 1 = ''app:metrics:j:1''"
  by (simp add: metrics_counter_key_def sample_storage_def storage_keys_new_def show_int_def show_nat.simps sample_digits)

lemma sample_minutes: "metric_minutes 60 1 = [1]" "metric_minutes 60 (Suc 0) = [1]"
  by (simp_all add: metric_minutes_def effective_minutes_def)

lemma sample_fields:
  "metric_field ''w'' ''p'' = ''1:w|p''" "metric_field ''w'' ''f'' = ''1:w|f''" "metric_field ''v'' ''p'' = ''1:v|p''"
  by (simp_all add: metric_field_def field_key_def show_nat.simps sample_digits)

lemma sample_splits:
  "split_metric_field ''1:w|p'' = Some (''w'', ''p'')" "split_metric_field ''1:w|f'' = Some (''w'', ''f'')"
  "split_metric_field ''1:v|p'' = Some (''v'', ''p'')"
proof -
  have "split_metric_field (metric_field w m) = Some (w, m)" if "length w = 1" "m \<in> set job_metric_keys" for w m
    using metric_names_roundtrip [of w m "''p''"] that by (simp add: queue_metric_keys_def)
  from this [of "''w''" "''p''"] this [of "''w''" "''f''"] this [of "''v''" "''p''"]
  show "split_metric_field ''1:w|p'' = Some (''w'', ''p'')" "split_metric_field ''1:w|f'' = Some (''w'', ''f'')"
    "split_metric_field ''1:v|p'' = Some (''v'', ''p'')"
    by (simp_all add: sample_fields job_metric_keys_def)
qed

lemma sample_values: "parse_i64 ''1'' = Some 1" "parse_i64 ''2'' = Some 2" "parse_i64 ''3'' = Some 3"
  by (simp_all add: parse_i64_def sample_digits in_i64_def)

lemma sample_hash:
  "hgetall mem_redis ''app:metrics:j:1'' metrics_server = (Inr [(''1:w|p'', ''3''), (''1:v|p'', ''2''), (''1:w|f'', ''1'')], metrics_server)"
  "hmget mem_redis ''app:metrics:j:1'' fs metrics_server =
     (Inr (map (map_of [(''1:w|p'', ''3''), (''1:v|p'', ''2''), (''1:w|f'', ''1'')]) fs), metrics_server)"
  by (simp_all add: metrics_server_def redis_defs sample_run)

lemma metrics_run:
  "\<exists>snap. job_metrics mem_redis None sample_storage 60 1 metrics_server = (Inr snap, metrics_server) \<and>
     ''w'' \<in> ws_identity ` set (js_workers snap)"
proof -
  let ?h = "[(''1:w|p'', 3), (''1:v|p'', 2), (''1:w|f'', 1)] :: (string \<times> int) list"
  have "metrics_counter_hashes mem_redis sample_storage [1] metrics_server = (Inr [?h], metrics_server)"
    by (simp add: metrics_counter_hashes_def metrics_key sample_hash bind_def return_def lift_result_def sample_values)
  moreover obtain totals series workers where a: "aggregate_counter_hashes [1] [?h] None = (totals, series, workers)"
    by (rule prod_cases3)
  moreover have "''w'' \<in> ws_identity ` set workers"
    using job_metrics_workers(2) [OF _ a] by (simp add: worker_values_Cons [of _ "(''1:w|p'', 3)"] worker_values_one sample_splits)
  ultimately show ?thesis
    by (simp add: job_metrics_def sample_minutes stats_redis_def with_connection_def bind_def return_def Let_def)
qed

lemma metrics_for_run:
  "\<exists>det. job_metrics_for mem_redis None sample_storage no_bits ''w'' 60 1 metrics_server = (Inr det, metrics_server)"
proof -
  let ?h = "[(''1:w|p'', 3), (''1:w|f'', 1)] :: (string \<times> int) list"
  have "map (metric_field ''w'') job_metric_keys = [''1:w|p'', ''1:w|f'', ''1:w|pn'', ''1:w|xs'', ''1:w|xf'', ''1:w|xpn'', ''1:w|ms'']"
    by (simp add: job_metric_keys_def metric_field_def field_key_def show_nat.simps sample_digits)
  then have "metrics_counter_hashes_for mem_redis sample_storage [1] ''w'' metrics_server = (Inr [?h], metrics_server)"
    by (simp add: metrics_counter_hashes_for_def metrics_key sample_hash bind_def return_def lift_result_def sample_values)
  moreover obtain totals series ws where "aggregate_counter_hashes [1] [?h] (Some ''w'') = (totals, series, ws)" by (rule prod_cases3)
  ultimately show ?thesis
    by (simp add: job_metrics_for_def sample_minutes stats_redis_def with_connection_def bind_def return_def
        metrics_histogram_counts_for_def no_bits_def Let_def)
qed

lemma metrics_server_canonical:
  assumes "minute \<in> set (metric_minutes 60 1)"
    and "r_hget (stats_redis mem_redis None) metrics_server (metrics_counter_key (st_keys sample_storage) minute) f \<noteq> None"
  shows "canonical ''w'' f"
proof -
  have "f \<in> {''1:w|p'', ''1:v|p'', ''1:w|f''}"
    using assms by (auto simp: sample_minutes metrics_key stats_redis_def metrics_server_def sample_run split: if_splits)
  then show ?thesis by (auto simp: canonical_def sample_splits sample_fields)
qed

theorem metrics_views_agree_witness:
  "\<exists>snap det. job_metrics mem_redis None sample_storage 60 1 metrics_server = (Inr snap, metrics_server) \<and>
     job_metrics_for mem_redis None sample_storage no_bits ''w'' 60 1 metrics_server = (Inr det, metrics_server) \<and>
     (\<exists>ws \<in> set (js_workers snap). ws_identity ws = ''w'' \<and> ws_totals ws = jd_totals det)"
proof -
  from metrics_run obtain snap where snap: "job_metrics mem_redis None sample_storage 60 1 metrics_server = (Inr snap, metrics_server)"
      "''w'' \<in> ws_identity ` set (js_workers snap)" by blast
  from metrics_for_run obtain det where
      det: "job_metrics_for mem_redis None sample_storage no_bits ''w'' 60 1 metrics_server = (Inr det, metrics_server)" by blast
  have server: "redis_server (stats_redis mem_redis None)" using mem.redis_server_axioms by (simp add: stats_redis_def)
  from metrics_views_agree [OF server _ snap(1) det metrics_server_canonical] snap det show ?thesis by auto
qed

theorem metrics_detail_exact_witness:
  "\<exists>det. job_metrics_for mem_redis None sample_storage no_bits ''w'' 60 1 metrics_server = (Inr det, metrics_server) \<and>
     jt_processed (jd_totals det) = 3 \<and> jt_succeeded (jd_totals det) = 2"
proof -
  from metrics_for_run obtain det where
      det: "job_metrics_for mem_redis None sample_storage no_bits ''w'' 60 1 metrics_server = (Inr det, metrics_server)" by blast
  have "stored_metric (stats_redis mem_redis None) metrics_server (metrics_counter_key (st_keys sample_storage) 1) ''w'' ''p'' = 3"
    "stored_metric (stats_redis mem_redis None) metrics_server (metrics_counter_key (st_keys sample_storage) 1) ''w'' ''f'' = 1"
    by (simp_all add: stored_metric_def stats_redis_def metrics_key sample_fields metrics_server_def sample_run sample_values u64_or_zero_def)
  with metrics_detail_exact [OF _ det] det show ?thesis by (simp add: Let_def sample_minutes)
qed

end
