(* ===== verification/Read_Only.thy ===== *)
theory Read_Only
  imports Metrics_Query Storage_Jobs
begin

text \<open>
  Operations that write nothing. Between two of their commands other clients may change the
  server: \<open>quiet E m\<close> says that whatever \<open>m\<close> finds, the server ends in a state that the
  others, whose changes are the functions in \<open>E\<close>, could have produced by themselves; with no
  others the server is left as it was. The rules follow the structure of an operation, so
  that \<open>quiet\<close> is proved by \<open>intro quiet_intros\<close> after unfolding its definition. They are
  used for the monitoring server and for the pages of the dashboard.
\<close>

section \<open>What others may do\<close>

inductive others :: "('d \<Rightarrow> 'd) set \<Rightarrow> 'd \<Rightarrow> 'd \<Rightarrow> bool" for E where
  none: "others E d d"
| more: "others E d d1 \<Longrightarrow> f \<in> E \<Longrightarrow> others E d (f d1)"

lemma others_trans: "others E d1 d2 \<Longrightarrow> others E d d1 \<Longrightarrow> others E d d2"
  by (induction rule: others.induct) (auto intro: others.intros)

lemma others_preserve: "others E d d' \<Longrightarrow> (\<And>f d. f \<in> E \<Longrightarrow> P d \<Longrightarrow> P (f d)) \<Longrightarrow> P d \<Longrightarrow> P d'"
  by (induction rule: others.induct) auto

lemma others_alone: "others {\<lambda>d. d} d d' \<Longrightarrow> d' = d"
  by (erule others_preserve [where P = "\<lambda>x. x = d"]) auto

lemma others_nobody: "others {} d d' \<Longrightarrow> d' = d"
  by (erule others_preserve [where P = "\<lambda>x. x = d"]) auto

section \<open>Quiet operations\<close>

named_theorems quiet_intros

definition quiet :: "('d \<Rightarrow> 'd) set \<Rightarrow> ('d, 'a) op \<Rightarrow> bool" where
  "quiet E m \<longleftrightarrow> (\<forall>d. others E d (snd (m d)))"

lemma quiet_bind [quiet_intros]:
  assumes "quiet E m" and "\<And>x. quiet E (k x)"
  shows "quiet E (bind m k)"
  unfolding quiet_def
proof
  fix d
  obtain r d' where m: "m d = (r, d')" by (rule prod.exhaust)
  then have first: "others E d d'" using assms(1) unfolding quiet_def by (metis snd_conv)
  show "others E d (snd (bind m k d))"
  proof (cases r)
    case (Inr x)
    have "others E d' (snd (k x d'))" using assms(2) by (simp add: quiet_def)
    with first show ?thesis by (simp add: bind_def m Inr others_trans)
  qed (simp add: bind_def m first)
qed

lemma quiet_still: "(\<And>d. snd (m d) = d) \<Longrightarrow> quiet E m"
  by (simp add: quiet_def others.none)

lemma quiet_mono: "quiet {} m \<Longrightarrow> quiet E m"
  unfolding quiet_def by (metis others.none others_nobody)

lemma quiet_alone: "quiet {} m \<Longrightarrow> snd (m d) = d"
  unfolding quiet_def by (rule others_nobody) simp

lemma quiet_interfere [quiet_intros]: "f \<in> E \<Longrightarrow> quiet E (interfere f)"
  by (simp add: quiet_def interfere_def others.more [OF others.none])

lemma quiet_seq [quiet_intros]: "quiet E m \<Longrightarrow> quiet E n \<Longrightarrow> quiet E (seq m n)"
  unfolding seq_def by (rule quiet_bind)

lemma quiet_basic [quiet_intros]:
  "quiet E (return x)" "quiet E (fail e)" "quiet E (lift_result r)" "quiet E (reading R ty k g)" "quiet E (scan R p)"
  by (rule quiet_still, simp add: return_def fail_def lift_result_def reading_def scan_def)+

lemma quiet_commands [quiet_intros]:
  "quiet E (hget R k f)" "quiet E (hmget R k fs)" "quiet E (hlen R k)" "quiet E (hgetall R k)"
  "quiet E (lrange_all R k)" "quiet E (llen R k)" "quiet E (zcard R k)" "quiet E (zrangebyscore R k lo hi)"
  "quiet E (lrange R k a b)" "quiet E (zrange R k a b)" "quiet E (lindex_last R k)"
  unfolding hget_def hmget_def hlen_def hgetall_def lrange_all_def llen_def zcard_def zrangebyscore_def lrange_def zrange_def
    lindex_last_def
  by (rule quiet_basic)+

lemma quiet_connection [quiet_intros]: "quiet E m \<Longrightarrow> quiet E (with_connection R m)"
  by (auto simp: quiet_def with_connection_def others.none split: option.split)

lemma quiet_if [quiet_intros]: "quiet E m \<Longrightarrow> quiet E n \<Longrightarrow> quiet E (if c then m else n)"
  by simp

lemma quiet_option [quiet_intros]:
  "quiet E m \<Longrightarrow> (\<And>x. quiet E (k x)) \<Longrightarrow> quiet E (case r of None \<Rightarrow> m | Some x \<Rightarrow> k x)"
  by (cases r) simp_all

lemma quiet_sum [quiet_intros]:
  "(\<And>x. quiet E (m x)) \<Longrightarrow> (\<And>y. quiet E (k y)) \<Longrightarrow> quiet E (case r of Inl x \<Rightarrow> m x | Inr y \<Rightarrow> k y)"
  by (cases r) simp_all

lemma quiet_Pair [quiet_intros]: "quiet E (Pair r)"
  by (rule quiet_still) simp

lemma quiet_prod [quiet_intros]: "(\<And>x y. quiet E (k x y)) \<Longrightarrow> quiet E (case p of (x, y) \<Rightarrow> k x y)"
  by (cases p) simp

lemma quiet_jobs [quiet_intros]:
  "quiet E (get_job R C S i)" "quiet E (get_many R C S ids)" "quiet E (jobs_w_conn R C S ids)"
  unfolding get_job_def get_job_w_conn_def get_many_def jobs_w_conn_def by (intro quiet_intros)+

lemma quiet_listings [quiet_intros]:
  "quiet E (list_queue_jobs R C S q opts)" "quiet E (list_dead R C S opts)" "quiet E (list_retries R C S opts)"
  "quiet E (list_scheduled R C S opts)"
  unfolding list_queue_jobs_def list_dead_def list_retries_def list_scheduled_def by (intro quiet_intros)+

lemma quiet_queues [quiet_intros]: "quiet E (queues_w_conn R S pre)"
  unfolding queues_w_conn_def by (intro quiet_intros)

lemma quiet_loops [quiet_intros]:
  "quiet E (queue_lengths R S qs)" "quiet E (queue_heads R S qs)" "quiet E (live_chunks R C S clock snaps kss live)"
  "quiet E (read_processes R C S idss)" "quiet E (processing_lists R S ps)" "quiet E (processing_jobs R C S ess)"
  "quiet E (processing_of R C S pss)" "quiet E (hash_values R ks)"
proof -
  show lengths: "quiet E (queue_lengths R S qs)" for qs by (induction qs) (auto intro!: quiet_intros)
  show heads: "quiet E (queue_heads R S qs)" for qs by (induction qs) (auto intro!: quiet_intros)
  have chunk: "quiet E (live_chunk R C S clock snaps keys)" for keys
    unfolding live_chunk_def by (intro quiet_intros lengths heads)
  show "quiet E (live_chunks R C S clock snaps kss live)"
    by (induction kss arbitrary: live) (auto intro!: quiet_intros chunk)
  show "quiet E (read_processes R C S idss)" by (induction idss) (auto intro!: quiet_intros)
  show lists: "quiet E (processing_lists R S ps)" for ps by (induction ps) (auto intro!: quiet_intros)
  show jobs: "quiet E (processing_jobs R C S ess)" for ess by (induction ess) (auto intro!: quiet_intros)
  show "quiet E (processing_of R C S pss)" by (induction pss) (auto intro!: quiet_intros lists jobs)
  show "quiet E (hash_values R ks)" by (induction ks) (auto intro!: quiet_intros)
qed

lemma quiet_stats [quiet_intros]:
  "quiet E (queue_stats_inputs R st S)" "quiet E (build_queue_stats R st C S clock now qs flt)"
  "quiet E (stats_queues R st C S clock now)" "quiet E (processes R C S now1 now2 t)"
  "quiet E (stats_with_rates R st C S clock now now1 now2 t)"
proof -
  show inputs: "quiet E (queue_stats_inputs R st S)"
    unfolding queue_stats_inputs_def Let_def by (intro quiet_intros)
  show build: "quiet E (build_queue_stats R st C S clock now qs flt)" for qs flt
    unfolding build_queue_stats_def queue_lengths_and_latencies_def Let_def by (intro quiet_intros inputs)
  show "quiet E (stats_queues R st C S clock now)" unfolding stats_queues_def by (intro quiet_intros build)
  show "quiet E (processes R C S now1 now2 t)" unfolding processes_def processes_w_conn_def by (intro quiet_intros)
  show "quiet E (stats_with_rates R st C S clock now now1 now2 t)"
    unfolding stats_with_rates_def processes_w_conn_def by (intro quiet_intros build)
qed

lemma quiet_metrics [quiet_intros]:
  "quiet E (job_metrics R st S now n)" "quiet E (queue_length_metrics R st S now n)"
  unfolding job_metrics_def queue_length_metrics_def metrics_counter_hashes_def queue_length_metric_hashes_def Let_def
  by (intro quiet_intros)+

lemma quiet_counts [quiet_intros]:
  "quiet E (enqueued_count R S q)" "quiet E (dead_count R S)" "quiet E (retries_count R S)" "quiet E (scheduled_count R S)"
  unfolding enqueued_count_def dead_count_def retries_count_def scheduled_count_def by (intro quiet_intros)+

lemma quiet_configs [quiet_intros]: "quiet E (queue_configs R C S qs)"
  unfolding queue_configs_def by (intro quiet_intros)

lemma quiet_worker_metrics [quiet_intros]:
  assumes "\<And>k args. quiet E (bitfield_get k args)"
  shows "quiet E (job_metrics_for R st S bitfield_get worker now n)"
proof -
  have fields: "quiet E (field_values R' fs ks)" for R' :: "'a redis" and fs ks
    by (induction ks) (auto intro!: quiet_intros)
  have bits: "quiet E (bitfield_values bitfield_get ks)" for ks
    by (induction ks) (auto intro!: quiet_intros assms)
  show ?thesis
    unfolding job_metrics_for_def metrics_counter_hashes_for_def metrics_histogram_counts_for_def Let_def
    by (intro quiet_intros fields bits)
qed

end
