(* ===== verification/Mcp_Server.thy ===== *)
theory Mcp_Server
  imports Read_Only
begin

text \<open>
  The monitoring server of \<^verbatim>\<open>oxana-mcp\<close>: the bearer token and its check (\<^verbatim>\<open>lib.rs\<close>) and the
  seven tools (\<^verbatim>\<open>server.rs\<close>). The protocol, the HTTP transport and the derived serialisers of the
  statistics are parameters; the constant-time comparison is equality. Two things are shown about
  the tools: none of them writes, and what they answer about a job does not depend on its arguments
  or its state, nor on the text of a storage error.
\<close>

section \<open>Authentication\<close>

definition trim_end_matches :: "char \<Rightarrow> string \<Rightarrow> string" where
  "trim_end_matches c s = rev (dropWhile (\<lambda>x. x = c) (rev s))"

definition trim_start_matches :: "char \<Rightarrow> string \<Rightarrow> string" where
  "trim_start_matches c s = dropWhile (\<lambda>x. x = c) s"

definition is_ascii_alphanumeric :: "char \<Rightarrow> bool" where
  "is_ascii_alphanumeric c = (let n = (of_char c :: nat) in
     48 \<le> n \<and> n \<le> 57 \<or> 65 \<le> n \<and> n \<le> 90 \<or> 97 \<le> n \<and> n \<le> 122)"

definition to_ascii_lowercase :: "char \<Rightarrow> char" where
  "to_ascii_lowercase c = (let n = (of_char c :: nat) in if 65 \<le> n \<and> n \<le> 90 then char_of (n + 32) else c)"

definition eq_ignore_ascii_case :: "string \<Rightarrow> string \<Rightarrow> bool" where
  "eq_ignore_ascii_case a b \<longleftrightarrow> map to_ascii_lowercase a = map to_ascii_lowercase b"

datatype invalid_bearer_token = InvalidBearerToken

text \<open>The router keeps the token; the rest of it is the transport.\<close>

definition router :: "string \<Rightarrow> invalid_bearer_token + string" where
  "router token =
     (let unpadded = trim_end_matches CHR ''='' token in
      if unpadded = [] \<or> \<not> list_all (\<lambda>c. is_ascii_alphanumeric c \<or> c \<in> set ''-._~+/'') unpadded
      then Inl InvalidBearerToken else Inr token)"

text \<open>The values of the authorization headers; a value that is not text is \<open>None\<close>.\<close>

definition authorized :: "string \<Rightarrow> string option list \<Rightarrow> bool" where
  "authorized expected headers =
     (let supplied = (case headers of
            [] \<Rightarrow> None
          | v # _ \<Rightarrow> Option.bind (Option.bind v (split_once CHR '' '')) (\<lambda>(scheme, token).
              if eq_ignore_ascii_case scheme ''Bearer'' then Some (trim_start_matches CHR '' '' token) else None))
      in tl headers = [] \<and> (case supplied of None \<Rightarrow> False | Some token \<Rightarrow> token = expected))"

datatype 'r http_response = Unauthorized | Served 'r

definition authenticate :: "string \<Rightarrow> string option list \<Rightarrow> ('d \<Rightarrow> 'r \<times> 'd) \<Rightarrow> 'd \<Rightarrow> 'r http_response \<times> 'd" where
  "authenticate expected headers run d =
     (if \<not> authorized expected headers then (Unauthorized, d) else (case run d of (r, d') \<Rightarrow> (Served r, d')))"

section \<open>Requests and responses\<close>

datatype job_list = QueueList | DeadList | RetriesList | ScheduledList

record list_jobs_request =
  lr_list :: job_list
  lr_queue :: "string option"
  lr_limit :: "nat option"
  lr_offset :: "nat option"

datatype error_data = InvalidParams string | InternalError string

definition isize_max :: nat where
  "isize_max = 2 ^ 63 - 1"

definition request_options :: "list_jobs_request \<Rightarrow> error_data + queue_list_opts" where
  "request_options rq =
     (let count = (case lr_limit rq of Some n \<Rightarrow> n | None \<Rightarrow> 20);
          offset = (case lr_offset rq of Some n \<Rightarrow> n | None \<Rightarrow> 0)
      in if \<not> (1 \<le> count \<and> count \<le> 100) \<or> isize_max - count < offset
         then Inl (InvalidParams ''invalid limit or offset'')
         else Inr \<lparr>list_count = count, list_offset = offset\<rparr>)"

datatype call_tool_result = Structured json | ToolError string

text \<open>\<open>observed\<close> is the clock of the response; data that cannot be serialised is \<open>None\<close>.\<close>

definition respond :: "storage \<Rightarrow> string \<Rightarrow> oxana_error + json option \<Rightarrow> error_data + call_tool_result" where
  "respond S observed r = (case r of
       Inr None \<Rightarrow> Inl (InternalError ''Could not serialize monitoring data'')
     | Inr (Some data) \<Rightarrow> Inr (Structured (JObj
         [(''namespace'', JStr (namespace (st_keys S))), (''observed_at'', JStr observed), (''data'', data)]))
     | Inl _ \<Rightarrow> Inr (ToolError ''Could not read Oxana storage''))"

definition json_option :: "('a \<Rightarrow> json) \<Rightarrow> 'a option \<Rightarrow> json" where
  "json_option f x = (case x of None \<Rightarrow> JNull | Some a \<Rightarrow> f a)"

definition job_summary :: "job_envelope \<Rightarrow> json" where
  "job_summary e = JObj
     [(''id'', JStr (env_id e)), (''worker'', JStr (job_data_name (env_job e))), (''queue'', JStr (env_queue e)),
      (''retries'', JInt (uint (retries (env_meta e)))), (''unique'', JBool (unique (env_meta e))),
      (''created_at'', JInt (created_at (env_meta e))), (''scheduled_at'', JInt (scheduled_at (env_meta e))),
      (''started_at'', json_option JInt (started_at (env_meta e))), (''error'', json_option JStr (error (env_meta e)))]"

section \<open>The tools\<close>

record serializers =
  ser_global :: "stats_global \<Rightarrow> json"
  ser_queues :: "queue_stats list \<Rightarrow> json"
  ser_processes :: "process list \<Rightarrow> json"
  ser_job_metrics :: "job_metrics_snapshot \<Rightarrow> json option"
  ser_queue_metrics :: "queue_length_metrics_snapshot \<Rightarrow> json option"

text \<open>
  What a server works on: the Redis servers, the configuration, the serialisers, the times read
  while the statistics are collected, and the time of the response.
\<close>

record 'd mcp =
  mc_redis :: "'d redis"
  mc_stats :: "'d redis option"
  mc_codec :: codec
  mc_storage :: storage
  mc_ser :: serializers
  mc_clock :: "string \<Rightarrow> int"
  mc_now :: int
  mc_now1 :: int
  mc_now2 :: int
  mc_threshold :: int
  mc_observed :: string

text \<open>A tool runs to a response, or panics (\<open>None\<close>).\<close>

type_synonym 'd tool = "'d \<Rightarrow> (error_data + call_tool_result) option \<times> 'd"

definition responding :: "'d mcp \<Rightarrow> ('d, json option option) op \<Rightarrow> 'd tool" where
  "responding M m d = (case m d of
       (Inl e, d') \<Rightarrow> (Some (respond (mc_storage M) (mc_observed M) (Inl e)), d')
     | (Inr None, d') \<Rightarrow> (None, d')
     | (Inr (Some j), d') \<Rightarrow> (Some (respond (mc_storage M) (mc_observed M) (Inr j)), d'))"

definition overview_json :: "serializers \<Rightarrow> stats \<Rightarrow> json" where
  "overview_json ser st = JObj
     [(''global'', ser_global ser (st_global st)), (''queues'', ser_queues ser (st_queues st)),
      (''processes'', ser_processes ser (st_processes st)),
      (''processing'', JArr (map (\<lambda>p. JObj [(''process_id'', JStr (sp_process_id p)), (''job'', job_summary (sp_envelope p))])
         (st_processing st)))]"

definition get_overview :: "'d mcp \<Rightarrow> 'd tool" where
  "get_overview M = responding M
     (bind (stats_with_rates (mc_redis M) (mc_stats M) (mc_codec M) (mc_storage M) (mc_clock M) (mc_now M) (mc_now1 M) (mc_now2 M)
         (mc_threshold M))
       (\<lambda>r. return (map_option (\<lambda>st. Some (overview_json (mc_ser M) st)) r)))"

definition list_queues :: "'d mcp \<Rightarrow> 'd tool" where
  "list_queues M = responding M
     (bind (stats_queues (mc_redis M) (mc_stats M) (mc_codec M) (mc_storage M) (mc_clock M) (mc_now M))
       (\<lambda>r. return (map_option (\<lambda>rows. Some (ser_queues (mc_ser M) rows)) r)))"

definition list_processes :: "'d mcp \<Rightarrow> 'd tool" where
  "list_processes M = responding M
     (bind (processes (mc_redis M) (mc_codec M) (mc_storage M) (mc_now1 M) (mc_now2 M) (mc_threshold M))
       (\<lambda>ps. return (Some (Some (ser_processes (mc_ser M) ps)))))"

definition mcp_get_job :: "'d mcp \<Rightarrow> job_id \<Rightarrow> 'd tool" where
  "mcp_get_job M i = responding M
     (bind (get_job (mc_redis M) (mc_codec M) (mc_storage M) i) (\<lambda>r. return (Some (Some (json_option job_summary r)))))"

definition jobs_json :: "queue_list_opts \<Rightarrow> job_envelope list \<Rightarrow> json" where
  "jobs_json opts es = JObj
     [(''jobs'', JArr (map job_summary es)), (''offset'', JInt (int (list_offset opts))), (''limit'', JInt (int (list_count opts)))]"

text \<open>The listing a request asks for.\<close>

definition requested_list ::
    "'d mcp \<Rightarrow> list_jobs_request \<Rightarrow> queue_list_opts \<Rightarrow> error_data + ('d, job_envelope list) op" where
  "requested_list M rq opts = (let R = mc_redis M; C = mc_codec M; S = mc_storage M in
     case (lr_list rq, lr_queue rq) of
       (QueueList, Some queue) \<Rightarrow>
         if queue \<noteq> [] then Inr (list_queue_jobs R C S queue opts) else Inl (InvalidParams ''queue is required'')
     | (QueueList, None) \<Rightarrow> Inl (InvalidParams ''queue is required'')
     | (_, Some _) \<Rightarrow> Inl (InvalidParams ''queue only applies to list=queue'')
     | (DeadList, None) \<Rightarrow> Inr (list_dead R C S opts)
     | (RetriesList, None) \<Rightarrow> Inr (list_retries R C S opts)
     | (ScheduledList, None) \<Rightarrow> Inr (list_scheduled R C S opts))"

definition list_jobs :: "'d mcp \<Rightarrow> list_jobs_request \<Rightarrow> 'd tool" where
  "list_jobs M rq d = (case request_options rq of
       Inl e \<Rightarrow> (Some (Inl e), d)
     | Inr opts \<Rightarrow> (case requested_list M rq opts of
           Inl e \<Rightarrow> (Some (Inl e), d)
         | Inr run \<Rightarrow> responding M (bind run (\<lambda>es. return (Some (Some (jobs_json opts es))))) d))"

definition get_job_metrics :: "'d mcp \<Rightarrow> nat option \<Rightarrow> 'd tool" where
  "get_job_metrics M minutes = responding M
     (bind (job_metrics (mc_redis M) (mc_stats M) (mc_storage M) (mc_now M) (case minutes of Some n \<Rightarrow> n | None \<Rightarrow> 0))
       (\<lambda>snap. return (Some (ser_job_metrics (mc_ser M) snap))))"

definition get_queue_metrics :: "'d mcp \<Rightarrow> nat option \<Rightarrow> 'd tool" where
  "get_queue_metrics M minutes = responding M
     (bind (queue_length_metrics (mc_redis M) (mc_stats M) (mc_storage M) (mc_now M) (case minutes of Some n \<Rightarrow> n | None \<Rightarrow> 0))
       (\<lambda>snap. return (Some (ser_queue_metrics (mc_ser M) snap))))"

datatype tool_call =
    GetOverview
  | ListQueues
  | ListProcesses
  | GetJob job_id
  | ListJobs list_jobs_request
  | GetJobMetrics "nat option"
  | GetQueueMetrics "nat option"

fun call_tool :: "'d mcp \<Rightarrow> tool_call \<Rightarrow> 'd tool" where
  "call_tool M GetOverview = get_overview M"
| "call_tool M ListQueues = list_queues M"
| "call_tool M ListProcesses = list_processes M"
| "call_tool M (GetJob i) = mcp_get_job M i"
| "call_tool M (ListJobs rq) = list_jobs M rq"
| "call_tool M (GetJobMetrics n) = get_job_metrics M n"
| "call_tool M (GetQueueMetrics n) = get_queue_metrics M n"

section \<open>Reading only\<close>

lemma responding_reads:
  assumes "quiet {} m"
  shows "snd (responding M m d) = d"
proof -
  obtain r d' where m: "m d = (r, d')" by (rule prod.exhaust)
  then have "d' = d" using quiet_alone [OF assms, of d] by simp
  with m show ?thesis by (simp add: responding_def split: sum.split option.split)
qed

lemma requested_reads: "requested_list M rq opts = Inr run \<Longrightarrow> quiet E run"
  by (cases "lr_list rq"; cases "lr_queue rq")
    (auto simp: requested_list_def Let_def quiet_listings split: if_splits)

lemma list_jobs_reads: "snd (list_jobs M rq d) = d"
proof (cases "request_options rq")
  case opts: (Inr opts)
  show ?thesis
  proof (cases "requested_list M rq opts")
    case (Inr run)
    have "snd (responding M (bind run (\<lambda>es. return (Some (Some (jobs_json opts es))))) d) = d"
      by (intro responding_reads quiet_intros requested_reads [OF Inr])
    with Inr opts show ?thesis by (simp add: list_jobs_def)
  qed (use opts in \<open>simp add: list_jobs_def\<close>)
qed (simp add: list_jobs_def)

lemma tool_reads: "snd (call_tool M t d) = d"
proof (cases t)
  case (ListJobs rq)
  then show ?thesis by (simp add: list_jobs_reads)
qed (simp_all only: call_tool.simps, unfold get_overview_def list_queues_def list_processes_def mcp_get_job_def
    get_job_metrics_def get_queue_metrics_def, (intro responding_reads quiet_intros)+)

section \<open>Who is let in\<close>

lemma drop_repeated:
  assumes "c \<notin> set tok"
  shows "dropWhile (\<lambda>x. x = c) s = tok \<longleftrightarrow> (\<exists>n. s = replicate n c @ tok)"
proof
  have "s = replicate (length (takeWhile (\<lambda>x. x = c) s)) c @ dropWhile (\<lambda>x. x = c) s"
    by (induction s) auto
  then show "\<exists>n. s = replicate n c @ tok" if "dropWhile (\<lambda>x. x = c) s = tok" using that by metis
  have tok: "dropWhile (\<lambda>x. x = c) tok = tok" using assms by (cases tok) auto
  have "dropWhile (\<lambda>x. x = c) (replicate n c @ tok) = tok" for n
    by (induction n) (simp_all add: tok)
  then show "dropWhile (\<lambda>x. x = c) s = tok" if "\<exists>n. s = replicate n c @ tok" using that by blast
qed

lemma router_token_plain: "router tok = Inr tok' \<Longrightarrow> tok' = tok \<and> CHR '' '' \<notin> set tok"
proof -
  assume "router tok = Inr tok'"
  then have all: "list_all (\<lambda>c. is_ascii_alphanumeric c \<or> c \<in> set ''-._~+/'') (trim_end_matches CHR ''='' tok)" and "tok' = tok"
    by (auto simp only: router_def Let_def split: if_splits)
  have plain: "\<not> is_ascii_alphanumeric CHR '' '' \<and> CHR '' '' \<notin> set ''-._~+/''" by code_simp
  have "CHR '' '' \<notin> set tok"
  proof
    assume "CHR '' '' \<in> set tok"
    then have "CHR '' '' \<in> set (takeWhile (\<lambda>x. x = CHR ''='') (rev tok) @ dropWhile (\<lambda>x. x = CHR ''='') (rev tok))"
      by (simp only: takeWhile_dropWhile_id set_rev)
    then have "CHR '' '' \<in> set (dropWhile (\<lambda>x. x = CHR ''='') (rev tok))"
      by (auto simp del: takeWhile_dropWhile_id dest: set_takeWhileD)
    then have "CHR '' '' \<in> set (trim_end_matches CHR ''='' tok)" by (simp only: trim_end_matches_def set_rev)
    with all plain show False unfolding list_all_iff by blast
  qed
  with \<open>tok' = tok\<close> show ?thesis by simp
qed

lemma authorized_iff:
  assumes "CHR '' '' \<notin> set tok"
  shows "authorized tok headers \<longleftrightarrow>
    (\<exists>scheme n. headers = [Some (scheme @ CHR '' '' # replicate n CHR '' '' @ tok)] \<and>
       CHR '' '' \<notin> set scheme \<and> eq_ignore_ascii_case scheme ''Bearer'')" (is "_ \<longleftrightarrow> ?form headers")
proof
  assume "authorized tok headers"
  then obtain v scheme rest where h: "headers = [Some v]" "split_once CHR '' '' v = Some (scheme, rest)"
      "eq_ignore_ascii_case scheme ''Bearer''" "dropWhile (\<lambda>x. x = CHR '' '') rest = tok"
    by (auto simp: authorized_def Let_def trim_start_matches_def bind_eq_Some_conv split: list.splits option.splits if_splits)
  from split_once_Some [OF h(2)] h(4) drop_repeated [OF assms, of rest] obtain n where
      "v = scheme @ CHR '' '' # replicate n CHR '' '' @ tok" "CHR '' '' \<notin> set scheme" by blast
  with h show "?form headers" by blast
next
  assume "?form headers"
  then obtain scheme n where h: "headers = [Some (scheme @ CHR '' '' # replicate n CHR '' '' @ tok)]"
      "CHR '' '' \<notin> set scheme" "eq_ignore_ascii_case scheme ''Bearer''" by blast
  have "dropWhile (\<lambda>x. x = CHR '' '') (replicate n CHR '' '' @ tok) = tok"
    using drop_repeated [OF assms, of "replicate n CHR '' '' @ tok"] by blast
  with h show "authorized tok headers"
    by (simp add: authorized_def split_once_notin trim_start_matches_def)
qed

section \<open>Properties\<close>

text \<open>
  C36. Whatever tool is called, nothing is written, with a panic or without; a request is served exactly
  when it has one authorization header, which consists of the scheme in any case, blanks, and the
  token that the router accepted.
\<close>

theorem mcp_serves_only_readers:
  assumes "router tok = Inr expected"
  shows "snd (authenticate expected headers (call_tool M t) d) = d \<and>
    (fst (authenticate expected headers (call_tool M t) d) = Unauthorized \<longleftrightarrow>
      (\<nexists>scheme n. headers = [Some (scheme @ CHR '' '' # replicate n CHR '' '' @ tok)] \<and>
        CHR '' '' \<notin> set scheme \<and> eq_ignore_ascii_case scheme ''Bearer''))"
proof -
  from router_token_plain [OF assms] have "expected = tok" and "CHR '' '' \<notin> set tok" by auto
  then show ?thesis
    using tool_reads [of M t d] by (simp add: authenticate_def case_prod_beta authorized_iff)
qed

text \<open>Two results are alike when both are errors, or both are values that look the same.\<close>

fun alike :: "('a \<Rightarrow> 'b) \<Rightarrow> oxana_error + 'a \<Rightarrow> oxana_error + 'a \<Rightarrow> bool" where
  "alike f (Inl _) (Inl _) = True"
| "alike f (Inr a) (Inr b) = (f a = f b)"
| "alike f _ _ = False"

definition redact :: "job_envelope \<Rightarrow> job_envelope" where
  "redact e = e\<lparr>env_job := (env_job e)\<lparr>job_data_args := JNull\<rparr>, env_meta := (env_meta e)\<lparr>state := None\<rparr>\<rparr>"

definition redact_stats :: "stats \<Rightarrow> stats" where
  "redact_stats st = st\<lparr>st_processing := map (\<lambda>p. p\<lparr>sp_envelope := redact (sp_envelope p)\<rparr>) (st_processing st)\<rparr>"

lemma job_summary_redact: "job_summary (redact e) = job_summary e"
  by (simp add: job_summary_def redact_def)

lemma overview_redact: "overview_json ser (redact_stats st) = overview_json ser st"
  by (simp add: overview_json_def redact_stats_def job_summary_redact comp_def)

lemma responding_alike:
  assumes "alike f (fst (m d)) (fst (m d2))" and "\<And>a b. f a = f b \<Longrightarrow> k a = k b"
  shows "fst (responding M (bind m (\<lambda>x. return (k x))) d) = fst (responding M (bind m (\<lambda>x. return (k x))) d2)"
  using assms(1) assms(2)
proof -
  obtain a e b e2 where m: "m d = (a, e)" "m d2 = (b, e2)" by (metis prod.exhaust)
  show ?thesis
  proof (cases a; cases b)
    fix x y assume ab: "a = Inr x" "b = Inr y"
    with assms(1) m have "f x = f y" by simp
    then have "k x = k y" by (rule assms(2))
    with m ab show ?thesis by (simp add: responding_def bind_def return_def split: option.split)
  qed (use assms(1) m in \<open>simp_all add: responding_def bind_def respond_def\<close>)
qed

text \<open>
  What a tool answers does not depend on the arguments or the state of any job, nor on the text of
  a storage error: when the storage reads on two servers are alike up to those, so are the answers.
\<close>

theorem mcp_hides_arguments:
  assumes "case t of
      GetOverview \<Rightarrow> alike (map_option redact_stats)
        (fst (stats_with_rates (mc_redis M) (mc_stats M) (mc_codec M) (mc_storage M) (mc_clock M) (mc_now M) (mc_now1 M) (mc_now2 M) (mc_threshold M) d))
        (fst (stats_with_rates (mc_redis M) (mc_stats M) (mc_codec M) (mc_storage M) (mc_clock M) (mc_now M) (mc_now1 M) (mc_now2 M) (mc_threshold M) d2))
    | GetJob i \<Rightarrow> alike (map_option redact) (fst (get_job (mc_redis M) (mc_codec M) (mc_storage M) i d))
        (fst (get_job (mc_redis M) (mc_codec M) (mc_storage M) i d2))
    | ListJobs rq \<Rightarrow> \<forall>opts run. requested_list M rq opts = Inr run \<longrightarrow> alike (map redact) (fst (run d)) (fst (run d2))
    | _ \<Rightarrow> False"
  shows "fst (call_tool M t d) = fst (call_tool M t d2)"
proof -
  have summaries: "map job_summary es = map job_summary es'" if "map redact es = map redact es'" for es es'
    using arg_cong [OF that, of "map job_summary"] by (simp add: job_summary_redact comp_def)
  have one: "json_option job_summary r = json_option job_summary r'" if "map_option redact r = map_option redact r'" for r r'
    using that by (cases r; cases r'; simp add: json_option_def) (metis job_summary_redact)
  have over: "map_option (\<lambda>st. Some (overview_json ser st)) r = map_option (\<lambda>st. Some (overview_json ser st)) r'"
    if "map_option redact_stats r = map_option redact_stats r'" for r r' ser
    using that by (cases r; cases r'; simp) (metis overview_redact)
  show ?thesis
  proof (cases t)
    case GetOverview
    with assms have "alike (map_option redact_stats)
        (fst (stats_with_rates (mc_redis M) (mc_stats M) (mc_codec M) (mc_storage M) (mc_clock M) (mc_now M) (mc_now1 M) (mc_now2 M) (mc_threshold M) d))
        (fst (stats_with_rates (mc_redis M) (mc_stats M) (mc_codec M) (mc_storage M) (mc_clock M) (mc_now M) (mc_now1 M) (mc_now2 M) (mc_threshold M) d2))"
      by simp
    from responding_alike [OF this over] GetOverview show ?thesis by (simp add: get_overview_def)
  next
    case (GetJob i)
    with assms have get: "alike (map_option redact) (fst (get_job (mc_redis M) (mc_codec M) (mc_storage M) i d))
        (fst (get_job (mc_redis M) (mc_codec M) (mc_storage M) i d2))" by simp
    have "fst (mcp_get_job M i d) = fst (mcp_get_job M i d2)"
      unfolding mcp_get_job_def by (rule responding_alike [OF get]) (drule one, simp)
    with GetJob show ?thesis by simp
  next
    case (ListJobs rq)
    have "fst (list_jobs M rq d) = fst (list_jobs M rq d2)"
    proof (cases "request_options rq")
      case opts: (Inr opts)
      show ?thesis
      proof (cases "requested_list M rq opts")
        case (Inr run)
        with assms ListJobs have "alike (map redact) (fst (run d)) (fst (run d2))" by simp
        then have "fst (responding M (bind run (\<lambda>es. return (Some (Some (jobs_json opts es))))) d) =
            fst (responding M (bind run (\<lambda>es. return (Some (Some (jobs_json opts es))))) d2)"
          by (rule responding_alike) (drule summaries, simp add: jobs_json_def)
        with Inr opts show ?thesis by (simp add: list_jobs_def)
      qed (use opts in \<open>simp add: list_jobs_def\<close>)
    qed (simp add: list_jobs_def)
    with ListJobs show ?thesis by simp
  qed (use assms in simp_all)
qed

section \<open>Witnesses\<close>

definition sample_mcp :: "mem mcp" where
  "sample_mcp = \<lparr>mc_redis = mem_redis, mc_stats = None, mc_codec = netstring_codec, mc_storage = sample_storage,
     mc_ser = \<lparr>ser_global = (\<lambda>_. JNull), ser_queues = (\<lambda>_. JNull), ser_processes = (\<lambda>_. JNull),
       ser_job_metrics = (\<lambda>_. None), ser_queue_metrics = (\<lambda>_. None)\<rparr>,
     mc_clock = (\<lambda>_. 0), mc_now = 0, mc_now1 = 0, mc_now2 = 0, mc_threshold = 5, mc_observed = ''now''\<rparr>"

theorem mcp_serves_only_readers_witness:
  "router ''abc='' = Inr ''abc='' \<and>
   fst (authenticate ''abc='' [Some ''bEARER  abc=''] (call_tool sample_mcp (GetJob ''Mail/7'')) sample_queued) \<noteq> Unauthorized \<and>
   snd (authenticate ''abc='' [Some ''bEARER  abc=''] (call_tool sample_mcp (GetJob ''Mail/7'')) sample_queued) = sample_queued"
proof -
  have tok: "router ''abc='' = Inr ''abc=''" by code_simp
  have "eq_ignore_ascii_case ''bEARER'' ''Bearer'' \<and> ''bEARER  abc='' = ''bEARER'' @ CHR '' '' # replicate 1 CHR '' '' @ ''abc='' \<and>
      CHR '' '' \<notin> set ''bEARER''" by code_simp
  then have "\<exists>scheme n. [Some ''bEARER  abc=''] = [Some (scheme @ CHR '' '' # replicate n CHR '' '' @ ''abc='')] \<and>
      CHR '' '' \<notin> set scheme \<and> eq_ignore_ascii_case scheme ''Bearer''" by blast
  with tok mcp_serves_only_readers [OF tok, of "[Some ''bEARER  abc='']" sample_mcp "GetJob ''Mail/7''" sample_queued]
  show ?thesis by blast
qed

text \<open>The same job with other arguments.\<close>

definition other_envelope :: job_envelope where
  "other_envelope = sample_envelope\<lparr>env_job := (env_job sample_envelope)\<lparr>job_data_args := JInt 77\<rparr>\<rparr>"

definition other_queued :: mem where
  "other_queued = [(''app:jobs'', VHash [(''Mail/7'', to_payload netstring_codec other_envelope)]), (''app:queue:mail'', VList [''Mail/7''])]"

lemma other_envelope_wf: "envelope_wf netstring_codec other_envelope"
  using sample_envelope_wf by (simp add: other_envelope_def envelope_wf_def)

theorem mcp_hides_arguments_witness:
  "job_data_args (env_job sample_envelope) \<noteq> job_data_args (env_job other_envelope) \<and>
   fst (call_tool sample_mcp (GetJob ''Mail/7'') sample_queued) = fst (call_tool sample_mcp (GetJob ''Mail/7'') other_queued)"
proof -
  have differ: "job_data_args (env_job sample_envelope) \<noteq> job_data_args (env_job other_envelope)"
    by (simp add: other_envelope_def sample_envelope_def sample_job_def envelope_new_def Let_def)
  have other: "of_payload netstring_codec (to_payload netstring_codec other_envelope) = Some other_envelope"
    using other_envelope_wf by (rule net.of_to_payload)
  have "alike (map_option redact) (fst (get_job mem_redis netstring_codec sample_storage ''Mail/7'' sample_queued))
      (fst (get_job mem_redis netstring_codec sample_storage ''Mail/7'' other_queued))"
    by (simp add: get_job_def get_job_w_conn_def parse_envelope_def other_queued_def other sample_run)
      (simp add: redact_def other_envelope_def)
  with differ mcp_hides_arguments [where t = "GetJob ''Mail/7''" and M = sample_mcp and d = sample_queued and ?d2.0 = other_queued] show ?thesis
    by (simp add: sample_mcp_def)
qed

end
