(* ===== verification/Storage_Api.thy ===== *)
theory Storage_Api
  imports Queue_Config Connection
begin

text \<open>
  The public handle of \<^verbatim>\<open>storage.rs\<close> and its builder in \<^verbatim>\<open>storage_builder.rs\<close>. The handle
  builds envelopes from jobs and passes them on, and changes the stored configuration of a
  queue: its concurrency, its state. The builder validates its options and builds pools,
  which are a parameter (\<^verbatim>\<open>deadpool_redis\<close>). What other clients do between two commands
  of one call is an argument of the operation.
\<close>

section \<open>Queues as callers name them\<close>

text \<open>
  What the methods of the \<^verbatim>\<open>Queue\<close> trait return for one queue value; \<open>default_key\<close> is the
  provided \<^verbatim>\<open>key\<close>, with the panic as \<open>None\<close>.
\<close>

record queue_value =
  qv_key :: string
  qv_config :: queue_config

definition default_key :: "queue_config \<Rightarrow> string option" where
  "default_key qc = (case qc_kind qc of Static k \<Rightarrow> Some k | Dynamic _ _ \<Rightarrow> None)"

abbreviation qv_concurrency :: "queue_value \<Rightarrow> queue_concurrency" where
  "qv_concurrency q \<equiv> qc_concurrency (qv_config q)"

section \<open>Enqueueing\<close>

text \<open>
  \<open>uuid\<close> is the generated identifier, \<open>nows\<close> are the readings of the clock in the envelope's
  constructor and \<open>clocks\<close> those inside the operation; \<open>gen\<close> gives the former for each job of a
  list.
\<close>

definition api_enqueue_in ::
    "'d redis \<Rightarrow> codec \<Rightarrow> storage \<Rightarrow> ('d \<Rightarrow> 'd) \<Rightarrow> ('d \<Rightarrow> 'd) list \<Rightarrow> string \<Rightarrow> int \<times> int \<Rightarrow> int \<times> int \<times> int
       \<Rightarrow> queue_value \<Rightarrow> job \<Rightarrow> nat \<Rightarrow> ('d, job_id option) op" where
  "api_enqueue_in R C S env envs uuid nows clocks q j delay =
     bind (lift_result (envelope_new uuid (fst nows) (snd nows) (qv_key q) j)) (\<lambda>e.
       if 0 < delay then enqueue_in R C S env envs (fst clocks) (fst (snd clocks)) (snd (snd clocks)) e delay
       else enqueue R C S env envs e)"

definition api_enqueue ::
    "'d redis \<Rightarrow> codec \<Rightarrow> storage \<Rightarrow> ('d \<Rightarrow> 'd) \<Rightarrow> ('d \<Rightarrow> 'd) list \<Rightarrow> string \<Rightarrow> int \<times> int \<Rightarrow> int \<times> int \<times> int
       \<Rightarrow> queue_value \<Rightarrow> job \<Rightarrow> ('d, job_id option) op" where
  "api_enqueue R C S env envs uuid nows clocks q j = api_enqueue_in R C S env envs uuid nows clocks q j 0"

definition api_try_enqueue ::
    "'d redis \<Rightarrow> codec \<Rightarrow> storage \<Rightarrow> ('d \<Rightarrow> 'd) \<Rightarrow> ('d \<Rightarrow> 'd) list \<Rightarrow> string \<Rightarrow> int \<times> int
       \<Rightarrow> queue_value \<Rightarrow> job \<Rightarrow> ('d, job_id option option) op" where
  "api_try_enqueue R C S env envs uuid nows q j =
     bind (lift_result (envelope_new uuid (fst nows) (snd nows) (qv_key q) j)) (try_enqueue R C S env envs)"

definition api_enqueue_at ::
    "'d redis \<Rightarrow> codec \<Rightarrow> storage \<Rightarrow> ('d \<Rightarrow> 'd) \<Rightarrow> ('d \<Rightarrow> 'd) list \<Rightarrow> string \<Rightarrow> int \<times> int \<times> int \<Rightarrow> int
       \<Rightarrow> queue_value \<Rightarrow> job \<Rightarrow> int \<Rightarrow> ('d, job_id option) op" where
  "api_enqueue_at R C S env envs uuid nows now q j at =
     bind (lift_result (envelope_new_scheduled uuid (fst nows) (fst (snd nows)) (snd (snd nows)) (qv_key q) j at))
       (enqueue_at R C S env envs now)"

text \<open>The first job that does not serialise ends \<^verbatim>\<open>enqueue_list\<close> before anything is sent.\<close>

fun envelopes_of ::
    "string \<Rightarrow> (nat \<Rightarrow> string \<times> int \<times> int) \<Rightarrow> nat \<Rightarrow> job list \<Rightarrow> oxana_error + job_envelope list" where
  "envelopes_of queue gen n [] = Inr []"
| "envelopes_of queue gen n (j # js) =
     (case envelope_new (fst (gen n)) (fst (snd (gen n))) (snd (snd (gen n))) queue j of
        Inl e \<Rightarrow> Inl e
      | Inr e \<Rightarrow> (case envelopes_of queue gen (n + 1) js of Inl er \<Rightarrow> Inl er | Inr es \<Rightarrow> Inr (e # es)))"

definition api_enqueue_list ::
    "'d redis \<Rightarrow> codec \<Rightarrow> storage \<Rightarrow> (nat \<Rightarrow> ('d \<Rightarrow> 'd) \<times> ('d \<Rightarrow> 'd) list) \<Rightarrow> (nat \<Rightarrow> string \<times> int \<times> int)
       \<Rightarrow> queue_value \<Rightarrow> job list \<Rightarrow> ('d, job_id list option) op" where
  "api_enqueue_list R C S envs gen q js =
     bind (lift_result (envelopes_of (qv_key q) gen 0 js)) (enqueue_list R C S envs)"

text \<open>\<^verbatim>\<open>delete_unique_job\<close> takes an identifier or a job: what its \<^verbatim>\<open>unique_job_id\<close> returns.\<close>

definition delete_unique_job ::
    "'d redis \<Rightarrow> codec \<Rightarrow> storage \<Rightarrow> ('d \<Rightarrow> 'd) \<Rightarrow> job_id option \<Rightarrow> ('d, unit) op" where
  "delete_unique_job R C S env i = (case i of
       None \<Rightarrow> fail (ConfigError ''delete_unique_job requires a job with a unique ID'')
     | Some i \<Rightarrow> delete_job R C S env i)"

section \<open>Queue configuration\<close>

definition validate_dynamic_concurrency :: "string \<Rightarrow> queue_concurrency \<Rightarrow> oxana_error + unit" where
  "validate_dynamic_concurrency key c =
     (if concurrency_is_dynamic c then Inr ()
      else Inl (ConfigError (''Queue '' @ key @ '' has fixed concurrency and cannot be overridden'')))"

definition validate_runtime_concurrency ::
    "string \<Rightarrow> queue_concurrency \<Rightarrow> queue_runtime_config \<Rightarrow> oxana_error + unit" where
  "validate_runtime_concurrency key c rc =
     (if rc_concurrency rc \<noteq> None then validate_dynamic_concurrency key c else Inr ())"

definition api_queue_config ::
    "'d redis \<Rightarrow> codec \<Rightarrow> storage \<Rightarrow> queue_value \<Rightarrow> ('d, queue_runtime_config option) op" where
  "api_queue_config R C S q =
     bind (stored_queue_config R C S (qv_key q)) (\<lambda>rc.
       return (map_option (effective_runtime_config (qv_concurrency q)) rc))"

definition api_set_queue_config ::
    "'d redis \<Rightarrow> codec \<Rightarrow> storage \<Rightarrow> queue_value \<Rightarrow> queue_runtime_config \<Rightarrow> ('d, unit) op" where
  "api_set_queue_config R C S q rc =
     seq (lift_result (validate_runtime_concurrency (qv_key q) (qv_concurrency q) rc))
         (set_queue_config R C S (qv_key q) rc)"

definition runtime_concurrency_reset_default ::
    "'d redis \<Rightarrow> codec \<Rightarrow> storage \<Rightarrow> string \<Rightarrow> queue_kind \<Rightarrow> queue_concurrency \<Rightarrow> ('d, nat) op" where
  "runtime_concurrency_reset_default R C S key kind c = (case kind of
       Static _ \<Rightarrow> return (default_concurrency c)
     | Dynamic pre _ \<Rightarrow>
         if key = pre then return (default_concurrency c)
         else bind (queue_config_or_default R C S pre (stored_runtime_default c)) (\<lambda>base.
                return (case rc_concurrency base of Some n \<Rightarrow> n | None \<Rightarrow> default_concurrency c)))"

definition set_queue_concurrency ::
    "'d redis \<Rightarrow> codec \<Rightarrow> storage \<Rightarrow> ('d \<Rightarrow> 'd) \<Rightarrow> ('d \<Rightarrow> 'd) \<Rightarrow> queue_value \<Rightarrow> nat \<Rightarrow> ('d, unit) op" where
  "set_queue_concurrency R C S env1 env2 q n =
     seq (lift_result (validate_dynamic_concurrency (qv_key q) (qv_concurrency q)))
     (bind (runtime_concurrency_reset_default R C S (qv_key q) (qc_kind (qv_config q)) (qv_concurrency q)) (\<lambda>dflt.
      seq (interfere env1)
     (bind (stored_queue_config R C S (qv_key q)) (\<lambda>existing.
        if n = dflt \<and> existing = None then return ()
        else seq (interfere env2)
               (set_queue_config R C S (qv_key q)
                  ((case existing of Some rc \<Rightarrow> rc | None \<Rightarrow> runtime_config_default)
                     \<lparr>rc_concurrency := if n \<noteq> dflt then Some n else None\<rparr>))))))"

definition api_set_queue_state ::
    "'d redis \<Rightarrow> codec \<Rightarrow> storage \<Rightarrow> ('d \<Rightarrow> 'd) \<Rightarrow> queue_value \<Rightarrow> queue_state \<Rightarrow> ('d, unit) op" where
  "api_set_queue_state R C S env q st =
     (if concurrency_is_dynamic (qv_concurrency q) then set_queue_state R C S env (qv_key q) st
      else bind (stored_queue_config R C S (qv_key q)) (\<lambda>existing. seq (interfere env)
             (set_queue_config R C S (qv_key q)
                ((case existing of Some rc \<Rightarrow> rc | None \<Rightarrow> runtime_config_default)
                   \<lparr>rc_concurrency := None, rc_state := st\<rparr>))))"

definition pause_queue ::
    "'d redis \<Rightarrow> codec \<Rightarrow> storage \<Rightarrow> ('d \<Rightarrow> 'd) \<Rightarrow> queue_value \<Rightarrow> ('d, unit) op" where
  "pause_queue R C S env q = api_set_queue_state R C S env q Paused"

definition unpause_queue ::
    "'d redis \<Rightarrow> codec \<Rightarrow> storage \<Rightarrow> ('d \<Rightarrow> 'd) \<Rightarrow> queue_value \<Rightarrow> ('d, unit) op" where
  "unpause_queue R C S env q = api_set_queue_state R C S env q Active"

section \<open>The builder\<close>

record storage_builder_timeouts =
  tmo_wait :: "nat option"
  tmo_create :: "nat option"
  tmo_recycle :: "nat option"

definition timeouts_new :: "nat \<Rightarrow> storage_builder_timeouts" where
  "timeouts_new t = \<lparr>tmo_wait = Some t, tmo_create = Some t, tmo_recycle = Some t\<rparr>"

definition timeouts_default :: storage_builder_timeouts where
  "timeouts_default = \<lparr>tmo_wait = Some (300 * ms), tmo_create = Some (300 * ms), tmo_recycle = Some (300 * ms)\<rparr>"

record storage_builder =
  sb_namespace :: "string option"
  sb_max_pool_size :: "nat option"
  sb_timeouts :: "storage_builder_timeouts option"
  sb_claimed_connection_retries :: "pool_retry_config option"
  sb_redis_response_timeout :: "nat option"
  sb_dead_job_limit :: "nat option"

definition storage_builder_new :: storage_builder where
  "storage_builder_new =
     \<lparr>sb_namespace = None, sb_max_pool_size = None, sb_timeouts = None,
      sb_claimed_connection_retries = Some pool_retry_config_default,
      sb_redis_response_timeout = None, sb_dead_job_limit = Some 1000\<rparr>"

text \<open>A storage on its pools; \<^verbatim>\<open>started_at\<close>, the instance, the host and the process number come from outside.\<close>

record identity =
  id_now :: int
  id_instance :: string
  id_hostname :: string
  id_pid :: nat

definition with_optional_stats_pool :: "identity \<Rightarrow> string option \<Rightarrow> storage" where
  "with_optional_stats_pool i ns =
     \<lparr>st_keys = storage_keys_new (case ns of Some n \<Rightarrow> n | None \<Rightarrow> []),
      claimed_connection_retries = Some pool_retry_config_default,
      st_started_at = id_now i, st_instance_id = id_instance i, dead_job_limit = Some 1000,
      st_hostname = id_hostname i, st_pid = id_pid i\<rparr>"

record 'p built =
  b_pool :: 'p
  b_stats_pool :: "'p option"
  b_storage :: storage

definition build_with ::
    "nat \<Rightarrow> identity \<Rightarrow> storage_builder \<Rightarrow> 'p \<Rightarrow> 'p option \<Rightarrow> oxana_error + 'p built" where
  "build_with limit i b pool stats =
     (case (case sb_claimed_connection_retries b of
              None \<Rightarrow> Inr () | Some cfg \<Rightarrow> pool_retry_config_validate limit cfg) of
        Inl e \<Rightarrow> Inl e
      | Inr _ \<Rightarrow> Inr \<lparr>b_pool = pool, b_stats_pool = stats,
          b_storage = (with_optional_stats_pool i (sb_namespace b))
            \<lparr>claimed_connection_retries := sb_claimed_connection_retries b, dead_job_limit := sb_dead_job_limit b\<rparr>\<rparr>)"

definition build_from_pool :: "nat \<Rightarrow> identity \<Rightarrow> storage_builder \<Rightarrow> 'p \<Rightarrow> oxana_error + 'p built" where
  "build_from_pool limit i b pool = build_with limit i b pool None"

definition build_from_pools :: "nat \<Rightarrow> identity \<Rightarrow> storage_builder \<Rightarrow> 'p \<Rightarrow> 'p \<Rightarrow> oxana_error + 'p built" where
  "build_from_pools limit i b pool stats = build_with limit i b pool (Some stats)"

type_synonym 'p pools = "string \<Rightarrow> nat \<Rightarrow> storage_builder_timeouts \<Rightarrow> nat \<Rightarrow> oxana_error + 'p"

definition pool_for :: "'p pools \<Rightarrow> storage_builder \<Rightarrow> string \<Rightarrow> oxana_error + 'p" where
  "pool_for P b url =
     P url (case sb_max_pool_size b of Some n \<Rightarrow> n | None \<Rightarrow> 50)
       (case sb_timeouts b of Some t \<Rightarrow> t | None \<Rightarrow> timeouts_default)
       (case sb_redis_response_timeout b of Some t \<Rightarrow> t | None \<Rightarrow> 60000 * ms)"

definition build_from_redis_url ::
    "'p pools \<Rightarrow> nat \<Rightarrow> identity \<Rightarrow> storage_builder \<Rightarrow> string \<Rightarrow> oxana_error + 'p built" where
  "build_from_redis_url P limit i b url = (case pool_for P b url of
       Inl e \<Rightarrow> Inl e
     | Inr pool \<Rightarrow> build_from_pool limit i b pool)"

definition build_from_redis_urls ::
    "'p pools \<Rightarrow> nat \<Rightarrow> identity \<Rightarrow> storage_builder \<Rightarrow> string \<Rightarrow> string \<Rightarrow> oxana_error + 'p built" where
  "build_from_redis_urls P limit i b url stats_url = (case pool_for P b url of
       Inl e \<Rightarrow> Inl e
     | Inr pool \<Rightarrow> (case pool_for P b stats_url of
           Inl e \<Rightarrow> Inl e
         | Inr stats \<Rightarrow> build_from_pools limit i b pool stats))"

text \<open>The environment: a variable is missing, not valid unicode (its raw value), or a string.\<close>

datatype var_value = NotPresent | NotUnicode string | VarValue string

definition build_from_env_var ::
    "'p pools \<Rightarrow> nat \<Rightarrow> identity \<Rightarrow> (string \<Rightarrow> var_value) \<Rightarrow> storage_builder \<Rightarrow> string \<Rightarrow> oxana_error + 'p built" where
  "build_from_env_var P limit i env b var = (case env var of
       NotPresent \<Rightarrow> Inl (ConfigError (var @ '' is not set''))
     | NotUnicode _ \<Rightarrow> Inl (ConfigError (var @ '' is not valid unicode''))
     | VarValue url \<Rightarrow> (case env ''REDIS_STATS_URL'' of
           VarValue stats_url \<Rightarrow> build_from_redis_urls P limit i b url stats_url
         | _ \<Rightarrow> build_from_redis_url P limit i b url))"

definition build_from_env ::
    "'p pools \<Rightarrow> nat \<Rightarrow> identity \<Rightarrow> (string \<Rightarrow> var_value) \<Rightarrow> storage_builder \<Rightarrow> oxana_error + 'p built" where
  "build_from_env P limit i env b = build_from_env_var P limit i env b ''REDIS_URL''"

section \<open>Lemmas\<close>

text \<open>The base of a queue, whose stored configuration its sub-queues inherit.\<close>

abbreviation qv_base :: "queue_value \<Rightarrow> string" where
  "qv_base q \<equiv> key_or_prefix (qv_config q)"

text \<open>A queue value is coherent when a static queue is named by its key, as the provided \<^verbatim>\<open>key\<close> does.\<close>

definition coherent :: "queue_value \<Rightarrow> bool" where
  "coherent q \<longleftrightarrow> (case qc_kind (qv_config q) of Static k \<Rightarrow> qv_key q = k | Dynamic _ _ \<Rightarrow> True)"

text \<open>The concurrency a queue falls back to once it has no override of its own.\<close>

definition inherited_concurrency :: "'d redis \<Rightarrow> codec \<Rightarrow> storage \<Rightarrow> 'd \<Rightarrow> queue_value \<Rightarrow> nat" where
  "inherited_concurrency R C S d q =
     (if qv_key q = qv_base q then default_concurrency (qv_concurrency q)
      else case Option.bind (stored_config R C S d (qv_base q)) rc_concurrency of
             Some n \<Rightarrow> n | None \<Rightarrow> default_concurrency (qv_concurrency q))"

lemma reset_default_Inr:
  assumes "coherent q" and "concurrency_is_dynamic (qv_concurrency q)"
    and "runtime_concurrency_reset_default R C S (qv_key q) (qc_kind (qv_config q)) (qv_concurrency q) d = (Inr n, d')"
  shows "d' = d \<and> n = inherited_concurrency R C S d q"
proof (cases "qc_kind (qv_config q)")
  case (Static k)
  with assms show ?thesis
    by (auto simp: runtime_concurrency_reset_default_def coherent_def inherited_concurrency_def key_or_prefix_def return_def)
next
  case (Dynamic pre i)
  show ?thesis
  proof (cases "qv_key q = pre")
    case True
    with Dynamic assms show ?thesis
      by (auto simp: runtime_concurrency_reset_default_def inherited_concurrency_def key_or_prefix_def return_def)
  next
    case False
    with Dynamic assms(3) obtain base where
      b: "queue_config_or_default R C S pre (stored_runtime_default (qv_concurrency q)) d = (Inr base, d')"
      and n: "n = (case rc_concurrency base of Some n \<Rightarrow> n | None \<Rightarrow> default_concurrency (qv_concurrency q))"
      by (auto simp: runtime_concurrency_reset_default_def bind_eq_Inr return_def)
    from queue_config_or_default_Inr [OF b] n False Dynamic assms(2) show ?thesis
      by (auto simp: inherited_concurrency_def key_or_prefix_def with_defaults_def stored_runtime_default_def
          split: option.splits)
  qed
qed

lemma set_queue_concurrency_writes:
  assumes "redis_server R" and "json_codec C" and "coherent q" and "n \<le> u64_max"
    and "set_queue_concurrency R C S (\<lambda>d. d) (\<lambda>d. d) q n d = (Inr (), d')"
  shows "concurrency_is_dynamic (qv_concurrency q) \<and>
    stored_config R C S d' =
      (if n = inherited_concurrency R C S d q \<and> stored_config R C S d (qv_key q) = None then stored_config R C S d
       else (stored_config R C S d)(qv_key q \<mapsto>
         (case stored_config R C S d (qv_key q) of Some rc \<Rightarrow> rc | None \<Rightarrow> runtime_config_default)
           \<lparr>rc_concurrency := if n \<noteq> inherited_concurrency R C S d q then Some n else None\<rparr>))"
proof -
  let ?put = "\<lambda>dflt rc. (case rc of Some rc \<Rightarrow> rc | None \<Rightarrow> runtime_config_default)
    \<lparr>rc_concurrency := if n \<noteq> dflt then Some n else None\<rparr>"
  have dyn: "concurrency_is_dynamic (qv_concurrency q)"
    using assms(5) by (auto simp: set_queue_concurrency_def validate_dynamic_concurrency_def seq_eq_Inr
        lift_result_def split: if_splits)
  obtain dflt d1 existing d2 where
    r: "runtime_concurrency_reset_default R C S (qv_key q) (qc_kind (qv_config q)) (qv_concurrency q) d = (Inr dflt, d1)"
    and s: "stored_queue_config R C S (qv_key q) d1 = (Inr existing, d2)"
    and w: "if n = dflt \<and> existing = None then d' = d2
      else set_queue_config R C S (qv_key q) (?put dflt existing) d2 = (Inr (), d')"
    using assms(5) dyn
    by (fastforce simp: set_queue_concurrency_def validate_dynamic_concurrency_def seq_eq_Inr bind_eq_Inr
        lift_result_def interfere_def return_def split: if_splits)
  have d1: "d1 = d" "dflt = inherited_concurrency R C S d q" using reset_default_Inr [OF assms(3) dyn r] by simp_all
  have d2: "d2 = d" "existing = stored_config R C S d (qv_key q)" using stored_queue_config_Inr [OF s] d1 by simp_all
  show ?thesis
  proof (cases "n = dflt \<and> existing = None")
    case True
    with w d1 d2 dyn show ?thesis by simp
  next
    case False
    with w d2 have w: "set_queue_config R C S (qv_key q) (?put dflt existing) d = (Inr (), d')" by auto
    have "case rc_concurrency (?put dflt existing) of None \<Rightarrow> True | Some n \<Rightarrow> n \<le> u64_max"
      using assms(4) by simp
    from set_queue_config_writes [OF assms(1,2) w this] False dyn d1 d2 show ?thesis by auto
  qed
qed

lemma concurrency_effective:
  assumes "redis_server R" and "json_codec C" and "coherent q" and "n \<le> u64_max"
    and "set_queue_concurrency R C S (\<lambda>d. d) (\<lambda>d. d) q n d = (Inr (), d')"
    and "runtime_queue_config R C S (qv_key q) (qv_base q) (stored_runtime_default (qv_concurrency q)) d' = (Inr rc', d'')"
  shows "rc_concurrency (effective_runtime_config (qv_concurrency q) rc') = Some n"
proof -
  note w = set_queue_concurrency_writes [OF assms(1-5)] and after = runtime_queue_config_Inr [OF assms(6)]
  obtain m where m: "qv_concurrency q = DynamicConcurrency m" using w by (cases "qv_concurrency q") simp_all
  have dflt: "rc_concurrency (stored_runtime_default (qv_concurrency q)) = Some m"
    "default_concurrency (qv_concurrency q) = m"
    by (simp_all add: m stored_runtime_default_def)
  have "rc_concurrency rc' = Some n"
    using after w by (auto simp: dflt inherited_concurrency_def runtime_config_default_def split: option.splits if_splits)
  then show ?thesis by (simp add: m effective_runtime_config_def)
qed

lemma api_set_queue_state_writes:
  assumes "redis_server R" and "json_codec C"
    and "api_set_queue_state R C S (\<lambda>d. d) q st d = (Inr (), d')"
  shows "\<exists>rc. stored_config R C S d' = (stored_config R C S d)(qv_key q \<mapsto> rc) \<and> rc_state rc = st \<and>
    (concurrency_is_dynamic (qv_concurrency q) \<longrightarrow>
       rc_concurrency rc = Option.bind (stored_config R C S d (qv_key q)) rc_concurrency)"
proof (cases "concurrency_is_dynamic (qv_concurrency q)")
  case True
  with assms(3) have "set_queue_state R C S (\<lambda>d. d) (qv_key q) st d = (Inr (), d')"
    by (simp add: api_set_queue_state_def)
  from set_queue_state_writes [OF assms(1,2) this] show ?thesis
    by (auto simp: runtime_config_default_def split: option.splits)
next
  case False
  with assms(3) obtain c d1 where c: "stored_queue_config R C S (qv_key q) d = (Inr c, d1)"
    and w: "set_queue_config R C S (qv_key q)
      ((case c of Some c \<Rightarrow> c | None \<Rightarrow> runtime_config_default)\<lparr>rc_concurrency := None, rc_state := st\<rparr>) d1 = (Inr (), d')"
    by (auto simp: api_set_queue_state_def bind_eq_Inr seq_eq_Inr interfere_def)
  from stored_queue_config_Inr [OF c] have "d1 = d" by simp
  with set_queue_config_writes [OF assms(1,2) w] False show ?thesis by auto
qed

section \<open>Properties\<close>

text \<open>
  C32. Changing the concurrency of a queue: a call that succeeds, with no other writer in between,
  is on a queue of dynamic concurrency, and from then on the workers run the queue with the
  requested concurrency; no other queue's stored configuration changes. The state is kept,
  with one exception: a sub-queue without a stored configuration of its own becomes active
  when it gets one, even if its base queue is paused.
\<close>

theorem set_queue_concurrency_contract:
  assumes "redis_server R" and "json_codec C" and "coherent q" and "n \<le> u64_max"
    and "set_queue_concurrency R C S (\<lambda>d. d) (\<lambda>d. d) q n d = (Inr (), d')"
    and "runtime_queue_config R C S (qv_key q) (qv_base q) (stored_runtime_default (qv_concurrency q)) d = (Inr rc, d0)"
    and "runtime_queue_config R C S (qv_key q) (qv_base q) (stored_runtime_default (qv_concurrency q)) d' = (Inr rc', d'')"
  shows "rc_concurrency (effective_runtime_config (qv_concurrency q) rc') = Some n \<and>
    rc_state rc' = (if stored_config R C S d (qv_key q) = None \<and> n \<noteq> inherited_concurrency R C S d q
      then Active else rc_state rc) \<and>
    (\<forall>p. p \<noteq> qv_key q \<longrightarrow> stored_config R C S d' p = stored_config R C S d p)"
proof -
  have w: "concurrency_is_dynamic (qv_concurrency q)"
    "stored_config R C S d' =
      (if n = inherited_concurrency R C S d q \<and> stored_config R C S d (qv_key q) = None then stored_config R C S d
       else (stored_config R C S d)(qv_key q \<mapsto>
         (case stored_config R C S d (qv_key q) of Some rc \<Rightarrow> rc | None \<Rightarrow> runtime_config_default)
           \<lparr>rc_concurrency := if n \<noteq> inherited_concurrency R C S d q then Some n else None\<rparr>))"
    using set_queue_concurrency_writes [OF assms(1-5)] by simp_all
  note before = runtime_queue_config_Inr [OF assms(6)] and after = runtime_queue_config_Inr [OF assms(7)]
  have "rc_concurrency (effective_runtime_config (qv_concurrency q) rc') = Some n"
    by (rule concurrency_effective [OF assms(1-5,7)])
  moreover have "rc_state rc' = (if stored_config R C S d (qv_key q) = None \<and> n \<noteq> inherited_concurrency R C S d q
      then Active else rc_state rc)"
    using before after w(2) by (auto simp: runtime_config_default_def split: option.splits if_splits)
  ultimately show ?thesis using w(2) by simp
qed

text \<open>
  Pausing and resuming through the handle: after a call that succeeds, with no other writer in
  between, the workers run the queue in the requested state and with the concurrency they ran
  it with before, whether that is fixed, inherited or overridden; no other queue's stored
  configuration changes.
\<close>

theorem queue_state_contract:
  assumes "redis_server R" and "json_codec C"
    and "api_set_queue_state R C S (\<lambda>d. d) q st d = (Inr (), d')"
    and "runtime_queue_config R C S (qv_key q) (qv_base q) (stored_runtime_default (qv_concurrency q)) d = (Inr rc, d0)"
    and "runtime_queue_config R C S (qv_key q) (qv_base q) (stored_runtime_default (qv_concurrency q)) d' = (Inr rc', d'')"
  shows "effective_runtime_config (qv_concurrency q) rc' = (effective_runtime_config (qv_concurrency q) rc)\<lparr>rc_state := st\<rparr> \<and>
    (\<forall>p. p \<noteq> qv_key q \<longrightarrow> stored_config R C S d' p = stored_config R C S d p)"
proof -
  obtain x where w: "stored_config R C S d' = (stored_config R C S d)(qv_key q \<mapsto> x)" "rc_state x = st"
    "concurrency_is_dynamic (qv_concurrency q) \<longrightarrow>
       rc_concurrency x = Option.bind (stored_config R C S d (qv_key q)) rc_concurrency"
    using api_set_queue_state_writes [OF assms(1-3)] by blast
  note before = runtime_queue_config_Inr [OF assms(4)] and after = runtime_queue_config_Inr [OF assms(5)]
  have "concurrency_is_dynamic (qv_concurrency q) \<Longrightarrow> rc_concurrency rc' = rc_concurrency rc"
    using before after w by (auto split: option.splits)
  moreover have "rc_state rc' = st" using after w by simp
  ultimately show ?thesis
    by (cases "qv_concurrency q") (simp_all add: effective_runtime_config_def w(1))
qed

text \<open>
  A storage that a builder returns has a retry policy that validates, whichever way it was
  built, and carries the builder's namespace and limits.
\<close>

lemma built_storage_valid:
  assumes "build_from_env_var P limit i env b var = Inr st"
  shows "(\<forall>cfg. claimed_connection_retries (b_storage st) = Some cfg \<longrightarrow> pool_retry_config_validate limit cfg = Inr ()) \<and>
    claimed_connection_retries (b_storage st) = sb_claimed_connection_retries b \<and>
    dead_job_limit (b_storage st) = sb_dead_job_limit b \<and>
    st_keys (b_storage st) = storage_keys_new (case sb_namespace b of Some n \<Rightarrow> n | None \<Rightarrow> [])"
  using assms
  by (auto simp: build_from_env_var_def build_from_redis_urls_def build_from_redis_url_def build_from_pools_def
      build_from_pool_def build_with_def with_optional_stats_pool_def
      split: var_value.splits sum.splits option.splits)

text \<open>
  The error of a missing or unreadable variable does not depend on its value, which may hold
  credentials.
\<close>

theorem env_error_hides_value:
  assumes "\<And>v. env var \<noteq> VarValue v" and "\<And>v. env' var \<noteq> VarValue v"
    and "env var = NotPresent \<longleftrightarrow> env' var = NotPresent"
  shows "build_from_env_var P limit i env b var = build_from_env_var P' limit' i' env' b' var \<and>
    (\<exists>msg. build_from_env_var P limit i env b var = Inl (ConfigError msg))"
  using assms by (cases "env var"; cases "env' var") (auto simp: build_from_env_var_def)

section \<open>Witnesses\<close>

definition sub_queue :: queue_value where
  "sub_queue = \<lparr>qv_key = ''mail:7'', qv_config = with_dynamic_concurrency 4 (as_dynamic ''mail'')\<rparr>"

text \<open>The base queue is paused and has an override of its own; the sub-queue has no stored configuration.\<close>

definition paused_base :: queue_runtime_config where
  "paused_base = \<lparr>rc_concurrency = Some 2, rc_state = Paused\<rparr>"

definition paused_text :: string where
  "paused_text = jprint netstring_codec (runtime_config_to_json paused_base)"

definition paused_server :: "(string \<times> rvalue) list" where
  "paused_server = [(''app:queue_configs'', VHash [(''mail'', paused_text)])]"

lemma paused_text_parses [simp]: "runtime_config_of_text netstring_codec paused_text = Some paused_base"
  unfolding paused_text_def by (rule net.config_text_roundtrip) (simp add: paused_base_def)

lemma sub_queue_sel [simp]:
  "qv_key sub_queue = ''mail:7''" "qv_base sub_queue = ''mail''" "qv_concurrency sub_queue = DynamicConcurrency 4"
  "qc_kind (qv_config sub_queue) = Dynamic ''mail'' 500000000" "coherent sub_queue"
  by (simp_all add: sub_queue_def with_dynamic_concurrency_def as_dynamic_def key_or_prefix_def coherent_def)

lemma api_keys [simp]: "queue_configs_key (st_keys sample_storage) = ''app:queue_configs''"
  by (simp add: sample_storage_def storage_keys_new_def)

lemmas api_run = config_run set_queue_concurrency_def api_set_queue_state_def runtime_concurrency_reset_default_def
  validate_dynamic_concurrency_def lift_result_def return_def paused_server_def with_defaults_def stored_runtime_default_def

lemma paused_runs:
  "runtime_queue_config mem_redis netstring_codec sample_storage ''mail:7'' ''mail''
     (stored_runtime_default (DynamicConcurrency 4)) paused_server = (Inr paused_base, paused_server)"
  by (simp add: api_run) (simp add: paused_base_def)

theorem set_queue_concurrency_contract_witness:
  "\<exists>d' rc'. set_queue_concurrency mem_redis netstring_codec sample_storage (\<lambda>d. d) (\<lambda>d. d) sub_queue 3 paused_server = (Inr (), d') \<and>
     runtime_queue_config mem_redis netstring_codec sample_storage ''mail:7'' ''mail''
       (stored_runtime_default (DynamicConcurrency 4)) d' = (Inr rc', d') \<and>
     rc_concurrency (effective_runtime_config (DynamicConcurrency 4) rc') = Some 3 \<and> rc_state paused_base = Paused \<and> rc_state rc' = Active"
proof -
  let ?R = mem_redis and ?C = netstring_codec and ?S = sample_storage
  define rc where "rc = \<lparr>rc_concurrency = Some 3, rc_state = Active\<rparr>"
  define stored where "stored = jprint ?C (runtime_config_to_json rc)"
  have t: "runtime_config_of_text ?C stored = Some rc"
    unfolding stored_def by (rule net.config_text_roundtrip) (simp add: rc_def)
  define d' where "d' = [(''app:queue_configs'', VHash [(''mail'', paused_text), (''mail:7'', stored)])]"
  have w: "set_queue_concurrency ?R ?C ?S (\<lambda>d. d) (\<lambda>d. d) sub_queue 3 paused_server = (Inr (), d')"
    by (simp add: api_run d'_def stored_def rc_def paused_base_def runtime_config_default_def)
  have r: "runtime_queue_config ?R ?C ?S (qv_key sub_queue) (qv_base sub_queue)
      (stored_runtime_default (qv_concurrency sub_queue)) paused_server = (Inr paused_base, paused_server)"
    using paused_runs by simp
  have r': "runtime_queue_config ?R ?C ?S (qv_key sub_queue) (qv_base sub_queue)
      (stored_runtime_default (qv_concurrency sub_queue)) d' = (Inr rc, d')"
    by (simp add: api_run d'_def t) (simp add: rc_def paused_base_def)
  have none: "stored_config ?R ?C ?S paused_server ''mail:7'' = None"
    "inherited_concurrency ?R ?C ?S paused_server sub_queue = 2"
    by (simp_all add: stored_config_def inherited_concurrency_def paused_server_def mem_defs paused_base_def)
  from set_queue_concurrency_contract [OF mem.redis_server_axioms net.json_codec_axioms _ _ w r r'] w r' none show ?thesis
    by (simp add: paused_base_def)
qed

theorem queue_state_contract_witness:
  "\<exists>d' rc'. api_set_queue_state mem_redis netstring_codec sample_storage (\<lambda>d. d) sub_queue Active paused_server = (Inr (), d') \<and>
     runtime_queue_config mem_redis netstring_codec sample_storage ''mail:7'' ''mail''
       (stored_runtime_default (DynamicConcurrency 4)) d' = (Inr rc', d') \<and>
     effective_runtime_config (DynamicConcurrency 4) rc' = \<lparr>rc_concurrency = Some 2, rc_state = Active\<rparr>"
proof -
  let ?R = mem_redis and ?C = netstring_codec and ?S = sample_storage
  define stored where "stored = jprint ?C (runtime_config_to_json runtime_config_default)"
  have t: "runtime_config_of_text ?C stored = Some runtime_config_default"
    unfolding stored_def by (rule net.config_text_roundtrip) (simp add: runtime_config_default_def)
  define d' where "d' = [(''app:queue_configs'', VHash [(''mail'', paused_text), (''mail:7'', stored)])]"
  have w: "api_set_queue_state ?R ?C ?S (\<lambda>d. d) sub_queue Active paused_server = (Inr (), d')"
    by (simp add: api_run d'_def stored_def runtime_config_default_def)
  have r: "runtime_queue_config ?R ?C ?S (qv_key sub_queue) (qv_base sub_queue)
      (stored_runtime_default (qv_concurrency sub_queue)) paused_server = (Inr paused_base, paused_server)"
    using paused_runs by simp
  have r': "runtime_queue_config ?R ?C ?S (qv_key sub_queue) (qv_base sub_queue)
      (stored_runtime_default (qv_concurrency sub_queue)) d' = (Inr \<lparr>rc_concurrency = Some 2, rc_state = Active\<rparr>, d')"
    by (simp add: api_run d'_def t) (simp add: runtime_config_default_def paused_base_def)
  from queue_state_contract [OF mem.redis_server_axioms net.json_codec_axioms w r r'] w r' show ?thesis
    by (simp add: effective_runtime_config_def paused_base_def)
qed

end
