(* ===== verification/Runtime_Builder.thy ===== *)
theory Runtime_Builder
  imports Executor Worker_Registry Storage_Api "HOL-Library.Multiset" "HOL-Library.List_Lexorder" "HOL-Library.Char_ord"
begin

text \<open>
  The configuration of a worker process: \<^verbatim>\<open>RuntimeSettings\<close>, \<^verbatim>\<open>Config\<close> and its catalog from
  \<^verbatim>\<open>config.rs\<close>, and \<^verbatim>\<open>RuntimeBuilder\<close> from \<^verbatim>\<open>runtime.rs\<close> with the checks \<^verbatim>\<open>run\<close> makes before
  it launches. A builder call that panics is \<open>None\<close>. Durations are numbers of nanoseconds; a
  \<^verbatim>\<open>HashSet\<close> is a list without two equal configurations, in any order.
\<close>

section \<open>Settings\<close>

text \<open>A shutdown signal is a future; the slot is emptied when a runtime takes it.\<close>

datatype 'g signal = NoSignal | Signal 'g

record 'g runtime_settings =
  rs_exit_when_processed :: "nat option"
  rs_shutdown_signal :: "'g option"
  rs_shutdown_timeout :: "nat option"
  rs_execution :: execution_settings
  rs_heartbeat_interval :: nat
  rs_dead_process_threshold :: nat
  rs_resurrect_scan_interval :: nat
  rs_redis_failure_tolerance :: "32 word"
  rs_retry_poll_interval :: nat
  rs_schedule_poll_interval :: nat
  rs_cron_initial_offset :: nat
  rs_cron_lookahead :: nat
  rs_cron_tick_interval :: nat
  rs_dequeue_timeout :: nat
  rs_dispatcher_idle_sleep :: nat
  rs_throttled_queue_fallback_wait :: nat
  rs_filters :: queue_filters

definition runtime_settings_new :: "'g \<Rightarrow> 'g runtime_settings" where
  "runtime_settings_new default_shutdown_signal =
     \<lparr>rs_exit_when_processed = None, rs_shutdown_signal = Some default_shutdown_signal,
      rs_shutdown_timeout = Some (180000 * ms),
      rs_execution = \<lparr>retry_delay_override = None, error_formatter = None\<rparr>,
      rs_heartbeat_interval = 500 * ms, rs_dead_process_threshold = 5000 * ms,
      rs_resurrect_scan_interval = 2000 * ms, rs_redis_failure_tolerance = 30,
      rs_retry_poll_interval = 300 * ms, rs_schedule_poll_interval = 300 * ms,
      rs_cron_initial_offset = 3000 * ms, rs_cron_lookahead = 30000 * ms, rs_cron_tick_interval = 1000 * ms,
      rs_dequeue_timeout = 10000 * ms, rs_dispatcher_idle_sleep = 1000 * ms,
      rs_throttled_queue_fallback_wait = 100 * ms,
      rs_filters = \<lparr>queue_allowlist = [], queue_denylist = []\<rparr>\<rparr>"

definition replace_shutdown_signal :: "'g \<Rightarrow> 'g runtime_settings \<Rightarrow> 'g runtime_settings" where
  "replace_shutdown_signal g st = st\<lparr>rs_shutdown_signal := Some g\<rparr>"

definition consume_shutdown_signal :: "'g runtime_settings \<Rightarrow> 'g signal \<times> 'g runtime_settings" where
  "consume_shutdown_signal st =
     ((case rs_shutdown_signal st of Some g \<Rightarrow> Signal g | None \<Rightarrow> NoSignal), st\<lparr>rs_shutdown_signal := None\<rparr>)"

section \<open>Registrations\<close>

record ('c, 'w, 's) config =
  cfg_registry :: "('c, 'w, 's) worker_registry"
  cfg_queues :: "queue_config list"

definition config_new :: "('c, 'w, 's) config" where
  "config_new = \<lparr>cfg_registry = registry_new, cfg_queues = []\<rparr>"

text \<open>
  A worker type \<^verbatim>\<open>W\<close> with its job type \<^verbatim>\<open>A\<close>, as \<^verbatim>\<open>register_worker\<close> sees it: its configuration
  without legacy names, its type name, whether the job reads from an empty object, the queue
  its cron attribute declares, and its envelope factory.
\<close>

record ('c, 'w) worker_type =
  wt_config :: "('c, 'w) worker_config"
  wt_type_name :: string
  wt_reads_empty :: bool
  wt_cron_queue :: "queue_config option"
  wt_cron_factory :: cron_factory_fn

definition register_worker ::
    "(string \<Rightarrow> 's option) \<Rightarrow> ('c, 'w) worker_type \<Rightarrow> ('c, 'w, 's) config \<Rightarrow> ('c, 'w, 's) config option" where
  "register_worker parse_schedule w cfg =
     (let is_cron = (wc_kind (wt_config w) \<noteq> Normal) in
      if is_cron \<and> \<not> wt_reads_empty w then None
      else map_option
        (\<lambda>reg. cfg\<lparr>cfg_registry := reg,
           cfg_queues := (case (is_cron, wt_cron_queue w) of
               (True, Some q) \<Rightarrow> register_default_queue q (cfg_queues cfg)
             | _ \<Rightarrow> cfg_queues cfg)\<rparr>)
        (register_worker_with parse_schedule ((wt_config w)\<lparr>wc_legacy_names := [wt_type_name w]\<rparr>)
           (Some (wt_cron_factory w)) (cfg_registry cfg)))"

section \<open>The catalog\<close>

record queue_info =
  qi_key :: string
  qi_dynamic :: bool
  qi_concurrency :: nat
  qi_dynamic_concurrency :: bool
  qi_throttle :: "queue_throttle option"

record 's cron_worker_info =
  ci_name :: string
  ci_schedule :: 's
  ci_queue_key :: string
  ci_resurrect :: bool

record on_demand_job_info =
  oi_name :: string
  oi_args_template :: json
  oi_enqueue_factory :: "string \<Rightarrow> json \<Rightarrow> oxana_error + job_envelope"

record 's catalog =
  cat_workers :: "string list"
  cat_cron_workers :: "'s cron_worker_info list"
  cat_queues :: "queue_info list"
  cat_on_demand_jobs :: "on_demand_job_info list"

definition queue_info_of :: "queue_config \<Rightarrow> queue_info" where
  "queue_info_of q =
     \<lparr>qi_key = key_or_prefix q, qi_dynamic = (case qc_kind q of Static _ \<Rightarrow> False | Dynamic _ _ \<Rightarrow> True),
      qi_concurrency = default_concurrency (qc_concurrency q),
      qi_dynamic_concurrency = concurrency_is_dynamic (qc_concurrency q), qi_throttle = qc_throttle q\<rparr>"

text \<open>
  The names of a hash map, sorted: the maps of the registry are finite, and sorting by a
  distinct name makes the order of the hash map immaterial. The same key may name a static and
  a dynamic queue; those two stay in the order of the hash set.
\<close>

definition names_of :: "(string \<rightharpoonup> 'a) \<Rightarrow> string list" where
  "names_of m = sorted_list_of_set (dom m)"

definition catalog_with_queues :: "('c, 'w, 's) config \<Rightarrow> queue_config list \<Rightarrow> 's catalog" where
  "catalog_with_queues cfg extra =
     (let reg = cfg_registry cfg in
      \<lparr>cat_workers = filter (\<lambda>n. schedules reg n = None) (names_of (jobs reg)),
       cat_cron_workers = List.map_filter (\<lambda>n. map_option (\<lambda>cj.
           \<lparr>ci_name = n, ci_schedule = cron_schedule cj, ci_queue_key = cron_queue_key cj,
            ci_resurrect = cron_resurrect cj\<rparr>) (schedules reg n)) (names_of (schedules reg)),
       cat_queues = sort_key qi_key (map queue_info_of
           (cfg_queues cfg @ filter (\<lambda>q. \<not> contains_queue q (cfg_queues cfg)) extra)),
       cat_on_demand_jobs = List.map_filter (\<lambda>n. map_option (\<lambda>r.
           \<lparr>oi_name = n, oi_args_template = args_template r, oi_enqueue_factory = enqueue_factory r\<rparr>)
           (on_demand_jobs reg n)) (names_of (on_demand_jobs reg))\<rparr>)"

section \<open>The builder\<close>

text \<open>The storage handle shares its monitoring threshold with all its clones.\<close>

record ('c, 'w, 's, 'g) runtime_builder =
  rb_monitoring_threshold :: nat
  rb_config :: "('c, 'w, 's) config"
  rb_settings :: "'g runtime_settings"

definition runtime_builder_new :: "'g \<Rightarrow> nat \<Rightarrow> ('c, 'w, 's, 'g) runtime_builder" where
  "runtime_builder_new default_shutdown_signal threshold =
     \<lparr>rb_monitoring_threshold = threshold, rb_config = config_new,
      rb_settings = runtime_settings_new default_shutdown_signal\<rparr>"

datatype ('c, 'w, 'g) builder_call =
    QueueWith queue_config
  | QueueWithConcurrency queue_config nat
  | OnlyQueue queue_config
  | ExceptQueue queue_config
  | AddWorker "('c, 'w) worker_type"
  | WorkerWith "('c, 'w) worker_config"
  | ExitWhenProcessed nat
  | ShutdownOn 'g
  | ShutdownTimeoutAfter nat
  | DisableShutdownTimeout
  | RetryDelayOverride "string \<Rightarrow> 32 word \<Rightarrow> nat \<Rightarrow> nat option"
  | ErrorFormatter "string \<Rightarrow> string"
  | HeartbeatInterval nat
  | DeadProcessThreshold nat
  | ResurrectScanInterval nat
  | RedisFailureTolerance "32 word"
  | RetryPollInterval nat
  | SchedulePollInterval nat
  | CronInitialOffset nat
  | CronLookahead nat
  | CronTickInterval nat
  | DequeueTimeout nat
  | DispatcherIdleSleep nat
  | ThrottledQueueFallbackWait nat

text \<open>\<open>insert_queue\<close> is \<^verbatim>\<open>HashSet::insert\<close>, which keeps an equal element that is there already.\<close>

definition insert_queue :: "queue_config \<Rightarrow> queue_config list \<Rightarrow> queue_config list" where
  "insert_queue q qs = (if contains_queue q qs then qs else q # qs)"

definition on_settings ::
    "('g runtime_settings \<Rightarrow> 'g runtime_settings) \<Rightarrow> ('c, 'w, 's, 'g) runtime_builder \<Rightarrow> ('c, 'w, 's, 'g) runtime_builder" where
  "on_settings f b = b\<lparr>rb_settings := f (rb_settings b)\<rparr>"

definition on_interval ::
    "(nat \<Rightarrow> 'g runtime_settings \<Rightarrow> 'g runtime_settings) \<Rightarrow> nat \<Rightarrow> ('c, 'w, 's, 'g) runtime_builder
       \<Rightarrow> ('c, 'w, 's, 'g) runtime_builder option" where
  "on_interval f t b = map_option (\<lambda>t. on_settings (f t) b) (require_non_zero_duration t)"

definition queue_with :: "queue_config \<Rightarrow> ('c, 'w, 's, 'g) runtime_builder \<Rightarrow> ('c, 'w, 's, 'g) runtime_builder" where
  "queue_with q b = b\<lparr>rb_config := (rb_config b)\<lparr>cfg_queues := register_queue_with q (cfg_queues (rb_config b))\<rparr>\<rparr>"

fun builder_step ::
    "(string \<Rightarrow> 's option) \<Rightarrow> ('c, 'w, 'g) builder_call \<Rightarrow> ('c, 'w, 's, 'g) runtime_builder
       \<Rightarrow> ('c, 'w, 's, 'g) runtime_builder option" where
  "builder_step P (QueueWith q) b = Some (queue_with q b)"
| "builder_step P (QueueWithConcurrency q n) b =
     (if n = 0 then None else Some (queue_with (q\<lparr>qc_concurrency := Fixed n\<rparr>) b))"
| "builder_step P (OnlyQueue q) b = Some (on_settings (\<lambda>st. st\<lparr>rs_filters :=
     (rs_filters st)\<lparr>queue_allowlist := insert_queue q (queue_allowlist (rs_filters st))\<rparr>\<rparr>) b)"
| "builder_step P (ExceptQueue q) b = Some (on_settings (\<lambda>st. st\<lparr>rs_filters :=
     (rs_filters st)\<lparr>queue_denylist := insert_queue q (queue_denylist (rs_filters st))\<rparr>\<rparr>) b)"
| "builder_step P (AddWorker w) b =
     map_option (\<lambda>cfg. b\<lparr>rb_config := cfg\<rparr>) (register_worker P w (rb_config b))"
| "builder_step P (WorkerWith w) b =
     map_option (\<lambda>reg. b\<lparr>rb_config := (rb_config b)\<lparr>cfg_registry := reg\<rparr>\<rparr>)
       (register_worker_with P w None (cfg_registry (rb_config b)))"
| "builder_step P (ExitWhenProcessed n) b = Some (on_settings (\<lambda>st. st\<lparr>rs_exit_when_processed := Some n\<rparr>) b)"
| "builder_step P (ShutdownOn g) b = Some (on_settings (replace_shutdown_signal g) b)"
| "builder_step P (ShutdownTimeoutAfter t) b = Some (on_settings (\<lambda>st. st\<lparr>rs_shutdown_timeout := Some t\<rparr>) b)"
| "builder_step P DisableShutdownTimeout b = Some (on_settings (\<lambda>st. st\<lparr>rs_shutdown_timeout := None\<rparr>) b)"
| "builder_step P (RetryDelayOverride f) b = Some (on_settings (\<lambda>st. st\<lparr>rs_execution :=
     (rs_execution st)\<lparr>retry_delay_override := Some f\<rparr>\<rparr>) b)"
| "builder_step P (ErrorFormatter f) b = Some (on_settings (\<lambda>st. st\<lparr>rs_execution :=
     (rs_execution st)\<lparr>error_formatter := Some f\<rparr>\<rparr>) b)"
| "builder_step P (HeartbeatInterval t) b = on_interval (\<lambda>t st. st\<lparr>rs_heartbeat_interval := t\<rparr>) t b"
| "builder_step P (DeadProcessThreshold t) b =
     map_option (\<lambda>b. b\<lparr>rb_monitoring_threshold := t\<rparr>)
       (on_interval (\<lambda>t st. st\<lparr>rs_dead_process_threshold := t\<rparr>) t b)"
| "builder_step P (ResurrectScanInterval t) b = on_interval (\<lambda>t st. st\<lparr>rs_resurrect_scan_interval := t\<rparr>) t b"
| "builder_step P (RedisFailureTolerance n) b = Some (on_settings (\<lambda>st. st\<lparr>rs_redis_failure_tolerance := n\<rparr>) b)"
| "builder_step P (RetryPollInterval t) b = on_interval (\<lambda>t st. st\<lparr>rs_retry_poll_interval := t\<rparr>) t b"
| "builder_step P (SchedulePollInterval t) b = on_interval (\<lambda>t st. st\<lparr>rs_schedule_poll_interval := t\<rparr>) t b"
| "builder_step P (CronInitialOffset t) b = Some (on_settings (\<lambda>st. st\<lparr>rs_cron_initial_offset := t\<rparr>) b)"
| "builder_step P (CronLookahead t) b = Some (on_settings (\<lambda>st. st\<lparr>rs_cron_lookahead := t\<rparr>) b)"
| "builder_step P (CronTickInterval t) b = on_interval (\<lambda>t st. st\<lparr>rs_cron_tick_interval := t\<rparr>) t b"
| "builder_step P (DequeueTimeout t) b = on_interval (\<lambda>t st. st\<lparr>rs_dequeue_timeout := t\<rparr>) t b"
| "builder_step P (DispatcherIdleSleep t) b = on_interval (\<lambda>t st. st\<lparr>rs_dispatcher_idle_sleep := t\<rparr>) t b"
| "builder_step P (ThrottledQueueFallbackWait t) b =
     on_interval (\<lambda>t st. st\<lparr>rs_throttled_queue_fallback_wait := t\<rparr>) t b"

fun builder_calls ::
    "(string \<Rightarrow> 's option) \<Rightarrow> ('c, 'w, 'g) builder_call list \<Rightarrow> ('c, 'w, 's, 'g) runtime_builder
       \<Rightarrow> ('c, 'w, 's, 'g) runtime_builder option" where
  "builder_calls P [] b = Some b"
| "builder_calls P (c # cs) b = Option.bind (builder_step P c b) (builder_calls P cs)"

text \<open>
  A derived component registry, \<^verbatim>\<open>registry.rs\<close>: its components are registered one after the other;
  what the macros submit for a worker type is a function of the builder.
\<close>

datatype ('c, 'w, 's, 'g) component_definition =
    ComponentQueue queue_config
  | ComponentWorker "('c, 'w) worker_config"
  | WorkerRegistration "('c, 'w, 's, 'g) runtime_builder \<Rightarrow> ('c, 'w, 's, 'g) runtime_builder option"

fun register_components ::
    "(string \<Rightarrow> 's option) \<Rightarrow> ('c, 'w, 's, 'g) component_definition list \<Rightarrow> ('c, 'w, 's, 'g) runtime_builder
       \<Rightarrow> ('c, 'w, 's, 'g) runtime_builder option" where
  "register_components P [] b = Some b"
| "register_components P (d # ds) b = Option.bind
     (case d of
        ComponentQueue q \<Rightarrow> Some (queue_with q b)
      | ComponentWorker w \<Rightarrow> builder_step P (WorkerWith w) b
      | WorkerRegistration f \<Rightarrow> f b) (register_components P ds)"

definition runtime_catalog :: "('c, 'w, 's, 'g) runtime_builder \<Rightarrow> 's catalog" where
  "runtime_catalog b = catalog_with_queues (rb_config b) []"

text \<open>The checks of \<^verbatim>\<open>run\<close>; \<open>None\<close> lets the launcher start.\<close>

fun join_comma :: "string list \<Rightarrow> string" where
  "join_comma [] = []"
| "join_comma [s] = s"
| "join_comma (s # ss) = s @ '', '' @ join_comma ss"

definition missing_queues :: "queue_config list \<Rightarrow> queue_config list \<Rightarrow> string list" where
  "missing_queues selected registered =
     map key_or_prefix (filter (\<lambda>q. \<not> contains_queue q registered) selected)"

definition run_check :: "('c, 'w, 's, 'g) runtime_builder \<Rightarrow> oxana_error option" where
  "run_check b =
     (let F = rs_filters (rb_settings b); qs = cfg_queues (rb_config b);
          selected = missing_queues (queue_allowlist F) qs; excluded = missing_queues (queue_denylist F) qs in
      if selected \<noteq> [] then Some (ConfigError (''Selected queues are not registered: '' @ join_comma (sort selected)))
      else if excluded \<noteq> [] then Some (ConfigError (''Excluded queues are not registered: '' @ join_comma (sort excluded)))
      else None)"

section \<open>Invariant\<close>

text \<open>No loop of the runtime spins: every interval it sleeps for is positive.\<close>

definition intervals_positive :: "'g runtime_settings \<Rightarrow> bool" where
  "intervals_positive st \<longleftrightarrow> 0 < rs_heartbeat_interval st \<and> 0 < rs_dead_process_threshold st \<and>
     0 < rs_resurrect_scan_interval st \<and> 0 < rs_retry_poll_interval st \<and> 0 < rs_schedule_poll_interval st \<and>
     0 < rs_cron_tick_interval st \<and> 0 < rs_dequeue_timeout st \<and> 0 < rs_dispatcher_idle_sleep st \<and>
     0 < rs_throttled_queue_fallback_wait st"

definition queue_set :: "queue_config list \<Rightarrow> bool" where
  "queue_set qs \<longleftrightarrow> sorted_wrt (\<lambda>a b. \<not> config_eq a b) qs"

definition registry_wf :: "('c, 'w, 's) worker_registry \<Rightarrow> bool" where
  "registry_wf reg \<longleftrightarrow> registry_inv reg \<and> finite (dom (jobs reg)) \<and> dom (on_demand_jobs reg) \<subseteq> dom (jobs reg)"

definition builder_inv :: "('c, 'w, 's, 'g) runtime_builder \<Rightarrow> bool" where
  "builder_inv b \<longleftrightarrow> intervals_positive (rb_settings b) \<and> queue_set (cfg_queues (rb_config b)) \<and>
     queue_set (queue_allowlist (rs_filters (rb_settings b))) \<and> queue_set (queue_denylist (rs_filters (rb_settings b))) \<and>
     registry_wf (cfg_registry (rb_config b))"

lemma kind_eq_equiv: "kind_eq a b = kind_eq b a" "kind_eq a a" "kind_eq a b \<Longrightarrow> kind_eq b c \<Longrightarrow> kind_eq a c"
proof -
  show "kind_eq a b = kind_eq b a" by (cases a; cases b) auto
  show "kind_eq a a" by (cases a) auto
  show "kind_eq a b \<Longrightarrow> kind_eq b c \<Longrightarrow> kind_eq a c" by (cases a; cases b; cases c) auto
qed

lemma config_eq_sym: "config_eq a b = config_eq b a"
  by (simp add: config_eq_def kind_eq_equiv(1))

lemma queue_set_Nil [simp]: "queue_set []"
  by (simp add: queue_set_def)

lemma queue_set_insert [simp]: "queue_set qs \<Longrightarrow> queue_set (insert_queue q qs)"
  by (auto simp: queue_set_def insert_queue_def contains_queue_def list_ex_iff)

lemma queue_set_default [simp]: "queue_set qs \<Longrightarrow> queue_set (register_default_queue q qs)"
  by (auto simp: queue_set_def register_default_queue_def contains_queue_def list_ex_iff)

lemma queue_set_register [simp]: "queue_set qs \<Longrightarrow> queue_set (register_queue_with q qs)"
  by (auto simp: queue_set_def register_queue_with_def sorted_wrt_filter)

lemma fold_legacy_on_demand:
  "on_demand_jobs (fold (register_legacy_name n) ls reg) = on_demand_jobs reg"
  by (induction ls arbitrary: reg) (simp_all add: legacy_frame)

lemma register_maps:
  assumes "register_worker_with P cfg cron reg = Some reg'"
  shows "dom (jobs reg') = insert (wc_name cfg) (dom (jobs reg))"
    "on_demand_jobs reg' = (on_demand_jobs reg)(wc_name cfg := wc_on_demand cfg)"
  using assms
  by (auto simp: register_worker_with_def Let_def fold_legacy_frame fold_legacy_on_demand
      split: if_splits worker_config_kind.splits option.splits)

lemma register_wf:
  assumes "registry_wf reg" and "register_worker_with P cfg cron reg = Some reg'"
  shows "registry_wf reg'"
  using assms(1) register_inv [OF _ assms(2)] register_maps [OF assms(2)]
  by (auto simp: registry_wf_def split: if_splits)

lemma on_interval_inv:
  assumes "on_interval f t b = Some b'" and "builder_inv b"
    and "\<And>t st. 0 < t \<Longrightarrow> intervals_positive st \<Longrightarrow> intervals_positive (f t st) \<and> rs_filters (f t st) = rs_filters st"
  shows "builder_inv b'"
  using assms by (auto simp: on_interval_def on_settings_def require_non_zero_duration_def builder_inv_def split: if_splits)

lemma register_worker_inv:
  assumes "register_worker P w cfg = Some cfg'" and "queue_set (cfg_queues cfg)" and "registry_wf (cfg_registry cfg)"
  shows "queue_set (cfg_queues cfg') \<and> registry_wf (cfg_registry cfg')"
  using assms register_wf by (fastforce simp: register_worker_def Let_def split: if_splits option.splits bool.splits)

lemma builder_step_inv:
  assumes "builder_step P c b = Some b'" and "builder_inv b"
  shows "builder_inv b'"
proof (cases c)
  case (DeadProcessThreshold t)
  with assms(1) obtain b1 where "on_interval (\<lambda>t st. st\<lparr>rs_dead_process_threshold := t\<rparr>) t b = Some b1"
    and b': "b' = b1\<lparr>rb_monitoring_threshold := t\<rparr>" by auto
  from on_interval_inv [OF this(1) assms(2)] have "builder_inv b1" by (simp add: intervals_positive_def)
  then show ?thesis by (simp add: b' builder_inv_def)
next
  case (AddWorker w)
  with assms show ?thesis using register_worker_inv by (fastforce simp: builder_inv_def)
next
  case (WorkerWith w)
  with assms show ?thesis using register_wf by (fastforce simp: builder_inv_def)
qed (use assms in \<open>auto simp: builder_inv_def on_settings_def queue_with_def intervals_positive_def
       replace_shutdown_signal_def on_interval_def require_non_zero_duration_def split: if_splits\<close>)

lemma builder_calls_inv: "builder_inv b \<Longrightarrow> builder_calls P cs b = Some b' \<Longrightarrow> builder_inv b'"
  by (induction P cs b rule: builder_calls.induct) (auto simp: bind_eq_Some_conv dest: builder_step_inv)

lemma builder_inv_new: "builder_inv (runtime_builder_new g t)"
  by (simp add: builder_inv_def runtime_builder_new_def runtime_settings_new_def config_new_def intervals_positive_def
      registry_wf_def registry_inv_new) (simp add: registry_new_def)

section \<open>Properties\<close>

text \<open>
  C33. Whatever builder calls a program makes, in any order, either one of them panics or the
  runtime is well formed: every interval its loops sleep for is positive, no two registered
  queues are equal, the registry is consistent. And \<^verbatim>\<open>run\<close> starts exactly if every queue that
  was selected or excluded is registered; a queue then runs exactly if it was not excluded
  and was selected or nothing was.
\<close>

theorem runtime_builder_sound:
  assumes "builder_calls P cs (runtime_builder_new g t) = Some b"
  shows "intervals_positive (rb_settings b) \<and> queue_set (cfg_queues (rb_config b)) \<and> registry_wf (cfg_registry (rb_config b)) \<and>
    (run_check b = None \<longleftrightarrow>
      (\<forall>q\<in>set (queue_allowlist (rs_filters (rb_settings b))) \<union> set (queue_denylist (rs_filters (rb_settings b))).
         \<exists>q'\<in>set (cfg_queues (rb_config b)). config_eq q q'))"
proof -
  have "builder_inv b" using builder_calls_inv [OF builder_inv_new assms] .
  then show ?thesis
    by (auto simp: builder_inv_def run_check_def Let_def missing_queues_def filter_empty_conv contains_queue_def list_ex_iff)
qed

text \<open>
  A registry is nothing but builder calls: when every registration function makes some calls,
  registering the components is making all of them in order, so what holds of the builder holds
  of a registry.
\<close>

lemma builder_calls_append: "builder_calls P (cs @ ds) b = Option.bind (builder_calls P cs b) (builder_calls P ds)"
  by (induction cs arbitrary: b) (simp_all split: Option.bind_split)

lemma components_are_calls:
  assumes "\<And>f. WorkerRegistration f \<in> set ds \<Longrightarrow> \<exists>cs. \<forall>b. f b = builder_calls P cs b"
  shows "\<exists>cs. \<forall>b. register_components P ds b = builder_calls P cs b"
  using assms
proof (induction ds)
  case Nil
  show ?case by (rule exI [of _ "[]"]) simp
next
  case (Cons d ds)
  then obtain cs where cs: "\<And>b. register_components P ds b = builder_calls P cs b" by auto
  obtain ds1 where "\<And>b. (case d of ComponentQueue q \<Rightarrow> Some (queue_with q b) | ComponentWorker w \<Rightarrow> builder_step P (WorkerWith w) b
      | WorkerRegistration f \<Rightarrow> f b) = builder_calls P ds1 b"
  proof (cases d)
    case (ComponentQueue q)
    then show ?thesis by (intro that [of "[QueueWith q]"]) simp
  next
    case (ComponentWorker w)
    then show ?thesis by (intro that [of "[WorkerWith w]"]) (simp del: builder_step.simps split: Option.bind_split)
  next
    case (WorkerRegistration f)
    with Cons.prems obtain cs1 where "\<And>b. f b = builder_calls P cs1 b" by auto
    with WorkerRegistration show ?thesis by (intro that [of cs1]) simp
  qed
  moreover have "register_components P ds = builder_calls P cs" using cs by (rule ext)
  ultimately show ?case by (intro exI [of _ "ds1 @ cs"]) (simp add: builder_calls_append)
qed

lemma names_of_set: "finite (dom m) \<Longrightarrow> set (names_of m) = dom m"
  by (simp add: names_of_def)

lemma map_filter_names:
  assumes "finite (dom m)" and "\<And>n x. h (f n x) = n"
  shows "map h (List.map_filter (\<lambda>n. map_option (f n) (m n)) (names_of m)) = names_of m"
proof -
  have *: "\<forall>n\<in>set ns. m n \<noteq> None \<Longrightarrow> map h (List.map_filter (\<lambda>n. map_option (f n) (m n)) ns) = ns" for ns
    by (induction ns) (auto simp: List.map_filter_simps assms(2))
  show ?thesis by (rule *) (use names_of_set [OF assms(1)] in auto)
qed

text \<open>
  The catalog is complete and unambiguous: every registered worker is listed once, either as a
  regular worker or as a cron worker, the jobs offered for manual enqueueing belong to
  registered workers, the queues are those registered, and each list is sorted.
\<close>

theorem catalog_complete:
  assumes "builder_calls P cs (runtime_builder_new g t) = Some b"
  shows "let c = runtime_catalog b; reg = cfg_registry (rb_config b) in
    set (cat_workers c) \<union> set (map ci_name (cat_cron_workers c)) = dom (jobs reg) \<and>
    distinct (cat_workers c @ map ci_name (cat_cron_workers c)) \<and>
    sorted (cat_workers c) \<and> sorted (map ci_name (cat_cron_workers c)) \<and>
    set (map oi_name (cat_on_demand_jobs c)) \<subseteq> dom (jobs reg) \<and>
    sorted (map oi_name (cat_on_demand_jobs c)) \<and> distinct (map oi_name (cat_on_demand_jobs c)) \<and>
    sorted (map qi_key (cat_queues c)) \<and>
    mset (cat_queues c) = mset (map queue_info_of (cfg_queues (rb_config b)))"
proof -
  let ?reg = "cfg_registry (rb_config b)"
  have wf: "registry_wf ?reg" using builder_calls_inv [OF builder_inv_new assms] by (simp add: builder_inv_def)
  then have fj: "finite (dom (jobs ?reg))" and od: "dom (on_demand_jobs ?reg) \<subseteq> dom (jobs ?reg)"
    and sd: "dom (schedules ?reg) \<subseteq> dom (jobs ?reg)"
    by (auto simp: registry_wf_def registry_inv_def)
  have fin: "finite (dom (schedules ?reg))" "finite (dom (on_demand_jobs ?reg))"
    using fj od sd finite_subset by blast+
  let ?c = "runtime_catalog b"
  have cron: "map ci_name (cat_cron_workers ?c) = names_of (schedules ?reg)"
    by (simp add: runtime_catalog_def catalog_with_queues_def Let_def) (rule map_filter_names [OF fin(1)], simp)
  have dem: "map oi_name (cat_on_demand_jobs ?c) = names_of (on_demand_jobs ?reg)"
    by (simp add: runtime_catalog_def catalog_with_queues_def Let_def) (rule map_filter_names [OF fin(2)], simp)
  have w: "cat_workers ?c = filter (\<lambda>n. schedules ?reg n = None) (names_of (jobs ?reg))"
    and q: "cat_queues ?c = sort_key qi_key (map queue_info_of (cfg_queues (rb_config b)))"
    by (simp_all add: runtime_catalog_def catalog_with_queues_def Let_def)
  show ?thesis
    unfolding Let_def cron dem w q
    using od sd by (auto simp: names_of_set fj fin names_of_def sorted_wrt_filter)
qed

section \<open>Witnesses\<close>

definition mail_type :: "(unit, unit) worker_type" where
  "mail_type = \<lparr>wt_config = (unit_worker ''Mail'' [])\<lparr>wc_kind := Cron ''* * *'' ''mail'' True\<rparr>, wt_type_name = ''app::Mail'',
     wt_reads_empty = True, wt_cron_queue = Some (as_static ''mail''), wt_cron_factory = (\<lambda>_ _ _ _. Inl JsonError)\<rparr>"

definition sample_calls :: "(unit, unit, string) builder_call list" where
  "sample_calls = [AddWorker mail_type, WorkerWith (unit_worker ''Push'' []), OnlyQueue (as_static ''mail''), HeartbeatInterval 7]"

lemma sample_built: "\<exists>b. builder_calls (\<lambda>s. Some s) sample_calls (runtime_builder_new ''term'' 5) = Some b \<and>
    cfg_queues (rb_config b) = [as_static ''mail''] \<and>
    rs_filters (rb_settings b) = \<lparr>queue_allowlist = [as_static ''mail''], queue_denylist = []\<rparr> \<and>
    rs_heartbeat_interval (rb_settings b) = 7 \<and> dom (jobs (cfg_registry (rb_config b))) = {''Mail'', ''Push''}"
  by (simp add: sample_calls_def mail_type_def unit_worker_def runtime_builder_new_def runtime_settings_new_def config_new_def
      register_worker_def register_worker_with_def register_legacy_name_def registry_new_def Let_def on_settings_def
      on_interval_def require_non_zero_duration_def register_default_queue_def insert_queue_def contains_queue_def insert_commute)

theorem runtime_builder_sound_witness:
  "\<exists>b. builder_calls (\<lambda>s. Some s) sample_calls (runtime_builder_new ''term'' 5) = Some b \<and> run_check b = None \<and>
     intervals_positive (rb_settings b)"
proof -
  obtain b where b: "builder_calls (\<lambda>s. Some s) sample_calls (runtime_builder_new ''term'' 5) = Some b"
    and q: "cfg_queues (rb_config b) = [as_static ''mail'']"
      "rs_filters (rb_settings b) = \<lparr>queue_allowlist = [as_static ''mail''], queue_denylist = []\<rparr>"
    using sample_built by blast
  from runtime_builder_sound [OF b] b q show ?thesis by (auto simp: config_eq_def kind_eq_equiv)
qed

theorem catalog_complete_witness:
  "\<exists>b. builder_calls (\<lambda>s. Some s) sample_calls (runtime_builder_new ''term'' 5) = Some b \<and>
     set (cat_workers (runtime_catalog b)) \<union> set (map ci_name (cat_cron_workers (runtime_catalog b))) = {''Mail'', ''Push''}"
proof -
  obtain b where b: "builder_calls (\<lambda>s. Some s) sample_calls (runtime_builder_new ''term'' 5) = Some b"
    and j: "dom (jobs (cfg_registry (rb_config b))) = {''Mail'', ''Push''}"
    using sample_built by blast
  from catalog_complete [OF b] b j show ?thesis by (auto simp: Let_def)
qed

end
