(* ===== verification/Web_Queues.thy ===== *)
theory Web_Queues
  imports Runtime_Builder
begin

text \<open>
  The queue pages of the dashboard, \<^verbatim>\<open>oxana-web/src/handlers.rs\<close>: how the dashboard computes the
  configuration of a queue from the catalog and the stored configurations, and the actions that
  pause a queue or change its concurrency. The percent-encoding of \<^verbatim>\<open>urlencoding\<close> is a
  parameter.
\<close>

section \<open>Configuration shown\<close>

definition base_queue_key :: "string \<Rightarrow> string" where
  "base_queue_key key = takeWhile (\<lambda>c. c \<noteq> CHR ''#'') key"

definition find_queue :: "'s catalog \<Rightarrow> string \<Rightarrow> queue_info option" where
  "find_queue cat key = List.find (\<lambda>q. qi_key q = key) (cat_queues cat)"

definition is_dynamic_parent_queue :: "'s catalog \<Rightarrow> string \<Rightarrow> bool" where
  "is_dynamic_parent_queue cat key \<longleftrightarrow>
     CHR ''#'' \<notin> set key \<and> list_ex (\<lambda>q. qi_key q = key \<and> qi_dynamic q) (cat_queues cat)"

definition queue_uses_dynamic_concurrency :: "'s catalog \<Rightarrow> string \<Rightarrow> bool" where
  "queue_uses_dynamic_concurrency cat key = (case find_queue cat (base_queue_key key) of
       None \<Rightarrow> False | Some q \<Rightarrow> qi_dynamic_concurrency q)"

definition default_queue_runtime_config :: "'s catalog \<Rightarrow> string \<Rightarrow> queue_runtime_config" where
  "default_queue_runtime_config cat key = (case find_queue cat (base_queue_key key) of
       None \<Rightarrow> runtime_config_new 1 | Some q \<Rightarrow> runtime_config_new (qi_concurrency q))"

definition merge_queue_runtime_config ::
    "'s catalog \<Rightarrow> string \<Rightarrow> queue_runtime_config \<Rightarrow> queue_runtime_config \<Rightarrow> queue_runtime_config" where
  "merge_queue_runtime_config cat key rc dflts =
     with_defaults (if queue_uses_dynamic_concurrency cat key then rc else rc\<lparr>rc_concurrency := None\<rparr>) dflts"

definition queue_runtime_config_from_map ::
    "'s catalog \<Rightarrow> (string \<rightharpoonup> queue_runtime_config) \<Rightarrow> string \<Rightarrow> queue_runtime_config" where
  "queue_runtime_config_from_map cat stored key =
     (let base_key = base_queue_key key;
          base_default = default_queue_runtime_config cat base_key;
          base = (case stored base_key of
                    Some rc \<Rightarrow> merge_queue_runtime_config cat base_key rc base_default | None \<Rightarrow> base_default)
      in if key = base_key then base
         else case stored key of Some rc \<Rightarrow> merge_queue_runtime_config cat key rc base | None \<Rightarrow> base)"

datatype queue_concurrency_status = FixedStatus | DefaultStatus nat | OverrideStatus nat

definition queue_concurrency_status_from_map ::
    "'s catalog \<Rightarrow> (string \<rightharpoonup> queue_runtime_config) \<Rightarrow> string \<Rightarrow> queue_concurrency_status" where
  "queue_concurrency_status_from_map cat stored key =
     (if \<not> queue_uses_dynamic_concurrency cat key then FixedStatus
      else
        let base_key = base_queue_key key;
            configured = (case rc_concurrency (default_queue_runtime_config cat base_key) of Some n \<Rightarrow> n | None \<Rightarrow> 1);
            direct = Option.bind (stored key) rc_concurrency
        in if key = base_key
           then (case direct of
                   Some n \<Rightarrow> if n \<noteq> configured then OverrideStatus configured else DefaultStatus configured
                 | None \<Rightarrow> DefaultStatus configured)
           else
             let inherited = (case rc_concurrency (queue_runtime_config_from_map cat stored base_key) of
                   Some n \<Rightarrow> n | None \<Rightarrow> configured)
             in case direct of
                  Some n \<Rightarrow> if n \<noteq> inherited then OverrideStatus inherited else DefaultStatus inherited
                | None \<Rightarrow> DefaultStatus inherited)"

record queue_runtime_config_view =
  vw_config :: queue_runtime_config
  vw_concurrency_status :: queue_concurrency_status

definition queue_runtime_config_view_from_map ::
    "'s catalog \<Rightarrow> (string \<rightharpoonup> queue_runtime_config) \<Rightarrow> string \<Rightarrow> queue_runtime_config_view" where
  "queue_runtime_config_view_from_map cat stored key =
     \<lparr>vw_config = queue_runtime_config_from_map cat stored key,
      vw_concurrency_status = queue_concurrency_status_from_map cat stored key\<rparr>"

definition queue_runtime_config_keys :: "string \<Rightarrow> string list" where
  "queue_runtime_config_keys key =
     (let base_key = base_queue_key key in if base_key = key then [base_key] else [base_key, key])"

definition queue_runtime_config_for ::
    "'d redis \<Rightarrow> codec \<Rightarrow> storage \<Rightarrow> 's catalog \<Rightarrow> string \<Rightarrow> ('d, queue_runtime_config_view) op" where
  "queue_runtime_config_for R C S cat key =
     bind (queue_configs R C S (queue_runtime_config_keys key)) (\<lambda>stored.
       return (queue_runtime_config_view_from_map cat stored key))"

text \<open>
  The overview pages: \<open>shown\<close> are the queues of the statistics with their sub-queues' suffixes.
\<close>

definition queue_config_keys :: "'s catalog \<Rightarrow> (string \<times> string list) list \<Rightarrow> string list" where
  "queue_config_keys cat shown =
     map qi_key (cat_queues cat) @
     concat (map (\<lambda>(key, suffixes). key # map (\<lambda>suffix. key @ ''#'' @ suffix) suffixes) shown)"

definition queue_config_map ::
    "'d redis \<Rightarrow> codec \<Rightarrow> storage \<Rightarrow> 's catalog \<Rightarrow> (string \<times> string list) list
       \<Rightarrow> ('d, string \<rightharpoonup> queue_runtime_config_view) op" where
  "queue_config_map R C S cat shown =
     (let keys = remdups (sort (queue_config_keys cat shown)) in
      bind (queue_configs R C S keys) (\<lambda>stored.
        return (map_of (map (\<lambda>key. (key, queue_runtime_config_view_from_map cat stored key)) keys))))"

fun concurrency_label :: "queue_runtime_config_view \<Rightarrow> string" where
  "concurrency_label v = (case rc_concurrency (vw_config v) of None \<Rightarrow> ''-'' | Some n \<Rightarrow> show_int (int n))"

definition concurrency_default_label :: "queue_runtime_config_view \<Rightarrow> string" where
  "concurrency_default_label v = (case vw_concurrency_status v of
       FixedStatus \<Rightarrow> concurrency_label v
     | DefaultStatus n \<Rightarrow> show_int (int n)
     | OverrideStatus n \<Rightarrow> show_int (int n))"

definition can_change_concurrency :: "queue_runtime_config_view \<Rightarrow> bool" where
  "can_change_concurrency v \<longleftrightarrow> vw_concurrency_status v \<noteq> FixedStatus"

definition has_concurrency_override :: "queue_runtime_config_view \<Rightarrow> bool" where
  "has_concurrency_override v = (case vw_concurrency_status v of OverrideStatus _ \<Rightarrow> True | _ \<Rightarrow> False)"

section \<open>Actions\<close>

record raw_queue =
  rq_key :: string
  rq_base_key :: string
  rq_dynamic :: bool
  rq_concurrency :: queue_concurrency

definition raw_queue_fixed :: "string \<Rightarrow> raw_queue" where
  "raw_queue_fixed key = \<lparr>rq_key = key, rq_base_key = key, rq_dynamic = False, rq_concurrency = Fixed 1\<rparr>"

definition raw_queue_from_catalog :: "'s catalog \<Rightarrow> string \<Rightarrow> raw_queue" where
  "raw_queue_from_catalog cat key =
     (let base_key = base_queue_key key; info = find_queue cat base_key in
      \<lparr>rq_key = key, rq_base_key = base_key,
       rq_dynamic = (case info of None \<Rightarrow> False | Some q \<Rightarrow> qi_dynamic q),
       rq_concurrency = (case info of
           None \<Rightarrow> Fixed 1
         | Some q \<Rightarrow> if qi_dynamic_concurrency q then DynamicConcurrency (qi_concurrency q) else Fixed (qi_concurrency q))\<rparr>)"

text \<open>\<^verbatim>\<open>RawQueue::config\<close>; the panic of a fixed concurrency of zero is \<open>None\<close>.\<close>

definition raw_queue_config :: "raw_queue \<Rightarrow> queue_config option" where
  "raw_queue_config rq =
     (let qc = (if rq_dynamic rq then as_dynamic (rq_base_key rq) else as_static (rq_key rq)) in
      case rq_concurrency rq of
        Fixed n \<Rightarrow> with_concurrency n qc
      | DynamicConcurrency n \<Rightarrow> Some (with_dynamic_concurrency n qc))"

definition raw_queue_value :: "raw_queue \<Rightarrow> queue_value option" where
  "raw_queue_value rq = map_option (\<lambda>qc. \<lparr>qv_key = rq_key rq, qv_config = qc\<rparr>) (raw_queue_config rq)"

definition queue_redirect :: "(string \<Rightarrow> string) \<Rightarrow> string \<Rightarrow> string \<Rightarrow> string" where
  "queue_redirect urlencode base_path key = base_path @ ''/queues/'' @ urlencode key"

text \<open>The handlers; \<open>None\<close> is a panic. The result is the address the browser is sent to.\<close>

definition web_set_queue_concurrency ::
    "'d redis \<Rightarrow> codec \<Rightarrow> storage \<Rightarrow> (string \<Rightarrow> string) \<Rightarrow> string \<Rightarrow> 's catalog \<Rightarrow> ('d \<Rightarrow> 'd) \<Rightarrow> ('d \<Rightarrow> 'd)
       \<Rightarrow> string \<Rightarrow> nat \<Rightarrow> ('d, string) op option" where
  "web_set_queue_concurrency R C S urlencode base_path cat env1 env2 key n =
     (if n = 0 then Some (fail (ConfigError ''Queue concurrency must be at least 1''))
      else map_option (\<lambda>q. bind (set_queue_concurrency R C S env1 env2 q n) (\<lambda>_. return (queue_redirect urlencode base_path key)))
             (raw_queue_value (raw_queue_from_catalog cat key)))"

definition web_set_queue_state ::
    "'d redis \<Rightarrow> codec \<Rightarrow> storage \<Rightarrow> (string \<Rightarrow> string) \<Rightarrow> string \<Rightarrow> 's catalog \<Rightarrow> ('d \<Rightarrow> 'd)
       \<Rightarrow> string \<Rightarrow> queue_state \<Rightarrow> ('d, string) op option" where
  "web_set_queue_state R C S urlencode base_path cat env key st =
     map_option (\<lambda>q. bind (api_set_queue_state R C S env q st) (\<lambda>_. return (queue_redirect urlencode base_path key)))
       (raw_queue_value (raw_queue_from_catalog cat key))"

section \<open>Lemmas\<close>

lemma base_idem [simp]: "base_queue_key (base_queue_key key) = base_queue_key key"
  by (auto simp: base_queue_key_def takeWhile_eq_all_conv dest: set_takeWhileD)

lemma find_unique: "distinct (map f xs) \<Longrightarrow> x \<in> set xs \<Longrightarrow> List.find (\<lambda>y. f y = f x) xs = Some x"
  by (induction xs) auto

lemma queue_info_key [simp]: "qi_key (queue_info_of q) = key_or_prefix q"
  by (simp add: queue_info_of_def)

text \<open>The catalog of a runtime finds a registered queue by its key, when no other queue has that key.\<close>

lemma find_registered:
  assumes "distinct (map key_or_prefix (cfg_queues (rb_config b)))" and "qc \<in> set (cfg_queues (rb_config b))"
  shows "find_queue (runtime_catalog b) (key_or_prefix qc) = Some (queue_info_of qc)"
proof -
  let ?qs = "map queue_info_of (cfg_queues (rb_config b))"
  have "mset (map qi_key (sort_key qi_key ?qs)) = mset (map qi_key ?qs)" by (simp only: mset_map mset_sort)
  moreover have "distinct (map qi_key ?qs)" using assms(1) by (simp add: comp_def)
  ultimately have "distinct (map qi_key (sort_key qi_key ?qs))" using mset_eq_imp_distinct_iff by blast
  moreover have "queue_info_of qc \<in> set (sort_key qi_key ?qs)" using assms(2) by simp
  ultimately show ?thesis
    using find_unique [of qi_key "sort_key qi_key ?qs" "queue_info_of qc"]
    by (simp add: find_queue_def runtime_catalog_def catalog_with_queues_def Let_def)
qed

text \<open>A registered queue as a caller would name one of its keys.\<close>

abbreviation registered_value :: "string \<Rightarrow> queue_config \<Rightarrow> queue_value" where
  "registered_value key qc \<equiv> \<lparr>qv_key = key, qv_config = qc\<rparr>"

lemma from_map_registered:
  assumes "find_queue cat (key_or_prefix qc) = Some (queue_info_of qc)" and "base_queue_key key = key_or_prefix qc"
    and "stored key = stored_config R C S d key" and "stored (key_or_prefix qc) = stored_config R C S d (key_or_prefix qc)"
    and "runtime_queue_config R C S key (key_or_prefix qc) (stored_runtime_default (qc_concurrency qc)) d = (Inr rc, d')"
  shows "queue_runtime_config_from_map cat stored key = effective_runtime_config (qc_concurrency qc) rc"
proof -
  have base: "base_queue_key (key_or_prefix qc) = key_or_prefix qc" using assms(2) base_idem by metis
  have uses: "queue_uses_dynamic_concurrency cat key = concurrency_is_dynamic (qc_concurrency qc)"
    "queue_uses_dynamic_concurrency cat (key_or_prefix qc) = concurrency_is_dynamic (qc_concurrency qc)"
    "default_queue_runtime_config cat (key_or_prefix qc) = runtime_config_new (default_concurrency (qc_concurrency qc))"
    by (simp_all add: queue_uses_dynamic_concurrency_def default_queue_runtime_config_def base assms(1,2) queue_info_of_def)
  note rc = runtime_queue_config_Inr [OF assms(5)]
  show ?thesis
    using rc assms(3,4)
    by (cases "qc_concurrency qc"; cases "key = key_or_prefix qc")
      (auto simp: queue_runtime_config_from_map_def Let_def assms(2) base uses merge_queue_runtime_config_def with_defaults_def
        effective_runtime_config_def stored_runtime_default_def runtime_config_new_def split: option.splits)
qed

lemma status_registered:
  assumes "find_queue cat (key_or_prefix qc) = Some (queue_info_of qc)" and "base_queue_key key = key_or_prefix qc"
    and "stored key = stored_config R C S d key" and "stored (key_or_prefix qc) = stored_config R C S d (key_or_prefix qc)"
  shows "queue_concurrency_status_from_map cat stored key =
    (if \<not> concurrency_is_dynamic (qc_concurrency qc) then FixedStatus
     else let inherited = inherited_concurrency R C S d (registered_value key qc) in
       case Option.bind (stored_config R C S d key) rc_concurrency of
         Some n \<Rightarrow> if n \<noteq> inherited then OverrideStatus inherited else DefaultStatus inherited
       | None \<Rightarrow> DefaultStatus inherited)"
proof -
  have base: "base_queue_key (key_or_prefix qc) = key_or_prefix qc" using assms(2) base_idem by metis
  have uses: "queue_uses_dynamic_concurrency cat key = concurrency_is_dynamic (qc_concurrency qc)"
    "queue_uses_dynamic_concurrency cat (key_or_prefix qc) = concurrency_is_dynamic (qc_concurrency qc)"
    "default_queue_runtime_config cat (key_or_prefix qc) = runtime_config_new (default_concurrency (qc_concurrency qc))"
    by (simp_all add: queue_uses_dynamic_concurrency_def default_queue_runtime_config_def base assms(1,2) queue_info_of_def)
  show ?thesis
    using assms(3,4)
    by (auto simp: queue_concurrency_status_from_map_def queue_runtime_config_from_map_def inherited_concurrency_def Let_def
        assms(2) base uses merge_queue_runtime_config_def with_defaults_def runtime_config_new_def split: option.splits)
qed

lemma config_for_Inr:
  assumes "queue_runtime_config_for R C S cat key d = (Inr v, d')"
  shows "\<exists>stored. v = queue_runtime_config_view_from_map cat stored key \<and> stored key = stored_config R C S d key \<and>
    stored (base_queue_key key) = stored_config R C S d (base_queue_key key)"
proof -
  obtain stored d1 where c: "queue_configs R C S (queue_runtime_config_keys key) d = (Inr stored, d1)"
    and v: "v = queue_runtime_config_view_from_map cat stored key"
    using assms by (auto simp: queue_runtime_config_for_def bind_eq_Inr return_def)
  have "key \<in> set (queue_runtime_config_keys key)" "base_queue_key key \<in> set (queue_runtime_config_keys key)"
    by (simp_all add: queue_runtime_config_keys_def Let_def)
  with queue_configs_Inr [OF c] v show ?thesis by auto
qed

text \<open>The queue value the dashboard acts on agrees with the registration.\<close>

lemma raw_queue_registered:
  assumes "find_queue cat (key_or_prefix qc) = Some (queue_info_of qc)" and "base_queue_key key = key_or_prefix qc"
    and "raw_queue_value (raw_queue_from_catalog cat key) = Some q" and "static_key qc = Some key \<or> static_key qc = None"
  shows "qv_key q = key \<and> qv_base q = key_or_prefix qc \<and> qv_concurrency q = qc_concurrency qc \<and> coherent q"
  using assms
  by (cases "qc_kind qc"; cases "qc_concurrency qc")
    (auto simp: raw_queue_value_def raw_queue_config_def raw_queue_from_catalog_def Let_def queue_info_of_def key_or_prefix_def
      with_concurrency_def with_dynamic_concurrency_def as_dynamic_def as_static_def coherent_def static_key_def split: if_splits)

section \<open>Properties\<close>


text \<open>
  A concurrency set on the dashboard takes effect: when the form succeeds and nobody else
  writes, the number is positive, the workers run the queue with it, and the page the browser
  is sent to shows it.
\<close>

theorem dashboard_concurrency_takes_effect:
  assumes "redis_server R" and "json_codec C" and "n \<le> u64_max"
    and "distinct (map key_or_prefix (cfg_queues (rb_config b)))" and "qc \<in> set (cfg_queues (rb_config b))"
    and "base_queue_key key = key_or_prefix qc" and "static_key qc = Some key \<or> static_key qc = None"
    and "web_set_queue_concurrency R C S enc base_path (runtime_catalog b) (\<lambda>d. d) (\<lambda>d. d) key n = Some handler"
    and "handler d = (Inr redirect, d')"
    and "runtime_queue_config R C S key (key_or_prefix qc) (stored_runtime_default (qc_concurrency qc)) d' = (Inr rc, d1)"
    and "queue_runtime_config_for R C S (runtime_catalog b) key d' = (Inr v, d2)"
  shows "0 < n \<and> redirect = queue_redirect enc base_path key \<and>
    rc_concurrency (effective_runtime_config (qc_concurrency qc) rc) = Some n \<and> rc_concurrency (vw_config v) = Some n"
proof -
  have f: "find_queue (runtime_catalog b) (key_or_prefix qc) = Some (queue_info_of qc)"
    by (rule find_registered [OF assms(4,5)])
  have n: "0 < n" using assms(8,9) by (auto simp: web_set_queue_concurrency_def fail_def split: if_splits)
  then obtain q where q: "raw_queue_value (raw_queue_from_catalog (runtime_catalog b) key) = Some q"
    and w: "set_queue_concurrency R C S (\<lambda>d. d) (\<lambda>d. d) q n d = (Inr (), d')"
    and r: "redirect = queue_redirect enc base_path key"
    using assms(8,9) by (auto simp: web_set_queue_concurrency_def bind_eq_Inr return_def split: if_splits)
  have sel: "qv_key q = key" "qv_base q = key_or_prefix qc" "qv_concurrency q = qc_concurrency qc" "coherent q"
    using raw_queue_registered [OF f assms(6) q assms(7)] by simp_all
  have c: "rc_concurrency (effective_runtime_config (qc_concurrency qc) rc) = Some n"
    using concurrency_effective [OF assms(1,2) sel(4) assms(3) w] assms(10) by (simp add: sel)
  obtain stored where v: "v = queue_runtime_config_view_from_map (runtime_catalog b) stored key"
    and s: "stored key = stored_config R C S d' key" "stored (key_or_prefix qc) = stored_config R C S d' (key_or_prefix qc)"
    using config_for_Inr [OF assms(11)] assms(6) by auto
  from from_map_registered [OF f assms(6) s assms(10)] c n r show ?thesis
    by (simp add: v queue_runtime_config_view_from_map_def)
qed

section \<open>Witnesses\<close>

definition mail_queue :: queue_config where
  "mail_queue = with_dynamic_concurrency 4 (as_dynamic ''mail'')"

definition mail_runtime :: "(unit, unit, string, string) runtime_builder" where
  "mail_runtime = queue_with mail_queue (runtime_builder_new ''term'' 5)"

lemma mail_queue_sel [simp]:
  "key_or_prefix mail_queue = ''mail''" "qc_concurrency mail_queue = DynamicConcurrency 4" "static_key mail_queue = None"
  "cfg_queues (rb_config mail_runtime) = [mail_queue]"
  by (simp_all add: mail_queue_def with_dynamic_concurrency_def as_dynamic_def key_or_prefix_def static_key_def mail_runtime_def
      queue_with_def runtime_builder_new_def config_new_def register_queue_with_def)

lemma mail_base [simp]: "base_queue_key ''mail#7'' = ''mail''"
  by (simp add: base_queue_key_def)

lemma find_mail: "find_queue (runtime_catalog mail_runtime) ''mail'' = Some (queue_info_of mail_queue)"
  using find_registered [of mail_runtime mail_queue] by simp

lemmas web_run = api_run queue_runtime_config_for_def queue_configs_def queue_runtime_config_keys_def


theorem dashboard_concurrency_takes_effect_witness:
  "\<exists>handler d' v. web_set_queue_concurrency mem_redis netstring_codec sample_storage id ''/oxana'' (runtime_catalog mail_runtime)
       (\<lambda>d. d) (\<lambda>d. d) ''mail#7'' 3 = Some handler \<and>
     handler paused_server = (Inr ''/oxana/queues/mail#7'', d') \<and>
     queue_runtime_config_for mem_redis netstring_codec sample_storage (runtime_catalog mail_runtime) ''mail#7'' d' = (Inr v, d') \<and>
     rc_concurrency (vw_config v) = Some 3"
proof -
  let ?R = mem_redis and ?C = netstring_codec and ?S = sample_storage and ?cat = "runtime_catalog mail_runtime"
  define rc where "rc = \<lparr>rc_concurrency = Some 3, rc_state = Active\<rparr>"
  define stored where "stored = jprint ?C (runtime_config_to_json rc)"
  have t: "runtime_config_of_text ?C stored = Some rc"
    unfolding stored_def by (rule net.config_text_roundtrip) (simp add: rc_def)
  define d' where "d' = [(''app:queue_configs'', VHash [(''mail'', paused_text), (''mail#7'', stored)])]"
  define q where "q = registered_value ''mail#7'' mail_queue"
  have qs: "qv_key q = ''mail#7''" "qv_base q = ''mail''" "qv_concurrency q = DynamicConcurrency 4"
    "qc_kind (qv_config q) = Dynamic ''mail'' 500000000"
    by (simp_all add: q_def) (simp add: mail_queue_def with_dynamic_concurrency_def as_dynamic_def)
  have rv: "raw_queue_value (raw_queue_from_catalog ?cat ''mail#7'') = Some q"
    by (simp add: raw_queue_value_def raw_queue_from_catalog_def find_mail raw_queue_config_def queue_info_of_def q_def)
      (simp add: mail_queue_def with_dynamic_concurrency_def as_dynamic_def)
  have w: "set_queue_concurrency ?R ?C ?S (\<lambda>d. d) (\<lambda>d. d) q 3 paused_server = (Inr (), d')"
    by (simp add: api_run qs d'_def stored_def rc_def paused_base_def runtime_config_default_def)
  define handler where "handler = bind (set_queue_concurrency ?R ?C ?S (\<lambda>d. d) (\<lambda>d. d) q 3)
      (\<lambda>_. return (queue_redirect id ''/oxana'' ''mail#7''))"
  have h: "web_set_queue_concurrency ?R ?C ?S id ''/oxana'' ?cat (\<lambda>d. d) (\<lambda>d. d) ''mail#7'' 3 = Some handler"
    by (simp add: web_set_queue_concurrency_def rv handler_def)
  have hd: "handler paused_server = (Inr ''/oxana/queues/mail#7'', d')"
    by (simp add: handler_def bind_def w return_def queue_redirect_def)
  have r: "runtime_queue_config ?R ?C ?S ''mail#7'' (key_or_prefix mail_queue)
      (stored_runtime_default (qc_concurrency mail_queue)) d' = (Inr rc, d')"
    by (simp add: api_run d'_def t) (simp add: rc_def paused_base_def)
  have "\<exists>v. queue_runtime_config_for ?R ?C ?S ?cat ''mail#7'' d' = (Inr v, d')"
    by (simp add: web_run d'_def t)
  then obtain v where v: "queue_runtime_config_for ?R ?C ?S ?cat ''mail#7'' d' = (Inr v, d')" by blast
  from dashboard_concurrency_takes_effect [OF mem.redis_server_axioms net.json_codec_axioms _ _ _ _ _ h hd r v] h hd v
  show ?thesis by simp
qed

end
