(* ===== verification/Web_Jobs.thy ===== *)
theory Web_Jobs
  imports Web_Queues Queue_Stats
begin

text \<open>
  The job pages of the dashboard, \<^verbatim>\<open>oxana-web/src/handlers.rs\<close> and \<^verbatim>\<open>oxana-web/src/pagination.rs\<close>:
  the paged listings, the lookup of one job, the forms that enqueue a job, and the trees in which
  the registered workers are shown. The instants at which another client may write between two
  requests of a handler are the arguments \<open>env\<close>. The clock, the generated identifier, the
  percent-encoding, the pretty printer and the schedules are parameters. A response is a value; the
  HTML is left out.
\<close>

section \<open>Pages\<close>

abbreviation jobs_per_page :: nat where
  "jobs_per_page \<equiv> 50"

record job_page =
  jp_jobs :: "job_envelope list"
  jp_number :: nat
  jp_total :: nat
  jp_has_next :: bool

definition div_ceil :: "nat \<Rightarrow> nat \<Rightarrow> nat" where
  "div_ceil a b = (if a mod b = 0 then a div b else a div b + 1)"

definition clamp_number :: "nat \<Rightarrow> nat \<Rightarrow> nat" where
  "clamp_number page tot =
     (let hi = max (div_ceil tot jobs_per_page) 1 in if page < 1 then 1 else if hi < page then hi else page)"

text \<open>The product wraps at the width of \<^verbatim>\<open>usize\<close>, as a release build computes it.\<close>

definition list_opts :: "nat \<Rightarrow> queue_list_opts" where
  "list_opts page = \<lparr>list_count = jobs_per_page + 1, list_offset = ((max page 1 - 1) * jobs_per_page) mod 2 ^ 64\<rparr>"

definition job_page_new :: "nat \<Rightarrow> nat \<Rightarrow> job_envelope list \<Rightarrow> job_page" where
  "job_page_new page tot js =
     \<lparr>jp_jobs = take jobs_per_page js, jp_number = max page 1, jp_total = tot, jp_has_next = (jobs_per_page < length js)\<rparr>"

definition range_start :: "job_page \<Rightarrow> nat" where
  "range_start p = (jp_number p - 1) * jobs_per_page + 1"

definition range_end :: "job_page \<Rightarrow> nat" where
  "range_end p = min ((jp_number p - 1) * jobs_per_page + length (jp_jobs p)) (jp_total p)"

datatype job_list_kind = DeadJobs | Retries | Scheduled

fun job_list_path :: "job_list_kind \<Rightarrow> string" where
  "job_list_path DeadJobs = ''/dead''"
| "job_list_path Retries = ''/retries''"
| "job_list_path Scheduled = ''/scheduled''"

record global_jobs_view =
  gj_active_tab :: string
  gj_kind :: job_list_kind
  gj_page :: job_page

fun kind_count :: "'d redis \<Rightarrow> storage \<Rightarrow> job_list_kind \<Rightarrow> ('d, nat) op" where
  "kind_count R S DeadJobs = dead_count R S"
| "kind_count R S Retries = retries_count R S"
| "kind_count R S Scheduled = scheduled_count R S"

fun kind_list :: "'d redis \<Rightarrow> codec \<Rightarrow> storage \<Rightarrow> job_list_kind \<Rightarrow> queue_list_opts \<Rightarrow> ('d, job_envelope list) op" where
  "kind_list R C S DeadJobs opts = list_dead R C S opts"
| "kind_list R C S Retries opts = list_retries R C S opts"
| "kind_list R C S Scheduled opts = list_scheduled R C S opts"

definition global_jobs ::
    "'d redis \<Rightarrow> codec \<Rightarrow> storage \<Rightarrow> ('d \<Rightarrow> 'd) \<Rightarrow> job_list_kind \<Rightarrow> nat \<Rightarrow> ('d, global_jobs_view) op" where
  "global_jobs R C S env kind page =
     bind (kind_count R S kind) (\<lambda>tot.
     seq (interfere env) (bind (kind_list R C S kind (list_opts page)) (\<lambda>js.
       return \<lparr>gj_active_tab = job_list_path kind, gj_kind = kind, gj_page = job_page_new page tot js\<rparr>)))"

section \<open>One job\<close>

text \<open>The second component tells that the job was found among the dead.\<close>

definition find_job ::
    "'d redis \<Rightarrow> codec \<Rightarrow> storage \<Rightarrow> ('d \<Rightarrow> 'd) \<Rightarrow> ('d \<Rightarrow> 'd) \<Rightarrow> job_id \<Rightarrow> ('d, job_envelope option \<times> bool) op" where
  "find_job R C S env1 env2 i =
     bind (get_job R C S i) (\<lambda>r. case r of
       Some e \<Rightarrow> return (Some e, False)
     | None \<Rightarrow> seq (interfere env1) (bind (dead_count R S) (\<lambda>n.
         if n = 0 then return (None, False)
         else seq (interfere env2) (bind (list_dead R C S \<lparr>list_count = n, list_offset = 0\<rparr>) (\<lambda>dead.
           case List.find (\<lambda>e. env_id e = i) dead of
             None \<Rightarrow> return (None, False)
           | Some e \<Rightarrow> return (Some e, True))))))"

definition delete_job_redirect :: "(string \<Rightarrow> string) \<Rightarrow> string \<Rightarrow> string \<Rightarrow> nat \<Rightarrow> bool \<Rightarrow> string" where
  "delete_job_redirect urlencode base_path key page from_busy =
     (if from_busy then base_path @ ''/busy''
      else base_path @ ''/queues/'' @ urlencode key @ ''?page='' @ show_nat (max page 1))"

section \<open>A queue\<close>

definition queue_detail_queue_stats :: "stats \<Rightarrow> string \<Rightarrow> nat \<Rightarrow> queue_stats option" where
  "queue_detail_queue_stats st key live =
     (case List.find (\<lambda>q. qs_key q = key) (st_queues st) of
        Some q \<Rightarrow> Some (q\<lparr>qs_enqueued := live\<rparr>)
      | None \<Rightarrow>
          Option.bind (split_once CHR ''#'' key) (\<lambda>(base, sfx).
          Option.bind (List.find (\<lambda>q. qs_key q = base) (st_queues st)) (\<lambda>parent.
          Option.bind (List.find (\<lambda>q. dq_suffix q = sfx) (qs_queues parent)) (\<lambda>q.
            Some \<lparr>qs_key = key, qs_enqueued = live, qs_counts = dq_counts q, qs_latency = dq_latency q, qs_queues = []\<rparr>))))"

record queue_detail_view =
  qd_queue_key :: string
  qd_queue_stats :: "queue_stats option"
  qd_queue_config :: queue_runtime_config_view
  qd_active_jobs :: "stats_processing list"
  qd_busy :: nat
  qd_page :: job_page

datatype queue_detail_response = ToQueues string | QueueDetail queue_detail_view

text \<open>\<open>load\<close> is \<^verbatim>\<open>Storage::stats\<close>; a panic in it is \<open>None\<close>.\<close>

definition queue_detail ::
    "'d redis \<Rightarrow> codec \<Rightarrow> storage \<Rightarrow> ('d, stats option) op \<Rightarrow> ('d \<Rightarrow> 'd) \<Rightarrow> string \<Rightarrow> 's catalog \<Rightarrow> string \<Rightarrow> nat
       \<Rightarrow> ('d, queue_detail_response option) op" where
  "queue_detail R C S load env base_path cat key page =
     (if is_dynamic_parent_queue cat key then return (Some (ToQueues (base_path @ ''/queues'')))
      else bind load (\<lambda>r. case r of
        None \<Rightarrow> return None
      | Some st \<Rightarrow>
          bind (queue_runtime_config_for R C S cat key) (\<lambda>cfg.
          bind (enqueued_count R S key) (\<lambda>live.
          let number = clamp_number page live;
              active = filter (\<lambda>p. env_queue (sp_envelope p) = key) (st_processing st)
          in seq (interfere env) (bind (list_queue_jobs R C S key (list_opts number)) (\<lambda>js.
            return (Some (QueueDetail
              \<lparr>qd_queue_key = key, qd_queue_stats = queue_detail_queue_stats st key live, qd_queue_config = cfg,
               qd_active_jobs = active, qd_busy = length active, qd_page = job_page_new number live js\<rparr>))))))))"

section \<open>The order of the queues\<close>

datatype ordering = LT | EQ | GT

definition compare :: "'a \<Rightarrow> 'a :: linorder \<Rightarrow> ordering" where
  "compare a b = (if a < b then LT else if a = b then EQ else GT)"

fun reverse_ord :: "ordering \<Rightarrow> ordering" where
  "reverse_ord LT = GT"
| "reverse_ord EQ = EQ"
| "reverse_ord GT = LT"

fun then_with :: "ordering \<Rightarrow> ordering \<Rightarrow> ordering" where
  "then_with EQ b = b"
| "then_with a b = a"

text \<open>\<^verbatim>\<open>slice::sort_by\<close> is stable; every stable sort gives this list when \<open>cmp\<close> is a total order.\<close>

fun insert_by :: "('a \<Rightarrow> 'a \<Rightarrow> ordering) \<Rightarrow> 'a \<Rightarrow> 'a list \<Rightarrow> 'a list" where
  "insert_by cmp x [] = [x]"
| "insert_by cmp x (y # ys) = (if cmp x y = GT then y # insert_by cmp x ys else x # y # ys)"

definition sort_by :: "('a \<Rightarrow> 'a \<Rightarrow> ordering) \<Rightarrow> 'a list \<Rightarrow> 'a list" where
  "sort_by cmp xs = foldr (insert_by cmp) xs []"

definition queue_state_order :: "(string \<rightharpoonup> queue_runtime_config_view) \<Rightarrow> string \<Rightarrow> nat" where
  "queue_state_order configs key = (case map_option (\<lambda>v. rc_state (vw_config v)) (configs key) of
       Some Paused \<Rightarrow> 1 | _ \<Rightarrow> 0)"

definition shown_concurrency :: "(string \<rightharpoonup> queue_runtime_config_view) \<Rightarrow> string \<Rightarrow> nat" where
  "shown_concurrency configs key =
     (case Option.bind (configs key) (\<lambda>v. rc_concurrency (vw_config v)) of Some n \<Rightarrow> n | None \<Rightarrow> 0)"

text \<open>
  The rate and the expected time are floating-point: their comparison of two rows is the parameter
  \<open>rate\<close>, and \<open>eta\<close> with the direction it already takes into account.
\<close>

definition compare_queues ::
    "(queue_stats \<Rightarrow> queue_stats \<Rightarrow> ordering) \<Rightarrow> (bool \<Rightarrow> queue_stats \<Rightarrow> queue_stats \<Rightarrow> ordering)
       \<Rightarrow> (string \<rightharpoonup> queue_runtime_config_view) \<Rightarrow> string \<Rightarrow> bool \<Rightarrow> queue_stats \<Rightarrow> queue_stats \<Rightarrow> ordering" where
  "compare_queues rate eta configs sort_col desc a b =
     then_with
       (if sort_col = ''eta'' then eta desc a b
        else let cmp =
            (if sort_col = ''enqueued'' then compare (qs_enqueued a) (qs_enqueued b)
             else if sort_col = ''processed'' then compare (qr_processed (qs_counts a)) (qr_processed (qs_counts b))
             else if sort_col = ''succeeded'' then compare (qr_succeeded (qs_counts a)) (qr_succeeded (qs_counts b))
             else if sort_col = ''failed'' then compare (qr_failed (qs_counts a)) (qr_failed (qs_counts b))
             else if sort_col = ''panicked'' then compare (qr_panicked (qs_counts a)) (qr_panicked (qs_counts b))
             else if sort_col = ''rate'' then rate a b
             else if sort_col = ''concurrency'' then compare (shown_concurrency configs (qs_key a)) (shown_concurrency configs (qs_key b))
             else if sort_col = ''state'' then compare (queue_state_order configs (qs_key a)) (queue_state_order configs (qs_key b))
             else if sort_col = ''latency'' then compare (qs_latency a) (qs_latency b)
             else compare (qs_key a) (qs_key b))
          in if desc then reverse_ord cmp else cmp)
       (compare (qs_key a) (qs_key b))"

definition sort_queues_for_params ::
    "(queue_stats \<Rightarrow> queue_stats \<Rightarrow> ordering) \<Rightarrow> (bool \<Rightarrow> queue_stats \<Rightarrow> queue_stats \<Rightarrow> ordering)
       \<Rightarrow> (string \<rightharpoonup> queue_runtime_config_view) \<Rightarrow> string option \<Rightarrow> string option \<Rightarrow> queue_stats list
       \<Rightarrow> queue_stats list \<times> string \<times> string" where
  "sort_queues_for_params rate eta configs sort_col dir rows =
     (let col = (case sort_col of Some s \<Rightarrow> s | None \<Rightarrow> ''enqueued'');
          default_dir = (if sort_col = None then ''desc'' else ''asc'');
          dir = (case dir of Some s \<Rightarrow> s | None \<Rightarrow> default_dir)
      in (sort_by (compare_queues rate eta configs col (dir = ''desc'')) rows, col, dir))"

section \<open>Forms\<close>

definition parse_json :: "codec \<Rightarrow> string \<Rightarrow> oxana_error + json" where
  "parse_json C s = (case jparse C s of None \<Rightarrow> Inl JsonError | Some j \<Rightarrow> Inr j)"

definition parse_optional_json :: "codec \<Rightarrow> string option \<Rightarrow> oxana_error + json option" where
  "parse_optional_json C s = (case s of
       None \<Rightarrow> Inr None
     | Some s \<Rightarrow> if s = [] then Inr None
         else (case parse_json C s of Inl e \<Rightarrow> Inl e | Inr j \<Rightarrow> Inr (Some j)))"

definition immediate_envelope ::
    "int \<Rightarrow> string \<Rightarrow> string \<Rightarrow> string \<Rightarrow> json \<Rightarrow> json option \<Rightarrow> bool \<Rightarrow> job_envelope" where
  "immediate_envelope now uuid queue name args st res =
     \<lparr>env_id = uuid, env_job = \<lparr>job_data_name = name, job_data_args = args\<rparr>, env_queue = queue,
      env_meta = \<lparr>meta_id = uuid, on_demand = None, retries = 0, unique = False, on_conflict = None,
        created_at = now, scheduled_at = now, started_at = None, state = st, resurrect = res, error = None,
        throttle_cost = None\<rparr>\<rparr>"

record enqueue_job_form =
  ef_queue :: string
  ef_name :: string
  ef_args :: string
  ef_state :: "string option"
  ef_redirect :: "string option"

definition web_enqueue_job ::
    "'d redis \<Rightarrow> codec \<Rightarrow> storage \<Rightarrow> ('d \<Rightarrow> 'd) \<Rightarrow> ('d \<Rightarrow> 'd) list \<Rightarrow> int \<Rightarrow> string \<Rightarrow> string \<Rightarrow> enqueue_job_form
       \<Rightarrow> ('d, string option) op" where
  "web_enqueue_job R C S env envs now uuid base_path form =
     bind (lift_result (parse_json C (ef_args form))) (\<lambda>args.
     bind (lift_result (parse_optional_json C (ef_state form))) (\<lambda>st.
     bind (enqueue R C S env envs (immediate_envelope now uuid (ef_queue form) (ef_name form) args st True)) (\<lambda>r.
       return (map_option (\<lambda>_. base_path @ (case ef_redirect form of Some t \<Rightarrow> t | None \<Rightarrow> ''/dead'')) r))))"

definition cron_envelope_from_form ::
    "int \<Rightarrow> string \<Rightarrow> 's catalog \<Rightarrow> string \<Rightarrow> oxana_error + job_envelope" where
  "cron_envelope_from_form now uuid cat name =
     (case List.find (\<lambda>j. ci_name j = name) (cat_cron_workers cat) of
        None \<Rightarrow> Inl (GenericError (''Cron job '' @ name @ '' is not registered''))
      | Some j \<Rightarrow> Inr (immediate_envelope now uuid (ci_queue_key j) (ci_name j) (JObj []) None (ci_resurrect j)))"

definition cron_enqueued_redirect :: "(string \<Rightarrow> string) \<Rightarrow> string \<Rightarrow> string \<Rightarrow> string" where
  "cron_enqueued_redirect urlencode base_path i = base_path @ ''/cron?enqueued='' @ urlencode i"

definition enqueue_cron_job ::
    "'d redis \<Rightarrow> codec \<Rightarrow> storage \<Rightarrow> ('d \<Rightarrow> 'd) \<Rightarrow> ('d \<Rightarrow> 'd) list \<Rightarrow> (string \<Rightarrow> string) \<Rightarrow> int \<Rightarrow> string \<Rightarrow> string
       \<Rightarrow> 's catalog \<Rightarrow> string \<Rightarrow> ('d, string option) op" where
  "enqueue_cron_job R C S env envs urlencode now uuid base_path cat name =
     bind (lift_result (cron_envelope_from_form now uuid cat name)) (\<lambda>e.
     bind (enqueue R C S env envs e) (\<lambda>r.
       return (map_option (cron_enqueued_redirect urlencode base_path) r)))"

record on_demand_form =
  of_queue :: string
  of_name :: string
  of_args :: string

definition on_demand_envelope_from_form ::
    "codec \<Rightarrow> 's catalog \<Rightarrow> on_demand_form \<Rightarrow> oxana_error + job_envelope" where
  "on_demand_envelope_from_form C cat form =
     (if \<not> list_ex (\<lambda>q. \<not> qi_dynamic q \<and> qi_key q = of_queue form) (cat_queues cat)
      then Inl (GenericError (''Queue '' @ of_queue form @ '' is not a registered static queue''))
      else (case List.find (\<lambda>j. oi_name j = of_name form) (cat_on_demand_jobs cat) of
          None \<Rightarrow> Inl (GenericError (''Job '' @ of_name form @ '' is not registered for on-demand enqueue''))
        | Some j \<Rightarrow> (case parse_json C (of_args form) of
              Inl e \<Rightarrow> Inl e
            | Inr args \<Rightarrow> on_demand_envelope (oi_enqueue_factory j (of_queue form) args))))"

section \<open>Trees of worker names\<close>

text \<open>
  \<^verbatim>\<open>TypeTreeNode\<close>: the \<^verbatim>\<open>BTreeMap\<close> of the children is an association list in the order of its keys.
\<close>

datatype 'a type_tree = TypeTree "(string \<times> 'a type_tree) list" "'a list"

definition tree_new :: "'a type_tree" where
  "tree_new = TypeTree [] []"

text \<open>\<^verbatim>\<open>str::split\<close> and \<^verbatim>\<open>join\<close> on the separator of a type path.\<close>

fun split_path :: "string \<Rightarrow> string list" where
  "split_path [] = [[]]"
| "split_path [c] = [[c]]"
| "split_path (a # b # r) =
     (if a = CHR '':'' \<and> b = CHR '':'' then [] # split_path r
      else (case split_path (b # r) of [] \<Rightarrow> [[a]] | s # ss \<Rightarrow> (a # s) # ss))"

fun join_path :: "string list \<Rightarrow> string" where
  "join_path [] = []"
| "join_path [s] = s"
| "join_path (s # ss) = s @ ''::'' @ join_path ss"

definition type_tree_parts :: "string \<Rightarrow> string list \<times> string" where
  "type_tree_parts name =
     (let segments = split_path name; split = length segments - 2 in (take split segments, join_path (drop split segments)))"

text \<open>\<^verbatim>\<open>BTreeMap::entry\<close> with \<^verbatim>\<open>or_insert_with\<close>, and an update of the value.\<close>

fun btree_update :: "'k :: linorder \<Rightarrow> 'v \<Rightarrow> ('v \<Rightarrow> 'v) \<Rightarrow> ('k \<times> 'v) list \<Rightarrow> ('k \<times> 'v) list" where
  "btree_update k v f [] = [(k, f v)]"
| "btree_update k v f ((k', v') # kvs) =
     (if k = k' then (k', f v') # kvs
      else if k < k' then (k, f v) # (k', v') # kvs
      else (k', v') # btree_update k v f kvs)"

fun insert_type_tree_entry :: "string list \<Rightarrow> 'a \<Rightarrow> 'a type_tree \<Rightarrow> 'a type_tree" where
  "insert_type_tree_entry [] e (TypeTree cs es) = TypeTree cs (es @ [e])"
| "insert_type_tree_entry (s # ss) e (TypeTree cs es) =
     TypeTree (btree_update s tree_new (insert_type_tree_entry ss e) cs) es"

datatype 'a row = GroupRow string nat | EntryRow 'a nat

fun flatten_tree :: "nat \<Rightarrow> 'a type_tree \<Rightarrow> 'a row list" where
  "flatten_tree depth (TypeTree cs es) =
     concat (map (\<lambda>c. GroupRow (fst c) depth # flatten_tree (depth + 1) (snd c)) cs) @ map (\<lambda>e. EntryRow e depth) es"

fun row_depth :: "'a row \<Rightarrow> nat" where
  "row_depth (GroupRow _ depth) = depth"
| "row_depth (EntryRow _ depth) = depth"

definition indent_px :: "'a row \<Rightarrow> nat" where
  "indent_px r = row_depth r * 20"

definition build_tree :: "('w \<Rightarrow> string) \<Rightarrow> ('w \<Rightarrow> string \<Rightarrow> 'a) \<Rightarrow> 'w list \<Rightarrow> 'a type_tree" where
  "build_tree name view ws =
     fold (\<lambda>w root. let (groups, leaf) = type_tree_parts (name w) in insert_type_tree_entry groups (view w leaf) root) ws tree_new"

record cron_worker_view =
  cv_name :: string
  cv_short_name :: string
  cv_schedule :: string
  cv_queue_key :: string
  cv_next_run_micros :: "int option"

definition build_cron_rows ::
    "('s \<Rightarrow> string) \<Rightarrow> ('s \<Rightarrow> int \<Rightarrow> int option) \<Rightarrow> 's cron_worker_info list \<Rightarrow> int \<Rightarrow> cron_worker_view row list" where
  "build_cron_rows show_schedule next_after ws now =
     flatten_tree 0 (build_tree ci_name (\<lambda>w leaf.
       \<lparr>cv_name = ci_name w, cv_short_name = leaf, cv_schedule = show_schedule (ci_schedule w),
        cv_queue_key = ci_queue_key w, cv_next_run_micros = next_after (ci_schedule w) now\<rparr>) ws)"

record on_demand_job_view =
  ov_name :: string
  ov_short_name :: string
  ov_args_template_json :: string

definition build_on_demand_rows ::
    "(json \<Rightarrow> string option) \<Rightarrow> (json \<Rightarrow> string) \<Rightarrow> on_demand_job_info list \<Rightarrow> on_demand_job_view row list" where
  "build_on_demand_rows pretty show_json js =
     flatten_tree 0 (build_tree oi_name (\<lambda>j leaf.
       \<lparr>ov_name = oi_name j, ov_short_name = leaf,
        ov_args_template_json = (case pretty (oi_args_template j) of Some s \<Rightarrow> s | None \<Rightarrow> show_json (oi_args_template j))\<rparr>) js)"

record on_demand_queue_view =
  oq_key :: string
  oq_selected :: bool

definition build_on_demand_queue_views :: "queue_info list \<Rightarrow> on_demand_queue_view list" where
  "build_on_demand_queue_views qs =
     (let selected = List.find (\<lambda>c. list_ex (\<lambda>q. \<not> qi_dynamic q \<and> qi_key q = c) qs) [''on_demand'', ''default'', ''main'']
      in map (\<lambda>q. \<lparr>oq_key = qi_key q, oq_selected = (selected = Some (qi_key q))\<rparr>) (filter (\<lambda>q. \<not> qi_dynamic q) qs))"

section \<open>The page of on-demand jobs\<close>

record on_demand_form_error =
  fe_form :: on_demand_form
  fe_message :: string

record on_demand_page =
  od_rows :: "on_demand_job_view row list"
  od_queues :: "on_demand_queue_view list"
  od_total :: nat
  od_scheduled :: bool
  od_form_error :: "on_demand_form_error option"

definition on_demand_page ::
    "(json \<Rightarrow> string option) \<Rightarrow> (json \<Rightarrow> string) \<Rightarrow> 's catalog \<Rightarrow> bool \<Rightarrow> on_demand_form_error option \<Rightarrow> on_demand_page" where
  "on_demand_page pretty show_json cat scheduled fe =
     \<lparr>od_rows = build_on_demand_rows pretty show_json (cat_on_demand_jobs cat),
      od_queues = build_on_demand_queue_views (cat_queues cat), od_total = length (cat_on_demand_jobs cat),
      od_scheduled = scheduled, od_form_error = fe\<rparr>"

definition submitted_for :: "on_demand_page \<Rightarrow> on_demand_job_view \<Rightarrow> on_demand_form_error option" where
  "submitted_for page j = (case od_form_error page of
       None \<Rightarrow> None | Some f \<Rightarrow> if of_name (fe_form f) = ov_name j then Some f else None)"

definition args_for :: "on_demand_page \<Rightarrow> on_demand_job_view \<Rightarrow> string" where
  "args_for page j = (case submitted_for page j of None \<Rightarrow> ov_args_template_json j | Some f \<Rightarrow> of_args (fe_form f))"

definition error_for :: "on_demand_page \<Rightarrow> on_demand_job_view \<Rightarrow> string" where
  "error_for page j = (case submitted_for page j of None \<Rightarrow> [] | Some f \<Rightarrow> fe_message f)"

definition queue_selected :: "on_demand_page \<Rightarrow> on_demand_job_view \<Rightarrow> on_demand_queue_view \<Rightarrow> bool" where
  "queue_selected page j q = (case submitted_for page j of None \<Rightarrow> oq_selected q | Some f \<Rightarrow> of_queue (fe_form f) = oq_key q)"

datatype on_demand_response = OnDemandRedirect string | Unprocessable on_demand_page

text \<open>\<open>error_text\<close> is the message of the JSON package.\<close>

definition enqueue_on_demand_job ::
    "'d redis \<Rightarrow> codec \<Rightarrow> storage \<Rightarrow> ('d \<Rightarrow> 'd) \<Rightarrow> ('d \<Rightarrow> 'd) list \<Rightarrow> (json \<Rightarrow> string option) \<Rightarrow> (json \<Rightarrow> string) \<Rightarrow> string
       \<Rightarrow> string \<Rightarrow> 's catalog \<Rightarrow> on_demand_form \<Rightarrow> ('d, on_demand_response option) op" where
  "enqueue_on_demand_job R C S env envs pretty show_json error_text base_path cat form =
     (case on_demand_envelope_from_form C cat form of
        Inl JsonError \<Rightarrow> return (Some (Unprocessable (on_demand_page pretty show_json cat False
            (Some \<lparr>fe_form = form, fe_message = ''Invalid arguments: '' @ error_text\<rparr>))))
      | Inl e \<Rightarrow> fail e
      | Inr e \<Rightarrow> bind (enqueue R C S env envs e) (\<lambda>r.
          return (map_option (\<lambda>_. OnDemandRedirect (base_path @ ''/on-demand?scheduled=1'')) r)))"

section \<open>Pages cover a list\<close>

lemma take_pages: "concat (map (\<lambda>p. take n (drop (p * n) xs)) [0..<k]) = take (k * n) xs"
proof (induction k)
  case (Suc k)
  have "take (Suc k * n) xs = take (k * n) xs @ take n (drop (k * n) xs)"
    unfolding mult_Suc add.commute [of n] by (rule take_add)
  with Suc show ?case by simp
qed simp

lemma map_filter_total: "(\<And>x. x \<in> set xs \<Longrightarrow> f x \<noteq> None) \<Longrightarrow> List.map_filter f xs = map (the \<circ> f) xs"
  by (induction xs) (fastforce simp: List.map_filter_simps)+

lemma length_map_filter_less: "x \<in> set xs \<Longrightarrow> f x = None \<Longrightarrow> length (List.map_filter f xs) < length xs"
proof (induction xs)
  case (Cons y ys)
  have "length (List.map_filter f ys) \<le> length ys" by (simp add: List.map_filter_def)
  with Cons show ?case by (auto simp: List.map_filter_simps split: option.splits)
qed simp

definition last_page :: "nat \<Rightarrow> nat" where
  "last_page n = max (div_ceil n jobs_per_page) 1"

lemma last_page_covers: "n \<le> last_page n * jobs_per_page"
  by (auto simp: last_page_def div_ceil_def)

lemma page_before_last: "1 \<le> p \<Longrightarrow> p * jobs_per_page < n \<longleftrightarrow> p < last_page n"
proof -
  assume "1 \<le> p"
  have split: "p * 50 < q * 50 + r \<longleftrightarrow> p < (if r = 0 then q else q + 1)" if "r < 50" for q r :: nat
    using that by auto
  have "n = n div 50 * 50 + n mod 50" by simp
  with split [of "n mod 50" "n div 50"] have "p * 50 < n \<longleftrightarrow> p < (if n mod 50 = 0 then n div 50 else n div 50 + 1)"
    by simp
  with \<open>1 \<le> p\<close> show ?thesis by (auto simp: last_page_def div_ceil_def)
qed

lemma clamp_number_range: "1 \<le> clamp_number page n \<and> clamp_number page n \<le> last_page n"
  by (auto simp: clamp_number_def last_page_def Let_def)

lemma kind_list_dead:
  assumes "list_dead R C S \<lparr>list_count = Suc n, list_offset = m\<rparr> d = (Inr es, d')"
  shows "d' = d \<and> es = List.map_filter (of_payload C) (take (Suc n) (drop m (r_lrange R d (dead_key (st_keys S)))))"
  using assms by (auto simp: list_dead_def with_connection_Inr bind_eq_Inr redis_defs slice_def split: if_splits)

lemma dead_count_Inr: "dead_count R S d = (Inr n, d') \<Longrightarrow> d' = d \<and> n = length (r_lrange R d (dead_key (st_keys S)))"
  by (auto simp: dead_count_def with_connection_Inr bind_eq_Inr redis_defs split: if_splits)

text \<open>What a page of the dead shows.\<close>

lemma dead_page:
  assumes "global_jobs R C S (\<lambda>d. d) DeadJobs p d = (Inr v, d')"
    and "1 \<le> p" and "(p - 1) * jobs_per_page \<le> u64_max"
  shows "d' = d \<and> gj_page v = job_page_new p (length (r_lrange R d (dead_key (st_keys S))))
    (List.map_filter (of_payload C) (take 51 (drop ((p - 1) * jobs_per_page) (r_lrange R d (dead_key (st_keys S))))))"
proof -
  have off: "list_opts p = \<lparr>list_count = Suc 50, list_offset = (p - 1) * jobs_per_page\<rparr>"
    using assms(2,3) by (simp add: list_opts_def max_def)
  from assms(1) obtain n d1 es where n: "dead_count R S d = (Inr n, d1)"
    and es: "list_dead R C S (list_opts p) d1 = (Inr es, d')" and v: "gj_page v = job_page_new p n es"
    by (auto simp: global_jobs_def bind_eq_Inr seq_def interfere_def return_def)
  from dead_count_Inr [OF n] kind_list_dead [OF es [unfolded off]] v show ?thesis by simp
qed

section \<open>Sorting\<close>

locale total_comparison =
  fixes cmp :: "'a \<Rightarrow> 'a \<Rightarrow> ordering"
  assumes reverse: "cmp b a = reverse_ord (cmp a b)"
    and trans: "cmp a b \<noteq> GT \<Longrightarrow> cmp b c \<noteq> GT \<Longrightarrow> cmp a c \<noteq> GT"
begin

lemma mset_insert_by [simp]: "mset (insert_by cmp x xs) = add_mset x (mset xs)"
  by (induction xs) auto

lemma mset_sort_by [simp]: "mset (sort_by cmp xs) = mset xs"
  by (induction xs) (simp_all add: sort_by_def)

lemma set_insert_by [simp]: "set (insert_by cmp x xs) = insert x (set xs)"
  by (induction xs) auto

lemma gt_flip: "cmp a b = GT \<Longrightarrow> cmp b a \<noteq> GT"
  using reverse [of b a] by (cases "cmp b a") auto

lemma sorted_insert_by:
  "sorted_wrt (\<lambda>a b. cmp a b \<noteq> GT) xs \<Longrightarrow> sorted_wrt (\<lambda>a b. cmp a b \<noteq> GT) (insert_by cmp x xs)"
  by (induction xs) (auto dest: gt_flip trans)

lemma sorted_sort_by: "sorted_wrt (\<lambda>a b. cmp a b \<noteq> GT) (sort_by cmp xs)"
  by (induction xs) (simp_all add: sort_by_def sorted_insert_by)

text \<open>When no two elements are equivalent, the sorted list depends on the elements only.\<close>

lemma sorted_unique:
  assumes "mset xs = mset ys" and "\<And>a b. a \<in> set xs \<Longrightarrow> b \<in> set xs \<Longrightarrow> cmp a b = EQ \<Longrightarrow> a = b"
    and "sorted_wrt (\<lambda>a b. cmp a b \<noteq> GT) xs" and "sorted_wrt (\<lambda>a b. cmp a b \<noteq> GT) ys"
  shows "xs = ys"
  using assms
proof (induction xs arbitrary: ys)
  case (Cons x xs)
  then obtain y zs where ys: "ys = y # zs" by (cases ys) auto
  have sets: "set (x # xs) = set ys" using Cons.prems(1) by (rule mset_eq_setD)
  have "x = y"
  proof (rule ccontr)
    assume "x \<noteq> y"
    then have "cmp x y \<noteq> GT" "cmp y x \<noteq> GT" using Cons.prems(3,4) sets ys by auto
    then have "cmp x y = EQ" using reverse [of y x] by (cases "cmp x y") auto
    moreover have "y \<in> set (x # xs)" using sets ys by simp
    ultimately show False using \<open>x \<noteq> y\<close> Cons.prems(2) [of x y] by simp
  qed
  with Cons ys show ?case by auto
qed simp

lemma sort_by_unique:
  assumes "mset xs = mset ys" and "\<And>a b. a \<in> set xs \<Longrightarrow> b \<in> set xs \<Longrightarrow> cmp a b = EQ \<Longrightarrow> a = b"
  shows "sort_by cmp xs = sort_by cmp ys"
proof (rule sorted_unique)
  have "set (sort_by cmp xs) = set xs" by (rule mset_eq_setD) simp
  then show "\<And>a b. a \<in> set (sort_by cmp xs) \<Longrightarrow> b \<in> set (sort_by cmp xs) \<Longrightarrow> cmp a b = EQ \<Longrightarrow> a = b"
    using assms(2) by simp
qed (use assms(1) sorted_sort_by in simp_all)

end

lemma then_with_EQ: "then_with a b = EQ \<longleftrightarrow> a = EQ \<and> b = EQ"
  by (cases a) auto

lemma compare_EQ: "compare a b = EQ \<longleftrightarrow> a = b"
  by (simp add: compare_def)

lemma comparison_key: "total_comparison (\<lambda>a b. compare (f a) (f b))"
  by unfold_locales (auto simp: compare_def split: if_splits)

lemma reverse_reverse_ord [simp]: "reverse_ord (reverse_ord a) = a"
  by (cases a) auto

lemma comparison_flip:
  assumes "total_comparison cmp"
  shows "total_comparison (\<lambda>a b. reverse_ord (cmp a b))"
proof unfold_locales
  show flip: "reverse_ord (cmp b a) = reverse_ord (reverse_ord (cmp a b))" for a b
    using total_comparison.reverse [OF assms, of b a] by simp
  show "reverse_ord (cmp a c) \<noteq> GT" if "reverse_ord (cmp a b) \<noteq> GT" "reverse_ord (cmp b c) \<noteq> GT" for a b c
    using total_comparison.trans [OF assms, of c b a] that total_comparison.reverse [OF assms] by metis
qed

lemma comparison_then:
  assumes "total_comparison c1" and "total_comparison c2"
  shows "total_comparison (\<lambda>a b. then_with (c1 a b) (c2 a b))"
proof unfold_locales
  note r = total_comparison.reverse [OF assms(1)] total_comparison.reverse [OF assms(2)]
  show "then_with (c1 b a) (c2 b a) = reverse_ord (then_with (c1 a b) (c2 a b))" for a b
    using r(1) [of b a] r(2) [of b a] by (cases "c1 a b") auto
  show "then_with (c1 a c) (c2 a c) \<noteq> GT"
    if "then_with (c1 a b) (c2 a b) \<noteq> GT" "then_with (c1 b c) (c2 b c) \<noteq> GT" for a b c
  proof -
    note t = total_comparison.trans [OF assms(1)]
    have "c1 a b \<noteq> GT" "c1 b c \<noteq> GT" using that by auto
    then have ac: "c1 a c \<noteq> GT" by (rule t)
    show ?thesis
    proof (cases "c1 a c")
      case EQ
      then have "c1 c a \<noteq> GT" using r(1) [of c a] by simp
      then have "c1 b a \<noteq> GT" "c1 c b \<noteq> GT" using t \<open>c1 a b \<noteq> GT\<close> \<open>c1 b c \<noteq> GT\<close> by blast+
      then have "c1 a b = EQ" "c1 b c = EQ"
        using \<open>c1 a b \<noteq> GT\<close> \<open>c1 b c \<noteq> GT\<close> r(1) [of b a] r(1) [of c b] by (cases "c1 a b"; cases "c1 b c"; auto)+
      with that EQ total_comparison.trans [OF assms(2)] show ?thesis by auto
    qed (use ac in auto)
  qed
qed

lemma comparison_if:
  "total_comparison c1 \<Longrightarrow> total_comparison c2 \<Longrightarrow> total_comparison (\<lambda>a b. if p then c1 a b else c2 a b)"
  by (cases p) simp_all

lemma comparison_queues:
  assumes "total_comparison rate" and "\<And>desc. total_comparison (eta desc)"
  shows "total_comparison (compare_queues rate eta configs col desc)"
proof -
  define cmp where "cmp = (\<lambda>a b.
      (if col = ''enqueued'' then compare (qs_enqueued a) (qs_enqueued b)
       else if col = ''processed'' then compare (qr_processed (qs_counts a)) (qr_processed (qs_counts b))
       else if col = ''succeeded'' then compare (qr_succeeded (qs_counts a)) (qr_succeeded (qs_counts b))
       else if col = ''failed'' then compare (qr_failed (qs_counts a)) (qr_failed (qs_counts b))
       else if col = ''panicked'' then compare (qr_panicked (qs_counts a)) (qr_panicked (qs_counts b))
       else if col = ''rate'' then rate a b
       else if col = ''concurrency'' then compare (shown_concurrency configs (qs_key a)) (shown_concurrency configs (qs_key b))
       else if col = ''state'' then compare (queue_state_order configs (qs_key a)) (queue_state_order configs (qs_key b))
       else if col = ''latency'' then compare (qs_latency a) (qs_latency b)
       else compare (qs_key a) (qs_key b)))"
  have "total_comparison cmp"
    unfolding cmp_def by (intro comparison_if comparison_key assms(1))
  then have first: "total_comparison (\<lambda>a b. if col = ''eta'' then eta desc a b else if desc then reverse_ord (cmp a b) else cmp a b)"
    by (intro comparison_if comparison_flip assms(2))
  have "compare_queues rate eta configs col desc = (\<lambda>a b. then_with
      (if col = ''eta'' then eta desc a b else if desc then reverse_ord (cmp a b) else cmp a b) (compare (qs_key a) (qs_key b)))"
    unfolding compare_queues_def cmp_def Let_def by (rule refl)
  with comparison_then [OF first comparison_key [of qs_key]] show ?thesis by simp
qed

lemma compare_queues_EQ: "compare_queues rate eta configs col desc a b = EQ \<Longrightarrow> qs_key a = qs_key b"
  unfolding compare_queues_def by (simp add: then_with_EQ compare_EQ)

text \<open>The columns the code compares as integers or texts, that is, without the two parameters.\<close>

interpretation exact_columns: total_comparison "compare_queues (\<lambda>_ _. EQ) (\<lambda>_ _ _. EQ) configs col desc"
  for configs :: "string \<rightharpoonup> queue_runtime_config_view" and col :: string and desc :: bool
  by (rule comparison_queues; unfold_locales) auto

section \<open>Trees list every worker once\<close>

text \<open>The entries of a tree with their paths, its group paths, and the order of the children.\<close>

fun tree_entries :: "string list \<Rightarrow> 'a type_tree \<Rightarrow> (string list \<times> 'a) list" where
  "tree_entries path (TypeTree cs es) =
     concat (map (\<lambda>c. tree_entries (path @ [fst c]) (snd c)) cs) @ map (Pair path) es"

fun tree_groups :: "string list \<Rightarrow> 'a type_tree \<Rightarrow> string list list" where
  "tree_groups path (TypeTree cs es) =
     concat (map (\<lambda>c. (path @ [fst c]) # tree_groups (path @ [fst c]) (snd c)) cs)"

fun tree_wf :: "'a type_tree \<Rightarrow> bool" where
  "tree_wf (TypeTree cs es) \<longleftrightarrow> sorted_wrt (<) (map fst cs) \<and> list_all (\<lambda>c. tree_wf (snd c)) cs"

text \<open>Reading the rows back: the depth of a row says which part of the last path it keeps.\<close>

fun row_entries :: "string list \<Rightarrow> 'a row list \<Rightarrow> (string list \<times> 'a) list" where
  "row_entries path [] = []"
| "row_entries path (GroupRow n depth # rows) = row_entries (take depth path @ [n]) rows"
| "row_entries path (EntryRow e depth # rows) = (take depth path, e) # row_entries path rows"

fun row_groups :: "string list \<Rightarrow> 'a row list \<Rightarrow> string list list" where
  "row_groups path [] = []"
| "row_groups path (GroupRow n depth # rows) = (take depth path @ [n]) # row_groups (take depth path @ [n]) rows"
| "row_groups path (EntryRow e depth # rows) = row_groups path rows"

lemma btree_update_keys: "fst ` set (btree_update k v f kvs) = insert k (fst ` set kvs)"
proof (induction kvs)
  case (Cons kv kvs)
  then show ?case by (cases kv; cases "k = fst kv"; cases "k < fst kv") (simp_all add: insert_commute)
qed simp

lemma btree_update_sorted:
  "sorted_wrt (<) (map fst kvs) \<Longrightarrow> sorted_wrt (<) (map fst (btree_update k v f kvs))"
proof (induction kvs)
  case (Cons kv kvs)
  have "\<forall>x \<in> fst ` set (btree_update k v f kvs). fst kv < x" if "fst kv < k"
    using Cons.prems that by (auto simp: btree_update_keys)
  with Cons show ?case by (cases kv) (fastforce simp: not_less_iff_gr_or_eq)
qed simp

lemma btree_update_all:
  "list_all P kvs \<Longrightarrow> P (k, f v) \<Longrightarrow> (\<And>x. P (k, x) \<Longrightarrow> P (k, f x)) \<Longrightarrow> list_all P (btree_update k v f kvs)"
  by (induction kvs) auto

lemma btree_update_mset:
  assumes "\<And>x. mset (g (k, f x)) = add_mset y (mset (g (k, x)))" and "g (k, v) = []"
  shows "mset (concat (map g (btree_update k v f kvs))) = add_mset y (mset (concat (map g kvs)))"
  using assms by (induction kvs) auto

lemma tree_entries_insert:
  "mset (tree_entries path (insert_type_tree_entry ps e t)) = add_mset (path @ ps, e) (mset (tree_entries path t))"
proof (induction ps e t arbitrary: path rule: insert_type_tree_entry.induct)
  case (2 p ps e cs es)
  have "mset (concat (map (\<lambda>c. tree_entries (path @ [fst c]) (snd c)) (btree_update p tree_new (insert_type_tree_entry ps e) cs))) =
      add_mset (path @ p # ps, e) (mset (concat (map (\<lambda>c. tree_entries (path @ [fst c]) (snd c)) cs)))"
    by (rule btree_update_mset) (simp_all add: 2 tree_new_def)
  then show ?case by simp
qed simp

lemma tree_wf_insert: "tree_wf t \<Longrightarrow> tree_wf (insert_type_tree_entry ps e t)"
proof (induction ps e t rule: insert_type_tree_entry.induct)
  case (2 p ps e cs es)
  have "list_all (\<lambda>c. tree_wf (snd c)) (btree_update p tree_new (insert_type_tree_entry ps e) cs)"
    by (rule btree_update_all) (use 2 in \<open>simp_all add: tree_new_def\<close>)
  with 2 show ?case by (simp add: btree_update_sorted)
qed simp

lemma tree_groups_under: "g \<in> set (tree_groups path t) \<Longrightarrow> \<exists>n rest. g = path @ n # rest"
  by (induction path t rule: tree_groups.induct) fastforce

lemma child_groups_under:
  "g = path @ [n] \<or> g \<in> set (tree_groups (path @ [n]) t) \<Longrightarrow> \<exists>rest. g = path @ n # rest"
  using tree_groups_under [of g "path @ [n]" t] by auto

lemma children_groups_distinct:
  assumes "sorted_wrt (<) (map fst cs)" and "\<And>c. c \<in> set cs \<Longrightarrow> distinct (tree_groups (path @ [fst c]) (snd c))"
  shows "distinct (concat (map (\<lambda>c. (path @ [fst c]) # tree_groups (path @ [fst c]) (snd c)) cs))"
  using assms
proof (induction cs)
  case (Cons c cs)
  let ?gs = "\<lambda>c. (path @ [fst c]) # tree_groups (path @ [fst c]) (snd c)"
  have "set (?gs c) \<inter> set (?gs c') = {}" if "c' \<in> set cs" for c'
  proof -
    have ne: "fst c \<noteq> fst c'" using Cons.prems(1) that by auto
    have under: "\<exists>rest. g = path @ fst c # rest" if "g \<in> set (?gs c)" for g c
      by (rule child_groups_under) (use that in simp)
    from ne have "g \<notin> set (?gs c')" if "g \<in> set (?gs c)" for g using under [OF that] under [of g c'] by auto
    then show ?thesis by blast
  qed
  moreover have "distinct (?gs c)"
    using Cons.prems(2) [of c] tree_groups_under [of "path @ [fst c]" "path @ [fst c]" "snd c"] by auto
  moreover have "distinct (concat (map ?gs cs))" using Cons by simp
  ultimately show ?case unfolding list.map concat.simps distinct_append set_concat set_map by blast
qed simp

lemma tree_groups_distinct: "tree_wf t \<Longrightarrow> distinct (tree_groups path t)"
proof (induction path t rule: tree_groups.induct)
  case (1 path cs es)
  then show ?case by (auto simp: list_all_iff intro!: children_groups_distinct simp del: distinct.simps)
qed

lemma entry_rows:
  "row_entries path (map (\<lambda>e. EntryRow e depth) es @ rows) = map (Pair (take depth path)) es @ row_entries path rows"
  "row_groups path (map (\<lambda>e. EntryRow e depth) es @ rows) = row_groups path rows"
  by (induction es) simp_all

definition reads_as :: "nat \<Rightarrow> string list \<Rightarrow> 'a row list \<Rightarrow> (string list \<times> 'a) list \<Rightarrow> string list list \<Rightarrow> bool" where
  "reads_as depth pre rows entries groups \<longleftrightarrow> (\<forall>path more. take depth path = pre \<longrightarrow>
     (\<exists>path'. take depth path' = pre \<and> row_entries path (rows @ more) = entries @ row_entries path' more \<and>
       row_groups path (rows @ more) = groups @ row_groups path' more))"

lemma reads_as_append:
  "reads_as depth pre rows es gs \<Longrightarrow> reads_as depth pre rows' es' gs' \<Longrightarrow> reads_as depth pre (rows @ rows') (es @ es') (gs @ gs')"
  unfolding reads_as_def by (metis append.assoc)

lemma reads_as_group:
  assumes "length pre = depth" and "reads_as (depth + 1) (pre @ [n]) rows es gs"
  shows "reads_as depth pre (GroupRow n depth # rows) es ((pre @ [n]) # gs)"
  unfolding reads_as_def
proof (intro allI impI)
  fix path more
  assume "take depth path = pre"
  moreover have "take (depth + 1) (pre @ [n]) = pre @ [n]" using assms(1) by simp
  with assms(2) obtain path' where "take (depth + 1) path' = pre @ [n]"
      "row_entries (pre @ [n]) (rows @ more) = es @ row_entries path' more"
      "row_groups (pre @ [n]) (rows @ more) = gs @ row_groups path' more"
    unfolding reads_as_def by blast
  moreover have "take depth path' = pre"
  proof -
    have "take depth path' = take depth (take (depth + 1) path')" by (simp only: take_take) (simp add: min_def)
    also have "\<dots> = take depth (pre @ [n])" by (simp only: \<open>take (depth + 1) path' = pre @ [n]\<close>)
    finally show ?thesis using assms(1) by simp
  qed
  ultimately show "\<exists>path'. take depth path' = pre \<and>
      row_entries path ((GroupRow n depth # rows) @ more) = es @ row_entries path' more \<and>
      row_groups path ((GroupRow n depth # rows) @ more) = ((pre @ [n]) # gs) @ row_groups path' more"
    by auto
qed

lemma flatten_reads: "length pre = depth \<Longrightarrow> reads_as depth pre (flatten_tree depth t) (tree_entries pre t) (tree_groups pre t)"
proof (induction depth t arbitrary: pre rule: flatten_tree.induct)
  case (1 depth cs es)
  have "reads_as depth pre (concat (map (\<lambda>c. GroupRow (fst c) depth # flatten_tree (depth + 1) (snd c)) ds))
      (concat (map (\<lambda>c. tree_entries (pre @ [fst c]) (snd c)) ds))
      (concat (map (\<lambda>c. (pre @ [fst c]) # tree_groups (pre @ [fst c]) (snd c)) ds))" if "set ds \<subseteq> set cs" for ds
    using that
  proof (induction ds)
    case (Cons c ds)
    have "reads_as depth pre (GroupRow (fst c) depth # flatten_tree (depth + 1) (snd c))
        (tree_entries (pre @ [fst c]) (snd c)) ((pre @ [fst c]) # tree_groups (pre @ [fst c]) (snd c))"
      using Cons.prems 1 by (intro reads_as_group) auto
    from reads_as_append [OF this Cons.IH] Cons.prems show ?case by simp
  qed (auto simp: reads_as_def)
  moreover have "reads_as depth pre (map (\<lambda>e. EntryRow e depth) es) (map (Pair pre) es) []"
    by (auto simp: reads_as_def entry_rows)
  ultimately show ?case using reads_as_append by fastforce
qed

text \<open>Names are cut into a path and a leaf, and put together again.\<close>

lemma split_path_nonempty [simp]: "split_path s \<noteq> []"
  by (induction s rule: split_path.induct) (auto split: list.splits)

lemma join_Cons: "ss \<noteq> [] \<Longrightarrow> join_path (s # ss) = s @ ''::'' @ join_path ss"
  by (cases ss) simp_all

lemma join_split [simp]: "join_path (split_path s) = s"
proof (induction s rule: split_path.induct)
  case (3 a b r)
  show ?case
  proof (cases "a = CHR '':'' \<and> b = CHR '':''")
    case True
    with 3 show ?thesis by (simp add: join_Cons)
  next
    case False
    obtain t ts where "split_path (b # r) = t # ts" by (cases "split_path (b # r)") auto
    with 3 False show ?thesis by (cases ts) (auto simp: join_Cons)
  qed
qed simp_all

lemma join_append: "ys \<noteq> [] \<Longrightarrow> join_path (xs @ [join_path ys]) = join_path (xs @ ys)"
  by (induction xs) (simp_all add: join_Cons)

lemma type_tree_parts_join: "join_path (fst (type_tree_parts name) @ [snd (type_tree_parts name)]) = name"
proof -
  have "drop (length (split_path name) - 2) (split_path name) \<noteq> []" by (cases "split_path name") auto
  then show ?thesis by (simp add: type_tree_parts_def Let_def join_append)
qed

lemma build_tree_snoc:
  "build_tree name view (ws @ [w]) =
     insert_type_tree_entry (fst (type_tree_parts (name w))) (view w (snd (type_tree_parts (name w)))) (build_tree name view ws)"
  by (simp add: build_tree_def case_prod_beta)

lemma build_tree_entries:
  "mset (tree_entries [] (build_tree name view ws)) =
     mset (map (\<lambda>w. (fst (type_tree_parts (name w)), view w (snd (type_tree_parts (name w))))) ws) \<and>
   tree_wf (build_tree name view ws)"
  by (induction ws rule: rev_induct)
    (simp_all add: build_tree_snoc tree_entries_insert tree_wf_insert, simp add: build_tree_def tree_new_def)

text \<open>
  The rows of a tree list every entry once, under the group rows of its path, and show
  every group once.
\<close>

lemma tree_rows:
  "mset (row_entries [] (flatten_tree 0 (build_tree name view ws))) =
     mset (map (\<lambda>w. (fst (type_tree_parts (name w)), view w (snd (type_tree_parts (name w))))) ws) \<and>
   distinct (row_groups [] (flatten_tree 0 (build_tree name view ws)))"
proof -
  let ?t = "build_tree name view ws"
  have "row_entries [] (flatten_tree 0 ?t @ []) = tree_entries [] ?t @ [] \<and>
      row_groups [] (flatten_tree 0 ?t @ []) = tree_groups [] ?t @ []"
  proof -
    from flatten_reads [of "[]" 0 ?t, unfolded reads_as_def, rule_format, of "[]" "[]"] obtain path' where
        "row_entries [] (flatten_tree 0 ?t @ []) = tree_entries [] ?t @ row_entries path' []"
        "row_groups [] (flatten_tree 0 ?t @ []) = tree_groups [] ?t @ row_groups path' []"
      by auto
    then show ?thesis by simp
  qed
  with build_tree_entries [of name view ws] show ?thesis by (simp add: tree_groups_distinct)
qed

section \<open>Properties\<close>

text \<open>
  The pages of the dead jobs cover the list: when every entry is readable, the pages from the
  first to the last show all of them, in order and each exactly once, and the link to the next
  page is there on every page but the last.
\<close>

theorem dead_pages_cover:
  assumes "\<And>p. 1 \<le> p \<Longrightarrow> p \<le> last_page (length (r_lrange R d (dead_key (st_keys S)))) \<Longrightarrow>
      \<exists>d'. global_jobs R C S (\<lambda>d. d) DeadJobs p d = (Inr (v p), d')"
    and "\<And>x. x \<in> set (r_lrange R d (dead_key (st_keys S))) \<Longrightarrow> of_payload C x \<noteq> None"
    and "length (r_lrange R d (dead_key (st_keys S))) \<le> u64_max"
  shows "concat (map (\<lambda>p. jp_jobs (gj_page (v p))) [1..<Suc (last_page (length (r_lrange R d (dead_key (st_keys S)))))]) =
      map (the \<circ> of_payload C) (r_lrange R d (dead_key (st_keys S))) \<and>
    (\<forall>p. 1 \<le> p \<and> p \<le> last_page (length (r_lrange R d (dead_key (st_keys S)))) \<longrightarrow>
      (jp_has_next (gj_page (v p)) \<longleftrightarrow> p < last_page (length (r_lrange R d (dead_key (st_keys S))))))"
proof -
  let ?L = "r_lrange R d (dead_key (st_keys S))" and ?g = "the \<circ> of_payload C"
  let ?m = "last_page (length ?L)"
  have page: "jp_jobs (gj_page (v p)) = take 50 (drop ((p - 1) * 50) (map ?g ?L))"
    "jp_has_next (gj_page (v p)) \<longleftrightarrow> p * 50 < length ?L" if "1 \<le> p" "p \<le> ?m" for p
  proof -
    have "p = 1 \<or> (p - 1) * 50 < length ?L"
    proof (cases "p = 1")
      case False
      then have "1 \<le> p - 1" "p - 1 < ?m" using that by simp_all
      then show ?thesis by (simp only: page_before_last simp_thms)
    qed simp
    then have bound: "(p - 1) * 50 \<le> u64_max" using assms(3) by auto
    from assms(1) [OF that] obtain d' where run: "global_jobs R C S (\<lambda>d. d) DeadJobs p d = (Inr (v p), d')" by blast
    have v: "gj_page (v p) = job_page_new p (length ?L)
        (List.map_filter (of_payload C) (take 51 (drop ((p - 1) * 50) ?L)))" using dead_page [OF run that(1) bound] by simp
    have "List.map_filter (of_payload C) (take 51 (drop ((p - 1) * 50) ?L)) = map ?g (take 51 (drop ((p - 1) * 50) ?L))"
      by (intro map_filter_total assms(2)) (blast dest: in_set_takeD in_set_dropD)
    with v show "jp_jobs (gj_page (v p)) = take 50 (drop ((p - 1) * 50) (map ?g ?L))"
      "jp_has_next (gj_page (v p)) \<longleftrightarrow> p * 50 < length ?L"
      using \<open>1 \<le> p\<close> by (auto simp: job_page_new_def take_map drop_map)
  qed
  have "concat (map (\<lambda>p. jp_jobs (gj_page (v p))) [1..<Suc ?m]) =
      concat (map (\<lambda>p. jp_jobs (gj_page (v (Suc p)))) [0..<?m])"
    by (simp only: One_nat_def map_Suc_upt [symmetric] map_map comp_def)
  also have "\<dots> = concat (map (\<lambda>p. take 50 (drop (p * 50) (map ?g ?L))) [0..<?m])"
    by (intro arg_cong [where f = concat] map_cong refl) (simp add: page(1))
  also have "\<dots> = map ?g ?L"
    using last_page_covers [of "length ?L"] by (simp only: take_pages) (simp add: take_map)
  finally show ?thesis using page(2) page_before_last by auto
qed

text \<open>
  An entry that cannot be read hides the pages after its own: the page then holds fewer than
  fifty-one jobs, which the code takes for the end of the list.
\<close>

theorem unreadable_hides_next_page:
  assumes "global_jobs R C S (\<lambda>d. d) DeadJobs p d = (Inr v, d')" and "1 \<le> p" and "(p - 1) * jobs_per_page \<le> u64_max"
    and "x \<in> set (take 51 (drop ((p - 1) * jobs_per_page) (r_lrange R d (dead_key (st_keys S)))))"
    and "of_payload C x = None"
  shows "\<not> jp_has_next (gj_page v)"
proof -
  have "length (List.map_filter (of_payload C) (take 51 (drop ((p - 1) * 50) (r_lrange R d (dead_key (st_keys S)))))) < 51"
    by (rule less_le_trans [OF length_map_filter_less [where f = "of_payload C", OF assms(4,5)]]) simp
  with dead_page [OF assms(1-3)] show ?thesis by (simp add: job_page_new_def)
qed

text \<open>
  The lookup of a job: what it returns as alive is stored under the identifier; what it returns
  as dead carries the identifier and is in the dead list although no job was stored under it;
  and when nobody else writes, it finds nothing only when neither place has the job.
\<close>

theorem find_job_contract:
  assumes "redis_server R" and "find_job R C S env1 env2 i d = (Inr (r, is_dead), d')"
  shows "case r of
      Some e \<Rightarrow> if is_dead
        then env_id e = i \<and> r_hget R d (jobs_key (st_keys S)) i = None \<and>
          (\<exists>p \<in> set (r_lrange R (env2 (env1 d)) (dead_key (st_keys S))). of_payload C p = Some e)
        else \<exists>p. r_hget R d (jobs_key (st_keys S)) i = Some p \<and> of_payload C p = Some e
    | None \<Rightarrow> \<not> is_dead \<and> r_hget R d (jobs_key (st_keys S)) i = None \<and>
        (env1 d = d \<and> env2 d = d \<longrightarrow>
          (\<forall>p \<in> set (r_lrange R d (dead_key (st_keys S))). \<forall>e. of_payload C p = Some e \<longrightarrow> env_id e \<noteq> i))"
proof -
  from assms(2) obtain g d1 where g: "get_job R C S i d = (Inr g, d1)"
    and rest: "(case g of Some e \<Rightarrow> return (Some e, False)
     | None \<Rightarrow> seq (interfere env1) (bind (dead_count R S) (\<lambda>n.
         if n = 0 then return (None, False)
         else seq (interfere env2) (bind (list_dead R C S \<lparr>list_count = n, list_offset = 0\<rparr>) (\<lambda>dead.
           case List.find (\<lambda>e. env_id e = i) dead of
             None \<Rightarrow> return (None, False)
           | Some e \<Rightarrow> return (Some e, True)))))) d1 = (Inr (r, is_dead), d')"
    by (auto simp: find_job_def bind_eq_Inr)
  from g have "get_job_w_conn R C S i d = (Inr g, d1)" by (simp add: get_job_def with_connection_Inr)
  then have found: "d1 = d" "case g of None \<Rightarrow> r_hget R d (jobs_key (st_keys S)) i = None
      | Some e \<Rightarrow> \<exists>p. r_hget R d (jobs_key (st_keys S)) i = Some p \<and> of_payload C p = Some e"
    by (cases rule: redis_server.get_job_cases [OF assms(1), of C S i d]; auto)+
  show ?thesis
  proof (cases g)
    case (Some e)
    with rest found show ?thesis by (auto simp: return_def)
  next
    case None
    with rest found obtain n d2 where n: "dead_count R S (env1 d) = (Inr n, d2)"
      and rest: "(if n = 0 then return (None, False)
         else seq (interfere env2) (bind (list_dead R C S \<lparr>list_count = n, list_offset = 0\<rparr>) (\<lambda>dead.
           case List.find (\<lambda>e. env_id e = i) dead of
             None \<Rightarrow> return (None, False)
           | Some e \<Rightarrow> return (Some e, True)))) d2 = (Inr (r, is_dead), d')"
      by (auto simp: seq_def interfere_def bind_eq_Inr)
    have count: "d2 = env1 d" "n = length (r_lrange R (env1 d) (dead_key (st_keys S)))" using dead_count_Inr [OF n] by simp_all
    show ?thesis
    proof (cases n)
      case 0
      with rest count None found show ?thesis by (auto simp: return_def)
    next
      case (Suc k)
      obtain es d3 where es: "list_dead R C S \<lparr>list_count = Suc k, list_offset = 0\<rparr> (env2 (env1 d)) = (Inr es, d3)"
        and res: "(case List.find (\<lambda>e. env_id e = i) es of None \<Rightarrow> return (None, False)
           | Some e \<Rightarrow> return (Some e, True)) d3 = (Inr (r, is_dead), d')"
        using rest unfolding Suc count(1) by (auto simp: seq_def interfere_def bind_eq_Inr)
      let ?L = "r_lrange R (env2 (env1 d)) (dead_key (st_keys S))"
      from kind_list_dead [OF es] have es: "es = List.map_filter (of_payload C) (take n ?L)" using Suc by simp
      have readable: "e \<in> set es \<longleftrightarrow> (\<exists>p \<in> set (take n ?L). of_payload C p = Some e)" for e
        unfolding es by (force simp: List.map_filter_def)
      show ?thesis
      proof (cases "List.find (\<lambda>e. env_id e = i) es")
        case None
        with res have "r = None" "\<not> is_dead" by (auto simp: return_def)
        moreover have "take n ?L = r_lrange R d (dead_key (st_keys S))" if "env1 d = d" "env2 d = d"
          using that count by simp
        ultimately show ?thesis using None readable found \<open>g = None\<close> by (fastforce simp: find_None_iff)
      next
        case (Some e)
        with res have "r = Some e" "is_dead" by (auto simp: return_def)
        moreover have "env_id e = i" "e \<in> set es" using Some by (auto simp: find_Some_iff)
        ultimately show ?thesis using readable found \<open>g = None\<close> by (auto dest: in_set_takeD)
      qed
    qed
  qed
qed

text \<open>
  The rows of the queue page: whatever column and direction are asked for, the rows are those of
  the statistics, sorted by the column and then by name, and the same whatever order the server
  lists the queues in; without parameters the longest queue comes first.
\<close>

theorem queue_rows_sorted:
  assumes "total_comparison rate" and "\<And>desc. total_comparison (eta desc)" and "distinct (map qs_key rows)"
  shows "(let (shown, col, way) = sort_queues_for_params rate eta configs sort_col dir rows in
      mset shown = mset rows \<and>
      sorted_wrt (\<lambda>a b. compare_queues rate eta configs col (way = ''desc'') a b \<noteq> GT) shown \<and>
      (\<forall>rows'. mset rows' = mset rows \<longrightarrow> fst (sort_queues_for_params rate eta configs sort_col dir rows') = shown)) \<and>
    sorted_wrt (\<lambda>a b. qs_enqueued b < qs_enqueued a \<or> qs_enqueued a = qs_enqueued b \<and> qs_key a \<le> qs_key b)
      (fst (sort_queues_for_params rate eta configs None None rows))"
proof -
  have cmp: "total_comparison (compare_queues rate eta configs col desc)" for col desc
    by (rule comparison_queues [OF assms(1,2)])
  have uniq: "a = b" if "a \<in> set rows" "b \<in> set rows" "compare_queues rate eta configs col desc a b = EQ" for a b col desc
    using that assms(3) compare_queues_EQ [OF that(3)] by (auto simp: distinct_map inj_on_def)
  have same: "sort_by (compare_queues rate eta configs col desc) rows' = sort_by (compare_queues rate eta configs col desc) rows"
    if "mset rows' = mset rows" for rows' col desc
    using total_comparison.sort_by_unique [OF cmp that [symmetric] uniq] by simp
  have "sorted_wrt (\<lambda>a b. compare_queues rate eta configs ''enqueued'' True a b \<noteq> GT)
      (sort_by (compare_queues rate eta configs ''enqueued'' True) rows)"
    by (rule total_comparison.sorted_sort_by [OF cmp])
  then have "sorted_wrt (\<lambda>a b. qs_enqueued b < qs_enqueued a \<or> qs_enqueued a = qs_enqueued b \<and> qs_key a \<le> qs_key b)
      (sort_by (compare_queues rate eta configs ''enqueued'' True) rows)"
    by (rule sorted_wrt_mono_rel [rotated]) (auto simp: compare_queues_def compare_def split: if_splits)
  moreover have "fst (sort_queues_for_params rate eta configs None None rows) =
      sort_by (compare_queues rate eta configs ''enqueued'' True) rows"
    by (simp add: sort_queues_for_params_def Let_def)
  moreover obtain col way where "\<And>xs. sort_queues_for_params rate eta configs sort_col dir xs =
      (sort_by (compare_queues rate eta configs col (way = ''desc'')) xs, col, way)"
    unfolding sort_queues_for_params_def Let_def by blast
  ultimately show ?thesis
    by (auto simp: total_comparison.mset_sort_by [OF cmp] total_comparison.sorted_sort_by [OF cmp] intro: same)
qed

text \<open>
  The rows of the cron page show every scheduled worker exactly once, with its queue, schedule and
  next run; the group rows above a worker together with its short name spell its full name; and no
  group is shown twice.
\<close>

theorem cron_rows_complete:
  "mset (map (\<lambda>(_, v). (cv_name v, cv_queue_key v, cv_schedule v, cv_next_run_micros v))
       (row_entries [] (build_cron_rows show_schedule next_after ws now))) =
     mset (map (\<lambda>w. (ci_name w, ci_queue_key w, show_schedule (ci_schedule w), next_after (ci_schedule w) now)) ws) \<and>
   (\<forall>(path, v) \<in> set (row_entries [] (build_cron_rows show_schedule next_after ws now)).
      join_path (path @ [cv_short_name v]) = cv_name v) \<and>
   distinct (row_groups [] (build_cron_rows show_schedule next_after ws now))"
proof -
  let ?view = "\<lambda>w leaf. \<lparr>cv_name = ci_name w, cv_short_name = leaf, cv_schedule = show_schedule (ci_schedule w),
      cv_queue_key = ci_queue_key w, cv_next_run_micros = next_after (ci_schedule w) now\<rparr>"
  let ?parts = "\<lambda>w. (fst (type_tree_parts (ci_name w)), ?view w (snd (type_tree_parts (ci_name w))))"
  let ?rows = "build_cron_rows show_schedule next_after ws now"
  from tree_rows [of ci_name ?view ws] have m: "mset (row_entries [] ?rows) = mset (map ?parts ws)"
    and d: "distinct (row_groups [] ?rows)" by (simp_all add: build_cron_rows_def)
  from mset_eq_setD [OF m] have "\<forall>(path, v) \<in> set (row_entries [] ?rows). join_path (path @ [cv_short_name v]) = cv_name v"
    using type_tree_parts_join by auto
  moreover have "mset (map (\<lambda>(_, v). (cv_name v, cv_queue_key v, cv_schedule v, cv_next_run_micros v)) (row_entries [] ?rows)) =
      mset (map (\<lambda>w. (ci_name w, ci_queue_key w, show_schedule (ci_schedule w), next_after (ci_schedule w) now)) ws)"
    by (simp only: mset_map m) (simp add: multiset.map_comp comp_def)
  ultimately show ?thesis using d by blast
qed


text \<open>
  The button of the cron page: a redirect means that the worker is scheduled and that one ordinary
  job with its name, its queue and an empty object for arguments was enqueued; for a name that is
  not scheduled nothing is written.
\<close>

theorem cron_button_contract:
  assumes "redis_server R"
    and "enqueue_cron_job R C S (\<lambda>d. d) ((\<lambda>d. d) # envs) urlencode now uuid base_path cat name d = (r, d')"
  shows "(\<forall>url. r = Inr (Some url) \<longrightarrow> url = base_path @ ''/cron?enqueued='' @ urlencode uuid \<and>
      (\<exists>w \<in> set (cat_cron_workers cat). ci_name w = name \<and>
        store_of R d' = admit C (st_keys S) DQueue
          (immediate_envelope now uuid (ci_queue_key w) name (JObj []) None (ci_resurrect w)) (store_of R d))) \<and>
    (name \<notin> ci_name ` set (cat_cron_workers cat) \<longrightarrow> d' = d \<and> (\<exists>msg. r = Inl (GenericError msg)))"
proof (cases "List.find (\<lambda>j. ci_name j = name) (cat_cron_workers cat)")
  case None
  with assms(2) have "d' = d \<and> r = Inl (GenericError (''Cron job '' @ name @ '' is not registered''))"
    by (auto simp: enqueue_cron_job_def cron_envelope_from_form_def lift_result_def bind_def)
  then show ?thesis by auto
next
  case (Some w)
  then have w: "w \<in> set (cat_cron_workers cat)" "ci_name w = name" by (auto simp: find_Some_iff)
  let ?e = "immediate_envelope now uuid (ci_queue_key w) name (JObj []) None (ci_resurrect w)"
  have "url = base_path @ ''/cron?enqueued='' @ urlencode uuid \<and>
      store_of R d' = admit C (st_keys S) DQueue ?e (store_of R d)" if "r = Inr (Some url)" for url
  proof -
    from assms(2) that Some w obtain i where run: "enqueue R C S (\<lambda>d. d) ((\<lambda>d. d) # envs) ?e d = (Inr (Some i), d')"
      and "url = base_path @ ''/cron?enqueued='' @ urlencode i"
      by (auto simp: enqueue_cron_job_def cron_envelope_from_form_def lift_result_def bind_eq_Inr return_def
          cron_enqueued_redirect_def split: option.splits)
    moreover have "i = uuid \<and> store_of R d' = admit C (st_keys S) DQueue ?e (store_of R d)"
      using redis_server.enqueue_quiet [OF assms(1), of C S envs ?e d] run by (simp add: settles_as_def immediate_envelope_def)
    ultimately show ?thesis by simp
  qed
  with w show ?thesis by blast
qed

section \<open>Witnesses\<close>

text \<open>A server with one dead job, a catalog with two workers, and a queue page of two rows.\<close>

definition many_dead :: mem where
  "many_dead = [(''app:dead'', VList (''?'' # replicate 59 sample_payload))]"

definition demand_info :: on_demand_job_info where
  "demand_info = \<lparr>oi_name = ''app::Mail'', oi_args_template = JNull,
     oi_enqueue_factory = (\<lambda>q args. Inr (immediate_envelope 5 ''id1'' q ''app::Mail'' args None True))\<rparr>"

definition web_catalog :: "string catalog" where
  "web_catalog = \<lparr>cat_workers = [],
     cat_cron_workers = [\<lparr>ci_name = ''app::Tick'', ci_schedule = ''* * *'', ci_queue_key = ''mail'', ci_resurrect = True\<rparr>],
     cat_queues = [\<lparr>qi_key = ''mail'', qi_dynamic = False, qi_concurrency = 1, qi_dynamic_concurrency = False, qi_throttle = None\<rparr>],
     cat_on_demand_jobs = [demand_info]\<rparr>"

definition demand_form :: on_demand_form where
  "demand_form = \<lparr>of_queue = ''mail'', of_name = ''app::Mail'', of_args = jprint netstring_codec (JInt 3)\<rparr>"

lemma global_dead_run:
  "global_jobs mem_redis netstring_codec sample_storage (\<lambda>d. d) DeadJobs 1 sample_dead =
     (Inr \<lparr>gj_active_tab = ''/dead'', gj_kind = DeadJobs, gj_page = job_page_new 1 1 [sample_envelope]\<rparr>, sample_dead)"
  by (simp add: global_jobs_def list_opts_def dead_count_def list_dead_def slice_def List.map_filter_simps interfere_def
      seq_def sample_run)

theorem dead_pages_cover_witness:
  "last_page 1 = 1 \<and>
   concat (map (\<lambda>p. jp_jobs (gj_page \<lparr>gj_active_tab = ''/dead'', gj_kind = DeadJobs, gj_page = job_page_new p 1 [sample_envelope]\<rparr>))
      [1..<2]) = [sample_envelope]"
proof -
  have l: "r_lrange mem_redis sample_dead (dead_key (st_keys sample_storage)) = [sample_payload]" by (simp add: sample_run)
  have one: "last_page 1 = 1" by (simp add: last_page_def div_ceil_def)
  let ?v = "\<lambda>p. \<lparr>gj_active_tab = ''/dead'', gj_kind = DeadJobs, gj_page = job_page_new p 1 [sample_envelope]\<rparr>"
  have "concat (map (\<lambda>p. jp_jobs (gj_page (?v p))) [1..<Suc (last_page (length [sample_payload]))]) = [sample_envelope]"
    using dead_pages_cover [of mem_redis sample_dead sample_storage netstring_codec ?v, unfolded l] one global_dead_run
    by (simp add: sample_payload_parses le_Suc_eq)
  with one show ?thesis by (simp add: numeral_2_eq_2)
qed

lemma junk_unreadable: "of_payload netstring_codec ''?'' = None"
  by code_simp

theorem unreadable_hides_next_page_witness:
  "\<exists>v d'. global_jobs mem_redis netstring_codec sample_storage (\<lambda>d. d) DeadJobs 1 many_dead = (Inr v, d') \<and>
     jp_total (gj_page v) = 60 \<and> 1 < last_page 60 \<and> \<not> jp_has_next (gj_page v)"
proof -
  obtain v where v: "global_jobs mem_redis netstring_codec sample_storage (\<lambda>d. d) DeadJobs 1 many_dead = (Inr v, many_dead)"
      "jp_total (gj_page v) = 60"
    by (simp add: global_jobs_def list_opts_def dead_count_def list_dead_def slice_def interfere_def
        seq_def many_dead_def job_page_new_def sample_run)
  from unreadable_hides_next_page [OF v(1), where x = "''?''"] have "\<not> jp_has_next (gj_page v)"
    by (simp add: many_dead_def sample_run junk_unreadable)
  with v show ?thesis by (auto simp: last_page_def div_ceil_def)
qed

theorem find_job_contract_witness:
  "find_job mem_redis netstring_codec sample_storage (\<lambda>d. d) (\<lambda>d. d) ''Mail/7'' sample_dead = (Inr (Some sample_envelope, True), sample_dead) \<and>
   (\<exists>p \<in> set (r_lrange mem_redis sample_dead ''app:dead''). of_payload netstring_codec p = Some sample_envelope)"
proof -
  have run: "find_job mem_redis netstring_codec sample_storage (\<lambda>d. d) (\<lambda>d. d) ''Mail/7'' sample_dead =
      (Inr (Some sample_envelope, True), sample_dead)"
    by (simp add: find_job_def get_job_def get_job_w_conn_def dead_count_def list_dead_def slice_def List.map_filter_simps
        interfere_def seq_def sample_run)
  with find_job_contract [OF mem.redis_server_axioms run] show ?thesis by (simp add: sample_run)
qed

definition two_rows :: "queue_stats list" where
  "two_rows = [queue_stats_new ''a'', (queue_stats_new ''b'')\<lparr>qs_enqueued := 4\<rparr>]"

theorem queue_rows_sorted_witness:
  "map qs_key (fst (sort_queues_for_params (\<lambda>_ _. EQ) (\<lambda>_ _ _. EQ) Map.empty None None two_rows)) = [''b'', ''a''] \<and>
   total_comparison (\<lambda>(_ :: queue_stats) (_ :: queue_stats). EQ) \<and>
   sorted_wrt (\<lambda>a b. qs_enqueued b < qs_enqueued a \<or> qs_enqueued a = qs_enqueued b \<and> qs_key a \<le> qs_key b)
     (fst (sort_queues_for_params (\<lambda>_ _. EQ) (\<lambda>_ _ _. EQ) Map.empty None None two_rows))"
proof -
  have eq: "total_comparison (\<lambda>(_ :: queue_stats) (_ :: queue_stats). EQ)" by unfold_locales auto
  have "distinct (map qs_key two_rows)" by (simp add: two_rows_def queue_stats_new_def)
  from queue_rows_sorted [OF eq eq this, where configs = Map.empty and sort_col = None and dir = None] eq
  show ?thesis
    by (simp add: sort_queues_for_params_def Let_def sort_by_def two_rows_def compare_queues_def compare_def queue_stats_new_def)
qed

lemma demand_form_parses: "jparse netstring_codec (of_args demand_form) = Some (JInt 3)"
  by (simp add: demand_form_def net.parse_print)

definition demand_envelope :: job_envelope where
  "demand_envelope = (let e = immediate_envelope 5 ''id1'' ''mail'' ''app::Mail'' (JInt 3) None True in
     e\<lparr>env_meta := (env_meta e)\<lparr>on_demand := Some True\<rparr>\<rparr>)"

lemma demand_enqueue_runs:
  "fst (enqueue mem_redis netstring_codec sample_storage (\<lambda>d. d) [\<lambda>d. d] demand_envelope []) = Inr (Some ''id1'')"
  by code_simp

lemma demand_form_runs:
  "fst (enqueue_on_demand_job mem_redis netstring_codec sample_storage (\<lambda>d. d) [\<lambda>d. d] (\<lambda>_. None) (\<lambda>_. []) ''expected''
     ''/oxana'' web_catalog demand_form []) = Inr (Some (OnDemandRedirect ''/oxana/on-demand?scheduled=1''))"
proof -
  have "on_demand_envelope_from_form netstring_codec web_catalog demand_form = Inr demand_envelope"
    by (simp add: on_demand_envelope_from_form_def parse_json_def demand_form_parses web_catalog_def demand_info_def
        demand_envelope_def on_demand_envelope_def Let_def) (simp add: demand_form_def)
  with demand_enqueue_runs show ?thesis
    by (auto simp: enqueue_on_demand_job_def bind_def return_def split: prod.splits)
qed


lemma cron_enqueue_runs:
  "fst (enqueue mem_redis netstring_codec sample_storage (\<lambda>d. d) [\<lambda>d. d]
     (immediate_envelope 5 ''id2'' ''mail'' ''app::Tick'' (JObj []) None True) []) = Inr (Some ''id2'')"
  by code_simp

theorem cron_button_contract_witness:
  "\<exists>d'. enqueue_cron_job mem_redis netstring_codec sample_storage (\<lambda>d. d) [\<lambda>d. d] id 5 ''id2'' ''/oxana'' web_catalog ''app::Tick'' [] =
      (Inr (Some ''/oxana/cron?enqueued=id2''), d') \<and>
     store_of mem_redis d' = admit netstring_codec (st_keys sample_storage) DQueue
       (immediate_envelope 5 ''id2'' ''mail'' ''app::Tick'' (JObj []) None True) (store_of mem_redis [])"
proof -
  have "fst (enqueue_cron_job mem_redis netstring_codec sample_storage (\<lambda>d. d) [\<lambda>d. d] id 5 ''id2'' ''/oxana'' web_catalog ''app::Tick'' []) =
      Inr (Some ''/oxana/cron?enqueued=id2'')"
    using cron_enqueue_runs
    by (simp add: enqueue_cron_job_def cron_envelope_from_form_def web_catalog_def lift_result_def bind_def return_def
        cron_enqueued_redirect_def case_prod_beta)
  then obtain d' where run: "enqueue_cron_job mem_redis netstring_codec sample_storage (\<lambda>d. d) [\<lambda>d. d] id 5 ''id2'' ''/oxana''
      web_catalog ''app::Tick'' [] = (Inr (Some ''/oxana/cron?enqueued=id2''), d')"
    by (metis prod.collapse)
  from cron_button_contract [OF mem.redis_server_axioms run] run show ?thesis by (auto simp: web_catalog_def)
qed

end
