(* ===== verification/Web_App.thy ===== *)
theory Web_App
  imports Web_Jobs Read_Only System
begin

text \<open>
  The dashboard as a whole: the routes of \<^verbatim>\<open>lib.rs\<close>, one request constructor for each with
  the parameters the handler extracts, and the remaining handlers of \<^verbatim>\<open>handlers.rs\<close>. What the
  handlers take from elsewhere is collected in the record \<open>web\<close>: the servers, the catalog, the
  clocks, the texts and comparisons of floating-point numbers, and what other clients do between
  two commands of a handler. The results: a page view changes nothing, and no action of the
  dashboard loses a job.
\<close>

section \<open>State\<close>

record ('d, 's) web =
  wb_redis :: "'d redis"
  wb_stats :: "'d redis option"
  wb_codec :: codec
  wb_storage :: storage
  wb_catalog :: "'s catalog"
  wb_base_path :: string
  wb_env :: "nat \<Rightarrow> 'd \<Rightarrow> 'd"
  wb_envs :: "('d \<Rightarrow> 'd) list"
  wb_clock :: "string \<Rightarrow> int"
  wb_now :: int
  wb_micros :: int
  wb_now1 :: int
  wb_now2 :: int
  wb_threshold :: int
  wb_uuid :: string
  wb_urlencode :: "string \<Rightarrow> string"
  wb_pretty :: "json \<Rightarrow> string option"
  wb_show_json :: "json \<Rightarrow> string"
  wb_error_text :: string
  wb_show_schedule :: "'s \<Rightarrow> string"
  wb_next_after :: "'s \<Rightarrow> int \<Rightarrow> int option"
  wb_rate :: "queue_stats \<Rightarrow> queue_stats \<Rightarrow> ordering"
  wb_eta :: "bool \<Rightarrow> queue_stats \<Rightarrow> queue_stats \<Rightarrow> ordering"
  wb_average :: "worker_summary \<Rightarrow> worker_summary \<Rightarrow> ordering"
  wb_bitfield :: "string \<Rightarrow> string list \<Rightarrow> ('d, nat option list) op"

text \<open>\<^verbatim>\<open>Storage::stats\<close> and \<^verbatim>\<open>Storage::dashboard_stats\<close>, which differ in the rates only.\<close>

definition web_stats :: "('d, 's) web \<Rightarrow> ('d, stats option) op" where
  "web_stats W = stats_with_rates (wb_redis W) (wb_stats W) (wb_codec W) (wb_storage W) (wb_clock W) (wb_now W) (wb_now1 W)
     (wb_now2 W) (wb_threshold W)"

text \<open>A handler that answers, or panics (\<open>None\<close>); a panic ends it at once.\<close>

definition and_then :: "('d, 'a option) op \<Rightarrow> ('a \<Rightarrow> ('d, 'b option) op) \<Rightarrow> ('d, 'b option) op" where
  "and_then m k = bind m (\<lambda>r. case r of None \<Rightarrow> return None | Some x \<Rightarrow> k x)"

section \<open>Pages\<close>

definition shown_queues :: "stats \<Rightarrow> (string \<times> string list) list" where
  "shown_queues st = map (\<lambda>q. (qs_key q, map dq_suffix (qs_queues q))) (st_queues st)"

record dashboard_view =
  dv_active_tab :: string
  dv_stats :: stats
  dv_queue_configs :: "string \<rightharpoonup> queue_runtime_config_view"

definition overview_page :: "('d, 's) web \<Rightarrow> string \<Rightarrow> ('d, dashboard_view option) op" where
  "overview_page W tab = and_then (web_stats W) (\<lambda>st. seq (interfere (wb_env W 0))
     (bind (queue_config_map (wb_redis W) (wb_codec W) (wb_storage W) (wb_catalog W) (shown_queues st)) (\<lambda>configs.
       return (Some \<lparr>dv_active_tab = tab, dv_stats = st, dv_queue_configs = configs\<rparr>))))"

definition dashboard :: "('d, 's) web \<Rightarrow> ('d, dashboard_view option) op" where
  "dashboard W = overview_page W []"

definition busy :: "('d, 's) web \<Rightarrow> ('d, dashboard_view option) op" where
  "busy W = overview_page W ''/busy''"

record queues_view = dashboard_view +
  qp_queue_lengths :: queue_length_metrics_snapshot
  qp_sort :: string
  qp_dir :: string

definition queues_list :: "('d, 's) web \<Rightarrow> string option \<Rightarrow> string option \<Rightarrow> nat option \<Rightarrow> ('d, queues_view option) op" where
  "queues_list W sort_col dir minutes = and_then (web_stats W) (\<lambda>st. seq (interfere (wb_env W 0))
     (bind (queue_config_map (wb_redis W) (wb_codec W) (wb_storage W) (wb_catalog W) (shown_queues st)) (\<lambda>configs. seq (interfere (wb_env W 1))
     (bind (queue_length_metrics (wb_redis W) (wb_stats W) (wb_storage W) (wb_now W) (case minutes of Some n \<Rightarrow> n | None \<Rightarrow> 0)) (\<lambda>lengths.
       case sort_queues_for_params (wb_rate W) (wb_eta W) configs sort_col dir (st_queues st) of (rows, col, dir) \<Rightarrow>
       return (Some \<lparr>dv_active_tab = ''/queues'', dv_stats = st\<lparr>st_queues := rows\<rparr>, dv_queue_configs = configs,
         qp_queue_lengths = lengths, qp_sort = col, qp_dir = dir\<rparr>))))))"

definition valid_metric_sort :: "string \<Rightarrow> bool" where
  "valid_metric_sort s \<longleftrightarrow> s \<in> set [''processed'', ''succeeded'', ''failed'', ''total_time'', ''avg_time'']"

text \<open>\<open>average\<close> compares the average times of two workers, which are floating-point.\<close>

definition compare_workers ::
    "(worker_summary \<Rightarrow> worker_summary \<Rightarrow> ordering) \<Rightarrow> string \<Rightarrow> bool \<Rightarrow> worker_summary \<Rightarrow> worker_summary \<Rightarrow> ordering" where
  "compare_workers average sort_col desc a b =
     (let cmp =
        (if sort_col = ''processed'' then compare (jt_processed (ws_totals a)) (jt_processed (ws_totals b))
         else if sort_col = ''succeeded'' then compare (jt_succeeded (ws_totals a)) (jt_succeeded (ws_totals b))
         else if sort_col = ''failed'' then compare (jt_failed (ws_totals a)) (jt_failed (ws_totals b))
         else if sort_col = ''avg_time'' then average a b
         else compare (jt_execution_ms (ws_totals a)) (jt_execution_ms (ws_totals b)))
      in then_with (if desc then reverse_ord cmp else cmp) (compare (ws_identity a) (ws_identity b)))"

definition sorted_worker_metrics ::
    "(worker_summary \<Rightarrow> worker_summary \<Rightarrow> ordering) \<Rightarrow> worker_summary list \<Rightarrow> string \<Rightarrow> bool \<Rightarrow> worker_summary list" where
  "sorted_worker_metrics average workers sort_col desc = sort_by (compare_workers average sort_col desc) workers"

record metrics_view =
  mv_metrics :: job_metrics_snapshot
  mv_table_workers :: "worker_summary list"
  mv_sort :: string
  mv_dir :: string

definition metrics_page :: "('d, 's) web \<Rightarrow> string option \<Rightarrow> string option \<Rightarrow> nat option \<Rightarrow> ('d, metrics_view) op" where
  "metrics_page W sort_col dir minutes =
     bind (job_metrics (wb_redis W) (wb_stats W) (wb_storage W) (wb_now W) (case minutes of Some n \<Rightarrow> n | None \<Rightarrow> 0)) (\<lambda>snap.
       let col = (case sort_col of Some s \<Rightarrow> if valid_metric_sort s then s else [] | None \<Rightarrow> []);
           dir = (if col \<noteq> [] \<and> dir = Some ''asc'' then ''asc'' else ''desc'');
           sort_key = (if col = [] then ''total_time'' else col)
       in return \<lparr>mv_metrics = snap, mv_table_workers = sorted_worker_metrics (wb_average W) (js_workers snap) sort_key (dir = ''desc''),
            mv_sort = col, mv_dir = dir\<rparr>)"

definition metric_detail :: "('d, 's) web \<Rightarrow> string \<Rightarrow> nat option \<Rightarrow> ('d, job_metrics_detail) op" where
  "metric_detail W worker minutes =
     job_metrics_for (wb_redis W) (wb_stats W) (wb_storage W) (wb_bitfield W) worker (wb_now W) (case minutes of Some n \<Rightarrow> n | None \<Rightarrow> 0)"

record cron_view =
  cp_rows :: "cron_worker_view row list"
  cp_total :: nat
  cp_enqueued_job_id :: "string option"

definition cron_jobs :: "('d, 's) web \<Rightarrow> string option \<Rightarrow> cron_view" where
  "cron_jobs W enqueued =
     \<lparr>cp_rows = build_cron_rows (wb_show_schedule W) (wb_next_after W) (cat_cron_workers (wb_catalog W)) (wb_micros W),
      cp_total = length (cat_cron_workers (wb_catalog W)), cp_enqueued_job_id = enqueued\<rparr>"

definition on_demand_jobs :: "('d, 's) web \<Rightarrow> string option \<Rightarrow> on_demand_page" where
  "on_demand_jobs W scheduled =
     on_demand_page (wb_pretty W) (wb_show_json W) (wb_catalog W) (scheduled = Some ''1'') None"

record job_detail_view =
  jv_job_id :: job_id
  jv_job :: "job_envelope option"
  jv_is_dead :: bool

definition job_detail :: "('d, 's) web \<Rightarrow> job_id \<Rightarrow> ('d, job_detail_view) op" where
  "job_detail W i = bind (find_job (wb_redis W) (wb_codec W) (wb_storage W) (wb_env W 0) (wb_env W 1) i) (\<lambda>(job, dead).
     return \<lparr>jv_job_id = i, jv_job = job, jv_is_dead = dead\<rparr>)"

section \<open>Actions\<close>

definition web_wipe_dead :: "('d, 's) web \<Rightarrow> ('d, string) op" where
  "web_wipe_dead W = seq (wipe_dead (wb_redis W) (wb_storage W)) (return (wb_base_path W @ ''/dead''))"

definition web_revive_all_dead :: "('d, 's) web \<Rightarrow> ('d, string) op" where
  "web_revive_all_dead W = bind (revive_all_dead (wb_redis W) (wb_codec W) (wb_storage W) (wb_uuid W)) (\<lambda>_.
     return (wb_base_path W @ ''/dead''))"

definition web_retry_all_now :: "('d, 's) web \<Rightarrow> ('d, string) op" where
  "web_retry_all_now W = bind (retry_all_now (wb_redis W) (wb_codec W) (wb_storage W) (wb_env W)) (\<lambda>_.
     return (wb_base_path W @ ''/retries''))"

definition web_wipe_queue :: "('d, 's) web \<Rightarrow> string \<Rightarrow> ('d, string) op" where
  "web_wipe_queue W key = seq (wipe_queue (wb_redis W) (wb_storage W) (wb_env W 0) key)
     (return (queue_redirect (wb_urlencode W) (wb_base_path W) key))"

definition web_delete_job :: "('d, 's) web \<Rightarrow> string \<Rightarrow> job_id \<Rightarrow> nat \<Rightarrow> bool \<Rightarrow> ('d, string) op" where
  "web_delete_job W key i page from_busy =
     seq (delete_job (wb_redis W) (wb_codec W) (wb_storage W) (wb_env W 0) i)
       (return (delete_job_redirect (wb_urlencode W) (wb_base_path W) key page from_busy))"

section \<open>Routes\<close>

datatype http_method = Get | Post

text \<open>The optional page of a listing is already its default, 1, when it is missing.\<close>

datatype web_request =
    ShowDashboard
  | ShowBusy
  | ShowQueues "string option" "string option" "nat option"
  | ShowMetrics "string option" "string option" "nat option"
  | ShowMetric string "nat option"
  | ShowCron "string option"
  | EnqueueCron string
  | ShowOnDemand "string option"
  | EnqueueOnDemand on_demand_form
  | ShowScheduled nat
  | ShowDead nat
  | ReviveAllDead
  | WipeAllDead
  | ShowRetries nat
  | RetryAll
  | ShowJob job_id
  | ShowQueue string nat
  | EnqueueJob enqueue_job_form
  | PauseQueue string
  | UnpauseQueue string
  | SetConcurrency string nat
  | WipeAll string
  | DeleteOne string job_id nat bool

fun route_method :: "web_request \<Rightarrow> http_method" where
  "route_method ShowDashboard = Get"
| "route_method ShowBusy = Get"
| "route_method (ShowQueues _ _ _) = Get"
| "route_method (ShowMetrics _ _ _) = Get"
| "route_method (ShowMetric _ _) = Get"
| "route_method (ShowCron _) = Get"
| "route_method (EnqueueCron _) = Post"
| "route_method (ShowOnDemand _) = Get"
| "route_method (EnqueueOnDemand _) = Post"
| "route_method (ShowScheduled _) = Get"
| "route_method (ShowDead _) = Get"
| "route_method ReviveAllDead = Post"
| "route_method WipeAllDead = Post"
| "route_method (ShowRetries _) = Get"
| "route_method RetryAll = Post"
| "route_method (ShowJob _) = Get"
| "route_method (ShowQueue _ _) = Get"
| "route_method (EnqueueJob _) = Post"
| "route_method (PauseQueue _) = Post"
| "route_method (UnpauseQueue _) = Post"
| "route_method (SetConcurrency _ _) = Post"
| "route_method (WipeAll _) = Post"
| "route_method (DeleteOne _ _ _ _) = Post"

text \<open>An error of the storage becomes a bare 500: \<^verbatim>\<open>OxanaWebError\<close> keeps its text to itself.\<close>

datatype web_response =
    DashboardPage dashboard_view
  | BusyPage dashboard_view
  | QueuesPage queues_view
  | MetricsPage metrics_view
  | MetricDetailPage job_metrics_detail
  | CronPage cron_view
  | OnDemandPage on_demand_page
  | InvalidForm on_demand_page
  | GlobalJobsPage global_jobs_view
  | JobDetailPage job_detail_view
  | QueueDetailPage queue_detail_view
  | RedirectTo string
  | InternalServerError

text \<open>
  A request runs to a response; its task may panic or still be trying to enqueue when the
  changes of the others in \<open>wb_envs\<close> are used up (\<open>None\<close>).
\<close>

type_synonym 'd handler = "'d \<Rightarrow> web_response option \<times> 'd"

definition answer :: "('a \<Rightarrow> web_response) \<Rightarrow> ('d, 'a option) op \<Rightarrow> 'd handler" where
  "answer f m d = (case m d of
       (Inl e, d') \<Rightarrow> (Some InternalServerError, d')
     | (Inr None, d') \<Rightarrow> (None, d')
     | (Inr (Some x), d') \<Rightarrow> (Some (f x), d'))"

definition page :: "('a \<Rightarrow> web_response) \<Rightarrow> ('d, 'a) op \<Rightarrow> 'd handler" where
  "page f m = answer f (bind m (\<lambda>x. return (Some x)))"

text \<open>A handler whose queue value panics does nothing.\<close>

definition acting :: "('d, string) op option \<Rightarrow> 'd handler" where
  "acting m = (case m of None \<Rightarrow> Pair None | Some m \<Rightarrow> page RedirectTo m)"

fun queue_page :: "queue_detail_response \<Rightarrow> web_response" where
  "queue_page (ToQueues url) = RedirectTo url"
| "queue_page (QueueDetail v) = QueueDetailPage v"

fun on_demand_answer :: "on_demand_response \<Rightarrow> web_response" where
  "on_demand_answer (OnDemandRedirect url) = RedirectTo url"
| "on_demand_answer (Unprocessable v) = InvalidForm v"

fun handle :: "('d, 's) web \<Rightarrow> web_request \<Rightarrow> 'd handler" where
  "handle W ShowDashboard = answer DashboardPage (dashboard W)"
| "handle W ShowBusy = answer BusyPage (busy W)"
| "handle W (ShowQueues sort_col dir minutes) = answer QueuesPage (queues_list W sort_col dir minutes)"
| "handle W (ShowMetrics sort_col dir minutes) = page MetricsPage (metrics_page W sort_col dir minutes)"
| "handle W (ShowMetric worker minutes) = page MetricDetailPage (metric_detail W worker minutes)"
| "handle W (ShowCron enqueued) = page CronPage (return (cron_jobs W enqueued))"
| "handle W (EnqueueCron name) = answer RedirectTo
     (enqueue_cron_job (wb_redis W) (wb_codec W) (wb_storage W) (wb_env W 0) (wb_envs W) (wb_urlencode W) (wb_micros W)
       (wb_uuid W) (wb_base_path W) (wb_catalog W) name)"
| "handle W (ShowOnDemand scheduled) = page OnDemandPage (return (on_demand_jobs W scheduled))"
| "handle W (EnqueueOnDemand form) = answer on_demand_answer
     (enqueue_on_demand_job (wb_redis W) (wb_codec W) (wb_storage W) (wb_env W 0) (wb_envs W) (wb_pretty W)
       (wb_show_json W) (wb_error_text W) (wb_base_path W) (wb_catalog W) form)"
| "handle W (ShowScheduled n) = page GlobalJobsPage (global_jobs (wb_redis W) (wb_codec W) (wb_storage W) (wb_env W 0) Scheduled n)"
| "handle W (ShowDead n) = page GlobalJobsPage (global_jobs (wb_redis W) (wb_codec W) (wb_storage W) (wb_env W 0) DeadJobs n)"
| "handle W ReviveAllDead = page RedirectTo (web_revive_all_dead W)"
| "handle W WipeAllDead = page RedirectTo (web_wipe_dead W)"
| "handle W (ShowRetries n) = page GlobalJobsPage (global_jobs (wb_redis W) (wb_codec W) (wb_storage W) (wb_env W 0) Retries n)"
| "handle W RetryAll = page RedirectTo (web_retry_all_now W)"
| "handle W (ShowJob i) = page JobDetailPage (job_detail W i)"
| "handle W (ShowQueue key n) = answer queue_page
     (queue_detail (wb_redis W) (wb_codec W) (wb_storage W) (web_stats W) (wb_env W 0) (wb_base_path W) (wb_catalog W) key n)"
| "handle W (EnqueueJob form) = answer RedirectTo
     (web_enqueue_job (wb_redis W) (wb_codec W) (wb_storage W) (wb_env W 0) (wb_envs W) (wb_micros W) (wb_uuid W)
       (wb_base_path W) form)"
| "handle W (PauseQueue key) = acting
     (web_set_queue_state (wb_redis W) (wb_codec W) (wb_storage W) (wb_urlencode W) (wb_base_path W) (wb_catalog W) (wb_env W 0) key Paused)"
| "handle W (UnpauseQueue key) = acting
     (web_set_queue_state (wb_redis W) (wb_codec W) (wb_storage W) (wb_urlencode W) (wb_base_path W) (wb_catalog W) (wb_env W 0) key Active)"
| "handle W (SetConcurrency key n) = acting
     (web_set_queue_concurrency (wb_redis W) (wb_codec W) (wb_storage W) (wb_urlencode W) (wb_base_path W) (wb_catalog W) (wb_env W 0)
       (wb_env W 1) key n)"
| "handle W (WipeAll key) = page RedirectTo (web_wipe_queue W key)"
| "handle W (DeleteOne key i n from_busy) = page RedirectTo (web_delete_job W key i n from_busy)"

section \<open>Page views change nothing\<close>

lemma answer_state [simp]: "snd (answer f m d) = snd (m d)"
  by (simp add: answer_def split: prod.split sum.split option.split)

lemma quiet_and_then [quiet_intros]: "quiet E m \<Longrightarrow> (\<And>x. quiet E (k x)) \<Longrightarrow> quiet E (and_then m k)"
  unfolding and_then_def by (intro quiet_intros)

lemma page_state [simp]: "snd (page f m d) = snd (m d)"
  by (simp add: page_def bind_def return_def split: prod.split sum.split)

lemma quiet_web_stats [quiet_intros]: "quiet E (web_stats W)"
  unfolding web_stats_def by (intro quiet_intros)

lemma quiet_config_map [quiet_intros]: "quiet E (queue_config_map R C S cat shown)"
  unfolding queue_config_map_def Let_def by (intro quiet_intros)

lemma quiet_kinds [quiet_intros]: "quiet E (kind_count R S kind)" "quiet E (kind_list R C S kind opts)"
  by (cases kind; simp; intro quiet_intros)+

lemma quiet_pages:
  assumes others: "\<And>n. wb_env W n \<in> E" and bits: "\<And>k args. quiet E (wb_bitfield W k args)"
  shows "quiet E (overview_page W tab)" "quiet E (queues_list W sort_col dir minutes)" "quiet E (metrics_page W sort_col dir minutes)"
    "quiet E (metric_detail W worker minutes)" "quiet E (job_detail W i)"
    "quiet E (global_jobs (wb_redis W) (wb_codec W) (wb_storage W) (wb_env W 0) kind n)"
    "quiet E (queue_detail (wb_redis W) (wb_codec W) (wb_storage W) (web_stats W) (wb_env W 0) (wb_base_path W) (wb_catalog W) key n)"
  unfolding overview_page_def queues_list_def metrics_page_def metric_detail_def job_detail_def find_job_def global_jobs_def
    queue_detail_def queue_runtime_config_for_def Let_def
  by (intro quiet_intros others bits)+

lemma view_moves:
  assumes "route_method rq = Get" and "\<And>k args. quiet (range (wb_env W)) (wb_bitfield W k args)"
  shows "others (range (wb_env W)) d (snd (handle W rq d))"
proof -
  note quiet_pages [of W "range (wb_env W)", OF rangeI assms(2)]
  then show ?thesis
    using assms(1)
    by (cases rq) (simp_all add: quiet_def dashboard_def busy_def return_def others.none)
qed

section \<open>Actions lose no job\<close>

text \<open>What a request brings in itself names queues of the namespace and readable envelopes; a job
  state of \<^verbatim>\<open>null\<close> would be read back as no state.\<close>

fun request_proper :: "('d, 's) web \<Rightarrow> storage_keys \<Rightarrow> store \<Rightarrow> web_request \<Rightarrow> bool" where
  "request_proper W K s (EnqueueCron name) = (\<forall>w \<in> set (cat_cron_workers (wb_catalog W)). proper_queue K (ci_queue_key w))"
| "request_proper W K s (EnqueueOnDemand form) =
     (\<forall>j \<in> set (cat_on_demand_jobs (wb_catalog W)). \<forall>args e. oi_enqueue_factory j (of_queue form) args = Inr e \<longrightarrow>
        proper_queue K (env_queue e) \<and> (json_ok (wb_codec W) args \<longrightarrow> envelope_wf (wb_codec W) e))"
| "request_proper W K s (EnqueueJob form) = (proper_queue K (ef_queue form) \<and>
     (\<forall>t. ef_state form = Some t \<longrightarrow> jparse (wb_codec W) t \<noteq> Some JNull))"
| "request_proper W K s (WipeAll key) = proper_queue K key"
| "request_proper W K s ReviveAllDead = (\<forall>p \<in> set (lists s (dead_key K)). payload_proper (wb_codec W) K p)"
| "request_proper W K s _ = True"

definition undisturbed :: "('d, 's) web \<Rightarrow> bool" where
  "undisturbed W \<longleftrightarrow> (\<forall>n. wb_env W n = (\<lambda>d. d)) \<and> wb_envs W = [\<lambda>d. d]"

lemma answer_ok:
  assumes "answer f m d = (Some resp, d')" "resp \<noteq> InternalServerError"
  obtains x where "m d = (Inr (Some x), d')" "resp = f x"
  using assms by (auto simp: answer_def split: prod.splits sum.splits option.splits)

lemma page_ok:
  assumes "page f m d = (Some resp, d')" "resp \<noteq> InternalServerError"
  obtains x where "m d = (Inr x, d')" "resp = f x"
  using assms by (auto simp: page_def return_def bind_eq_Inr elim!: answer_ok)

lemma immediate_wf:
  assumes "i64_range now" "json_ok C args" "case st of None \<Rightarrow> True | Some j \<Rightarrow> j \<noteq> JNull \<and> json_ok C j"
  shows "envelope_wf C (immediate_envelope now uuid q name args st res)"
  using assms by (auto simp: immediate_envelope_def envelope_wf_def meta_wf_def split: option.splits)

lemma cron_form_proper:
  assumes "cron_envelope_from_form now uuid cat name = Inr e" "i64_range now"
    and "\<forall>w \<in> set (cat_cron_workers cat). proper_queue K (ci_queue_key w)"
  shows "envelope_wf C e \<and> proper_queue K (env_queue e)"
proof -
  from assms(1) obtain w where w: "List.find (\<lambda>j. ci_name j = name) (cat_cron_workers cat) = Some w"
    and e: "e = immediate_envelope now uuid (ci_queue_key w) (ci_name w) (JObj []) None (ci_resurrect w)"
    by (auto simp: cron_envelope_from_form_def split: option.splits)
  have "w \<in> set (cat_cron_workers cat)" using w by (auto simp: find_Some_iff)
  with assms(3) show ?thesis unfolding e using immediate_wf [OF assms(2)] by (simp add: immediate_envelope_def)
qed

lemma demand_form_proper:
  assumes "json_codec C" "on_demand_envelope_from_form C cat form = Inr e"
    and "\<forall>j \<in> set (cat_on_demand_jobs cat). \<forall>args e. oi_enqueue_factory j (of_queue form) args = Inr e \<longrightarrow>
      proper_queue K (env_queue e) \<and> (json_ok C args \<longrightarrow> envelope_wf C e)"
  shows "envelope_wf C e \<and> proper_queue K (env_queue e)"
proof -
  from assms(2) obtain j args e0 where j: "List.find (\<lambda>j. oi_name j = of_name form) (cat_on_demand_jobs cat) = Some j"
    and args: "jparse C (of_args form) = Some args" and e0: "oi_enqueue_factory j (of_queue form) args = Inr e0"
    and e: "e = e0\<lparr>env_meta := (env_meta e0)\<lparr>on_demand := Some True\<rparr>\<rparr>"
    by (auto simp: on_demand_envelope_from_form_def parse_json_def on_demand_envelope_def split: if_splits option.splits sum.splits)
  have "j \<in> set (cat_on_demand_jobs cat)" using j by (auto simp: find_Some_iff)
  moreover have "json_ok C args" using json_codec.parse_ok [OF assms(1) args] .
  ultimately show ?thesis using assms(3) e0 by (fastforce simp: e envelope_wf_def meta_wf_def)
qed

lemma acting_ok:
  assumes "acting m d = (Some resp, d')" "resp \<noteq> InternalServerError"
  obtains run url where "m = Some run" "run d = (Inr url, d')"
  using assms by (auto simp: acting_def split: option.splits elim!: page_ok)

context redis_server
begin

lemma web_enqueue_steps:
  assumes "json_codec C" "enqueue R C S (\<lambda>d. d) [\<lambda>d. d] e d = (Inr (Some i), d')"
    and "envelope_wf C e" "proper_queue (st_keys S) (env_queue e)"
  shows "\<exists>as. steps (st_keys S) C (store_of R d) as (store_of R d')"
proof -
  have "store_of R d' = admit C (st_keys S) DQueue e (store_of R d)"
    using enqueue_quiet [of C S "[]" e d] assms(2) by (simp add: settles_as_def)
  with step.admit json_codec.to_payload_proper [OF assms(1,3,4)] assms(4) show ?thesis by (metis steps_one)
qed

lemma config_write_steps:
  assumes "set_queue_config R C S q rc d = (Inr (), d')" "st_keys S = keys_of n"
  shows "\<exists>as. steps (keys_of n) C (store_of R d) as (store_of R d')"
proof -
  have "store_of R d' = put_hash (queue_configs_key (keys_of n)) q (Some (jprint C (runtime_config_to_json rc))) (store_of R d)"
    using assms by (auto simp: set_queue_config_def with_connection_Inr redis_defs store_simps split: if_splits)
  moreover have "step (keys_of n) C s Other (put_hash (queue_configs_key (keys_of n)) q v s)" for s v
    by (rule step.other) (simp_all add: store_updates)
  ultimately show ?thesis by (metis steps_one)
qed

lemma queue_state_steps:
  assumes "api_set_queue_state R C S (\<lambda>d. d) q st d = (Inr (), d')" "st_keys S = keys_of n"
  shows "\<exists>as. steps (keys_of n) C (store_of R d) as (store_of R d')"
proof -
  from assms(1) obtain rc where "set_queue_config R C S (qv_key q) rc d = (Inr (), d')"
    by (auto simp: api_set_queue_state_def set_queue_state_def bind_eq_Inr seq_eq_Inr interfere_def
        dest!: stored_queue_config_Inr split: if_splits)
  then show ?thesis by (rule config_write_steps [OF _ assms(2)])
qed

lemma reset_default_still: "runtime_concurrency_reset_default R C S key kind c d = (Inr m, d') \<Longrightarrow> d' = d"
  by (auto simp: runtime_concurrency_reset_default_def return_def bind_eq_Inr dest!: queue_config_or_default_Inr
      split: queue_kind.splits if_splits)

lemma queue_concurrency_steps:
  assumes "set_queue_concurrency R C S (\<lambda>d. d) (\<lambda>d. d) q m d = (Inr (), d')" "st_keys S = keys_of n"
  shows "\<exists>as. steps (keys_of n) C (store_of R d) as (store_of R d')"
proof -
  from assms(1) have "d' = d \<or> (\<exists>rc. set_queue_config R C S (qv_key q) rc d = (Inr (), d'))"
    by (auto simp: set_queue_concurrency_def bind_eq_Inr seq_eq_Inr interfere_def return_def lift_result_def
        dest!: stored_queue_config_Inr reset_default_still split: if_splits)
  with config_write_steps [OF _ assms(2)] steps_refl show ?thesis by metis
qed

lemma revive_steps:
  assumes "json_codec C" "revive_all_dead R C S uuid d = (Inr m, d')" "st_keys S = keys_of n"
    and "\<forall>p \<in> set (lists (store_of R d) (dead_key (keys_of n))). payload_proper C (keys_of n) p"
  shows "\<exists>as. steps (keys_of n) C (store_of R d) as (store_of R d')"
proof -
  let ?K = "keys_of n" let ?dead = "dead_key ?K" let ?ck = "?dead @ '':reviving:'' @ uuid"
  let ?es = "List.map_filter (of_payload C) (r_lrange R d ?dead)"
  have "r_type R d ?dead \<noteq> TNone \<Longrightarrow> r_type R (r_rename R d ?dead ?ck) ?ck = r_type R d ?dead"
    by (simp add: rename_t)
  with assms(2,3) consider "d' = d" | "r_type R d ?dead = TList"
    by (auto simp: revive_all_dead_def Let_def with_connection_Inr bind_eq_Inr claim_dead_def return_def
        redis_defs fits_def split: if_splits)
  then show ?thesis
  proof cases
    case 2
    have st: "store_of R d' = clear_key ?ck (fold (admit C ?K DQueue) ?es (rename_key ?dead ?ck (store_of R d)))"
      using revive_all_dead_contract [OF redis_server_axioms assms(2)] 2 assms(3) by simp
    let ?s0 = "rename_key ?dead ?ck (store_of R d)" let ?s1 = "fold (admit C ?K DQueue) ?es ?s0"
    have "step ?K C (store_of R d) Other ?s0"
      by (rule step.other) (use job_list_neq in \<open>auto simp: rename_key_def\<close>)
    then have first: "steps ?K C (store_of R d) [Other] ?s0" by (rule steps_single)
    have "\<exists>as. steps ?K C ?s0 as ?s1"
    proof (rule steps_fold [where P = "\<lambda>_. True"])
      fix e s assume "e \<in> set ?es"
      then obtain p where p: "p \<in> set (lists (store_of R d) ?dead)" "of_payload C p = Some e"
        by (auto simp: List.map_filter_def)
      then have q: "proper_queue ?K (env_queue e)" using assms(4) by (auto simp: payload_proper_def)
      have "step ?K C s (Admit DQueue e) (admit C ?K DQueue e s)"
        by (rule step.admit [OF q json_codec.to_payload_proper [OF assms(1) json_codec.of_payload_wf [OF assms(1) p(2)] q]])
      then show "(\<exists>as. steps ?K C s as (admit C ?K DQueue e s)) \<and> True" using steps_one by blast
    qed simp
    then obtain as where mid: "steps ?K C ?s0 as ?s1" by blast
    have "step ?K C ?s1 Other (clear_key ?ck ?s1)"
      by (rule clear_step) (use job_list_not_other in simp_all)
    then have last: "steps ?K C ?s1 [Other] (clear_key ?ck ?s1)" by (rule steps_single)
    from steps_append [OF steps_append [OF first mid] last] show ?thesis unfolding st by blast
  qed (simp add: steps_refl)
qed

lemma action_steps:
  assumes "json_codec (wb_codec W)" and "wb_redis W = R" and "st_keys (wb_storage W) = keys_of n" and "undisturbed W"
    and "i64_range (wb_micros W)" and "payloads_proper (wb_codec W) (keys_of n) (store_of R d)"
    and "request_proper W (keys_of n) (store_of R d) rq" and "route_method rq = Post"
    and "handle W rq d = (Some resp, d')" and "resp \<noteq> InternalServerError"
  shows "\<exists>as. steps (keys_of n) (wb_codec W) (store_of R d) as (store_of R d')"
proof -
  have env: "wb_env W k = (\<lambda>d. d)" "wb_env W = (\<lambda>_ d. d)" "wb_envs W = [\<lambda>d. d]" for k
    using assms(4) by (auto simp: undisturbed_def fun_eq_iff)
  note C = assms(1) and K = assms(3)
  note enq = web_enqueue_steps [OF C, where S = "wb_storage W", unfolded K]
  show ?thesis
  proof (cases rq)
    case (EnqueueCron name)
    with assms(9,10) obtain e i where e: "cron_envelope_from_form (wb_micros W) (wb_uuid W) (wb_catalog W) name = Inr e"
      and run: "enqueue R (wb_codec W) (wb_storage W) (\<lambda>d. d) [\<lambda>d. d] e d = (Inr (Some i), d')"
      by (auto simp: assms(2) env enqueue_cron_job_def bind_eq_Inr lift_result_def return_def elim!: answer_ok)
    with enq [OF run] cron_form_proper [OF e assms(5)] assms(7) EnqueueCron show ?thesis by simp
  next
    case (EnqueueOnDemand form)
    with assms(9,10) consider e i where "on_demand_envelope_from_form (wb_codec W) (wb_catalog W) form = Inr e"
        "enqueue R (wb_codec W) (wb_storage W) (\<lambda>d. d) [\<lambda>d. d] e d = (Inr (Some i), d')"
      | "d' = d"
      by (auto simp: assms(2) env enqueue_on_demand_job_def bind_eq_Inr return_def fail_def
          split: sum.splits oxana_error.splits elim!: answer_ok)
    then show ?thesis
    proof cases
      case 1
      with enq [OF 1(2)] demand_form_proper [OF C 1(1), of "keys_of n"] assms(7) EnqueueOnDemand show ?thesis by simp
    qed (simp add: steps_refl)
  next
    case (EnqueueJob form)
    with assms(9,10) obtain args st i where args: "parse_json (wb_codec W) (ef_args form) = Inr args"
      and st: "parse_optional_json (wb_codec W) (ef_state form) = Inr st"
      and run: "enqueue R (wb_codec W) (wb_storage W) (\<lambda>d. d) [\<lambda>d. d]
        (immediate_envelope (wb_micros W) (wb_uuid W) (ef_queue form) (ef_name form) args st True) d = (Inr (Some i), d')"
      by (auto simp: assms(2) env web_enqueue_job_def bind_eq_Inr lift_result_def return_def elim!: answer_ok)
    have "json_ok (wb_codec W) args" "case st of None \<Rightarrow> True | Some j \<Rightarrow> j \<noteq> JNull \<and> json_ok (wb_codec W) j"
      using args st assms(7) EnqueueJob json_codec.parse_ok [OF C]
      by (auto simp: parse_json_def parse_optional_json_def split: option.splits if_splits)
    from immediate_wf [OF assms(5) this] assms(7) EnqueueJob show ?thesis
      by (intro enq [OF run]) (simp_all add: immediate_envelope_def)
  next
    case ReviveAllDead
    with assms(9,10) obtain m where "revive_all_dead R (wb_codec W) (wb_storage W) (wb_uuid W) d = (Inr m, d')"
      by (auto simp: assms(2) web_revive_all_dead_def bind_eq_Inr return_def elim!: page_ok)
    from revive_steps [OF C this K] assms(7) ReviveAllDead show ?thesis by simp
  next
    case WipeAllDead
    with assms(9,10) have "run_command R (wb_codec W) (wb_storage W) WipeDead d = (Inr (), d')"
      by (auto simp: assms(2) web_wipe_dead_def seq_eq_Inr return_def elim!: page_ok)
    from command_steps [OF C K assms(6) _ this] show ?thesis by simp
  next
    case RetryAll
    with assms(9,10) have "run_command R (wb_codec W) (wb_storage W) RetryAllNow d = (Inr (), d')"
      by (auto simp: assms(2) env web_retry_all_now_def bind_eq_Inr return_def discard_Inr elim!: page_ok)
    from command_steps [OF C K assms(6) _ this] show ?thesis by simp
  next
    case (PauseQueue key)
    with assms(9,10) obtain q where "api_set_queue_state R (wb_codec W) (wb_storage W) (\<lambda>d. d) q Paused d = (Inr (), d')"
      by (auto simp: assms(2) env web_set_queue_state_def bind_eq_Inr return_def elim!: acting_ok)
    from queue_state_steps [OF this K] show ?thesis .
  next
    case (UnpauseQueue key)
    with assms(9,10) obtain q where "api_set_queue_state R (wb_codec W) (wb_storage W) (\<lambda>d. d) q Active d = (Inr (), d')"
      by (auto simp: assms(2) env web_set_queue_state_def bind_eq_Inr return_def elim!: acting_ok)
    from queue_state_steps [OF this K] show ?thesis .
  next
    case (SetConcurrency key m)
    with assms(9,10) obtain q where "set_queue_concurrency R (wb_codec W) (wb_storage W) (\<lambda>d. d) (\<lambda>d. d) q m d = (Inr (), d')"
      by (auto simp: assms(2) env web_set_queue_concurrency_def bind_eq_Inr return_def fail_def split: if_splits elim!: acting_ok)
    from queue_concurrency_steps [OF this K] show ?thesis .
  next
    case (WipeAll key)
    with assms(9,10) have "run_command R (wb_codec W) (wb_storage W) (WipeQueue key) d = (Inr (), d')"
      by (auto simp: assms(2) env web_wipe_queue_def seq_eq_Inr return_def elim!: page_ok)
    from command_steps [OF C K assms(6) _ this] assms(7) WipeAll show ?thesis by simp
  next
    case (DeleteOne key i m b)
    with assms(9,10) have "run_command R (wb_codec W) (wb_storage W) (DeleteJob i) d = (Inr (), d')"
      by (auto simp: assms(2) env web_delete_job_def seq_eq_Inr return_def elim!: page_ok)
    from command_steps [OF C K assms(6) _ this] show ?thesis by simp
  qed (use assms(8) in simp_all)
qed

end

section \<open>Properties\<close>

text \<open>
  Viewing a page changes nothing: whatever page of the dashboard is asked for, whether it is
  shown or fails, and whatever other clients do in between, everything that the other clients
  keep true is still true afterwards; without other clients the server is left as it was.
\<close>

theorem page_views_change_nothing:
  assumes "route_method rq = Get" and "\<And>k args. quiet (range (wb_env W)) (wb_bitfield W k args)"
  shows "(\<forall>P. (\<forall>n d. P d \<longrightarrow> P (wb_env W n d)) \<longrightarrow> P d \<longrightarrow> P (snd (handle W rq d))) \<and>
    (undisturbed W \<longrightarrow> snd (handle W rq d) = d)"
proof -
  have moves: "others (range (wb_env W)) d (snd (handle W rq d))" by (rule view_moves [OF assms])
  have "P d \<Longrightarrow> (\<And>n d. P d \<Longrightarrow> P (wb_env W n d)) \<Longrightarrow> P (snd (handle W rq d))" for P
    by (rule others_preserve [OF moves]) auto
  moreover have "snd (handle W rq d) = d" if "undisturbed W"
    using moves that others_alone by (simp add: undisturbed_def)
  ultimately show ?thesis by blast
qed


section \<open>Witnesses\<close>

definition sample_web :: "(mem, string) web" where
  "sample_web = \<lparr>wb_redis = mem_redis, wb_stats = None, wb_codec = netstring_codec, wb_storage = sample_storage,
     wb_catalog = web_catalog, wb_base_path = ''/oxana'', wb_env = (\<lambda>_ d. d), wb_envs = [\<lambda>d. d], wb_clock = (\<lambda>_. 0),
     wb_now = 0, wb_micros = 5, wb_now1 = 0, wb_now2 = 0, wb_threshold = 5, wb_uuid = ''id2'', wb_urlencode = id,
     wb_pretty = (\<lambda>_. None), wb_show_json = (\<lambda>_. []), wb_error_text = [], wb_show_schedule = id,
     wb_next_after = (\<lambda>_ _. None), wb_rate = (\<lambda>_ _. EQ), wb_eta = (\<lambda>_ _ _. EQ), wb_average = (\<lambda>_ _. EQ),
     wb_bitfield = (\<lambda>_ _. return [])\<rparr>"

theorem page_views_change_nothing_witness:
  "fst (handle sample_web (ShowDead 1) sample_dead) \<noteq> Some InternalServerError \<and>
   snd (handle sample_web (ShowDead 1) sample_dead) = sample_dead"
proof -
  have "undisturbed sample_web" by (simp add: undisturbed_def sample_web_def)
  then have "snd (handle sample_web (ShowDead 1) sample_dead) = sample_dead"
    using page_views_change_nothing [of "ShowDead 1" sample_web sample_dead] by (simp add: sample_web_def quiet_basic)
  then show ?thesis by (simp add: sample_web_def page_def answer_def bind_def return_def global_dead_run [unfolded One_nat_def])
qed

lemma sample_web_proper:
  "st_keys sample_storage = keys_of ''app''" "proper_queue (keys_of ''app'') ''mail''"
  "payloads_proper C (keys_of ''app'') (store_of mem_redis [])" "no_job_lost (keys_of ''app'') (store_of mem_redis [])"
  by (simp_all add: sample_storage_def proper_queue_def namespace_queue_def payloads_proper_def no_job_lost_def mem_defs)
    (simp_all add: storage_keys_new_def)


end
