(* ===== verification/Job_State.thy ===== *)
theory Job_State
  imports Storage_Jobs
begin

text \<open>
  The state a job keeps between its runs, \<^verbatim>\<open>job_state.rs\<close>: progress values and their JSON
  forms, and the iterator that skips what earlier runs have completed. The iterated collection
  is a list, so its size hint is its length.
\<close>

section \<open>Progress values\<close>

record job_progress =
  pr_cursor :: int
  pr_total :: int
  pr_note :: "string option"

definition progress_to_json :: "job_progress \<Rightarrow> json" where
  "progress_to_json p = JObj ([(''cursor'', JInt (pr_cursor p)), (''total'', JInt (pr_total p))] @
     opt_field ''note'' JStr (pr_note p))"

text \<open>
  \<^verbatim>\<open>JobProgressRepr\<close>, untagged: an object, a sequence of up to three elements, or the cursor
  alone. A missing element of a sequence has the default of its field.
\<close>

definition nullable_str :: "json \<Rightarrow> string option option" where
  "nullable_str j = (if j = JNull then Some None else map_option Some (as_str j))"

definition progress_of_json :: "json \<Rightarrow> job_progress option" where
  "progress_of_json j = (case j of
       JObj _ \<Rightarrow>
         Option.bind (req j ''cursor'' as_i64) (\<lambda>c.
         Option.bind (dflt j ''total'' 0 as_i64) (\<lambda>t.
         Option.bind (optional j ''note'' as_str) (\<lambda>n.
           Some \<lparr>pr_cursor = c, pr_total = t, pr_note = n\<rparr>)))
     | JArr [c] \<Rightarrow> Option.bind (as_i64 c) (\<lambda>c. Some \<lparr>pr_cursor = c, pr_total = 0, pr_note = None\<rparr>)
     | JArr [c, t] \<Rightarrow>
         Option.bind (as_i64 c) (\<lambda>c. Option.bind (as_i64 t) (\<lambda>t.
           Some \<lparr>pr_cursor = c, pr_total = t, pr_note = None\<rparr>))
     | JArr [c, t, n] \<Rightarrow>
         Option.bind (as_i64 c) (\<lambda>c. Option.bind (as_i64 t) (\<lambda>t. Option.bind (nullable_str n) (\<lambda>n.
           Some \<lparr>pr_cursor = c, pr_total = t, pr_note = n\<rparr>)))
     | JInt _ \<Rightarrow> Option.bind (as_i64 j) (\<lambda>c. Some \<lparr>pr_cursor = c, pr_total = 0, pr_note = None\<rparr>)
     | _ \<Rightarrow> None)"

section \<open>State of a job\<close>

definition update_progress :: "'d redis \<Rightarrow> codec \<Rightarrow> storage \<Rightarrow> ('d \<Rightarrow> 'd) \<Rightarrow> job_id \<Rightarrow> job_progress \<Rightarrow> ('d, unit) op" where
  "update_progress R C S env i p = update_state R C S env i (progress_to_json p)"

definition progress :: "'d redis \<Rightarrow> codec \<Rightarrow> storage \<Rightarrow> job_id \<Rightarrow> ('d, job_progress option) op" where
  "progress R C S i = bind (get_job R C S i) (\<lambda>r. case r of
       None \<Rightarrow> return None
     | Some e \<Rightarrow> (case state (env_meta e) of
           None \<Rightarrow> return None
         | Some st \<Rightarrow> (case progress_of_json st of
               None \<Rightarrow> fail JobStateJsonError
             | Some p \<Rightarrow> return (Some p))))"

section \<open>The iterator\<close>

record 'x progress_iterator =
  pi_iter :: "(nat \<times> 'x) list"
  pi_current :: "nat option"
  pi_total :: nat

definition iterator_new :: "'d redis \<Rightarrow> codec \<Rightarrow> storage \<Rightarrow> job_id \<Rightarrow> 'x list \<Rightarrow> ('d, 'x progress_iterator) op" where
  "iterator_new R C S i xs = bind (progress R C S i) (\<lambda>p.
     let cursor = (case p of None \<Rightarrow> 0 | Some p \<Rightarrow> nat (max 0 (pr_cursor p))) in
     return \<lparr>pi_iter = drop cursor (List.enumerate 0 xs), pi_current = None, pi_total = length xs\<rparr>)"

definition mark_current_completed ::
    "'d redis \<Rightarrow> codec \<Rightarrow> storage \<Rightarrow> ('d \<Rightarrow> 'd) \<Rightarrow> job_id \<Rightarrow> 'x progress_iterator \<Rightarrow> ('d, 'x progress_iterator) op" where
  "mark_current_completed R C S env i it = (case pi_current it of
       None \<Rightarrow> return it
     | Some n \<Rightarrow>
         if i64_max < int (n + 1) \<or> i64_max < int (pi_total it) then fail TryFromIntError
         else seq (update_progress R C S env i \<lparr>pr_cursor = int (n + 1), pr_total = int (pi_total it), pr_note = None\<rparr>)
                (return (it\<lparr>pi_current := None\<rparr>)))"

definition iterator_next ::
    "'d redis \<Rightarrow> codec \<Rightarrow> storage \<Rightarrow> ('d \<Rightarrow> 'd) \<Rightarrow> job_id \<Rightarrow> 'x progress_iterator \<Rightarrow> ('d, 'x option \<times> 'x progress_iterator) op" where
  "iterator_next R C S env i it = bind (mark_current_completed R C S env i it) (\<lambda>it1. case pi_iter it1 of
       [] \<Rightarrow> return (None, it1)
     | (n, x) # rest \<Rightarrow> return (Some x, it1\<lparr>pi_iter := rest, pi_current := Some n\<rparr>))"

text \<open>A run of a job that asks for an element that many times.\<close>

fun iterate :: "'d redis \<Rightarrow> codec \<Rightarrow> storage \<Rightarrow> job_id \<Rightarrow> nat \<Rightarrow> 'x progress_iterator \<Rightarrow> ('d, 'x list \<times> 'x progress_iterator) op" where
  "iterate R C S i 0 it = return ([], it)"
| "iterate R C S i (Suc k) it = bind (iterator_next R C S (\<lambda>d. d) i it) (\<lambda>(y, it1).
     bind (iterate R C S i k it1) (\<lambda>(ys, it2). return ((case y of None \<Rightarrow> ys | Some y \<Rightarrow> y # ys), it2)))"

section \<open>Lemmas\<close>

lemma progress_roundtrip:
  assumes "i64_range (pr_cursor p)" and "i64_range (pr_total p)"
  shows "progress_of_json (progress_to_json p) = Some p"
  using assms
  by (cases "pr_note p") (simp_all add: progress_of_json_def progress_to_json_def req_def dflt_def optional_def json_field_def
      opt_field_def)

definition stored_job :: "'d redis \<Rightarrow> codec \<Rightarrow> storage \<Rightarrow> job_id \<Rightarrow> 'd \<Rightarrow> job_envelope \<Rightarrow> bool" where
  "stored_job R C S i d e \<longleftrightarrow> env_id e = i \<and>
     (\<exists>p. r_hget R d (jobs_key (st_keys S)) i = Some p \<and> of_payload C p = Some e)"

definition with_state :: "json \<Rightarrow> job_envelope \<Rightarrow> job_envelope" where
  "with_state v e = e\<lparr>env_meta := (env_meta e)\<lparr>state := Some v\<rparr>\<rparr>"

context redis_server
begin

lemma get_stored:
  assumes "stored_job R C S i d e" and "get_job R C S i d = (Inr r, d')"
  shows "r = Some e \<and> d' = d"
  using assms
  by (cases rule: get_job_cases [of C S i d])
    (auto simp: get_job_def with_connection_def stored_job_def split: option.splits)

lemma update_state_stored:
  assumes "json_codec C" and "stored_job R C S i d e" and "json_ok C v" and "v \<noteq> JNull"
    and "update_state R C S (\<lambda>d. d) i v d = (Inr (), d')"
  shows "stored_job R C S i d' (with_state v e)"
proof -
  from assms(5) obtain r d1 where g: "get_job R C S i d = (Inr r, d1)" by (auto simp: update_state_def bind_eq_Inr)
  from get_stored [OF assms(2) this] have rd: "r = Some e" "d1 = d" by simp_all
  have "envelope_wf C e"
    using assms(2) json_codec.of_payload_wf [OF assms(1)] by (auto simp: stored_job_def)
  then have "envelope_wf C (with_state v e)" using assms(3,4) by (simp add: envelope_wf_def meta_wf_def with_state_def)
  from json_codec.of_to_payload [OF assms(1) this]
  have p: "of_payload C (to_payload C (with_state v e)) = Some (with_state v e)" .
  from assms(5) g rd have "update_job R C S (with_state v e) d = (Inr (), d')"
    by (simp add: update_state_def bind_def seq_def interfere_def with_state_def)
  then have "r_hget R d' (jobs_key (st_keys S)) (env_id e) = Some (to_payload C (with_state v e))"
    by (auto simp: update_job_def with_connection_Inr redis_defs hset_h with_state_def split: if_splits)
  with p assms(2) show ?thesis by (auto simp: stored_job_def with_state_def)
qed

end

text \<open>What a fresh iterator over \<open>xs\<close> would still visit.\<close>

definition remaining :: "'x list \<Rightarrow> job_envelope \<Rightarrow> (nat \<times> 'x) list option" where
  "remaining xs e = (case state (env_meta e) of
       None \<Rightarrow> Some (List.enumerate 0 xs)
     | Some st \<Rightarrow> map_option (\<lambda>p. drop (nat (max 0 (pr_cursor p))) (List.enumerate 0 xs)) (progress_of_json st))"

text \<open>The element handed out last is not completed yet; the one before is.\<close>

definition iterator_inv :: "'x list \<Rightarrow> job_envelope \<Rightarrow> 'x progress_iterator \<Rightarrow> bool" where
  "iterator_inv xs e it \<longleftrightarrow> pi_total it = length xs \<and> (\<exists>c. pi_iter it = drop c (List.enumerate 0 xs)) \<and>
     (case pi_current it of
        None \<Rightarrow> remaining xs e = Some (pi_iter it)
      | Some n \<Rightarrow> n < length xs \<and> pi_iter it = drop (n + 1) (List.enumerate 0 xs))"

lemma drop_enumerate_Cons:
  assumes "drop c (List.enumerate 0 xs) = (n, x) # rest"
  shows "n = c \<and> n < length xs \<and> rest = drop (n + 1) (List.enumerate 0 xs)"
proof -
  have c: "c < length (List.enumerate 0 xs)" using assms by (metis drop_all leI list.distinct(1))
  have "drop c (List.enumerate 0 xs) = (List.enumerate 0 xs ! c) # drop (Suc c) (List.enumerate 0 xs)"
    by (rule Cons_nth_drop_Suc [OF c, symmetric])
  with assms c show ?thesis by (auto simp: nth_enumerate_eq)
qed

context redis_server
begin

lemma iterator_new_remaining:
  assumes "stored_job R C S i d e" and "iterator_new R C S i xs d = (Inr it, d')"
  shows "d' = d \<and> iterator_inv xs e it \<and> pi_current it = None \<and> remaining xs e = Some (pi_iter it)"
proof -
  from assms(2) obtain p where p: "progress R C S i d = (Inr p, d')"
    and it: "it = \<lparr>pi_iter = drop (case p of None \<Rightarrow> 0 | Some p \<Rightarrow> nat (max 0 (pr_cursor p))) (List.enumerate 0 xs),
      pi_current = None, pi_total = length xs\<rparr>"
    by (auto simp: iterator_new_def bind_eq_Inr Let_def)
  from p obtain r d1 where g: "get_job R C S i d = (Inr r, d1)" by (auto simp: progress_def bind_eq_Inr)
  from get_stored [OF assms(1) this] p g have "d' = d \<and> (case state (env_meta e) of
      None \<Rightarrow> p = None | Some st \<Rightarrow> \<exists>x. p = Some x \<and> progress_of_json st = Some x)"
    by (auto simp: progress_def bind_def split: option.splits) metis
  then show ?thesis
    by (auto simp: iterator_inv_def remaining_def it split: option.splits intro: exI [of _ 0])
qed

lemma mark_completed:
  assumes "json_codec C" and "stored_job R C S i d e" and "iterator_inv xs e it"
    and "mark_current_completed R C S (\<lambda>d. d) i it d = (Inr it1, d')"
  shows "\<exists>e'. stored_job R C S i d' e' \<and> iterator_inv xs e' it1 \<and> pi_current it1 = None \<and> pi_iter it1 = pi_iter it"
proof (cases "pi_current it")
  case None
  with assms show ?thesis by (auto simp: mark_current_completed_def)
next
  case (Some n)
  let ?p = "\<lparr>pr_cursor = int (n + 1), pr_total = int (pi_total it), pr_note = None\<rparr>"
  from assms(4) Some have u: "update_state R C S (\<lambda>d. d) i (progress_to_json ?p) d = (Inr (), d')"
    and it1: "it1 = it\<lparr>pi_current := None\<rparr>" and range: "int (n + 1) \<le> i64_max" "int (pi_total it) \<le> i64_max"
    by (auto simp: mark_current_completed_def update_progress_def seq_eq_Inr split: if_splits)
  have "json_ok C (progress_to_json ?p)" using range by (simp add: progress_to_json_def opt_field_def)
  moreover have "progress_to_json ?p \<noteq> JNull" by (simp add: progress_to_json_def)
  ultimately have "stored_job R C S i d' (with_state (progress_to_json ?p) e)"
    using update_state_stored [OF assms(1,2)] u by blast
  moreover have "progress_of_json (progress_to_json ?p) = Some ?p"
    using range by (intro progress_roundtrip) (simp_all add: i64_range_def)
  then have "remaining xs (with_state (progress_to_json ?p) e) = Some (pi_iter it)"
    using assms(3) Some by (simp add: remaining_def with_state_def iterator_inv_def nat_add_distrib)
  ultimately show ?thesis using assms(3) it1 by (auto simp: iterator_inv_def)
qed

lemma iterator_next_step:
  assumes "json_codec C" and "stored_job R C S i d e" and "iterator_inv xs e it"
    and "iterator_next R C S (\<lambda>d. d) i it d = (Inr (y, it'), d')"
  shows "\<exists>e'. stored_job R C S i d' e' \<and> iterator_inv xs e' it' \<and> remaining xs e' = Some (pi_iter it) \<and>
    pi_iter it' = tl (pi_iter it) \<and> y = (case pi_iter it of [] \<Rightarrow> None | (_, x) # _ \<Rightarrow> Some x)"
proof -
  from assms(4) obtain it1 d1 where m: "mark_current_completed R C S (\<lambda>d. d) i it d = (Inr it1, d1)"
    by (auto simp: iterator_next_def bind_eq_Inr)
  from mark_completed [OF assms(1-3) m] obtain e' where e':
    "stored_job R C S i d1 e'" "iterator_inv xs e' it1" "pi_current it1 = None" "pi_iter it1 = pi_iter it" by blast
  then have rem: "remaining xs e' = Some (pi_iter it)" by (simp add: iterator_inv_def)
  show ?thesis
  proof (cases "pi_iter it")
    case Nil
    with assms(4) m e' rem show ?thesis by (auto simp: iterator_next_def bind_def)
  next
    case (Cons a rest)
    obtain n x where a: "a = (n, x)" by fastforce
    from e'(2) obtain c where "pi_iter it1 = drop c (List.enumerate 0 xs)" by (auto simp: iterator_inv_def)
    with Cons a e'(4) drop_enumerate_Cons [of c xs n x rest] have
      n: "n < length xs" "rest = drop (n + 1) (List.enumerate 0 xs)" by simp_all
    with assms(4) m Cons a e' have "it' = it1\<lparr>pi_iter := rest, pi_current := Some n\<rparr>" "y = Some x" "d' = d1"
      by (auto simp: iterator_next_def bind_def)
    with e' rem n Cons a show ?thesis by (auto simp: iterator_inv_def)
  qed
qed

lemma iterate_resumes:
  assumes "json_codec C" and "stored_job R C S i d e" and "iterator_inv xs e it"
    and "iterate R C S i (Suc k) it d = (Inr (ys, it'), d')"
  shows "\<exists>e'. stored_job R C S i d' e' \<and> remaining xs e' = Some (drop k (pi_iter it)) \<and>
    ys = take (Suc k) (map snd (pi_iter it))"
  using assms(2-4)
proof (induction k arbitrary: it d e ys it')
  case 0
  then obtain y it1 where n: "iterator_next R C S (\<lambda>d. d) i it d = (Inr (y, it1), d')"
    and ys: "ys = (case y of None \<Rightarrow> [] | Some y \<Rightarrow> [y])" by (auto simp: bind_eq_Inr)
  from iterator_next_step [OF assms(1) 0(1,2) n] ys show ?case by (auto split: list.splits)
next
  case (Suc k)
  from Suc.prems(3) obtain y it1 d1 ys1 it2 where n: "iterator_next R C S (\<lambda>d. d) i it d = (Inr (y, it1), d1)"
    and r: "iterate R C S i (Suc k) it1 d1 = (Inr (ys1, it2), d')" and ys: "ys = (case y of None \<Rightarrow> ys1 | Some y \<Rightarrow> y # ys1)"
    unfolding iterate.simps(2) [of R C S i "Suc k"] by (auto simp: bind_eq_Inr simp del: iterate.simps)
  from iterator_next_step [OF assms(1) Suc.prems(1,2) n] obtain e1 where e1: "stored_job R C S i d1 e1" "iterator_inv xs e1 it1"
    "pi_iter it1 = tl (pi_iter it)" "y = (case pi_iter it of [] \<Rightarrow> None | (_, x) # _ \<Rightarrow> Some x)" by blast
  from Suc.IH [OF e1(1,2) r] e1(3,4) ys show ?case by (cases "pi_iter it") (auto simp: drop_Suc)
qed

end

section \<open>Properties\<close>

text \<open>
  C31. A job that iterates with progress loses no element and repeats at most one. If a run
  asks for elements any number of times and then stops, in whatever way, it has visited the
  next elements in order, and a later run of the job over the same collection starts with the
  last element handed out to the earlier run, the only one it had not completed, and goes on
  from there; after a run that was told that there are no more elements nothing is left.
\<close>

theorem progress_iterator_resumes:
  assumes "redis_server R" and "json_codec C" and "stored_job R C S i d e"
    and "iterator_new R C S i xs d = (Inr it, d1)" and "iterate R C S i (Suc k) it d1 = (Inr (ys, it'), d2)"
    and "iterator_new R C S i xs d2 = (Inr it2, d3)"
  shows "ys = take (Suc k) (map snd (pi_iter it)) \<and> pi_iter it2 = drop k (pi_iter it)"
proof -
  note new = redis_server.iterator_new_remaining [OF assms(1,3,4)]
  then have "d1 = d" "iterator_inv xs e it" by simp_all
  from redis_server.iterate_resumes [OF assms(1,2,3) this(2) assms(5) [unfolded this(1)]] obtain e' where
    "stored_job R C S i d2 e'" "remaining xs e' = Some (drop k (pi_iter it))" "ys = take (Suc k) (map snd (pi_iter it))" by blast
  with redis_server.iterator_new_remaining [OF assms(1) this(1) assms(6)] show ?thesis by simp
qed

definition sample_iterator :: "nat progress_iterator" where
  "sample_iterator = \<lparr>pi_iter = [(0, 10), (1, 20), (2, 30)], pi_current = None, pi_total = 3\<rparr>"

text \<open>A run that takes two of three elements and stops: the next run starts with the second.\<close>

theorem progress_iterator_resumes_witness:
  "\<exists>it' d2 it2 d3. iterator_new mem_redis netstring_codec sample_storage ''Mail/7'' [10, 20, 30 :: nat] sample_queued =
      (Inr sample_iterator, sample_queued) \<and>
    iterate mem_redis netstring_codec sample_storage ''Mail/7'' 2 sample_iterator sample_queued = (Inr ([10, 20], it'), d2) \<and>
    iterator_new mem_redis netstring_codec sample_storage ''Mail/7'' [10, 20, 30 :: nat] d2 = (Inr it2, d3) \<and>
    map snd (pi_iter it2) = [20, 30]"
proof -
  have st: "state (env_meta sample_envelope) = None" by code_simp
  have s: "stored_job mem_redis netstring_codec sample_storage ''Mail/7'' sample_queued sample_envelope"
    by (simp add: stored_job_def sample_run)
  have n: "iterator_new mem_redis netstring_codec sample_storage ''Mail/7'' [10, 20, 30 :: nat] sample_queued =
      (Inr sample_iterator, sample_queued)"
    by (simp add: iterator_new_def progress_def get_job_def get_job_w_conn_def parse_envelope_def lift_result_def st
        sample_iterator_def sample_run)
  let ?v = "progress_to_json \<lparr>pr_cursor = 1, pr_total = 3, pr_note = None\<rparr>"
  let ?e = "sample_envelope\<lparr>env_meta := (env_meta sample_envelope)\<lparr>state := Some ?v\<rparr>\<rparr>"
  let ?d2 = "[(''app:jobs'', VHash [(''Mail/7'', to_payload netstring_codec ?e)]), (''app:queue:mail'', VList [''Mail/7''])]"
  let ?it' = "\<lparr>pi_iter = [(2, 30)], pi_current = Some 1, pi_total = 3\<rparr> :: nat progress_iterator"
  have i: "iterate mem_redis netstring_codec sample_storage ''Mail/7'' (Suc 1) sample_iterator sample_queued =
      (Inr ([10, 20], ?it'), ?d2)"
    by (simp add: iterator_next_def mark_current_completed_def update_progress_def update_state_def update_job_def get_job_def
        get_job_w_conn_def parse_envelope_def lift_result_def sample_iterator_def sample_run)
  have "envelope_wf netstring_codec ?e"
    using sample_envelope_wf by (simp add: envelope_wf_def meta_wf_def progress_to_json_def opt_field_def)
  from net.of_to_payload [OF this] have "of_payload netstring_codec (to_payload netstring_codec ?e) = Some ?e" .
  then obtain it2 d3 where n2:
    "iterator_new mem_redis netstring_codec sample_storage ''Mail/7'' [10, 20, 30 :: nat] ?d2 = (Inr it2, d3)"
    by (simp add: iterator_new_def progress_def get_job_def get_job_w_conn_def parse_envelope_def lift_result_def
        progress_roundtrip i64_range_def sample_run)
  from progress_iterator_resumes [OF mem.redis_server_axioms net.json_codec_axioms s n i n2] i n n2 show ?thesis
    by (auto simp: sample_iterator_def numeral_2_eq_2)
qed

end
