(* ===== verification/Web_Format.thy ===== *)
theory Web_Format
  imports Web_App Job_State
begin

text \<open>
  What the pages of the dashboard print: the helpers and chart data of \<^verbatim>\<open>templates.rs\<close> and the
  filters of \<^verbatim>\<open>filters.rs\<close>. HTML and the digits of floating-point numbers are left out: a
  function that formats a float takes its text as a parameter. The results: charts keep the
  totals, numbers keep their digits, and the arguments of a job are shown in full.
\<close>

section \<open>Queues\<close>

definition busy_for :: "stats \<Rightarrow> string \<Rightarrow> nat" where
  "busy_for st key = length (filter (\<lambda>p. env_queue (sp_envelope p) = key) (st_processing st))"

definition busy_for_process :: "stats \<Rightarrow> process \<Rightarrow> nat" where
  "busy_for_process st p = (let i = process_id p in length (filter (\<lambda>q. sp_process_id q = i) (st_processing st)))"

type_synonym queue_views = "string \<rightharpoonup> queue_runtime_config_view"

definition concurrency_for :: "queue_views \<Rightarrow> string \<Rightarrow> string" where
  "concurrency_for configs key = (case configs key of None \<Rightarrow> ''-'' | Some v \<Rightarrow> concurrency_label v)"

definition default_concurrency_for :: "queue_views \<Rightarrow> string \<Rightarrow> string" where
  "default_concurrency_for configs key = (case configs key of None \<Rightarrow> [] | Some v \<Rightarrow> concurrency_default_label v)"

definition has_concurrency_override_for :: "queue_views \<Rightarrow> string \<Rightarrow> bool" where
  "has_concurrency_override_for configs key = (case configs key of None \<Rightarrow> False | Some v \<Rightarrow> has_concurrency_override v)"

fun state_label :: "queue_state \<Rightarrow> string" where
  "state_label Active = ''Active''"
| "state_label Paused = ''Paused''"

definition state_for :: "queue_views \<Rightarrow> string \<Rightarrow> string" where
  "state_for configs key = (case configs key of None \<Rightarrow> ''Active'' | Some v \<Rightarrow> state_label (rc_state (vw_config v)))"

definition state_class_for :: "queue_views \<Rightarrow> string \<Rightarrow> string" where
  "state_class_for configs key = (case map_option (\<lambda>v. rc_state (vw_config v)) (configs key) of
       Some Paused \<Rightarrow> ''text-yellow-300'' | _ \<Rightarrow> ''text-green-300'')"

definition queue_action_path :: "(string \<Rightarrow> string) \<Rightarrow> string \<Rightarrow> string \<Rightarrow> string \<Rightarrow> string" where
  "queue_action_path urlencode base_path key action = base_path @ ''/queues/'' @ urlencode key @ ''/'' @ action"

section \<open>Sort links\<close>

definition toggled :: "string \<Rightarrow> string \<Rightarrow> string \<Rightarrow> string" where
  "toggled current dir col = (if current = col then (if dir = ''desc'' then ''asc'' else ''desc'') else ''desc'')"

datatype sort_arrow = NoArrow | UpArrow | DownArrow

definition arrow :: "string \<Rightarrow> string \<Rightarrow> string \<Rightarrow> sort_arrow" where
  "arrow current dir col = (if current = col then (if dir = ''asc'' then UpArrow else DownArrow) else NoArrow)"

definition queues_next_dir :: "queues_view \<Rightarrow> string \<Rightarrow> string" where
  "queues_next_dir v col = toggled (qp_sort v) (qp_dir v) col"

definition queues_sort_href :: "string \<Rightarrow> queues_view \<Rightarrow> string \<Rightarrow> string" where
  "queues_sort_href base_path v col = base_path @ ''/queues?sort='' @ col @ ''&dir='' @ queues_next_dir v col @ ''&minutes='' @
     show_nat (lm_minutes (qp_queue_lengths v))"

definition effective_sort :: "metrics_view \<Rightarrow> string" where
  "effective_sort v = (if mv_sort v = [] then ''total_time'' else mv_sort v)"

definition metrics_next_dir :: "metrics_view \<Rightarrow> string \<Rightarrow> string" where
  "metrics_next_dir v col = toggled (effective_sort v) (mv_dir v) col"

definition metrics_sort_href :: "string \<Rightarrow> metrics_view \<Rightarrow> string \<Rightarrow> string" where
  "metrics_sort_href base_path v col = base_path @ ''/metrics?sort='' @ col @ ''&dir='' @ metrics_next_dir v col @ ''&minutes='' @
     show_nat (js_minutes (mv_metrics v))"

section \<open>Charts\<close>

definition metrics_chart_bucket_minutes :: "nat \<Rightarrow> nat" where
  "metrics_chart_bucket_minutes window = (if window \<le> 120 then 1 else if window \<le> 480 then 5 else 15)"

definition add_point :: "job_metrics_point \<Rightarrow> job_metrics_point \<Rightarrow> job_metrics_point" where
  "add_point p acc = acc\<lparr>
     jt_processed := sat_add_u64 (jt_processed acc) (jt_processed p),
     jt_succeeded := sat_add_u64 (jt_succeeded acc) (jt_succeeded p),
     jt_failed := sat_add_u64 (jt_failed acc) (jt_failed p),
     jt_panicked := sat_add_u64 (jt_panicked acc) (jt_panicked p),
     jt_successful_executions := sat_add_u64 (jt_successful_executions acc) (jt_successful_executions p),
     jt_failed_executions := sat_add_u64 (jt_failed_executions acc) (jt_failed_executions p),
     jt_panicked_executions := sat_add_u64 (jt_panicked_executions acc) (jt_panicked_executions p),
     jt_execution_ms := sat_add_u64 (jt_execution_ms acc) (jt_execution_ms p)\<rparr>"

definition chunk_point :: "job_metrics_point list \<Rightarrow> job_metrics_point" where
  "chunk_point ps = fold add_point ps
     (job_metrics_totals.extend totals_default (job_metrics_point.fields (case ps of [] \<Rightarrow> 0 | p # _ \<Rightarrow> jt_timestamp p)))"

definition downsample_job_metrics_points :: "job_metrics_point list \<Rightarrow> nat \<Rightarrow> job_metrics_point list" where
  "downsample_job_metrics_points ps window =
     (let n = metrics_chart_bucket_minutes window in if n = 1 then ps else map chunk_point (chunks (n - 1) ps))"

text \<open>\<^verbatim>\<open>rsplit\<close> on the separator: what stands after its last occurrence.\<close>

fun before_separator :: "string \<Rightarrow> string" where
  "before_separator (a # b # r) = (if a = CHR '':'' \<and> b = CHR '':'' then [] else a # before_separator (b # r))"
| "before_separator s = s"

definition metric_identity_label :: "string \<Rightarrow> string" where
  "metric_identity_label worker = rev (before_separator (rev worker))"

text \<open>A chart is its times and its labelled series; \<open>value\<close> picks what is shown of a point.\<close>

definition summary_chart :: "(job_metrics_point \<Rightarrow> 'v) \<Rightarrow> job_metrics_snapshot \<Rightarrow> int list \<times> (string \<times> string \<times> 'v list) list" where
  "summary_chart value snap =
     (map jt_timestamp (downsample_job_metrics_points (js_series snap) (js_minutes snap)),
      map (\<lambda>w. (metric_identity_label (ws_identity w), ws_identity w,
                map value (downsample_job_metrics_points (ws_series w) (js_minutes snap)))) (js_workers snap))"

definition detail_total_chart :: "job_metrics_detail \<Rightarrow> int list \<times> nat list \<times> nat list \<times> nat list" where
  "detail_total_chart m = (let ps = downsample_job_metrics_points (jd_series m) (jd_minutes m) in
     (map jt_timestamp ps, map jt_successful_executions ps, map failed_executions_without_panics ps, map jt_panicked_executions ps))"

definition queue_length_chart :: "queue_length_metrics_snapshot \<Rightarrow> int list \<times> (string \<times> nat list) list" where
  "queue_length_chart snap =
     ((case lm_queues snap of
         [] \<Rightarrow> map (\<lambda>i. lm_starts_at snap + int i * 60) [0..<lm_minutes snap]
       | q # _ \<Rightarrow> map fst (ql_series q)),
      map (\<lambda>q. (ql_queue q, map snd (ql_series q))) (lm_queues snap))"

definition max_histogram_count :: "job_metrics_detail \<Rightarrow> nat" where
  "max_histogram_count m = foldr max (map hb_count (jd_histogram m)) 0"

text \<open>\<open>ratio_text\<close> prints the percentage with one digit.\<close>

definition histogram_width :: "(nat \<Rightarrow> nat \<Rightarrow> string) \<Rightarrow> job_metrics_detail \<Rightarrow> nat \<Rightarrow> string" where
  "histogram_width ratio_text m n = (let most = max_histogram_count m in if most = 0 then ''0%'' else ratio_text n most @ ''%'')"

section \<open>Times\<close>

definition format_relative :: "int \<Rightarrow> string" where
  "format_relative diff =
     (if \<bar>diff\<bar> < 15 then ''now''
      else let a = \<bar>diff\<bar>; pre = (if 0 < diff then [] else ''in ''); post = (if 0 < diff then '' ago'' else []) in
        if a < 60 then pre @ show_int a @ ''s'' @ post
        else if a < 3600 then pre @ show_int (a div 60) @ ''m'' @ post
        else let h = a div 3600; m = a mod 3600 div 60 in
          if m = 0 then pre @ show_int h @ ''h'' @ post
          else pre @ show_int h @ ''h'' @ show_int m @ ''m'' @ post)"

definition relative_time :: "int \<Rightarrow> int \<Rightarrow> string" where
  "relative_time now ts = format_relative (now - ts)"

text \<open>Division of Rust rounds towards zero.\<close>

definition micros_to_secs :: "int \<Rightarrow> int" where
  "micros_to_secs x = (if 0 \<le> x then x div 1000000 else - ((- x) div 1000000))"

definition relative_time_micros :: "int \<Rightarrow> int \<Rightarrow> string" where
  "relative_time_micros now ts = format_relative (micros_to_secs (now - ts))"

text \<open>A time that is not there is shown as a dash, \<open>dash\<close>.\<close>

definition relative_time_micros_opt :: "string \<Rightarrow> int \<Rightarrow> int option \<Rightarrow> string" where
  "relative_time_micros_opt dash now ts = (case ts of None \<Rightarrow> dash | Some t \<Rightarrow> relative_time_micros now t)"

section \<open>Numbers\<close>

fun comma_groups :: "nat \<Rightarrow> nat list" where
  "comma_groups n = (if n = 0 then [] else n mod 1000 # comma_groups (n div 1000))"

declare comma_groups.simps [simp del]

definition pad3 :: "nat \<Rightarrow> string" where
  "pad3 g = replicate (3 - length (show_nat g)) CHR ''0'' @ show_nat g"

definition format_with_commas :: "nat \<Rightarrow> string" where
  "format_with_commas n =
     (if n = 0 then ''0''
      else let groups = rev (comma_groups n) in
        (case groups of [] \<Rightarrow> [] | g # _ \<Rightarrow> show_nat g) @ concat (map (\<lambda>g. CHR '','' # pad3 g) (drop 1 groups)))"

definition format_number_i64 :: "int \<Rightarrow> string" where
  "format_number_i64 v = (if v < 0 then ''-'' @ format_with_commas (nat (- v)) else format_with_commas (nat v))"

section \<open>Arguments\<close>

definition has_args :: "json \<Rightarrow> bool" where
  "has_args v = (\<not> (case v of JNull \<Rightarrow> True | JObj kvs \<Rightarrow> kvs = [] | _ \<Rightarrow> False))"

fun simple_arg_value :: "json \<Rightarrow> string option" where
  "simple_arg_value JNull = Some ''null''"
| "simple_arg_value (JBool b) = Some (if b then ''true'' else ''false'')"
| "simple_arg_value (JInt i) = Some (show_int i)"
| "simple_arg_value (JFloat s) = Some s"
| "simple_arg_value (JStr s) = Some (if s = [] then [CHR 0x22, CHR 0x22] else s)"
| "simple_arg_value (JArr _) = None"
| "simple_arg_value (JObj _) = None"

text \<open>A pill shows the name and the value of an argument.\<close>

definition simple_args_for :: "json \<Rightarrow> (string \<times> string) list" where
  "simple_args_for v = (case v of
       JObj args \<Rightarrow> List.map_filter (\<lambda>(k, a). map_option (Pair k) (simple_arg_value a)) args
     | _ \<Rightarrow> [])"

definition should_show_args_json :: "json \<Rightarrow> bool" where
  "should_show_args_json v = (case v of
       JNull \<Rightarrow> False
     | JObj args \<Rightarrow> args \<noteq> [] \<and> list_ex (\<lambda>kv. simple_arg_value (snd kv) = None) args
     | _ \<Rightarrow> True)"

section \<open>Progress\<close>

record progress_view =
  pv_summary :: string
  pv_percent :: string
  pv_note :: string
  pv_eta :: string

text \<open>
  The expected time is \<open>Left elapsed remaining cursor\<close>: the microseconds so far, times the
  remaining elements, by the elements done.
\<close>

datatype progress_eta = Done | Left int int int

definition progress_eta_s :: "job_progress \<Rightarrow> int option \<Rightarrow> int \<Rightarrow> progress_eta option" where
  "progress_eta_s p began now = (case began of
       None \<Rightarrow> None
     | Some start \<Rightarrow>
         if pr_total p \<le> 0 \<or> pr_cursor p \<le> 0 \<or> start \<le> 0 then None
         else let remaining = max (pr_total p - pr_cursor p) 0 in
           if remaining = 0 then Some Done
           else if now - start \<le> 0 then None
           else Some (Left (now - start) remaining (pr_cursor p)))"

text \<open>\<open>percent\<close> prints the clamped percentage, \<open>eta_text\<close> a duration, \<open>dash\<close> stands for no duration.\<close>

definition progress_view_of ::
    "(int \<Rightarrow> int \<Rightarrow> string) \<Rightarrow> (progress_eta \<Rightarrow> string) \<Rightarrow> string \<Rightarrow> json \<Rightarrow> int option \<Rightarrow> int \<Rightarrow> progress_view option" where
  "progress_view_of percent eta_text dash st began now = (case progress_of_json st of
       None \<Rightarrow> None
     | Some p \<Rightarrow>
         if pr_total p \<le> 0 then None
         else let shown = percent (max (pr_cursor p) 0) (pr_total p) in
           Some \<lparr>pv_summary = format_with_commas (nat (max (pr_cursor p) 0)) @ '' / '' @ format_with_commas (nat (pr_total p)) @
                   '' ('' @ shown @ ''%)'',
                 pv_percent = shown,
                 pv_note = (case pr_note p of None \<Rightarrow> [] | Some n \<Rightarrow> n),
                 pv_eta = (case progress_eta_s p began now of None \<Rightarrow> dash | Some e \<Rightarrow> eta_text e)\<rparr>)"

section \<open>Sums that saturate\<close>

definition sat_sum :: "nat list \<Rightarrow> nat" where
  "sat_sum xs = fold (\<lambda>x a. sat_add_u64 a x) xs 0"

lemma fold_sat: "a \<le> u64_max \<Longrightarrow> fold (\<lambda>x a. sat_add_u64 a x) xs a = min (a + sum_list xs) u64_max"
proof (induction xs arbitrary: a)
  case (Cons x xs)
  from Cons.IH [of "sat_add_u64 a x"] show ?case by (simp add: sat_add_u64_le) (simp add: sat_add_u64_def)
qed simp

lemma sat_sum: "sat_sum xs = min (sum_list xs) u64_max"
  by (simp add: sat_sum_def fold_sat)

lemma sum_min_min: "min (sum_list (map (\<lambda>x. min (f x) m) xs)) m = min (sum_list (map f xs)) (m :: nat)"
proof (induction xs)
  case (Cons x xs)
  then show ?case by (auto simp: min_def split: if_splits)
qed simp

text \<open>The measures a point has.\<close>

definition measures :: "(job_metrics_point \<Rightarrow> nat) list" where
  "measures = [jt_processed, jt_succeeded, jt_failed, jt_panicked, jt_successful_executions, jt_failed_executions,
     jt_panicked_executions, jt_execution_ms]"

lemma add_point_measure: "f \<in> set measures \<Longrightarrow> f (add_point p acc) = sat_add_u64 (f acc) (f p)"
  by (auto simp: measures_def add_point_def)

lemma fold_add_point: "f \<in> set measures \<Longrightarrow> f (fold add_point ps acc) = fold (\<lambda>x a. sat_add_u64 a x) (map f ps) (f acc)"
  by (induction ps arbitrary: acc) (simp_all add: add_point_measure)

lemma chunk_point_measure:
  assumes "f \<in> set measures"
  shows "f (chunk_point ps) = min (sum_list (map f ps)) u64_max"
proof -
  have "f (job_metrics_totals.extend totals_default (job_metrics_point.fields t)) = 0" for t
    using assms by (auto simp: measures_def job_metrics_totals.defs job_metrics_point.defs totals_default_def)
  then show ?thesis unfolding chunk_point_def by (simp add: fold_add_point [OF assms] fold_sat)
qed

lemma chunk_point_timestamp: "jt_timestamp (chunk_point ps) = (case ps of [] \<Rightarrow> 0 | p # _ \<Rightarrow> jt_timestamp p)"
proof -
  have "jt_timestamp (fold add_point qs acc) = jt_timestamp acc" for qs acc
    by (induction qs arbitrary: acc) (simp_all add: add_point_def)
  then show ?thesis by (simp add: chunk_point_def job_metrics_totals.defs job_metrics_point.defs totals_default_def)
qed

lemma sum_chunks: "sum_list (map (\<lambda>c. sum_list (map f c)) (chunks n xs)) = sum_list (map f xs)" for f :: "'a \<Rightarrow> nat"
proof -
  have "sum_list (map (\<lambda>c. sum_list (map f c)) cs) = sum_list (map f (concat cs))" for cs :: "'a list list"
    by (induction cs) simp_all
  then show ?thesis by simp
qed

lemma nth_chunks: "i < length (chunks n xs) \<Longrightarrow> i * Suc n < length xs \<and> hd (chunks n xs ! i) = xs ! (i * Suc n) \<and> chunks n xs ! i \<noteq> []"
proof (induction n xs arbitrary: i rule: chunks.induct)
  case (2 n x xs)
  show ?case
  proof (cases i)
    case (Suc j)
    with 2 have "j * Suc n < length (drop (Suc n) (x # xs)) \<and> hd (chunks n (drop (Suc n) (x # xs)) ! j) = drop (Suc n) (x # xs) ! (j * Suc n) \<and>
        chunks n (drop (Suc n) (x # xs)) ! j \<noteq> []" by simp
    with Suc show ?thesis by (simp add: less_diff_conv add.commute add.left_commute)
  qed simp
qed simp

lemma length_chunks: "length (chunks n xs) = (length xs + n) div Suc n"
proof (induction n xs rule: chunks.induct)
  case (2 n x xs)
  have "(length (x # xs) + n) div Suc n = Suc ((length (drop (Suc n) (x # xs)) + n) div Suc n)"
  proof (cases "Suc n \<le> length (x # xs)")
    case True
    then obtain k where "length (x # xs) = Suc n + k" using le_Suc_ex by blast
    moreover have "(Suc n + k + n) div Suc n = Suc ((k + n) div Suc n)"
      using div_add_self1 [of "Suc n" "k + n"] by (simp add: add.assoc)
    ultimately show ?thesis by simp
  next
    case False
    then have "(length (x # xs) + n) div Suc n = 1" by (intro div_nat_eqI) simp_all
    with False show ?thesis by simp
  qed
  with 2 show ?case by simp
qed simp

section \<open>Digits\<close>

lemma digit_zero: "digit_char 0 = CHR ''0''"
  by code_simp

lemma show_nat_less10: "n < 10 \<Longrightarrow> show_nat n = [digit_char n]"
  by (simp add: show_nat.simps)

lemma show_nat_ge10: "10 \<le> n \<Longrightarrow> show_nat n = show_nat (n div 10) @ [digit_char (n mod 10)]"
  by (simp add: show_nat.simps [of n])

lemma pad3_digits: "g < 1000 \<Longrightarrow> pad3 g = [digit_char (g div 100), digit_char (g div 10 mod 10), digit_char (g mod 10)]"
proof -
  assume "g < 1000"
  then consider "g < 10" | "10 \<le> g" "g < 100" | "100 \<le> g" "g < 1000" by linarith
  then show ?thesis
  proof cases
    case 1
    then show ?thesis by (simp add: pad3_def show_nat_less10 digit_zero numeral_2_eq_2)
  next
    case 2
    then have "g div 10 < 10" "g div 100 = 0" by simp_all
    with 2 show ?thesis by (simp add: pad3_def show_nat_ge10 show_nat_less10 digit_zero)
  next
    case 3
    then have "10 \<le> g div 10" "g div 10 div 10 < 10" by simp_all
    with 3 show ?thesis by (simp add: pad3_def show_nat_ge10 show_nat_less10 div_mult2_eq [symmetric])
  qed
qed

lemma show_nat_thousands: "1000 \<le> n \<Longrightarrow> show_nat n = show_nat (n div 1000) @ pad3 (n mod 1000)"
proof -
  assume n: "1000 \<le> n"
  have "show_nat n = show_nat (n div 10) @ [digit_char (n mod 10)]" using n by (intro show_nat_ge10) simp
  moreover have "show_nat (n div 10) = show_nat (n div 100) @ [digit_char (n div 10 mod 10)]"
    using n show_nat_ge10 [of "n div 10"] by (simp flip: div_mult2_eq)
  moreover have "show_nat (n div 100) = show_nat (n div 1000) @ [digit_char (n div 100 mod 10)]"
    using n show_nat_ge10 [of "n div 100"] by (simp flip: div_mult2_eq)
  moreover have "n mod 1000 div 100 = n div 100 mod 10" using mod_mult2_eq [of n 100 10] by simp
  moreover have "n mod 1000 div 10 mod 10 = n div 10 mod 10" using mod_mult2_eq [of n 10 100] by (simp add: mod_mod_cancel)
  moreover have "n mod 1000 mod 10 = n mod 10" by (simp add: mod_mod_cancel)
  ultimately show ?thesis by (simp add: pad3_digits)
qed

lemma format_small: "n < 1000 \<Longrightarrow> format_with_commas n = show_nat n"
  by (auto simp: format_with_commas_def comma_groups.simps [of n] comma_groups.simps [of 0] show_nat_less10 digit_zero)

lemma format_thousands:
  assumes "1000 \<le> n"
  shows "format_with_commas n = format_with_commas (n div 1000) @ CHR '','' # pad3 (n mod 1000)"
proof -
  have pos: "n div 1000 \<noteq> 0" using assms by simp
  then have "comma_groups (n div 1000) \<noteq> []" by (simp add: comma_groups.simps [of "n div 1000"])
  then obtain g gs where "rev (comma_groups (n div 1000)) = g # gs" by (metis list.exhaust rev_is_Nil_conv)
  with assms pos show ?thesis by (simp add: format_with_commas_def comma_groups.simps [of n] del: div_eq_0_iff)
qed

lemma length_show_small: "n < 1000 \<Longrightarrow> length (show_nat n) \<le> 3"
proof -
  assume "n < 1000"
  then consider "n < 10" | "10 \<le> n" "n div 10 < 10" | "10 \<le> n" "10 \<le> n div 10" "n div 10 div 10 < 10" by linarith
  then show ?thesis by cases (simp_all add: show_nat_ge10 show_nat_less10)
qed

section \<open>Properties\<close>

text \<open>
  Numbers keep their digits: a number printed with separators is its decimal digits, in order,
  with a comma before every third digit from the end and nowhere else.
\<close>

theorem commas_keep_digits:
  "\<exists>h gs. format_with_commas n = h @ concat (map (\<lambda>g. CHR '','' # g) gs) \<and> show_nat n = h @ concat gs \<and>
     1 \<le> length h \<and> length h \<le> 3 \<and> list_all (\<lambda>g. length g = 3) gs \<and> CHR '','' \<notin> set (show_nat n)"
proof -
  have "\<exists>h gs. format_with_commas n = h @ concat (map (\<lambda>g. CHR '','' # g) gs) \<and> show_nat n = h @ concat gs \<and>
     1 \<le> length h \<and> length h \<le> 3 \<and> list_all (\<lambda>g. length g = 3) gs"
  proof (induction n rule: less_induct)
    case (less n)
    show ?case
    proof (cases "n < 1000")
      case True
      have "1 \<le> length (show_nat n)" by (cases "show_nat n") simp_all
      with True length_show_small show ?thesis
        by (intro exI [of _ "show_nat n"] exI [of _ "[]"]) (simp add: format_small)
    next
      case False
      then have "n div 1000 < n" "1000 \<le> n" by simp_all
      with less obtain h gs where "format_with_commas (n div 1000) = h @ concat (map (\<lambda>g. CHR '','' # g) gs)"
        "show_nat (n div 1000) = h @ concat gs" "1 \<le> length h" "length h \<le> 3" "list_all (\<lambda>g. length g = 3) gs"
        by blast
      then show ?thesis
        by (intro exI [of _ h] exI [of _ "gs @ [pad3 (n mod 1000)]"])
          (simp add: format_thousands [OF \<open>1000 \<le> n\<close>] show_nat_thousands [OF \<open>1000 \<le> n\<close>] pad3_digits)
    qed
  qed
  moreover have "CHR '','' \<notin> set (show_nat n)" using show_nat_digits [of "CHR '',''" n] by auto
  ultimately show ?thesis by blast
qed

text \<open>
  The arguments of a job are shown in full: unless they are shown as JSON, they are missing, or
  they are an object all of whose members appear as pills, in order, each with its name and its
  value.
\<close>

theorem arguments_shown_in_full:
  "should_show_args_json v \<or> v = JNull \<or>
   (\<exists>args. v = JObj args \<and> map fst (simple_args_for v) = map fst args \<and>
      map (Some \<circ> snd) (simple_args_for v) = map (simple_arg_value \<circ> snd) args)"
proof (cases v)
  case (JObj args)
  have "map fst (simple_args_for (JObj as)) = map fst as \<and>
      map (Some \<circ> snd) (simple_args_for (JObj as)) = map (simple_arg_value \<circ> snd) as"
    if "\<forall>kv \<in> set as. simple_arg_value (snd kv) \<noteq> None" for as
    using that
  proof (induction as)
    case (Cons kv as)
    then show ?case by (auto simp: simple_args_for_def List.map_filter_simps split: prod.splits)
  qed (simp add: simple_args_for_def List.map_filter_simps)
  moreover have "should_show_args_json v \<or> (\<forall>kv \<in> set args. simple_arg_value (snd kv) \<noteq> None)"
    using JObj by (force simp: should_show_args_json_def list_ex_iff)
  ultimately show ?thesis using JObj by blast
qed (simp_all add: should_show_args_json_def)

text \<open>
  Charts keep the totals: downsampling changes no total of any measure, up to the saturation
  the counters have anyway; every point of the chart carries the time of the first point it
  stands for; and a chart of a whole day has no more than 120 points.
\<close>

theorem chart_keeps_totals:
  assumes "f \<in> set measures" and "length ps = window" and "window \<le> 1440"
  shows "sat_sum (map f (downsample_job_metrics_points ps window)) = sat_sum (map f ps) \<and>
    length (downsample_job_metrics_points ps window) \<le> 120 \<and>
    (\<forall>i < length (downsample_job_metrics_points ps window).
       i * metrics_chart_bucket_minutes window < length ps \<and>
       jt_timestamp (downsample_job_metrics_points ps window ! i) = jt_timestamp (ps ! (i * metrics_chart_bucket_minutes window)))"
proof (cases "window \<le> 120")
  case True
  then show ?thesis using assms by (simp add: downsample_job_metrics_points_def metrics_chart_bucket_minutes_def)
next
  case False
  define n where "n = metrics_chart_bucket_minutes window - 1"
  have n: "metrics_chart_bucket_minutes window = Suc n" "n = 4 \<and> window \<le> 480 \<or> n = 14"
    using False by (auto simp: n_def metrics_chart_bucket_minutes_def)
  have down: "downsample_job_metrics_points ps window = map chunk_point (chunks n ps)"
    using n by (auto simp: downsample_job_metrics_points_def)
  have "sat_sum (map f (map chunk_point (chunks n ps))) = sat_sum (map f ps)"
    by (simp add: sat_sum comp_def chunk_point_measure [OF assms(1)] sum_min_min sum_chunks)
  moreover have "length (chunks n ps) \<le> 120" using n(2) assms(2,3) by (auto simp: length_chunks)
  moreover have "jt_timestamp (chunk_point (chunks n ps ! i)) = jt_timestamp (ps ! (i * Suc n))" if "i < length (chunks n ps)" for i
    using nth_chunks [OF that] by (auto simp: chunk_point_timestamp split: list.splits)
  moreover have "i * Suc n < length ps" if "i < length (chunks n ps)" for i using nth_chunks [OF that] by simp
  ultimately show ?thesis unfolding down n(1) length_map by simp
qed

section \<open>Witnesses\<close>

definition sample_points :: "job_metrics_point list" where
  "sample_points = map (\<lambda>i. (point_at (int i))\<lparr>jt_processed := i\<rparr>) [0..<1440]"

theorem chart_keeps_totals_witness:
  "sat_sum (map jt_processed (downsample_job_metrics_points sample_points 1440)) = sat_sum (map jt_processed sample_points) \<and>
   length (downsample_job_metrics_points sample_points 1440) \<le> 120"
proof -
  have "jt_processed \<in> set measures" by (simp add: measures_def)
  moreover have "length sample_points = 1440" by (simp add: sample_points_def)
  ultimately show ?thesis using chart_keeps_totals [of jt_processed sample_points 1440] by simp
qed

end
