(* ===== verification/Background.thy ===== *)
theory Background
  imports Read_Only System Connection
begin

text \<open>
  The background loops of a process: \<^verbatim>\<open>retry_loop\<close>, \<^verbatim>\<open>schedule_loop\<close>, \<^verbatim>\<open>cleanup_loop\<close>,
  \<^verbatim>\<open>ping_loop\<close> and \<^verbatim>\<open>resurrect_loop\<close> of \<^verbatim>\<open>storage_internal.rs\<close>, as their turns interleave with
  each other and with other clients. All loops of a process share one count of failures in a
  row, which \<^verbatim>\<open>poll_redis\<close> consults. Here, other clients act between any two commands of a turn,
  and turns may fail half way; the theories before treat whole, undisturbed operations.
\<close>

section \<open>Operations among other clients\<close>

text \<open>A change of the server is lawful when it is a sequence of steps of the life cycle.\<close>

definition lawful :: "'d redis \<Rightarrow> codec \<Rightarrow> storage_keys \<Rightarrow> ('d \<Rightarrow> 'd) \<Rightarrow> bool" where
  "lawful R C K f \<longleftrightarrow> (\<forall>d. payloads_proper C K (store_of R d) \<longrightarrow> (\<exists>as. steps K C (store_of R d) as (store_of R (f d))))"

text \<open>\<open>keeps R C K m Q\<close>: the operation is lawful, however it ends, and its result satisfies \<open>Q\<close>.\<close>

definition keeps :: "'d redis \<Rightarrow> codec \<Rightarrow> storage_keys \<Rightarrow> ('d, 'a) op \<Rightarrow> ('a \<Rightarrow> bool) \<Rightarrow> bool" where
  "keeps R C K m Q \<longleftrightarrow> (\<forall>d. payloads_proper C K (store_of R d) \<longrightarrow>
     (\<exists>as. steps K C (store_of R d) as (store_of R (snd (m d)))) \<and> (\<forall>x. fst (m d) = Inr x \<longrightarrow> Q x))"

named_theorems keeps_intros

lemma keepsD: "keeps R C K m Q \<Longrightarrow> lawful R C K (\<lambda>d. snd (m d))"
  by (simp add: keeps_def lawful_def)

lemma keeps_bind:
  assumes "keeps R C K m Q" and "\<And>x. Q x \<Longrightarrow> keeps R C K (k x) P"
  shows "keeps R C K (bind m k) P"
  unfolding keeps_def
proof (intro allI impI)
  fix d assume d: "payloads_proper C K (store_of R d)"
  obtain r d1 where m: "m d = (r, d1)" by (rule prod.exhaust)
  with assms(1) d obtain as where as: "steps K C (store_of R d) as (store_of R d1)" and q: "\<And>x. r = Inr x \<Longrightarrow> Q x"
    unfolding keeps_def by (metis fst_conv snd_conv)
  show "(\<exists>as. steps K C (store_of R d) as (store_of R (snd (bind m k d)))) \<and> (\<forall>x. fst (bind m k d) = Inr x \<longrightarrow> P x)"
  proof (cases r)
    case (Inl e)
    with m as show ?thesis by (auto simp: bind_def)
  next
    case (Inr x)
    have "payloads_proper C K (store_of R d1)" using steps_payloads_proper [OF as d] .
    with assms(2) [OF q [OF Inr]] obtain bs where "steps K C (store_of R d1) bs (store_of R (snd (k x d1)))"
      and "\<And>y. fst (k x d1) = Inr y \<Longrightarrow> P y" unfolding keeps_def by blast
    with steps_append [OF as] m Inr show ?thesis by (auto simp: bind_def)
  qed
qed

lemma keeps_then [keeps_intros]: "keeps R C K m (\<lambda>_. True) \<Longrightarrow> (\<And>x. keeps R C K (k x) P) \<Longrightarrow> keeps R C K (bind m k) P"
  by (rule keeps_bind)

lemma keeps_seq [keeps_intros]: "keeps R C K m (\<lambda>_. True) \<Longrightarrow> keeps R C K n P \<Longrightarrow> keeps R C K (seq m n) P"
  unfolding seq_def by (rule keeps_then)

lemma keeps_quiet:
  assumes "quiet {} m" and "\<And>d x. fst (m d) = Inr x \<Longrightarrow> Q x"
  shows "keeps R C K m Q"
  unfolding keeps_def
proof (intro allI impI conjI)
  fix d
  show "\<exists>as. steps K C (store_of R d) as (store_of R (snd (m d)))"
    unfolding quiet_alone [OF assms(1)] by (rule steps_refl) (rule refl)
qed (rule assms(2))

lemma keeps_return: "P x \<Longrightarrow> keeps R C K (return x) P"
  by (rule keeps_quiet [OF quiet_basic(1)]) (simp add: return_def)

lemma keeps_interfere [keeps_intros]: "lawful R C K f \<Longrightarrow> keeps R C K (interfere f) (\<lambda>_. True)"
  by (simp add: keeps_def lawful_def interfere_def)

lemma keeps_connection [keeps_intros]: "keeps R C K m P \<Longrightarrow> keeps R C K (with_connection R m) P"
  unfolding keeps_def with_connection_def by (auto intro: steps.Nil split: option.split)

lemma keeps_if [keeps_intros]: "keeps R C K m P \<Longrightarrow> keeps R C K n P \<Longrightarrow> keeps R C K (if c then m else n) P"
  by simp

lemma keeps_weaken: "keeps R C K m Q \<Longrightarrow> keeps R C K m (\<lambda>_. True)"
  by (simp add: keeps_def)

lemma keeps_for_each [keeps_intros]:
  "(\<And>x. keeps R C K (f x) (\<lambda>_. True)) \<Longrightarrow> keeps R C K (for_each f xs) (\<lambda>_. True)"
  by (induction xs) (auto intro: keeps_intros keeps_return)

lemma keeps_pipe [keeps_intros]:
  assumes "\<And>m. m \<in> set cmds \<Longrightarrow> keeps R C K m (\<lambda>_. True)"
  shows "keeps R C K (pipe cmds) (\<lambda>_. True)"
  using assms
proof (induction cmds)
  case Nil
  then show ?case by (simp only: pipe.simps keeps_return)
next
  case (Cons m cmds)
  then have m: "keeps R C K m (\<lambda>_. True)" and cmds: "keeps R C K (pipe cmds) (\<lambda>_. True)" by simp_all
  have "\<exists>as. steps K C (store_of R d) as (store_of R (snd (pipe (m # cmds) d)))"
    if d: "payloads_proper C K (store_of R d)" for d
  proof -
    obtain r d1 where run: "m d = (r, d1)" by (rule prod.exhaust)
    with m d obtain as where as: "steps K C (store_of R d) as (store_of R d1)" unfolding keeps_def by (metis snd_conv)
    with cmds d obtain bs where "steps K C (store_of R d1) bs (store_of R (snd (pipe cmds d1)))"
      unfolding keeps_def using steps_payloads_proper by blast
    with steps_append [OF as] run show ?thesis by (cases r) auto
  qed
  then show ?case by (simp add: keeps_def)
qed

text \<open>An operation that looks at the outcome of another one, errors included.\<close>

lemma keeps_catch:
  assumes "keeps R C K m Q" and "\<And>e. keeps R C K (h e) P" and "\<And>x. Q x \<Longrightarrow> keeps R C K (k x) P"
    and "\<And>d. n d = (case m d of (Inl e, d') \<Rightarrow> h e d' | (Inr x, d') \<Rightarrow> k x d')"
  shows "keeps R C K n P"
  unfolding keeps_def
proof (intro allI impI)
  fix d assume d: "payloads_proper C K (store_of R d)"
  obtain r d1 where m: "m d = (r, d1)" by (rule prod.exhaust)
  with assms(1) d obtain as where as: "steps K C (store_of R d) as (store_of R d1)" and q: "\<And>x. r = Inr x \<Longrightarrow> Q x"
    unfolding keeps_def by (metis fst_conv snd_conv)
  have d1: "payloads_proper C K (store_of R d1)" using steps_payloads_proper [OF as d] .
  define k' where "k' = (case r of Inl e \<Rightarrow> h e | Inr x \<Rightarrow> k x)"
  have "keeps R C K k' P" using assms(2,3) q by (simp add: k'_def split: sum.split)
  with d1 obtain bs where "steps K C (store_of R d1) bs (store_of R (snd (k' d1)))" and "\<forall>y. fst (k' d1) = Inr y \<longrightarrow> P y"
    unfolding keeps_def by blast
  moreover have "n d = k' d1" using assms(4) [of d] m by (simp add: k'_def split: sum.split)
  ultimately show "(\<exists>as. steps K C (store_of R d) as (store_of R (snd (n d)))) \<and> (\<forall>x. fst (n d) = Inr x \<longrightarrow> P x)"
    using steps_append [OF as] by auto
qed

lemma keeps_fail: "keeps R C K (\<lambda>d. (Inl e, d)) P"
  by (auto simp: keeps_def intro: steps.Nil)

lemma lawful_id: "lawful R C K (\<lambda>d. d)"
  by (auto simp: lawful_def intro: steps.Nil)

section \<open>Turns of the loops\<close>

datatype loop = RetryLoop | ScheduleLoop | CleanupLoop | PingLoop | ResurrectLoop

instantiation loop :: enum
begin

definition enum_loop :: "loop list" where
  "enum_loop = [RetryLoop, ScheduleLoop, CleanupLoop, PingLoop, ResurrectLoop]"

definition enum_all_loop :: "(loop \<Rightarrow> bool) \<Rightarrow> bool" where
  "enum_all_loop P = list_all P enum_class.enum"

definition enum_ex_loop :: "(loop \<Rightarrow> bool) \<Rightarrow> bool" where
  "enum_ex_loop P = list_ex P enum_class.enum"

instance
proof
  show "(UNIV :: loop set) = set enum_class.enum"
    by (auto simp: enum_loop_def intro: loop.exhaust)
  then show "enum_class.enum_all P = Ball UNIV P" "enum_class.enum_ex P = Bex UNIV P" for P :: "loop \<Rightarrow> bool"
    by (simp_all add: enum_all_loop_def enum_ex_loop_def list_all_iff list_ex_iff)
qed (simp add: enum_loop_def)

end

text \<open>
  One turn of a loop at a time: \<open>env\<close> and \<open>envs\<close> are what others do between the commands,
  \<open>now\<close> is the clock in the unit the operation reads it (microseconds, seconds, or
  milliseconds for heartbeats and the search for dead processes).
\<close>

fun loop_turn ::
    "'d redis \<Rightarrow> codec \<Rightarrow> storage \<Rightarrow> int \<Rightarrow> ('d \<Rightarrow> 'd) \<Rightarrow> (nat \<Rightarrow> 'd \<Rightarrow> 'd) \<Rightarrow> int \<Rightarrow> loop \<Rightarrow> ('d, unit) op" where
  "loop_turn R C S threshold env envs now RetryLoop = discard (enqueue_scheduled R C S envs now (retry_key (st_keys S)))"
| "loop_turn R C S threshold env envs now ScheduleLoop = discard (enqueue_scheduled R C S envs now (schedule_key (st_keys S)))"
| "loop_turn R C S threshold env envs now CleanupLoop = discard (cleanup R C S env now)"
| "loop_turn R C S threshold env envs now PingLoop = ping R C S now"
| "loop_turn R C S threshold env envs now ResurrectLoop = resurrect_storage R C S env envs now threshold"

record 'd loops =
  lo_failures :: "32 word"
  lo_ended :: "loop \<Rightarrow> (oxana_error + unit) option"
  lo_data :: 'd

text \<open>What can happen: a loop takes its turn, a loop sees its cancellation, others act.\<close>

datatype 'd loop_event =
    Turn loop "'d \<Rightarrow> 'd" "nat \<Rightarrow> 'd \<Rightarrow> 'd" int
  | Cancelled loop
  | OthersAct "'d \<Rightarrow> 'd"

fun loop_step :: "'d redis \<Rightarrow> codec \<Rightarrow> storage \<Rightarrow> int \<Rightarrow> 32 word \<Rightarrow> 'd loop_event \<Rightarrow> 'd loops \<Rightarrow> 'd loops" where
  "loop_step R C S threshold tol (Turn l env envs now) st =
     (if lo_ended st l \<noteq> None then st
      else case loop_turn R C S threshold env envs now l (lo_data st) of (r, d) \<Rightarrow>
        (case track_redis_result (lo_failures st) r tol of (result, c) \<Rightarrow>
           st\<lparr>lo_failures := c, lo_data := d,
              lo_ended := (case result of Inl e \<Rightarrow> (lo_ended st)(l \<mapsto> Inl e) | Inr _ \<Rightarrow> lo_ended st)\<rparr>))"
| "loop_step R C S threshold tol (Cancelled l) st =
     (if lo_ended st l \<noteq> None then st else st\<lparr>lo_ended := (lo_ended st)(l \<mapsto> Inr ())\<rparr>)"
| "loop_step R C S threshold tol (OthersAct f) st = st\<lparr>lo_data := f (lo_data st)\<rparr>"

definition loops_new :: "'d \<Rightarrow> 'd loops" where
  "loops_new d = \<lparr>lo_failures = 0, lo_ended = (\<lambda>_. None), lo_data = d\<rparr>"

definition run_loops :: "'d redis \<Rightarrow> codec \<Rightarrow> storage \<Rightarrow> int \<Rightarrow> 32 word \<Rightarrow> 'd loop_event list \<Rightarrow> 'd loops \<Rightarrow> 'd loops" where
  "run_loops R C S threshold tol evs st = fold (loop_step R C S threshold tol) evs st"

text \<open>What others do in an event is lawful.\<close>

fun event_lawful :: "'d redis \<Rightarrow> codec \<Rightarrow> storage_keys \<Rightarrow> 'd loop_event \<Rightarrow> bool" where
  "event_lawful R C K (Turn l env envs now) = (lawful R C K env \<and> (\<forall>n. lawful R C K (envs n)))"
| "event_lawful R C K (Cancelled l) = True"
| "event_lawful R C K (OthersAct f) = lawful R C K f"

section \<open>Every turn is lawful\<close>

lemma keeps_discard [keeps_intros]: "keeps R C K m (\<lambda>_. True) \<Longrightarrow> keeps R C K (discard m) (\<lambda>_. True)"
  unfolding discard_def by (intro keeps_intros keeps_return) simp_all

lemma keeps_read: "quiet {} m \<Longrightarrow> keeps R C K m (\<lambda>_. True)"
  by (rule keeps_quiet) simp_all

lemmas keeps_reads [keeps_intros] = quiet_basic [THEN keeps_read] quiet_commands [THEN keeps_read]

lemma keeps_writing:
  assumes "\<And>d. fits R d k ty \<Longrightarrow> \<exists>as. steps K C (store_of R d) as (store_of R (g d))"
  shows "keeps R C K (writing R ty k g) (\<lambda>_. True)"
  using assms by (auto simp: keeps_def writing_def intro: steps.Nil)

text \<open>A job read from the store names a proper queue.\<close>

lemma keeps_snapshot:
  "keeps R C (st_keys S) (transition_snapshot R C S i)
     (\<lambda>(p, e). case e of None \<Rightarrow> True | Some e \<Rightarrow> proper_queue (st_keys S) (env_queue e))"
  unfolding keeps_def
proof (intro allI impI conjI)
  fix d assume d: "payloads_proper C (st_keys S) (store_of R d)"
  have "quiet {} (transition_snapshot R C S i)" unfolding transition_snapshot_def by (intro quiet_intros)
  then show "\<exists>as. steps (st_keys S) C (store_of R d) as (store_of R (snd (transition_snapshot R C S i d)))"
    by (simp only: quiet_alone steps_refl)
  fix x assume x: "fst (transition_snapshot R C S i d) = Inr x"
  show "case x of (p, None) \<Rightarrow> True | (p, Some e) \<Rightarrow> proper_queue (st_keys S) (env_queue e)"
  proof (cases "r_hget R d (jobs_key (st_keys S)) i")
    case None
    with x show ?thesis by (auto simp: transition_snapshot_def hget_def reading_def bind_def return_def split: if_splits)
  next
    case (Some p)
    then have "payload_proper C (st_keys S) p" using d by (simp add: payloads_proper_def)
    with x Some show ?thesis
      by (auto simp: transition_snapshot_def hget_def reading_def bind_def return_def fail_def parse_envelope_def
          payload_proper_def split: option.splits if_splits)
  qed
qed

context redis_server
begin

lemma keeps_promote:
  assumes "z \<in> {schedule_key K, retry_key K}" "proper_queue K q"
  shows "keeps R C K (promote_scheduled_lua R (jobs_key K) z (namespace_queue K q) i p score) (\<lambda>_. True)"
  unfolding keeps_def
proof (intro allI impI conjI)
  fix d
  show "\<exists>as. steps K C (store_of R d) as (store_of R (snd (promote_scheduled_lua R (jobs_key K) z (namespace_queue K q) i p score d)))"
    using promote_refines [where jobs = "jobs_key K" and zset = z and queue = "namespace_queue K q" and i = i and expected = p and score = score and d = d]
    by (cases "promote_scheduled_lua R (jobs_key K) z (namespace_queue K q) i p score d")
      (auto intro: steps.Nil simp: steps_one [OF step.promote [OF assms]] split: sum.splits)
qed simp

lemma keeps_recover:
  assumes "proper_queue K q"
  shows "keeps R C K (resurrect_claim_lua R (jobs_key K) (processing_queue K p) (namespace_queue K q) i v again) (\<lambda>_. True)"
  unfolding keeps_def
proof (intro allI impI conjI)
  fix d
  show "\<exists>as. steps K C (store_of R d) as
      (store_of R (snd (resurrect_claim_lua R (jobs_key K) (processing_queue K p) (namespace_queue K q) i v again d)))"
    using recover_refines [where jobs = "jobs_key K" and proc = "processing_queue K p" and queue = "namespace_queue K q" and i = i and expected = v
        and again = again and d = d]
    by (cases "resurrect_claim_lua R (jobs_key K) (processing_queue K p) (namespace_queue K q) i v again d")
      (auto intro: steps.Nil simp: steps_one [OF step.recover [OF assms]] split: sum.splits)
qed simp

lemma keeps_promotions:
  assumes "st_keys S = keys_of n" "z \<in> {schedule_key (keys_of n), retry_key (keys_of n)}" "\<And>k. lawful R C (keys_of n) (envs k)"
  shows "keeps R C (keys_of n) (promote_scheduled_jobs R C S z envs c js) (\<lambda>_. True)"
proof (induction js arbitrary: c)
  case Nil
  show ?case by (simp only: promote_scheduled_jobs.simps keeps_return)
next
  case (Cons x js)
  obtain i score where x: "x = (i, score)" by (cases x)
  let ?h = "\<lambda>e. if e = JsonError then promote_scheduled_jobs R C S z envs c js else (\<lambda>d. (Inl e, d))"
  let ?k = "\<lambda>(payload, e). seq (interfere (envs (length js)))
    (bind (promote_scheduled_lua R (jobs_key (keys_of n)) z (namespace_queue (keys_of n) (case e of None \<Rightarrow> [] | Some e \<Rightarrow> env_queue e))
       i (case payload of None \<Rightarrow> [] | Some p \<Rightarrow> p) score) (\<lambda>moved. promote_scheduled_jobs R C S z envs (c + moved) js))"
  have "keeps R C (keys_of n) (?k (payload, e)) (\<lambda>_. True)"
    if "case e of None \<Rightarrow> True | Some e \<Rightarrow> proper_queue (keys_of n) (env_queue e)" for payload e
    unfolding prod.case
    by (intro keeps_intros keeps_promote assms Cons.IH) (use that proper_empty in \<open>auto split: option.splits\<close>)
  then have k: "keeps R C (keys_of n) (?k y) (\<lambda>_. True)"
    if "case y of (payload, e) \<Rightarrow> case e of None \<Rightarrow> True | Some e \<Rightarrow> proper_queue (keys_of n) (env_queue e)" for y
    using that by (cases y) blast
  show ?case unfolding x
  proof (rule keeps_catch [OF keeps_snapshot [of R C S i, unfolded assms(1)], where h = ?h and k = ?k])
    show "keeps R C (keys_of n) (?h e) (\<lambda>_. True)" for e by (intro keeps_if Cons.IH keeps_fail)
    show "promote_scheduled_jobs R C S z envs c ((i, score) # js) d =
        (case transition_snapshot R C S i d of (Inl e, d') \<Rightarrow> ?h e d' | (Inr y, d') \<Rightarrow> ?k y d')" for d
      by (auto simp: seq_def bind_def interfere_def Let_def assms(1) split: prod.splits sum.splits oxana_error.splits)
  qed (rule k)
qed

lemma keeps_recoveries:
  assumes "st_keys S = keys_of n" "\<And>k. lawful R C (keys_of n) (envs k)"
  shows "keeps R C (keys_of n) (resurrect_jobs R C S (processing_queue (keys_of n) p) envs c is) (\<lambda>_. True)"
proof (induction "is" arbitrary: c)
  case Nil
  show ?case by (simp only: resurrect_jobs.simps keeps_return)
next
  case (Cons i js)
  let ?q = "processing_queue (keys_of n) p"
  let ?h = "\<lambda>e. if e = JsonError then resurrect_jobs R C S ?q envs c js else (\<lambda>d. (Inl e, d))"
  let ?k = "\<lambda>(payload, e). seq (interfere (envs (length js)))
    (bind (resurrect_claim_lua R (jobs_key (keys_of n)) ?q (namespace_queue (keys_of n) (case e of None \<Rightarrow> [] | Some e \<Rightarrow> env_queue e)) i
       (case payload of None \<Rightarrow> [] | Some p \<Rightarrow> p) (case e of None \<Rightarrow> False | Some e \<Rightarrow> resurrect (env_meta e)))
     (\<lambda>moved. resurrect_jobs R C S ?q envs (c + moved) js))"
  have "keeps R C (keys_of n) (?k (payload, e)) (\<lambda>_. True)"
    if "case e of None \<Rightarrow> True | Some e \<Rightarrow> proper_queue (keys_of n) (env_queue e)" for payload e
    unfolding prod.case
    by (intro keeps_intros keeps_recover assms Cons.IH) (use that proper_empty in \<open>auto split: option.splits\<close>)
  then have k: "keeps R C (keys_of n) (?k y) (\<lambda>_. True)"
    if "case y of (payload, e) \<Rightarrow> case e of None \<Rightarrow> True | Some e \<Rightarrow> proper_queue (keys_of n) (env_queue e)" for y
    using that by (cases y) blast
  show ?case
  proof (rule keeps_catch [OF keeps_snapshot [of R C S i, unfolded assms(1)], where h = ?h and k = ?k])
    show "keeps R C (keys_of n) (?h e) (\<lambda>_. True)" for e by (intro keeps_if Cons.IH keeps_fail)
    show "resurrect_jobs R C S ?q envs c (i # js) d =
        (case transition_snapshot R C S i d of (Inl e, d') \<Rightarrow> ?h e d' | (Inr y, d') \<Rightarrow> ?k y d')" for d
      by (auto simp: seq_def bind_def interfere_def Let_def assms(1) split: prod.splits sum.splits oxana_error.splits)
  qed (rule k)
qed

text \<open>Writes to keys that hold no job.\<close>

lemma keeps_registry:
  "keeps R C (keys_of n) (zadd R (processes_key (keys_of n)) i v) (\<lambda>_. True)"
  "keeps R C (keys_of n) (zrem R (processes_key (keys_of n)) i) (\<lambda>_. True)"
  "keeps R C (keys_of n) (hset R (processes_data_key (keys_of n)) i w) (\<lambda>_. True)"
  "keeps R C (keys_of n) (hdel R (processes_data_key (keys_of n)) i) (\<lambda>_. True)"
proof -
  have z: "\<exists>as. steps (keys_of n) C s as (put_zset (processes_key (keys_of n)) i x s)" for s x
    by (rule steps_one [OF step.other]) (simp_all add: store_updates)
  have h: "\<exists>as. steps (keys_of n) C s as (put_hash (processes_data_key (keys_of n)) i x s)" for s x
    by (rule steps_one [OF step.other]) (simp_all add: store_updates)
  show "keeps R C (keys_of n) (zadd R (processes_key (keys_of n)) i v) (\<lambda>_. True)"
    unfolding zadd_def by (rule keeps_writing) (simp add: store_zadd z del: storage_keys_new_sel)
  show "keeps R C (keys_of n) (zrem R (processes_key (keys_of n)) i) (\<lambda>_. True)"
    unfolding zrem_def by (rule keeps_writing) (simp add: store_zrem z del: storage_keys_new_sel)
  show "keeps R C (keys_of n) (hset R (processes_data_key (keys_of n)) i w) (\<lambda>_. True)"
    unfolding hset_def by (rule keeps_writing) (simp add: store_hset h del: storage_keys_new_sel)
  show "keeps R C (keys_of n) (hdel R (processes_data_key (keys_of n)) i) (\<lambda>_. True)"
    unfolding hdel_def by (rule keeps_writing) (simp add: store_hdel h del: storage_keys_new_sel)
qed

lemma keeps_expire: "keeps R C K (hdel_many R (jobs_key K) is) (\<lambda>_. True)"
proof -
  have "store_of R (fold (\<lambda>f d. r_hdel R d (jobs_key K) f) is d) = drop_payloads K (set is) (store_of R d)"
    if "fits R d (jobs_key K) THash" for d
  proof -
    have "hdel_many R (jobs_key K) is d = (Inr (), fold (\<lambda>f d. r_hdel R d (jobs_key K) f) is d)"
      using that by (simp add: hdel_many_def writing_def)
    from hdel_many_refines [OF this] have "store_of R (fold (\<lambda>f d. r_hdel R d (jobs_key K) f) is d) =
        fold (\<lambda>f. put_hash (jobs_key K) f None) is (store_of R d)" .
    moreover have "fold (\<lambda>f. put_hash (jobs_key K) f None) is s = drop_payloads K (set is) s" for s
      by (induction "is" arbitrary: s) (auto simp: drop_payloads_def put_hash_def fun_eq_iff)
    ultimately show ?thesis by simp
  qed
  then show ?thesis unfolding hdel_many_def by (intro keeps_writing) (simp add: steps_expire)
qed

lemma turn_keeps:
  assumes "st_keys S = keys_of n" "lawful R C (keys_of n) env" "\<And>k. lawful R C (keys_of n) (envs k)"
  shows "keeps R C (keys_of n) (loop_turn R C S threshold env envs now l) (\<lambda>_. True)"
proof -
  note K = assms(1)
  have forget: "keeps R C (keys_of n) (forget_process R (keys_of n) p) (\<lambda>_. True)" for p
    unfolding forget_process_def by (intro keeps_intros) (auto simp del: storage_keys_new_sel intro: keeps_registry)
  have scheduled: "keeps R C (keys_of n) (enqueue_scheduled R C S envs now z) (\<lambda>_. True)"
    if "z \<in> {schedule_key (keys_of n), retry_key (keys_of n)}" for z
    unfolding enqueue_scheduled_def by (intro keeps_intros keeps_promotions [OF K that assms(3)])
  have clean: "keeps R C (keys_of n) (cleanup R C S env now) (\<lambda>_. True)"
    unfolding cleanup_def K Let_def by (intro keeps_intros keeps_expire assms(2))
  have heartbeat: "keeps R C (keys_of n) (ping R C S now) (\<lambda>_. True)"
    unfolding ping_def K Let_def by (intro keeps_intros) (auto simp del: storage_keys_new_sel intro: keeps_registry)
  have recover: "keeps R C (keys_of n) (resurrect_process R C S envs p) (\<lambda>_. True)" for p
    unfolding resurrect_process_def K Let_def by (intro keeps_intros keeps_recoveries [OF K assms(3)] forget)
  have dead: "keeps R C (keys_of n) (dead_process_ids_in R S now threshold qs) (\<lambda>_. True)" for qs
    unfolding dead_process_ids_in_def zrange_withscores_def Let_def by (intro keeps_intros)
  have "keeps R C (keys_of n) (resurrect_storage R C S env envs now threshold) (\<lambda>_. True)"
    unfolding resurrect_storage_def dead_process_ids_def by (intro keeps_intros assms(2) recover dead)
  then show ?thesis
    using scheduled clean heartbeat by (cases l) (auto simp: K intro!: keeps_discard)
qed


text \<open>What a worker does with a job is lawful as well, whether it succeeds or fails.\<close>

lemma worker_command_lawful:
  assumes "json_codec C" "st_keys S = keys_of n" "command_proper C (keys_of n) c"
    and "case c of Dequeue _ \<Rightarrow> True | Finish _ \<Rightarrow> True | Kill _ _ \<Rightarrow> True | Retry _ _ _ _ \<Rightarrow> True | _ \<Rightarrow> False"
  shows "lawful R C (keys_of n) (\<lambda>d. snd (run_command R C S c d))"
  unfolding lawful_def
proof (intro allI impI)
  fix d assume d: "payloads_proper C (keys_of n) (store_of R d)"
  have kd: "keys_distinct (st_keys S)" using assms(2) keys_distinct_new by simp
  obtain r d' where run: "run_command R C S c d = (r, d')" by (rule prod.exhaust)
  show "\<exists>as. steps (keys_of n) C (store_of R d) as (store_of R (snd (run_command R C S c d)))"
  proof (cases r)
    case (Inr u)
    with command_steps [OF assms(1,2) d assms(3)] run show ?thesis by simp
  next
    case (Inl e)
    have "d' = d"
    proof (cases c)
      case (Dequeue q)
      with run Inl dequeue_refines [of d S q] show ?thesis
        by (auto simp: atomically_def discard_def bind_def return_def split: prod.splits sum.splits)
    next
      case (Finish es)
      with run Inl finish_success_atomic [OF kd, of d None es] show ?thesis by (simp add: atomically_def)
    next
      case (Kill e msg)
      with run Inl kill_atomic [OF kd, of d C None e msg] show ?thesis by (simp add: atomically_def)
    next
      case (Retry now i delay_s msg)
      with run Inl retry_in_atomic [OF kd, of d C None now i delay_s msg] show ?thesis by (simp add: atomically_def)
    qed (use assms(4) in simp_all)
    with run steps_refl show ?thesis by simp
  qed
qed

lemma run_loops_steps:
  assumes "st_keys S = keys_of n" "\<And>ev. ev \<in> set evs \<Longrightarrow> event_lawful R C (keys_of n) ev"
    and "payloads_proper C (keys_of n) (store_of R (lo_data st))"
  shows "\<exists>as. steps (keys_of n) C (store_of R (lo_data st)) as (store_of R (lo_data (run_loops R C S threshold tol evs st)))"
  using assms(2,3)
proof (induction evs arbitrary: st)
  case Nil
  show ?case by (simp add: run_loops_def steps_refl)
next
  case (Cons ev evs)
  let ?st1 = "loop_step R C S threshold tol ev st"
  have "\<exists>as. steps (keys_of n) C (store_of R (lo_data st)) as (store_of R (lo_data ?st1))"
  proof (cases ev)
    case (Turn l env envs now)
    with Cons.prems(1) [of ev] have "lawful R C (keys_of n) env" "\<And>k. lawful R C (keys_of n) (envs k)" by simp_all
    from keepsD [OF turn_keeps [OF assms(1) this(1), where envs = envs and threshold = threshold and now = now and l = l]]
      this(2) Cons.prems(2)
    have "\<exists>as. steps (keys_of n) C (store_of R (lo_data st)) as (store_of R (snd (loop_turn R C S threshold env envs now l (lo_data st))))"
      by (simp add: lawful_def)
    with Turn show ?thesis
      by (cases "loop_turn R C S threshold env envs now l (lo_data st)") (simp add: steps_refl split: prod.split)
  next
    case (OthersAct f)
    with Cons.prems(1) [of ev] Cons.prems(2) show ?thesis by (simp add: lawful_def)
  qed (simp add: steps_refl)
  then obtain as where as: "steps (keys_of n) C (store_of R (lo_data st)) as (store_of R (lo_data ?st1))" ..
  from Cons.IH [OF _ steps_payloads_proper [OF as Cons.prems(2)]] Cons.prems(1) obtain bs where
    "steps (keys_of n) C (store_of R (lo_data ?st1)) bs (store_of R (lo_data (run_loops R C S threshold tol evs ?st1)))" by auto
  with steps_append [OF as] show ?case by (auto simp: run_loops_def)
qed

end

section \<open>The shared count of failures\<close>

text \<open>The outcomes of the turns that were really taken, in order: \<open>True\<close> for a failure.\<close>

fun loop_outcomes :: "'d redis \<Rightarrow> codec \<Rightarrow> storage \<Rightarrow> int \<Rightarrow> 32 word \<Rightarrow> 'd loop_event list \<Rightarrow> 'd loops \<Rightarrow> bool list" where
  "loop_outcomes R C S threshold tol [] st = []"
| "loop_outcomes R C S threshold tol (ev # evs) st =
     (case ev of
        Turn l env envs now \<Rightarrow> (if lo_ended st l = None then [isl (fst (loop_turn R C S threshold env envs now l (lo_data st)))] else [])
      | _ \<Rightarrow> []) @ loop_outcomes R C S threshold tol evs (loop_step R C S threshold tol ev st)"

definition gave_up :: "'d loops \<Rightarrow> bool" where
  "gave_up st \<longleftrightarrow> (\<exists>l. case lo_ended st l of Some r \<Rightarrow> isl r | None \<Rightarrow> False)"

lemma gave_up_iff: "gave_up st \<longleftrightarrow> (\<exists>l e. lo_ended st l = Some (Inl e))"
proof -
  have "(case r of Some r \<Rightarrow> isl r | None \<Rightarrow> False) \<longleftrightarrow> (\<exists>e. r = Some (Inl e))" for r :: "(oxana_error + unit) option"
    by (auto simp: isl_def split: option.splits)
  then show ?thesis unfolding gave_up_def by simp
qed

lemma loop_ends_once: "lo_ended st l = Some r \<Longrightarrow> lo_ended (loop_step R C S threshold tol ev st) l = Some r"
  by (cases ev) (auto split: prod.splits sum.splits)

lemma loop_step_gave_up: "gave_up st \<Longrightarrow> gave_up (loop_step R C S threshold tol ev st)"
  unfolding gave_up_iff using loop_ends_once by blast

lemma run_loops_gave_up: "gave_up st \<Longrightarrow> gave_up (run_loops R C S threshold tol evs st)"
  unfolding run_loops_def by (induction evs arbitrary: st) (auto intro: loop_step_gave_up)

lemma loops_fail_iff_run:
  assumes "lo_failures st < tol" "\<not> gave_up st"
  shows "gave_up (run_loops R C S threshold tol evs st) \<longleftrightarrow>
    sublist (replicate (unat tol) True) (replicate (unat (lo_failures st)) True @ loop_outcomes R C S threshold tol evs st)"
  using assms
proof (induction evs arbitrary: st)
  case Nil
  then show ?case by (simp add: run_loops_def sublist_replicate word_less_nat_alt)
next
  case (Cons ev evs)
  have run: "run_loops R C S threshold tol (ev # evs) st = run_loops R C S threshold tol evs (loop_step R C S threshold tol ev st)"
    by (simp add: run_loops_def)
  show ?case
  proof (cases "\<exists>l env envs now. ev = Turn l env envs now \<and> lo_ended st l = None")
    case False
    then have "lo_failures (loop_step R C S threshold tol ev st) = lo_failures st" "\<not> gave_up (loop_step R C S threshold tol ev st)"
      and "loop_outcomes R C S threshold tol (ev # evs) st = loop_outcomes R C S threshold tol evs (loop_step R C S threshold tol ev st)"
      using Cons.prems(2) by (cases ev; auto simp: gave_up_iff)+
    with Cons.IH [of "loop_step R C S threshold tol ev st"] Cons.prems(1) run show ?thesis by simp
  next
    case True
    then obtain l env envs now where ev: "ev = Turn l env envs now" and l: "lo_ended st l = None" by blast
    obtain r d where r: "loop_turn R C S threshold env envs now l (lo_data st) = (r, d)" by (rule prod.exhaust)
    let ?os = "loop_outcomes R C S threshold tol evs (loop_step R C S threshold tol ev st)"
    have os: "loop_outcomes R C S threshold tol (ev # evs) st = isl r # ?os" using ev l r by simp
    show ?thesis
    proof (cases r)
      case (Inr v)
      have "sublist (replicate (unat tol) True) (replicate (unat (lo_failures st)) True @ False # ?os) \<longleftrightarrow>
          sublist (replicate (unat tol) True) ?os"
        using Cons.prems(1) by (subst sublist_avoiding) (simp_all add: sublist_replicate word_less_nat_alt)
      moreover have "loop_step R C S threshold tol ev st = st\<lparr>lo_failures := 0, lo_data := d\<rparr>"
        using ev l r Inr by simp
      moreover have "0 < tol" using Cons.prems(1) by (metis word_gt_0 word_not_simps(1))
      ultimately show ?thesis using Cons.IH [of "loop_step R C S threshold tol ev st"] Cons.prems(2) Inr
        by (simp add: os run gave_up_iff del: loop_outcomes.simps)
    next
      case (Inl e)
      have n: "unat (lo_failures st + 1) = Suc (unat (lo_failures st))" by (rule next_failure [OF Cons.prems(1)])
      have sh: "replicate (unat (lo_failures st)) True @ True # ?os = replicate (Suc (unat (lo_failures st))) True @ ?os"
        by (simp add: replicate_app_Cons_same)
      show ?thesis
      proof (cases "tol \<le> lo_failures st + 1")
        case True
        then have "unat tol \<le> Suc (unat (lo_failures st))" using n by (simp add: word_le_nat_alt)
        then have "sublist (replicate (unat tol) True) (replicate (Suc (unat (lo_failures st))) True @ ?os)"
          using sublist_replicate sublist_append by blast
        moreover have "gave_up (loop_step R C S threshold tol ev st)"
          using ev l r Inl True by (auto simp: gave_up_iff)
        ultimately show ?thesis using run_loops_gave_up Inl by (simp add: os sh run del: replicate_Suc loop_outcomes.simps)
      next
        case False
        then have "lo_failures st + 1 < tol" by simp
        moreover have "loop_step R C S threshold tol ev st = st\<lparr>lo_failures := lo_failures st + 1, lo_data := d\<rparr>"
          using ev l r Inl False by simp
        ultimately have "lo_failures (loop_step R C S threshold tol ev st) < tol" "\<not> gave_up (loop_step R C S threshold tol ev st)"
            "unat (lo_failures (loop_step R C S threshold tol ev st)) = Suc (unat (lo_failures st))"
          using Cons.prems(2) n by (simp_all add: gave_up_iff)
        from Cons.IH [OF this(1,2)] this(3) Inl show ?thesis by (simp only: os sh run sum.disc)
      qed
    qed
  qed
qed

section \<open>Properties\<close>



section \<open>Witnesses\<close>

definition sample_events :: "mem loop_event list" where
  "sample_events = [Turn ScheduleLoop (\<lambda>d. d) (\<lambda>_. \<lambda>d. d) 5,
     OthersAct (\<lambda>d. snd (run_command mem_redis netstring_codec sample_storage (Dequeue ''mail'') d)),
     Turn ResurrectLoop (\<lambda>d. d) (\<lambda>_. \<lambda>d. d) 9]"

lemma sample_namespace: "st_keys sample_storage = keys_of ''app''" "namespace (keys_of ''app'') = ''app''"
  by (simp_all add: sample_storage_def) (simp add: storage_keys_new_def)



end
