(* ===== verification/Bound_Jobs.thy ===== *)
theory Bound_Jobs
  imports Coordinator
begin

text \<open>
  Workers and the jobs bound to them, \<^verbatim>\<open>worker.rs\<close>: the defaults of the \<^verbatim>\<open>Worker\<close> trait, the
  bound single job and the bound batch that the registry hands to the executor, and the
  configuration that a worker type states for itself. What the application implements is a
  record of options: \<open>None\<close> is a method of the trait that is not overridden.
\<close>

section \<open>The Worker trait\<close>

record ('d, 'a) worker_impl =
  wi_name :: string
  wi_job_name :: string
  wi_process :: "('a \<Rightarrow> job_meta \<Rightarrow> 'd \<Rightarrow> execution_result \<times> 'd) option"
  wi_run_batch :: "(('a \<times> job_meta) list \<Rightarrow> 'd \<Rightarrow> execution_result \<times> 'd) option"
  wi_max_retries :: "('a \<Rightarrow> 32 word) option"
  wi_retry_delay :: "('a \<Rightarrow> 32 word \<Rightarrow> nat) option"
  wi_cron_schedule :: "string option"
  wi_cron_queue_config :: "queue_config option"
  wi_should_resume :: bool
  wi_should_resurrect :: bool

definition unimplemented_text :: "('d, 'a) worker_impl \<Rightarrow> string" where
  "unimplemented_text W = ''Worker::run_batch is not implemented for worker `'' @ wi_name W @ ''` and job `'' @ wi_job_name W @
     ''`; implement `process` for single-job workers or `run_batch` for batch workers''"

definition worker_run_batch :: "('d, 'a) worker_impl \<Rightarrow> ('a \<times> job_meta) list \<Rightarrow> 'd \<Rightarrow> execution_result \<times> 'd" where
  "worker_run_batch W items = (case wi_run_batch W of
       Some f \<Rightarrow> f items
     | None \<Rightarrow> (\<lambda>d. (ExecPanicked (unimplemented_text W), d)))"

definition worker_process :: "('d, 'a) worker_impl \<Rightarrow> 'a \<Rightarrow> job_meta \<Rightarrow> 'd \<Rightarrow> execution_result \<times> 'd" where
  "worker_process W job ctx = (case wi_process W of
       Some f \<Rightarrow> f job ctx
     | None \<Rightarrow> worker_run_batch W [(job, ctx)])"

definition worker_max_retries :: "('d, 'a) worker_impl \<Rightarrow> 'a \<Rightarrow> 32 word" where
  "worker_max_retries W job = (case wi_max_retries W of Some f \<Rightarrow> f job | None \<Rightarrow> default_max_retries)"

definition worker_retry_delay :: "('d, 'a) worker_impl \<Rightarrow> 'a \<Rightarrow> 32 word \<Rightarrow> nat" where
  "worker_retry_delay W job n = (case wi_retry_delay W of Some f \<Rightarrow> f job n | None \<Rightarrow> unat (default_retry_delay n))"

text \<open>\<^verbatim>\<open>Worker::to_config\<close>; \<open>None\<close> is a panic.\<close>

definition worker_to_config :: "('d, 'a) worker_impl \<Rightarrow> worker_config_kind option" where
  "worker_to_config W = (case wi_cron_schedule W of
       None \<Rightarrow> Some Normal
     | Some schedule \<Rightarrow> Option.bind (wi_cron_queue_config W) (\<lambda>q. map_option (\<lambda>key. Cron schedule key (wi_should_resurrect W))
         (static_key q)))"

text \<open>The envelope factory of a job type; \<open>from_value\<close> is \<^verbatim>\<open>serde_json::from_value\<close> at the type.\<close>

definition job_envelope_factory ::
    "(json \<Rightarrow> string + job) \<Rightarrow> string \<Rightarrow> int \<Rightarrow> int \<Rightarrow> string \<Rightarrow> json \<Rightarrow> oxana_error + job_envelope" where
  "job_envelope_factory from_value uuid now1 now2 queue v = (case from_value v of
       Inl _ \<Rightarrow> Inl JsonError
     | Inr j \<Rightarrow> envelope_new uuid now1 now2 queue j)"

text \<open>A job type that overrides nothing but its name and its arguments.\<close>

definition default_job :: "string \<Rightarrow> oxana_error + json \<Rightarrow> job" where
  "default_job name args = \<lparr>job_name = name, unique_id = None, job_on_conflict = Skip, should_resurrect = True,
     job_throttle_cost = None, job_args = args\<rparr>"

section \<open>Bound jobs\<close>

text \<open>
  The assertions on the number of contexts are inside the execution, so their panic is its
  result. Those on the index are outside of it: the executor asks for indices below
  \<^verbatim>\<open>len\<close> only, as \<open>executor_in_bounds\<close> shows.
\<close>

definition bound_job :: "('d, 'a) worker_impl \<Rightarrow> 'a \<Rightarrow> 'd processable" where
  "bound_job W job = \<lparr>p_len = 1, p_max_retries = (\<lambda>_. worker_max_retries W job), p_retry_delay = (\<lambda>_. worker_retry_delay W job),
     p_should_resume = wi_should_resume W,
     p_process = (\<lambda>ctxs. case ctxs of
         [ctx] \<Rightarrow> worker_process W job ctx
       | _ \<Rightarrow> (\<lambda>d. (ExecPanicked ''single job must have one context'', d)))\<rparr>"

definition bound_batch_job :: "('d, 'a) worker_impl \<Rightarrow> 'a list \<Rightarrow> 'd processable" where
  "bound_batch_job W js = \<lparr>p_len = length js, p_max_retries = (\<lambda>i. worker_max_retries W (js ! i)),
     p_retry_delay = (\<lambda>i. worker_retry_delay W (js ! i)), p_should_resume = wi_should_resume W,
     p_process = (\<lambda>ctxs. if length js = length ctxs then worker_run_batch W (zip js ctxs)
       else (\<lambda>d. (ExecPanicked ''batch jobs and contexts must have the same length'', d)))\<rparr>"

section \<open>Lemmas\<close>

text \<open>Two processables that differ only where the executor must not look.\<close>

definition agree_in_bounds :: "'d processable \<Rightarrow> 'd processable \<Rightarrow> bool" where
  "agree_in_bounds W V \<longleftrightarrow> p_len W = p_len V \<and> p_should_resume W = p_should_resume V \<and>
     (\<forall>i < p_len W. p_max_retries W i = p_max_retries V i \<and> p_retry_delay W i = p_retry_delay V i) \<and>
     (\<forall>ctxs. length ctxs = p_len W \<longrightarrow> p_process W ctxs = p_process V ctxs)"

lemma started_length: "set_started_at_batch R C S acq now es d = (Inr es', d') \<Longrightarrow> length es' = length es"
  by (auto simp: set_started_at_batch_def Let_def seq_eq_Inr return_def)

lemma policies_in_bounds:
  assumes "agree_in_bounds W V" and "p_len W = length es"
  shows "map (\<lambda>(i, e). execution_policy W i e) (List.enumerate 0 es) = map (\<lambda>(i, e). execution_policy V i e) (List.enumerate 0 es)"
  using assms by (auto simp: agree_in_bounds_def execution_policy_def in_set_enumerate_eq)

lemma policies_of_batch:
  assumes "length js = length es"
  shows "map (\<lambda>(i, e). execution_policy (bound_batch_job W js) i e) (List.enumerate 0 es) =
    map2 (\<lambda>j e. \<lparr>pol_max_retries = worker_max_retries W j, pol_retry_delay = worker_retry_delay W j (retries (env_meta e))\<rparr>) js es"
  using assms by (intro nth_equalityI) (simp_all add: execution_policy_def bound_batch_job_def nth_enumerate_eq)

lemma cleared_length [simp]: "length (if c then es else map clear_state es) = length es"
  by simp

lemma run_batch_eq:
  assumes "es \<noteq> []" and "p_len W = length es"
  shows "run_batch R C S cfg io W es d =
    (case set_started_at_batch R C S (io_acq io 0) (io_now io 0) (if p_should_resume W then es else map clear_state es) d of
       (Inl er, d1) \<Rightarrow> (Inl er, d1)
     | (Inr es2, d1) \<Rightarrow> (case p_process W (map env_meta es2) d1 of
         (result, d2) \<Rightarrow> (case finish_batch_result R C S cfg io result es2
             (map (\<lambda>(i, e). execution_policy W i e) (List.enumerate 0 es)) d2 of
           (kind, fails, d3) \<Rightarrow> (Inr (kind, fails), d3))))"
  using assms by (simp add: run_batch_def bind_def Let_def split: prod.split sum.split)

text \<open>
  The executor stays in bounds: it asks a worker only about the jobs it has and hands it as
  many contexts as it has jobs, so no assertion of the bound jobs fails in it: what a
  processable does elsewhere makes no difference.
\<close>

lemma executor_in_bounds:
  assumes "agree_in_bounds W V"
  shows "run_batch R C S cfg io W es d = run_batch R C S cfg io V es d"
proof (cases "es = [] \<or> p_len W \<noteq> length es")
  case True
  with assms show ?thesis by (auto simp: run_batch_def agree_in_bounds_def)
next
  case False
  then have es: "es \<noteq> []" "p_len W = length es" "p_len V = length es" "p_should_resume W = p_should_resume V"
    using assms by (simp_all add: agree_in_bounds_def)
  have "p_process W (map env_meta es2) = p_process V (map env_meta es2)"
    if "set_started_at_batch R C S (io_acq io 0) (io_now io 0) (if p_should_resume V then es else map clear_state es) d = (Inr es2, d1)"
    for es2 d1
    using started_length [OF that] assms es by (simp add: agree_in_bounds_def)
  then show ?thesis
    unfolding run_batch_eq [OF es(1,2)] run_batch_eq [OF es(1,3)] policies_in_bounds [OF assms es(2)] es(4)
    by (auto split: prod.split sum.split)
qed

section \<open>Properties\<close>

text \<open>
  From stored arguments to execution: of a batch for a registered worker, the jobs whose
  arguments do not parse are buried; the worker's batch method gets the others in order, each
  parsed job with the context of its own envelope, and each is retried by its own policy.
\<close>

theorem batch_runs_parsed_jobs:
  assumes "es = first # rest" and "factories_for reg (job_data_name (env_job first)) = Some fs"
    and "batch_factory fs = job_batch_factory fv (\<lambda>ctx. bound_batch_job (from_context ctx))"
  shows "let name = job_data_name (env_job first);
             parse = (\<lambda>e. fv (job_data_args (env_job e)));
             bad = filter (\<lambda>e. isl (parse e)) es; good = filter (\<lambda>e. \<not> isl (parse e)) es;
             js = map (\<lambda>e. projr (parse e)) good; W = from_context ctx; cfg = rx_settings rx; io = rx_run_io rx
         in process_pending_batch R C S rx show_error reg ctx es =
              seq (kill_each R C S (rx_kill_io rx) 0 (map (\<lambda>e. (e, ''Invalid job: '' @ name @ '' - '' @ projl (parse e))) bad))
                (if good = [] then return (None, [])
                 else bind (set_started_at_batch R C S (io_acq io 0) (io_now io 0)
                     (if wi_should_resume W then good else map clear_state good)) (\<lambda>es2 d.
                   case worker_run_batch W (zip js (map env_meta es2)) d of
                     (result, d1) \<Rightarrow> (case finish_batch_result R C S cfg io result es2
                         (map2 (\<lambda>j e. \<lparr>pol_max_retries = worker_max_retries W j,
                            pol_retry_delay = worker_retry_delay W j (retries (env_meta e))\<rparr>) js good) d1 of
                       (kind, fails, d2) \<Rightarrow> (Inr (process_result kind (rx_duration_ms rx) good, fails), d2))))"
proof -
  let ?parse = "\<lambda>e. fv (job_data_args (env_job e))"
  let ?good = "filter (\<lambda>e. \<not> isl (?parse e)) es" and ?W = "from_context ctx" and ?io = "rx_run_io rx"
  let ?js = "map (\<lambda>e. projr (?parse e)) ?good"
  have len: "p_len (bound_batch_job (from_context c) js) = length js" for c js by (simp add: bound_batch_job_def)
  have "bind (run_batch R C S (rx_settings rx) ?io (bound_batch_job ?W ?js) ?good) (\<lambda>(kind, fails).
          return (process_result kind (rx_duration_ms rx) ?good, fails)) =
        bind (set_started_at_batch R C S (io_acq ?io 0) (io_now ?io 0) (if wi_should_resume ?W then ?good else map clear_state ?good))
          (\<lambda>es2 d. case worker_run_batch ?W (zip ?js (map env_meta es2)) d of
             (result, d1) \<Rightarrow> (case finish_batch_result R C S (rx_settings rx) ?io result es2
                 (map2 (\<lambda>j e. \<lparr>pol_max_retries = worker_max_retries ?W j,
                    pol_retry_delay = worker_retry_delay ?W j (retries (env_meta e))\<rparr>) ?js ?good) d1 of
               (kind, fails, d2) \<Rightarrow> (Inr (process_result kind (rx_duration_ms rx) ?good, fails), d2)))" (is "?l = ?r")
    if "?good \<noteq> []"
  proof
    fix d
    have sel: "p_should_resume (bound_batch_job ?W ?js) = wi_should_resume ?W"
      "length ctxs = length ?js \<Longrightarrow> p_process (bound_batch_job ?W ?js) ctxs = worker_run_batch ?W (zip ?js ctxs)" for ctxs
      by (simp_all add: bound_batch_job_def)
    have p: "length ?js = length ?good" by simp
    note run = run_batch_eq [OF that, of "bound_batch_job ?W ?js", unfolded len, OF p, unfolded policies_of_batch [OF p] sel(1)]
    show "?l d = ?r d"
      unfolding bind_def [of "run_batch R C S (rx_settings rx) ?io (bound_batch_job ?W ?js) ?good"] run
      by (auto simp: bind_def return_def sel(2) dest!: started_length split: prod.split sum.split)
  qed
  with batch_split_by_arguments [OF assms len, of ctx R C S rx show_error] show ?thesis
    unfolding Let_def by auto
qed

text \<open>
  A worker that implements neither method: its jobs panic, nothing else happens to the store
  in their run, and each is retried or buried like after any other panic.
\<close>

theorem unimplemented_worker_panics:
  assumes "wi_process W = None" and "wi_run_batch W = None"
    and "run_one R C S cfg io (bound_job W job) e d = (Inr (kind, fails), d')"
  shows "kind = ResultPanicked \<and> (\<exists>e2 d1.
    set_started_at_batch R C S (io_acq io 0) (io_now io 0) [if wi_should_resume W then e else clear_state e] d = (Inr [e2], d1) \<and>
    handle_errs R C S io 1 (unimplemented_text W)
      [(e2, worker_retry_delay W job (retries (env_meta e)), worker_max_retries W job)] d1 = (fails, d'))"
proof -
  have sel: "p_len (bound_job W job) = 1" "p_should_resume (bound_job W job) = wi_should_resume W"
      "p_max_retries (bound_job W job) i = worker_max_retries W job" "p_retry_delay (bound_job W job) i = worker_retry_delay W job"
      "p_process (bound_job W job) [ctx] = (\<lambda>d. (ExecPanicked (unimplemented_text W), d))" for i ctx
    using assms(1,2) by (simp_all add: bound_job_def worker_process_def worker_run_batch_def fun_eq_iff)
  from assms(3) obtain es2 d1 where started:
      "set_started_at_batch R C S (io_acq io 0) (io_now io 0) (if wi_should_resume W then [e] else map clear_state [e]) d = (Inr es2, d1)"
    and rest: "(case p_process (bound_job W job) (map env_meta es2) d1 of
         (result, d2) \<Rightarrow> (case finish_batch_result R C S cfg io result es2
             (map (\<lambda>(i, e). execution_policy (bound_job W job) i e) (List.enumerate 0 [e])) d2 of
           (kind, fails, d3) \<Rightarrow> (Inr (kind, fails), d3))) = (Inr (kind, fails), d')"
    using run_batch_eq [of "[e]" "bound_job W job" R C S cfg io d] sel(1,2)
    by (auto simp: run_one_def split: prod.splits sum.splits)
  from started_length [OF started] obtain e2 where "es2 = [e2]" by (cases es2) (auto split: if_splits)
  with started rest show ?thesis
    by (cases "handle_errs R C S io 1 (unimplemented_text W)
        [(e2, worker_retry_delay W job (retries (env_meta e)), worker_max_retries W job)] d1")
      (auto simp: sel execution_policy_def finish_batch_result_def simp del: handle_errs.simps split: if_splits)
qed

text \<open>
  One method is enough: a worker that implements only \<^verbatim>\<open>run_batch\<close> runs a single job exactly
  as a batch of one.
\<close>

theorem single_job_is_batch_of_one:
  assumes "wi_process W = None"
  shows "run_one R C S cfg io (bound_job W job) e d = run_batch R C S cfg io (bound_batch_job W [job]) [e] d"
proof -
  have "agree_in_bounds (bound_job W job) (bound_batch_job W [job])"
    using assms by (auto simp: agree_in_bounds_def bound_job_def bound_batch_job_def worker_process_def length_Suc_conv)
  from executor_in_bounds [OF this] show ?thesis unfolding run_one_def .
qed

section \<open>Witnesses\<close>

text \<open>A worker with a batch method only, which always succeeds.\<close>

definition batch_worker :: "(mem, json) worker_impl" where
  "batch_worker = \<lparr>wi_name = ''app::Mailer'', wi_job_name = ''app::Mail'', wi_process = None,
     wi_run_batch = Some (\<lambda>_ d. (ExecSuccess, d)), wi_max_retries = None, wi_retry_delay = None,
     wi_cron_schedule = None, wi_cron_queue_config = None, wi_should_resume = True, wi_should_resurrect = True\<rparr>"

definition any_job :: "json \<Rightarrow> string + json" where
  "any_job j = Inr j"

definition bound_registry :: "(unit, mem processable, unit) worker_registry" where
  "bound_registry = registry_new\<lparr>jobs := [job_data_name (env_job sample_envelope) \<mapsto>
     \<lparr>factory = job_factory any_job (\<lambda>ctx. bound_job batch_worker),
      batch_factory = job_batch_factory any_job (\<lambda>ctx. bound_batch_job batch_worker),
      factories_batch_config = None, cron_factory = None\<rparr>]\<rparr>"

definition sample_rx :: "mem run_context" where
  "sample_rx = \<lparr>rx_settings = plain_settings, rx_kill_io = quiet_io, rx_run_io = quiet_io, rx_duration_ms = 3\<rparr>"

theorem batch_runs_parsed_jobs_witness:
  "\<exists>d'. process_pending_batch mem_redis netstring_codec sample_storage sample_rx (\<lambda>_. []) bound_registry () [sample_envelope] sample_claimed =
     (Inr (process_result ResultSuccess 3 [sample_envelope], []), d')"
proof -
  have f: "factories_for bound_registry (job_data_name (env_job sample_envelope)) =
      Some \<lparr>factory = job_factory any_job (\<lambda>ctx. bound_job batch_worker),
        batch_factory = job_batch_factory any_job (\<lambda>ctx. bound_batch_job batch_worker),
        factories_batch_config = None, cron_factory = None\<rparr>"
    by (simp add: factories_for_def resolve_name_def bound_registry_def)
  obtain e2 d2 where started: "set_started_at_batch mem_redis netstring_codec sample_storage None 1000 [sample_envelope] sample_claimed =
      (Inr [started 1000 sample_envelope], d2)" and d2: "d2 = snd (set_started_at_batch mem_redis netstring_codec sample_storage None 1000
        [sample_envelope] sample_claimed)"
    by (simp add: set_started_at_batch_def update_jobs_def hset_multiple_def sample_run return_def)
  have fin: "\<exists>d'. finish_with_success_batch mem_redis sample_storage None [started 1000 sample_envelope] d2 = (Inr (), d')"
    unfolding d2
    by (simp add: finish_with_success_batch_def finish_success_lua_def require_types_def set_started_at_batch_def update_jobs_def
        hset_multiple_def started_def sample_run return_def)
  have sel: "wi_should_resume batch_worker" "worker_run_batch batch_worker items d = (ExecSuccess, d)" for items d
    by (simp_all add: batch_worker_def worker_run_batch_def)
  show ?thesis
    using fin by (simp add: batch_runs_parsed_jobs [OF refl f, of any_job "\<lambda>_. batch_worker", simplified, unfolded Let_def] any_job_def sel
      sample_rx_def quiet_io_def started bind_def seq_def return_def finish_batch_result_def) auto
qed

theorem single_job_is_batch_of_one_witness:
  "run_one mem_redis netstring_codec sample_storage plain_settings quiet_io (bound_job batch_worker JNull) sample_envelope sample_claimed =
   run_batch mem_redis netstring_codec sample_storage plain_settings quiet_io (bound_batch_job batch_worker [JNull]) [sample_envelope] sample_claimed"
  using single_job_is_batch_of_one [of batch_worker] by (simp add: batch_worker_def)

theorem unimplemented_worker_panics_witness:
  "\<exists>kind fails d'. run_one mem_redis netstring_codec sample_storage plain_settings quiet_io
     (bound_job (batch_worker\<lparr>wi_run_batch := None\<rparr>) JNull) sample_envelope sample_claimed = (Inr (kind, fails), d') \<and> kind = ResultPanicked"
proof -
  let ?W = "batch_worker\<lparr>wi_run_batch := None\<rparr>"
  have "isl (fst (run_one mem_redis netstring_codec sample_storage plain_settings quiet_io (bound_job ?W JNull) sample_envelope sample_claimed)) =
      False"
    by (simp add: run_one_def run_batch_def bound_job_def set_started_at_batch_def update_jobs_def hset_multiple_def quiet_io_def
        sample_run return_def split: prod.split)
  then obtain kind fails d' where run: "run_one mem_redis netstring_codec sample_storage plain_settings quiet_io
      (bound_job ?W JNull) sample_envelope sample_claimed = (Inr (kind, fails), d')"
    by (metis isl_def old.sum.exhaust surj_pair prod.sel(1))
  with unimplemented_worker_panics [OF _ _ run] show ?thesis by (simp add: batch_worker_def)
qed

end
