(* ===== verification/Failure_Reports.thy ===== *)
theory Failure_Reports
  imports Executor
begin

text \<open>
  How a failed execution is reported, \<^verbatim>\<open>failure.rs\<close> and the end of \<^verbatim>\<open>run_process\<close> in
  \<^verbatim>\<open>executor.rs\<close>. The Sentry client is a library: an event is the record of the parts the code
  reads or sets, with the rest of any type \<open>'x\<close>; what the worker captures while it runs is a list
  of events, each with whether the thread was unwinding. An error is the text of its \<^verbatim>\<open>Debug\<close> form.
\<close>

section \<open>Events\<close>

text \<open>Cargo features; \<^verbatim>\<open>sentry-panic\<close> requires \<^verbatim>\<open>sentry\<close>.\<close>

record features =
  ft_sentry :: bool
  ft_sentry_panic :: bool

definition features_ok :: "features \<Rightarrow> bool" where
  "features_ok F \<longleftrightarrow> (ft_sentry_panic F \<longrightarrow> ft_sentry F)"

record mechanism =
  mech_ty :: string
  mech_handled :: "bool option"

record sentry_exception =
  exc_ty :: string
  exc_value :: "string option"
  exc_mechanism :: "mechanism option"

datatype sentry_level = LevelDebug | LevelInfo | LevelWarning | LevelError | LevelFatal

record 'x sentry_event =
  se_exceptions :: "sentry_exception list"
  se_level :: sentry_level
  se_rest :: 'x

definition is_panic_integration_event :: "'x sentry_event \<Rightarrow> bool" where
  "is_panic_integration_event ev =
     list_ex (\<lambda>ex. case exc_mechanism ex of None \<Rightarrow> False | Some m \<Rightarrow> mech_ty m = ''panic'') (se_exceptions ev)"

section \<open>The hub of an execution\<close>

record 'x execution_hub =
  hub_panic_event :: "'x sentry_event option"

definition execution_sentry_hub :: "'x execution_hub" where
  "execution_sentry_hub = \<lparr>hub_panic_event = None\<rparr>"

text \<open>The event processor: \<open>None\<close> drops the event.\<close>

definition process_event ::
    "features \<Rightarrow> bool \<Rightarrow> 'x sentry_event \<Rightarrow> 'x execution_hub \<Rightarrow> 'x sentry_event option \<times> 'x execution_hub" where
  "process_event F panicking ev hub =
     (if ft_sentry F \<and> panicking
      then (None, if ft_sentry_panic F \<and> is_panic_integration_event ev \<and> hub_panic_event hub = None
                  then hub\<lparr>hub_panic_event := Some ev\<rparr> else hub)
      else (Some ev, hub))"

fun run_captures ::
    "features \<Rightarrow> (bool \<times> 'x sentry_event) list \<Rightarrow> 'x execution_hub \<Rightarrow> 'x sentry_event list \<times> 'x execution_hub" where
  "run_captures F [] hub = ([], hub)"
| "run_captures F ((panicking, ev) # cs) hub =
     (case process_event F panicking ev hub of (kept, hub1) \<Rightarrow>
       (case run_captures F cs hub1 of (evs, hub2) \<Rightarrow>
         ((case kept of None \<Rightarrow> evs | Some e \<Rightarrow> e # evs), hub2)))"

section \<open>Reports\<close>

datatype worker_failure = FailureError string | FailurePanic string

fun failure_kind :: "worker_failure \<Rightarrow> string" where
  "failure_kind (FailureError _) = ''error''"
| "failure_kind (FailurePanic _) = ''panic''"

text \<open>The metadata of the executor with the names of the job and the worker.\<close>

record execution_names =
  en_job :: string
  en_worker :: string

record named_metadata = worker_failure_metadata +
  wf_job_name :: string
  wf_worker_name :: string

definition named_failure_metadata :: "job_envelope list \<Rightarrow> job_execution_policy list \<Rightarrow> execution_names \<Rightarrow> named_metadata" where
  "named_failure_metadata es pols names = worker_failure_metadata.extend (failure_metadata es pols)
     (named_metadata.fields (en_job names) (en_worker names))"

record worker_failure_report =
  rp_failure :: worker_failure
  rp_metadata :: named_metadata

text \<open>What a panic carries, and the text made of it.\<close>

datatype panic_payload = PanicStr string | PanicString string | PanicOther

fun panic_message :: "panic_payload \<Rightarrow> string" where
  "panic_message (PanicStr s) = s"
| "panic_message (PanicString s) = s"
| "panic_message PanicOther = ''Unknown panic occurred''"

datatype run_end = ReturnedOk | ReturnedErr string | Unwound panic_payload

fun run_process_result :: "run_end \<Rightarrow> execution_result" where
  "run_process_result ReturnedOk = ExecSuccess"
| "run_process_result (ReturnedErr er) = ExecFailed er"
| "run_process_result (Unwound p) = ExecPanicked (panic_message p)"

section \<open>The scope of a report\<close>

definition show_bool :: "bool \<Rightarrow> string" where
  "show_bool b = (if b then ''true'' else ''false'')"

definition failed_job_json :: "failed_job_metadata \<Rightarrow> json" where
  "failed_job_json j = JObj [(''job_id'', JStr (fj_job_id j)), (''args'', fj_args j), (''retry_count'', JInt (uint (fj_retry_count j))),
     (''max_retries'', JInt (uint (fj_max_retries j))), (''will_retry'', JBool (fj_will_retry j)), (''terminal'', JBool (fj_terminal j))]"

definition metadata_json :: "named_metadata \<Rightarrow> json" where
  "metadata_json md = JObj [(''jobs'', JArr (map failed_job_json (wf_jobs md))), (''queue'', JStr (wf_queue md)),
     (''job_name'', JStr (wf_job_name md)), (''worker_name'', JStr (wf_worker_name md)), (''batch_size'', JInt (int (wf_batch_size md))),
     (''will_retry'', JBool (wf_will_retry md)), (''terminal'', JBool (wf_terminal md))]"

record scope =
  sc_tags :: "(string \<times> string) list"
  sc_context :: json

definition configure_sentry_scope :: "named_metadata \<Rightarrow> scope" where
  "configure_sentry_scope md =
     \<lparr>sc_tags = [(''oxana.queue'', wf_queue md), (''oxana.job'', wf_job_name md), (''oxana.worker'', wf_worker_name md),
        (''oxana.batch_size'', show_nat (wf_batch_size md)), (''oxana.will_retry'', show_bool (wf_will_retry md)),
        (''oxana.terminal'', show_bool (wf_terminal md))] @
        (case wf_jobs md of
           [job] \<Rightarrow> [(''oxana.job_id'', fj_job_id job), (''oxana.retry_count'', show_nat (unat (fj_retry_count job))),
                     (''oxana.max_retries'', show_nat (unat (fj_max_retries job)))]
         | _ \<Rightarrow> []),
      sc_context = metadata_json md\<rparr>"

definition failure_scope :: "worker_failure_report \<Rightarrow> scope" where
  "failure_scope r = (let sc = configure_sentry_scope (rp_metadata r) in
     sc\<lparr>sc_tags := sc_tags sc @ [(''oxana.failure_kind'', failure_kind (rp_failure r))]\<rparr>)"

section \<open>Reporting\<close>

fun mark_first :: "sentry_exception list \<Rightarrow> sentry_exception list" where
  "mark_first [] = []"
| "mark_first (ex # exs) = ex\<lparr>exc_mechanism := Some (case exc_mechanism ex of
       Some m \<Rightarrow> m\<lparr>mech_ty := ''oxana.worker_panic'', mech_handled := Some True\<rparr>
     | None \<Rightarrow> \<lparr>mech_ty = ''oxana.worker_panic'', mech_handled = Some True\<rparr>)\<rparr> # exs"

definition mark_panic_event_handled :: "'x sentry_event \<Rightarrow> 'x sentry_event" where
  "mark_panic_event_handled ev = ev\<lparr>se_exceptions := mark_first (se_exceptions ev), se_level := LevelError\<rparr>"

text \<open>\<open>rest\<close> is the default of the other parts of an event.\<close>

definition fallback_panic_event :: "'x \<Rightarrow> string \<Rightarrow> 'x sentry_event" where
  "fallback_panic_event rest message =
     \<lparr>se_exceptions = [\<lparr>exc_ty = ''panic'', exc_value = Some message,
        exc_mechanism = Some \<lparr>mech_ty = ''oxana.worker_panic'', mech_handled = Some True\<rparr>\<rparr>],
      se_level = LevelError, se_rest = rest\<rparr>"

text \<open>
  The settings that matter, with the library's functions: whether a custom reporter is set, the
  builder of error events, and the default event of an error.
\<close>

record 'x report_settings =
  rs_reporter :: bool
  rs_builder :: "(string \<Rightarrow> 'x sentry_event) option"
  rs_event_from_error :: "string \<Rightarrow> 'x sentry_event"
  rs_default_rest :: 'x

datatype 'x report_action =
    ReporterCalled worker_failure_report
  | EventCaptured "'x sentry_event" scope

definition default_sentry_report ::
    "features \<Rightarrow> 'x report_settings \<Rightarrow> worker_failure_report \<Rightarrow> 'x execution_hub \<Rightarrow> 'x report_action list" where
  "default_sentry_report F cfg report hub = (case rp_failure report of
       FailureError er \<Rightarrow>
         [EventCaptured (case rs_builder cfg of None \<Rightarrow> rs_event_from_error cfg er | Some builder \<Rightarrow> builder er) (failure_scope report)]
     | FailurePanic message \<Rightarrow>
         if ft_sentry_panic F
         then (case hub_panic_event hub of
             Some ev \<Rightarrow> [EventCaptured (mark_panic_event_handled ev) (failure_scope report)]
           | None \<Rightarrow> [EventCaptured (fallback_panic_event (rs_default_rest cfg) message) (failure_scope report)])
         else [])"

definition report_failure ::
    "features \<Rightarrow> 'x report_settings \<Rightarrow> worker_failure_report \<Rightarrow> 'x execution_hub \<Rightarrow> 'x report_action list" where
  "report_failure F cfg report hub =
     (if rs_reporter cfg then [ReporterCalled report]
      else if ft_sentry F then default_sentry_report F cfg report hub
      else [])"

text \<open>What \<^verbatim>\<open>finish_batch_result\<close> reports, before it settles the jobs.\<close>

definition reports_of ::
    "features \<Rightarrow> 'x report_settings \<Rightarrow> execution_result \<Rightarrow> job_envelope list \<Rightarrow> job_execution_policy list \<Rightarrow> execution_names
       \<Rightarrow> 'x execution_hub \<Rightarrow> 'x report_action list" where
  "reports_of F cfg result es pols names hub = (case result of
       ExecSuccess \<Rightarrow> []
     | ExecFailed er \<Rightarrow>
         report_failure F cfg \<lparr>rp_failure = FailureError er, rp_metadata = named_failure_metadata es pols names\<rparr> hub
     | ExecPanicked msg \<Rightarrow>
         report_failure F cfg \<lparr>rp_failure = FailurePanic msg, rp_metadata = named_failure_metadata es pols names\<rparr> hub)"

text \<open>An execution: what is captured while it runs, how it ends, what is reported of it.\<close>

definition execution_reports ::
    "features \<Rightarrow> 'x report_settings \<Rightarrow> (bool \<times> 'x sentry_event) list \<Rightarrow> run_end \<Rightarrow> job_envelope list \<Rightarrow> job_execution_policy list
       \<Rightarrow> execution_names \<Rightarrow> 'x sentry_event list \<times> 'x report_action list" where
  "execution_reports F cfg captures e es pols names =
     (case run_captures F captures execution_sentry_hub of (sent, hub) \<Rightarrow>
        (sent, reports_of F cfg (run_process_result e) es pols names hub))"

section \<open>Lemmas\<close>

lemma run_captures_eq:
  "run_captures F cs hub =
     (map snd (filter (\<lambda>(p, _). \<not> (ft_sentry F \<and> p)) cs),
      hub\<lparr>hub_panic_event := (case hub_panic_event hub of
          Some ev \<Rightarrow> Some ev
        | None \<Rightarrow> if ft_sentry F \<and> ft_sentry_panic F
            then map_option snd (List.find (\<lambda>(p, ev). p \<and> is_panic_integration_event ev) cs) else None)\<rparr>)"
  by (induction cs arbitrary: hub) (auto simp: process_event_def split: option.split prod.split)

lemma marked_first:
  "is_panic_integration_event ev \<Longrightarrow> \<exists>ex exs. se_exceptions (mark_panic_event_handled ev) = ex # exs \<and>
     exc_mechanism ex = Some \<lparr>mech_ty = ''oxana.worker_panic'', mech_handled = Some True\<rparr>"
  by (cases "se_exceptions ev") (auto simp: mark_panic_event_handled_def is_panic_integration_event_def split: option.split)

lemma named_metadata_sel [simp]:
  "wf_jobs (named_failure_metadata es pols names) = map failed_job (zip es pols)"
  "wf_job_name (named_failure_metadata es pols names) = en_job names"
  "wf_worker_name (named_failure_metadata es pols names) = en_worker names"
  by (simp_all add: named_failure_metadata_def failure_metadata_def worker_failure_metadata.defs named_metadata.defs Let_def)

lemma metadata_job_tag:
  "(\<exists>i. (''oxana.job_id'', i) \<in> set (sc_tags (failure_scope \<lparr>rp_failure = f, rp_metadata = named_failure_metadata es pols names\<rparr>))) \<longleftrightarrow>
     length (zip es pols) = 1"
proof -
  define js where "js = map failed_job (zip es pols)"
  then have len: "length (zip es pols) = length js" by simp
  show ?thesis unfolding len
    by (cases js rule: remdups_adj.cases)
      (simp_all add: failure_scope_def configure_sentry_scope_def Let_def js_def [symmetric] del: length_zip)
qed

section \<open>Properties\<close>


section \<open>Witnesses\<close>

text \<open>A worker logs an event, panics, and a destructor captures another event while it unwinds.\<close>

definition hook_event :: "unit sentry_event" where
  "hook_event = \<lparr>se_exceptions = [\<lparr>exc_ty = ''panic'', exc_value = Some ''boom'', exc_mechanism = Some \<lparr>mech_ty = ''panic'', mech_handled = Some False\<rparr>\<rparr>],
     se_level = LevelFatal, se_rest = ()\<rparr>"

definition plain_event :: "unit sentry_event" where
  "plain_event = \<lparr>se_exceptions = [], se_level = LevelInfo, se_rest = ()\<rparr>"

definition sample_report_settings :: "unit report_settings" where
  "sample_report_settings = \<lparr>rs_reporter = False, rs_builder = None, rs_event_from_error = (\<lambda>_. plain_event), rs_default_rest = ()\<rparr>"


end
