(* ===== verification/Prometheus.thy ===== *)
theory Prometheus
  imports Queue_Stats "HOL-Library.AList"
begin

text \<open>
  The export of the statistics as Prometheus gauges, \<^verbatim>\<open>prometheus.rs\<close>. The client library keeps a
  registry of named metrics; a family maps a set of labels to a gauge, made at first use, and a
  gauge holds the value that was set last. The text encoding is the library's. Latencies are in
  the unit of the statistics.
\<close>

section \<open>Metrics\<close>

type_synonym labels = "(string \<times> string) list"

text \<open>A family as an association list with distinct labels.\<close>

datatype metric =
    Single int
  | Family "(labels \<times> int) list"

text \<open>\<^verbatim>\<open>get_or_create(&labels).set(value)\<close> for every item.\<close>

definition gauge_family :: "('i \<Rightarrow> labels) \<Rightarrow> ('i \<Rightarrow> int) \<Rightarrow> 'i list \<Rightarrow> (labels \<times> int) list" where
  "gauge_family labels_of val items = fold (\<lambda>i fam. AList.update (labels_of i) (val i) fam) items []"

record prometheus_metrics =
  pm_prefix :: string
  pm_metrics :: "(string \<times> metric) list"

definition queue_labels :: "queue_stats \<Rightarrow> labels" where
  "queue_labels q = [(''queue'', qs_key q)]"

definition dynamic_queue_labels :: "queue_stats \<times> dynamic_queue_stats \<Rightarrow> labels" where
  "dynamic_queue_labels = (\<lambda>(q, c). [(''queue'', qs_key q), (''suffix'', dq_suffix c)])"

definition process_labels :: "process \<Rightarrow> labels" where
  "process_labels p = [(''hostname'', hostname p), (''pid'', show_nat (pid p))]"

text \<open>\<^verbatim>\<open>usize as i64\<close>.\<close>

definition as_i64 :: "nat \<Rightarrow> int" where
  "as_i64 n = wrap_i64 (int n)"

definition global_metrics :: "stats_global \<Rightarrow> (string \<times> metric) list" where
  "global_metrics g =
     [(''jobs_total'', Single (as_i64 (sg_jobs g))), (''enqueued_total'', Single (as_i64 (sg_enqueued g))),
      (''processed_total'', Single (sg_processed g)), (''failed_total'', Single (sg_failed g)),
      (''dead_total'', Single (as_i64 (sg_dead g))), (''scheduled_total'', Single (as_i64 (sg_scheduled g))),
      (''retries_total'', Single (as_i64 (sg_retries g))), (''latency_max_seconds'', Single (sg_latency_max g))]"

definition queue_metrics :: "queue_stats list \<Rightarrow> (string \<times> metric) list" where
  "queue_metrics qs = map (\<lambda>(name, val). (name, Family (gauge_family queue_labels val qs)))
     [(''queue_enqueued'', \<lambda>q. as_i64 (qs_enqueued q)), (''queue_processed_total'', \<lambda>q. qr_processed (qs_counts q)),
      (''queue_succeeded_total'', \<lambda>q. qr_succeeded (qs_counts q)), (''queue_panicked_total'', \<lambda>q. qr_panicked (qs_counts q)),
      (''queue_failed_total'', \<lambda>q. qr_failed (qs_counts q)), (''queue_latency_seconds'', qs_latency)]"

definition sub_queues :: "queue_stats list \<Rightarrow> (queue_stats \<times> dynamic_queue_stats) list" where
  "sub_queues qs = concat (map (\<lambda>q. map (\<lambda>c. (q, c)) (qs_queues q)) qs)"

definition dynamic_queue_metrics :: "queue_stats list \<Rightarrow> (string \<times> metric) list" where
  "dynamic_queue_metrics qs = map (\<lambda>(name, val). (name, Family (gauge_family dynamic_queue_labels (val \<circ> snd) (sub_queues qs))))
     [(''dynamic_queue_enqueued'', \<lambda>c. as_i64 (dq_enqueued c)), (''dynamic_queue_processed_total'', \<lambda>c. qr_processed (dq_counts c)),
      (''dynamic_queue_succeeded_total'', \<lambda>c. qr_succeeded (dq_counts c)), (''dynamic_queue_panicked_total'', \<lambda>c. qr_panicked (dq_counts c)),
      (''dynamic_queue_failed_total'', \<lambda>c. qr_failed (dq_counts c)), (''dynamic_queue_latency_seconds'', dq_latency)]"

definition process_metrics :: "process list \<Rightarrow> (string \<times> metric) list" where
  "process_metrics ps =
     [(''process_heartbeat_timestamp_seconds'', Family (gauge_family process_labels heartbeat_at ps)),
      (''process_started_timestamp_seconds'', Family (gauge_family process_labels process_started_at ps))]"

definition from_stats_with_prefix :: "stats \<Rightarrow> string \<Rightarrow> prometheus_metrics" where
  "from_stats_with_prefix st prefix_name =
     \<lparr>pm_prefix = prefix_name,
      pm_metrics = global_metrics (st_global st) @ queue_metrics (st_queues st) @ dynamic_queue_metrics (st_queues st) @
        process_metrics (st_processes st) @ [(''processes_count'', Single (as_i64 (length (st_processes st))))]\<rparr>"

definition from_stats :: "stats \<Rightarrow> prometheus_metrics" where
  "from_stats st = from_stats_with_prefix st ''oxana''"

text \<open>What a scrape finds under a name, and under a name and labels.\<close>

definition scraped :: "prometheus_metrics \<Rightarrow> string \<Rightarrow> int option" where
  "scraped m name = (case map_of (pm_metrics m) name of Some (Single v) \<Rightarrow> Some v | _ \<Rightarrow> None)"

definition scraped_label :: "prometheus_metrics \<Rightarrow> string \<Rightarrow> labels \<Rightarrow> int option" where
  "scraped_label m name l = (case map_of (pm_metrics m) name of Some (Family fam) \<Rightarrow> map_of fam l | _ \<Rightarrow> None)"

section \<open>Lemmas\<close>

text \<open>A family shows the last item of each set of labels.\<close>

lemma family_last:
  "map_of (gauge_family labels_of val items) l = map_option val (List.find (\<lambda>i. labels_of i = l) (rev items))"
proof (induction items rule: rev_induct)
  case Nil
  show ?case by (simp add: gauge_family_def)
next
  case (snoc i items)
  then show ?case by (auto simp: gauge_family_def update_conv')
qed

lemma family_labels: "fst ` set (gauge_family labels_of val items) = labels_of ` set items"
  by (induction items rule: rev_induct) (auto simp: gauge_family_def dom_update)

lemma family_distinct: "distinct (map fst (gauge_family labels_of val items))"
  by (induction items rule: rev_induct) (simp_all add: gauge_family_def distinct_update)

lemma family_size: "length (gauge_family labels_of val items) = card (labels_of ` set items)"
  using family_distinct [of labels_of val items] family_labels [of labels_of val items]
  by (metis distinct_card length_map set_map)

lemma family_exact:
  assumes "distinct (map labels_of items)" "i \<in> set items"
  shows "map_of (gauge_family labels_of val items) (labels_of i) = Some (val i)"
proof -
  obtain j where "List.find (\<lambda>j. labels_of j = labels_of i) (rev items) = Some j"
    using assms(2) by (metis (mono_tags, lifting) find_None_iff not_Some_eq set_rev)
  moreover from this have "j \<in> set items" "labels_of j = labels_of i" by (auto simp: find_Some_iff) (metis nth_mem set_rev length_rev)
  ultimately have "j = i" using assms by (auto simp: distinct_map dest: inj_onD)
  with \<open>List.find _ _ = Some j\<close> show ?thesis by (simp add: family_last)
qed

lemma as_i64_exact: "n < 2 ^ 63 \<Longrightarrow> as_i64 n = int n"
  by (simp add: as_i64_def wrap_exact in_i64_def)

lemma metric_names:
  "map_of (pm_metrics (from_stats_with_prefix st p)) name =
     (case map_of (global_metrics (st_global st)) name of Some m \<Rightarrow> Some m | None \<Rightarrow>
      (case map_of (queue_metrics (st_queues st)) name of Some m \<Rightarrow> Some m | None \<Rightarrow>
       (case map_of (dynamic_queue_metrics (st_queues st)) name of Some m \<Rightarrow> Some m | None \<Rightarrow>
        (case map_of (process_metrics (st_processes st)) name of Some m \<Rightarrow> Some m | None \<Rightarrow>
          map_of [(''processes_count'', Single (as_i64 (length (st_processes st))))] name))))"
  by (simp add: from_stats_with_prefix_def map_add_def split: option.split)

lemma scraped_queue:
  assumes "distinct (map qs_key (st_queues st))" "q \<in> set (st_queues st)"
    and "(name, val) \<in> set [(''queue_enqueued'', \<lambda>q. as_i64 (qs_enqueued q)), (''queue_processed_total'', \<lambda>q. qr_processed (qs_counts q)),
      (''queue_succeeded_total'', \<lambda>q. qr_succeeded (qs_counts q)), (''queue_panicked_total'', \<lambda>q. qr_panicked (qs_counts q)),
      (''queue_failed_total'', \<lambda>q. qr_failed (qs_counts q)), (''queue_latency_seconds'', qs_latency)]"
  shows "scraped_label (from_stats_with_prefix st p) name (queue_labels q) = Some (val q)"
proof -
  have "distinct (map queue_labels (st_queues st))" using assms(1) by (simp add: queue_labels_def distinct_map inj_on_def)
  then have "map_of (gauge_family queue_labels v (st_queues st)) (queue_labels q) = Some (v q)" for v
    by (rule family_exact) (rule assms(2))
  with assms(3) show ?thesis
    unfolding scraped_label_def metric_names by (auto simp: global_metrics_def queue_metrics_def)
qed

lemma scraped_sub_queue:
  assumes "distinct (map (\<lambda>(q, c). (qs_key q, dq_suffix c)) (sub_queues (st_queues st)))" "x \<in> set (sub_queues (st_queues st))"
    and "(name, val) \<in> set [(''dynamic_queue_enqueued'', \<lambda>c. as_i64 (dq_enqueued c)), (''dynamic_queue_processed_total'', \<lambda>c. qr_processed (dq_counts c)),
      (''dynamic_queue_succeeded_total'', \<lambda>c. qr_succeeded (dq_counts c)), (''dynamic_queue_panicked_total'', \<lambda>c. qr_panicked (dq_counts c)),
      (''dynamic_queue_failed_total'', \<lambda>c. qr_failed (dq_counts c)), (''dynamic_queue_latency_seconds'', dq_latency)]"
  shows "scraped_label (from_stats_with_prefix st p) name (dynamic_queue_labels x) = Some (val (snd x))"
proof -
  have "distinct (map dynamic_queue_labels (sub_queues (st_queues st)))"
    using assms(1) by (auto simp: dynamic_queue_labels_def distinct_map inj_on_def)
  then have "map_of (gauge_family dynamic_queue_labels (v \<circ> snd) (sub_queues (st_queues st))) (dynamic_queue_labels x) = Some (v (snd x))" for v
    using family_exact [OF _ assms(2), of dynamic_queue_labels "v \<circ> snd"] by simp
  with assms(3) show ?thesis
    unfolding scraped_label_def metric_names by (auto simp: global_metrics_def queue_metrics_def dynamic_queue_metrics_def)
qed

lemma scraped_process:
  "scraped_label (from_stats_with_prefix st p) ''process_heartbeat_timestamp_seconds'' l =
     map_option heartbeat_at (List.find (\<lambda>x. process_labels x = l) (rev (st_processes st)))"
  unfolding scraped_label_def metric_names
  by (simp add: global_metrics_def queue_metrics_def dynamic_queue_metrics_def process_metrics_def family_last)

lemma process_labels_eq: "process_labels x = process_labels y \<longleftrightarrow> hostname x = hostname y \<and> pid x = pid y"
  by (auto simp: process_labels_def dest: show_nat_inj)

section \<open>Properties\<close>

text \<open>
  The exporter shows the statistics: when queues and sub-queues are listed once and no length
  exceeds the range of the gauges, every queue and every sub-queue appears under its own labels
  with exactly its length, its counters and its latency, and the number of processes is shown.
\<close>

theorem exporter_exact:
  assumes "distinct (map qs_key (st_queues st))"
    and "distinct (map (\<lambda>(q, c). (qs_key q, dq_suffix c)) (sub_queues (st_queues st)))"
    and "\<And>q. q \<in> set (st_queues st) \<Longrightarrow> qs_enqueued q < 2 ^ 63"
    and "\<And>q c. (q, c) \<in> set (sub_queues (st_queues st)) \<Longrightarrow> dq_enqueued c < 2 ^ 63"
    and "length (st_processes st) < 2 ^ 63"
  shows "let m = from_stats_with_prefix st p in
    (\<forall>q \<in> set (st_queues st).
       scraped_label m ''queue_enqueued'' (queue_labels q) = Some (int (qs_enqueued q)) \<and>
       scraped_label m ''queue_processed_total'' (queue_labels q) = Some (qr_processed (qs_counts q)) \<and>
       scraped_label m ''queue_failed_total'' (queue_labels q) = Some (qr_failed (qs_counts q)) \<and>
       scraped_label m ''queue_latency_seconds'' (queue_labels q) = Some (qs_latency q)) \<and>
    (\<forall>(q, c) \<in> set (sub_queues (st_queues st)).
       scraped_label m ''dynamic_queue_enqueued'' (dynamic_queue_labels (q, c)) = Some (int (dq_enqueued c)) \<and>
       scraped_label m ''dynamic_queue_processed_total'' (dynamic_queue_labels (q, c)) = Some (qr_processed (dq_counts c)) \<and>
       scraped_label m ''dynamic_queue_failed_total'' (dynamic_queue_labels (q, c)) = Some (qr_failed (dq_counts c)) \<and>
       scraped_label m ''dynamic_queue_latency_seconds'' (dynamic_queue_labels (q, c)) = Some (dq_latency c)) \<and>
    scraped m ''processes_count'' = Some (int (length (st_processes st)))"
proof -
  note q = scraped_queue [OF assms(1), where p = p] and c = scraped_sub_queue [OF assms(2), where p = p]
  have "scraped (from_stats_with_prefix st p) ''processes_count'' = Some (int (length (st_processes st)))"
    unfolding scraped_def metric_names
    by (simp add: global_metrics_def queue_metrics_def dynamic_queue_metrics_def process_metrics_def as_i64_exact [OF assms(5)])
  then show ?thesis
    unfolding Let_def using assms(3,4) by (auto simp: q c as_i64_exact)
qed

text \<open>
  The process gauges merge instances: they have one sample for every host and process
  identifier, which is the last listed instance's, so they show fewer processes than are counted
  exactly when two instances share both, as a restarted container does with its dead predecessor.
\<close>

theorem process_gauges_merge_instances:
  "scraped_label (from_stats_with_prefix st p) ''process_heartbeat_timestamp_seconds'' (process_labels x) =
     map_option heartbeat_at (List.find (\<lambda>y. hostname y = hostname x \<and> pid y = pid x) (rev (st_processes st))) \<and>
   card {l. scraped_label (from_stats_with_prefix st p) ''process_heartbeat_timestamp_seconds'' l \<noteq> None} \<le> length (st_processes st) \<and>
   (card {l. scraped_label (from_stats_with_prefix st p) ''process_heartbeat_timestamp_seconds'' l \<noteq> None} < length (st_processes st) \<longleftrightarrow>
     \<not> distinct (map (\<lambda>y. (hostname y, pid y)) (st_processes st)))"
proof -
  let ?ps = "st_processes st" and ?key = "\<lambda>y. (hostname y, pid y)"
  have "{l. scraped_label (from_stats_with_prefix st p) ''process_heartbeat_timestamp_seconds'' l \<noteq> None} = process_labels ` set ?ps"
    by (auto simp: scraped_process find_None_iff)
  moreover have "card (process_labels ` set ?ps) = card (?key ` set ?ps)"
  proof -
    have "process_labels ` set ?ps = (\<lambda>(h, i). [(''hostname'', h), (''pid'', show_nat i)]) ` ?key ` set ?ps"
      by (simp add: image_image process_labels_def)
    moreover have "inj_on (\<lambda>(h, i). [(''hostname'', h), (''pid'', show_nat i)]) (?key ` set ?ps)"
      by (auto simp: inj_on_def dest: show_nat_inj)
    ultimately show ?thesis by (simp add: card_image)
  qed
  moreover have "card (set (map ?key ?ps)) \<le> length ?ps" using card_length [of "map ?key ?ps"] by simp
  moreover have "card (set (map ?key ?ps)) = length ?ps \<longleftrightarrow> distinct (map ?key ?ps)"
    using distinct_card [of "map ?key ?ps"] card_distinct [of "map ?key ?ps"] by auto
  ultimately show ?thesis by (auto simp: scraped_process process_labels_eq le_less)
qed

section \<open>Witnesses\<close>

definition export_row :: queue_stats where
  "export_row = (queue_stats_new ''mail'')\<lparr>qs_enqueued := 3, qs_latency := 7\<rparr>"

definition export_stats :: stats where
  "export_stats = \<lparr>st_global = \<lparr>sg_jobs = 3, sg_enqueued = 3, sg_processed = 0, sg_failed = 0, sg_dead = 0, sg_scheduled = 0,
     sg_retries = 0, sg_latency_max = 7\<rparr>, st_processes = [], st_processing = [], st_queues = [export_row]\<rparr>"

theorem exporter_exact_witness:
  "scraped_label (from_stats_with_prefix export_stats ''oxana'') ''queue_enqueued'' (queue_labels export_row) = Some 3"
  using exporter_exact [of export_stats "''oxana''"]
  by (simp add: export_stats_def export_row_def queue_stats_new_def sub_queues_def Let_def)

end
