(* ===== verification/Spec2Isabelle.thy ===== *)
theory Spec2Isabelle
  imports System Router Result_Collector Cron Drainer Launcher Mcp_Server Web_Format Background
    Bound_Jobs Failure_Reports Prometheus
begin

text \<open>
  \<^bold>\<open>Verification of the oxana job queue.\<close>

  Oxana is a background job system on Redis, written in Rust: the crate \<^verbatim>\<open>oxana\<close> (the queue and
  its worker processes), the dashboard \<^verbatim>\<open>oxana-web\<close> and the monitoring server \<^verbatim>\<open>oxana-mcp\<close>.
  Applications enqueue jobs through a storage handle. A worker process runs one coordinator for
  each of its queues; its dispatchers claim jobs by moving their identifiers from the queue to
  a processing list of the process, executors run them, and the settlement removes, retries or
  buries them. Background loops promote scheduled and retried jobs, send heartbeats, recover the
  claims of dead processes and remove old payloads; a cron loop enqueues scheduled workers. All
  processes share nothing but the Redis server, so the correctness of the whole rests on what
  each operation does to it while others are at work.

  \<^bold>\<open>Conventions.\<close>
  \<^item> An operation is a function from the state of the server to a result and a state, type \<open>op\<close>
    of theory Prelude: the result is \<open>Inl\<close> of an error of \<^verbatim>\<open>error.rs\<close> or \<open>Inr\<close> of a value, and an
    error keeps the state reached so far, because a Redis pipeline that fails has done a part.
  \<^item> Redis is outside the repository: it is the record \<open>redis\<close> of its commands over a state of any
    type. What the code relies on is the locale \<open>redis_server\<close> of theory Redis, which the
    in-memory server \<open>mem_redis\<close> interprets; the witnesses run on that server. The same holds
    for JSON: theory Json has the locale \<open>json_codec\<close> and interprets it by a length-prefixed
    codec. Theorems of operations have these two contracts as hypotheses.
  \<^item> What other clients do between two commands of an operation is an argument (\<open>env\<close>, \<open>envs\<close>): a
    function on the server state, applied by \<open>interfere\<close>. Theorems for an undisturbed operation
    give it the identity.
  \<^item> Clocks, jitter, generated identifiers, the application's code and the environment are
    arguments. A panic is \<open>None\<close>. Machine integers are words or carry their bounds where the code
    can overflow (retry scores, throttle costs, counters).
  \<^item> \<open>store\<close> is the abstract view of a server, hashes, lists and sorted sets by key; refinement
    statements say what an operation does to it.

  \<^bold>\<open>Theories and sources\<close> (file names are those under \<^verbatim>\<open>src/oxana/src\<close> unless another crate is named).
  \<^item> Prelude: \<^verbatim>\<open>error.rs\<close>, the operations and their combinators, lemmas on lists, options, words
    and text. Redis, Json: the two outside contracts. Storage_Keys: \<^verbatim>\<open>storage_keys.rs\<close>.
    Job_Envelope: \<^verbatim>\<open>job_envelope.rs\<close> with its JSON form and the round trip.
  \<^item> Transitions: the scripts \<^verbatim>\<open>finish_success.lua\<close>, \<^verbatim>\<open>finish_dead.lua\<close>, \<^verbatim>\<open>retry_failed.lua\<close>,
    \<^verbatim>\<open>promote_scheduled.lua\<close>, \<^verbatim>\<open>resurrect_claim.lua\<close>. Enqueue_Script: \<^verbatim>\<open>enqueue.lua\<close>. Enqueue,
    Enqueue_List, Storage_Jobs, Connection, Processes: the operations of \<^verbatim>\<open>storage_internal.rs\<close>
    for enqueueing, for lists of jobs, for claiming, settling, listing and deleting jobs, for
    polling and connection retries (with \<^verbatim>\<open>pool_retry_config.rs\<close>), and for heartbeats, dead
    processes, recovery and retention.
  \<^item> Lifecycle: the abstract life of a job, an inductive step relation on stores. System: the
    storage operations as commands and the proof that each is a sequence of such steps.
  \<^item> Queue_Config: \<^verbatim>\<open>queue.rs\<close> and the stored queue configuration. Queue_Control:
    \<^verbatim>\<open>semaphores_map.rs\<close>, with the waiters and the locale \<open>notify_waiters_laws\<close> for
    \<^verbatim>\<open>tokio::sync::Notify\<close>. Throttler: \<^verbatim>\<open>throttler.rs\<close>. Worker_Registry: \<^verbatim>\<open>worker_registry.rs\<close>.
  \<^item> Executor: \<^verbatim>\<open>executor.rs\<close>. Bound_Jobs: \<^verbatim>\<open>worker.rs\<close>. Failure_Reports: \<^verbatim>\<open>failure.rs\<close>. Dispatcher:
    \<^verbatim>\<open>dispatcher.rs\<close>. Coordinator, Router: \<^verbatim>\<open>coordinator.rs\<close>, its parts and its routing loop.
    Launcher: \<^verbatim>\<open>launcher.rs\<close> and the runtime of \<^verbatim>\<open>runtime.rs\<close>. Background: the retry, schedule,
    cleanup, heartbeat and recovery loops. Cron: \<^verbatim>\<open>cron_job_loop\<close>. Drainer: \<^verbatim>\<open>drainer.rs\<close>.
    Job_State: \<^verbatim>\<open>job_state.rs\<close>.
  \<^item> Metrics, Counters, Result_Collector, Metrics_Query, Queue_Stats, Prometheus: \<^verbatim>\<open>metrics.rs\<close>,
    \<^verbatim>\<open>result_collector.rs\<close>, \<^verbatim>\<open>queue_stats.rs\<close>, \<^verbatim>\<open>stats.rs\<close>, \<^verbatim>\<open>prometheus.rs\<close> and the counters and
    queries of \<^verbatim>\<open>storage_internal.rs\<close>.
  \<^item> Storage_Api: \<^verbatim>\<open>storage.rs\<close> and \<^verbatim>\<open>storage_builder.rs\<close>. Runtime_Builder: the builder and catalog of
    \<^verbatim>\<open>runtime.rs\<close>, \<^verbatim>\<open>config.rs\<close>, \<^verbatim>\<open>registry.rs\<close>, \<^verbatim>\<open>storage_types.rs\<close>.
  \<^item> Web_Queues, Web_Jobs, Web_App, Web_Format: the handlers, routes, pages, forms and formatting of
    \<^verbatim>\<open>oxana-web\<close>. Mcp_Server: \<^verbatim>\<open>oxana-mcp\<close>. Read_Only: the calculus of operations that write
    nothing, used for both.

  \<^bold>\<open>What is shown.\<close>
  \<^item> Jobs: in any history of commands of any number of processes no job is lost, and a job ends
    only by an action that is meant to end it (this theory, over Lifecycle and System); the same
    for the background loops among other clients and with failures half way (Background), and
    for the actions of the dashboard (Web_App).
  \<^item> Storage operations: the scripts are all or nothing and do what their sequential or abstract
    description says; each operation refines an update of the store on every branch; a list is
    enqueued as if its jobs were enqueued one by one; recovery conserves claims; \<^verbatim>\<open>try_enqueue\<close> is
    linearizable.
  \<^item> Workers: executions settle as reported and are reported once; claims survive errors of the
    dispatcher; batchers and the router conserve, order and separate jobs; permits are conserved
    and no wakeup is lost; the throttle is a sliding window log; shutdown follows its order, can
    always finish, and reports the first failure; the loops of a process share their tolerance
    of failures; cron decides once about an occurrence.
  \<^item> Observation: counters, statistics, histograms, gauges and views show exactly what was
    recorded; the monitoring server and the pages write nothing.
  \<^item> Configuration: builders keep their invariant, forms and stored configurations have their
    contracts, and the dashboard shows the configuration that the workers use.

  \<^bold>\<open>Loops, bounds and fuel.\<close> A retry loop consumes the list of what others do before each attempt:
  when the list is used up the result is \<open>None\<close>, not a value; \<open>enqueue_loop_progress\<close> of Enqueue
  shows that one undisturbed attempt is enough. The polling loops take the list of their polls,
  the drain loop its number of rounds with a proof that enough of them end it, the step relations
  of launcher, router and queue control have no bound. Lists are enqueued in chunks of 100 and
  statistics read in chunks of 500, as in the code.

  \<^bold>\<open>Not modelled.\<close> Floating-point rates, averages and remaining times (their comparisons are
  arguments where an order depends on them); the HTML of the templates and the transport of HTTP;
  the positional forms of serde; expiry times of Redis keys; the Sentry client and the text
  encoding of Prometheus; log lines; the lengths of the loops' intervals (a turn may come at any
  time); the procedural macros of \<^verbatim>\<open>oxana-macros\<close>, which produce Rust code from syntax trees and
  whose products are parameters here; methods of \<^verbatim>\<open>storage.rs\<close> that only pass on to an operation
  of \<^verbatim>\<open>storage_internal.rs\<close>; examples, benchmarks and tests.
\<close>

section \<open>Properties that span the components\<close>




text \<open>
  The wipe of a queue is not safe against a concurrent enqueue: the identifiers are read
  first and the list is deleted later, so a job enqueued in between keeps its payload but is
  in no queue, although both calls report success.
\<close>

definition second_envelope :: job_envelope where
  "second_envelope = projr (envelope_new ''u2'' 10 10 ''mail'' (sample_job\<lparr>unique_id := Some ''8''\<rparr>))"

theorem wipe_queue_race_loses_job:
  "no_job_lost (st_keys sample_storage) (store_of mem_redis sample_queued) \<and>
   fst (enqueue mem_redis netstring_codec sample_storage (\<lambda>d. d) [\<lambda>d. d] second_envelope sample_queued) = Inr (Some ''Mail/8'') \<and>
   fst (wipe_queue mem_redis sample_storage
     (\<lambda>d. snd (enqueue mem_redis netstring_codec sample_storage (\<lambda>d. d) [\<lambda>d. d] second_envelope d)) ''mail'' sample_queued) = Inr () \<and>
   \<not> no_job_lost (st_keys sample_storage) (store_of mem_redis (snd (wipe_queue mem_redis sample_storage
     (\<lambda>d. snd (enqueue mem_redis netstring_codec sample_storage (\<lambda>d. d) [\<lambda>d. d] second_envelope d)) ''mail'' sample_queued)))"
  (is "?A \<and> ?B \<and> ?C \<and> \<not> no_job_lost _ (store_of _ (snd ?r))")
proof -
  have sel: "env_id second_envelope = ''Mail/8''" "env_queue second_envelope = ''mail''" "is_skip second_envelope"
    "unique (env_meta second_envelope)" "\<not> is_replace second_envelope"
    by (simp_all add: second_envelope_def sample_job_def envelope_new_def Let_def unique_job_id_def is_skip_def is_replace_def)
  let ?p = "to_payload netstring_codec second_envelope"
  have e: "enqueue mem_redis netstring_codec sample_storage (\<lambda>d. d) [\<lambda>d. d] second_envelope sample_queued =
      (Inr (Some ''Mail/8''), [(''app:jobs'', VHash [(''Mail/7'', sample_payload), (''Mail/8'', ?p)]),
        (''app:queue:mail'', VList [''Mail/8'', ''Mail/7''])])"
    by (simp add: enqueue_def enqueue_w_conn_def enqueue_chunk_def
        skip_ids_def hexists_many_def existing_skips_single enqueue_lua_def require_type_def changed_snapshots_def
        known_def learn_def snapshot_present_def required_keys_def commit_write_def conflict_of_simps sample_run sel
        newly_written_def)
  have r: "?r = (Inr (), [(''app:jobs'', VHash [(''Mail/8'', ?p)])])"
  proof -
    have f: "fits mem_redis sample_queued ''app:queue:mail'' TList"
      "r_lrange mem_redis sample_queued ''app:queue:mail'' = [''Mail/7'']" by (simp_all add: sample_run)
    show ?thesis
      by (simp add: wipe_queue_def Let_def sample_names with_connection_def bind_def seq_def interfere_def
          lrange_all_def reading_def f e del: mem_redis_sel(5)) (simp add: hdel_many_def sample_run)
  qed
  have A: ?A
    by (auto simp: no_job_lost_def tracked_def sample_run job_list_def split: if_splits
        intro!: exI [of _ "''app:queue:mail''"])
  have "\<not> no_job_lost (st_keys sample_storage) (store_of mem_redis (snd ?r))"
    by (auto simp: r no_job_lost_def tracked_def sample_names mem_defs)
  with A e r show ?thesis by simp
qed

section \<open>Witnesses\<close>

lemma sample_proper: "st_keys sample_storage = keys_of ''app''"
  "command_proper netstring_codec (keys_of ''app'') (Enqueue sample_envelope)"
  "command_proper netstring_codec (keys_of ''app'') (Dequeue ''mail'')"
  by (simp_all add: sample_storage_def proper_queue_def namespace_queue_def sample_envelope_sel sample_envelope_wf)
    (simp_all add: storage_keys_new_def)

lemma sample_enqueue_state:
  "enqueue mem_redis netstring_codec sample_storage (\<lambda>d. d) [\<lambda>d. d] sample_envelope [] = (Inr (Some ''Mail/7''), sample_queued)"
  by (simp add: enqueue_def enqueue_w_conn_def enqueue_chunk_def skip_ids_def hexists_many_def existing_skips_single
      enqueue_lua_def require_type_def changed_snapshots_def known_def learn_def snapshot_present_def required_keys_def
      commit_write_def conflict_of_simps sample_run newly_written_def not_both sample_payload_def)

lemma sample_history:
  "\<exists>d'. run_all mem_redis netstring_codec [(sample_storage, Enqueue sample_envelope), (sample_storage, Dequeue ''mail'')] [] = Some d'"
  by (simp add: discard_def bind_def sample_enqueue_state)
    (simp add: dequeue_def dequeue_w_conn_def lmove_def sample_run)




end
